(* ===== verification/Prelude.thy ===== *)
theory Prelude
  imports Main "HOL-Library.Word" "HOL-Library.Char_ord" "HOL-Library.Multiset"
begin

text \<open>
  Shared vocabulary of the development: the machine integer types of the firmware, the
  standard-library algorithms its fixed-capacity tables are built from (\<open>std::find_if\<close>-style
  scans, \<open>std::min_element\<close>, \<open>std::max_element\<close>), the generic lemmas about them, and the
  interfaces the components share: a machine that keeps an invariant, one whose steps may not return,
  and a bounded table whose insertion replaces one slot.
\<close>

unbundle bit_operations_syntax

section \<open>Machine integers\<close>

text \<open>
  Unsigned C++ integers are words of their width, so subtraction wraps as it does in the code.
  Signed \<open>int8_t\<close> and \<open>int64_t\<close> values are integers; the components prove that they stay in the
  range of their type.
\<close>

type_synonym u8 = "8 word"
type_synonym u16 = "16 word"
type_synonym u32 = "32 word"
type_synonym u64 = "64 word"

named_theorems layout \<open>facts about lengths of fixed-capacity arrays\<close>
named_theorems clock \<open>facts about differences of millisecond clocks\<close>

lemma unat_diff_le [clock]: "a \<le> (b :: 'a::len word) \<Longrightarrow> unat (b - a) = unat b - unat a"
  by (rule unat_sub)

lemma word_diff_le_iff [clock]:
  "a \<le> b \<Longrightarrow> (b - a \<le> k) = (unat b \<le> unat a + unat (k :: 'a::len word))"
  by (simp add: word_le_nat_alt unat_sub) linarith

lemma word_diff_less_iff [clock]:
  "a \<le> b \<Longrightarrow> (k < b - a) = (unat a + unat (k :: 'a::len word) < unat b)"
  by (simp add: word_le_nat_alt word_less_nat_alt unat_sub) linarith

lemma unat_plus_small [clock]:
  "unat a + unat b < 2 ^ LENGTH('a) \<Longrightarrow> unat (a + b :: 'a::len word) = unat a + unat b"
  by (simp add: unat_word_ariths)

lemma unat_Suc_small:
  assumes "a \<noteq> (- 1 :: 'a::len word)"
  shows "unat (a + 1) = Suc (unat a)"
proof -
  have "unat a \<noteq> 2 ^ LENGTH('a) - 1"
    using assms by (metis mask_eq_exp_minus_1 unsigned_minus_1_eq_mask word_unat_eq_iff)
  then have "Suc (unat a) < 2 ^ LENGTH('a)"
    using unsigned_less [of a, where 'a = nat] by linarith
  then show ?thesis by (simp add: unat_word_ariths)
qed

text \<open>\<open>int8_t(b)\<close>: a byte read as a two's complement number.\<close>

definition int8 :: "u8 \<Rightarrow> int" where
  "int8 b = sint b"

lemma int8_range: "-128 \<le> int8 b \<and> int8 b \<le> 127"
  using sint_range_size [of b] by (simp add: int8_def word_size)

text \<open>Bytes and characters: C++ \<open>char\<close> data is a HOL string, binary data a list of bytes.\<close>

definition char_of_byte :: "u8 \<Rightarrow> char" where
  "char_of_byte b = char_of (unat b)"

definition byte_of_char :: "char \<Rightarrow> u8" where
  "byte_of_char c = word_of_nat (of_char c)"

lemma byte_of_char_of_byte [simp]: "byte_of_char (char_of_byte b) = b"
proof -
  have "unat b < 256" using unsigned_less [of b, where 'a = nat] by simp
  then show ?thesis
    by (simp add: byte_of_char_def char_of_byte_def)
qed

lemma unat_byte_of_char [simp]: "unat (byte_of_char c) = of_char c"
proof -
  have "unat (byte_of_char c) = of_char c mod 2 ^ LENGTH(8)"
    by (simp only: byte_of_char_def unat_of_nat)
  also have "\<dots> = of_char c"
    using nat_of_char_less_256 [of c] by simp
  finally show ?thesis .
qed

lemma char_of_byte_of_char [simp]: "char_of_byte (byte_of_char c) = c"
  by (simp add: char_of_byte_def)

section \<open>Scans over fixed arrays\<close>

text \<open>
  A range-\<open>for\<close> with an early \<open>break\<close> finds the first element that satisfies a condition;
  \<open>std::min_element\<close> and \<open>std::max_element\<close> return the first of the smallest or largest.
\<close>

primrec first_index :: "('a \<Rightarrow> bool) \<Rightarrow> 'a list \<Rightarrow> nat option" where
  "first_index P [] = None"
| "first_index P (x # xs) = (if P x then Some 0 else map_option Suc (first_index P xs))"

fun min_index :: "('a \<Rightarrow> 'k::linorder) \<Rightarrow> 'a list \<Rightarrow> nat" where
  "min_index f [] = 0"
| "min_index f [x] = 0"
| "min_index f (x # y # ys) =
     (let j = min_index f (y # ys) in if f ((y # ys) ! j) < f x then Suc j else 0)"

lemma first_index_Some:
  "first_index P xs = Some i \<longleftrightarrow>
     i < length xs \<and> P (xs ! i) \<and> (\<forall>j < i. \<not> P (xs ! j))"
proof (induction xs arbitrary: i)
  case (Cons x xs)
  show ?case
    by (cases i) (auto simp: Cons All_less_Suc2 split: if_splits)
qed simp

lemma first_index_None: "first_index P xs = None \<longleftrightarrow> (\<forall>x \<in> set xs. \<not> P x)"
  by (induction xs) auto

lemma first_index_less [layout]: "first_index P xs = Some i \<Longrightarrow> i < length xs"
  by (simp add: first_index_Some)

lemma first_index_holds: "first_index P xs = Some i \<Longrightarrow> P (xs ! i)"
  by (simp add: first_index_Some)

lemma first_index_replicate: "\<not> P x \<Longrightarrow> first_index P (replicate n x) = None"
  by (simp add: first_index_None)

lemma first_index_replicate_True: "P x \<Longrightarrow> 0 < n \<Longrightarrow> first_index P (replicate n x) = Some 0"
  by (cases n) auto

lemma min_index_less [layout]: "xs \<noteq> [] \<Longrightarrow> min_index f xs < length xs"
  by (induction f xs rule: min_index.induct) (auto simp: Let_def)

lemma min_index_le: "i < length xs \<Longrightarrow> f (xs ! min_index f xs) \<le> f (xs ! i)"
proof (induction f xs arbitrary: i rule: min_index.induct)
  case (3 f x y ys)
  then show ?case
    by (cases i) (force simp: Let_def dest: order_less_imp_le)+
qed auto

lemma min_index_first: "j < min_index f xs \<Longrightarrow> f (xs ! min_index f xs) < f (xs ! j)"
proof (induction f xs arbitrary: j rule: min_index.induct)
  case (3 f x y ys)
  then show ?case
    by (cases j) (auto simp: Let_def split: if_splits)
qed auto

text \<open>
  The slot choice of every fixed table of the firmware: the slot that holds the key, else the
  first unused slot, else the one with the smallest time stamp.  The flag says that the key
  was found.
\<close>

definition pick_slot ::
  "('a \<Rightarrow> bool) \<Rightarrow> ('a \<Rightarrow> bool) \<Rightarrow> ('a \<Rightarrow> 'k::linorder) \<Rightarrow> 'a list \<Rightarrow> nat \<times> bool" where
  "pick_slot same unused age xs =
     (case first_index same xs of
        Some i \<Rightarrow> (i, True)
      | None \<Rightarrow> (case first_index unused xs of
                   Some i \<Rightarrow> (i, False)
                 | None \<Rightarrow> (min_index age xs, False)))"

lemma pick_slot_less [layout]: "xs \<noteq> [] \<Longrightarrow> fst (pick_slot same unused age xs) < length xs"
  by (auto simp: pick_slot_def layout split: option.splits)

lemma pick_slot_found:
  "pick_slot same unused age xs = (i, True) \<longleftrightarrow> first_index same xs = Some i"
  by (auto simp: pick_slot_def split: option.splits)

lemma pick_slot_new:
  "pick_slot same unused age xs = (i, False) \<Longrightarrow> (\<forall>x \<in> set xs. \<not> same x) \<and>
     (unused (xs ! i) \<or> (\<forall>x \<in> set xs. \<not> unused x \<and> age (xs ! i) \<le> age x))"
  by (auto simp: pick_slot_def first_index_None first_index_holds in_set_conv_nth min_index_le
      split: option.splits)

section \<open>Shared interfaces\<close>

text \<open>
  A component driven by a sequence of events: a step function and an invariant that each step
  keeps under a condition on the event.  The client facts are about whole runs.
\<close>

locale invariant_machine =
  fixes step :: "'s \<Rightarrow> 'e \<Rightarrow> 's"
    and inv :: "'s \<Rightarrow> bool"
    and event_ok :: "'e \<Rightarrow> bool"
  assumes step_inv: "inv s \<Longrightarrow> event_ok e \<Longrightarrow> inv (step s e)"
begin

lemma run_inv: "inv s \<Longrightarrow> list_all event_ok es \<Longrightarrow> inv (foldl step s es)"
  by (induction es arbitrary: s) (auto intro: step_inv)

lemma run_prefix_inv:
  "inv s \<Longrightarrow> list_all event_ok (es @ es') \<Longrightarrow> inv (foldl step s es)"
  by (auto intro: run_inv)

end

text \<open>
  A component whose step may fail to return: a run is \<open>None\<close> as soon as one of its steps is.
\<close>

primrec partial_run :: "('e \<Rightarrow> 's \<Rightarrow> 's option) \<Rightarrow> 'e list \<Rightarrow> 's \<Rightarrow> 's option" where
  "partial_run step [] s = Some s"
| "partial_run step (e # es) s = (case step e s of None \<Rightarrow> None | Some s \<Rightarrow> partial_run step es s)"

locale partial_machine =
  fixes step :: "'e \<Rightarrow> 's \<Rightarrow> 's option"
    and inv :: "'s \<Rightarrow> bool"
  assumes step_inv: "inv s \<Longrightarrow> step e s = Some s' \<Longrightarrow> inv s'"
begin

lemma run_inv: "inv s \<Longrightarrow> partial_run step es s = Some s' \<Longrightarrow> inv s'"
  by (induction es arbitrary: s) (auto intro: step_inv split: option.splits)

lemma run_keeps:
  assumes "\<And>s e s'. inv s \<Longrightarrow> step e s = Some s' \<Longrightarrow> view s' = view s"
  shows "inv s \<Longrightarrow> partial_run step es s = Some s' \<Longrightarrow> view s' = view s"
proof (induction es arbitrary: s)
  case (Cons e es)
  then obtain u where u: "step e s = Some u" "partial_run step es u = Some s'" by (auto split: option.splits)
  with Cons.IH [of u] assms [OF Cons.prems(1) u(1)] step_inv [OF Cons.prems(1) u(1)] show ?case by simp
qed simp

lemma run_returns:
  assumes "\<And>s e. inv s \<Longrightarrow> step e s \<noteq> None"
  shows "inv s \<Longrightarrow> \<exists>s'. partial_run step es s = Some s'"
proof (induction es arbitrary: s)
  case (Cons e es)
  obtain u where u: "step e s = Some u" using assms [OF Cons.prems] by blast
  with Cons.IH step_inv [OF Cons.prems] show ?case by simp
qed simp

end

text \<open>
  A bounded table of slots: \<open>key\<close> is the key a slot holds (\<open>None\<close> for an unused one), and
  \<open>put\<close> stores a value under a key by replacing one slot, the one that already holds the key
  when there is one.
\<close>

locale bounded_table =
  fixes key :: "'e \<Rightarrow> 'k option"
    and put :: "'k \<Rightarrow> 'v \<Rightarrow> 'e list \<Rightarrow> 'e list"
  assumes put_slot: "xs \<noteq> [] \<Longrightarrow> \<exists>i e. i < length xs \<and> put k v xs = xs[i := e] \<and> key e = Some k \<and>
    (\<forall>j < length xs. key (xs ! j) = Some k \<longrightarrow> key (xs ! i) = Some k)"
begin

definition keys_unique :: "'e list \<Rightarrow> bool" where
  "keys_unique xs \<longleftrightarrow> (\<forall>i < length xs. \<forall>j < length xs.
     key (xs ! i) \<noteq> None \<longrightarrow> key (xs ! i) = key (xs ! j) \<longrightarrow> i = j)"

lemma put_length: "xs \<noteq> [] \<Longrightarrow> length (put k v xs) = length xs"
  using put_slot [of xs k v] by auto

lemma put_unique:
  assumes "xs \<noteq> []" and "keys_unique xs"
  shows "keys_unique (put k v xs)"
proof -
  obtain i e where i: "i < length xs" and p: "put k v xs = xs[i := e]" and k: "key e = Some k"
    and hit: "\<And>j. j < length xs \<Longrightarrow> key (xs ! j) = Some k \<Longrightarrow> key (xs ! i) = Some k"
    using put_slot [OF assms(1), of k v] by blast
  have only: "j = i" if "j < length xs" "key (xs ! j) = Some k" for j
    using assms(2) hit [OF that] that i unfolding keys_unique_def by (metis option.discI)
  show ?thesis
    unfolding keys_unique_def
  proof (intro allI impI)
    fix a b
    assume a: "a < length (put k v xs)" and b: "b < length (put k v xs)"
      and n: "key (put k v xs ! a) \<noteq> None" and eq: "key (put k v xs ! a) = key (put k v xs ! b)"
    show "a = b"
    proof (cases "a = i \<or> b = i")
      case True
      with a b eq i k only show ?thesis by (auto simp: p nth_list_update split: if_splits)
    next
      case False
      with a b n eq assms(2) show ?thesis by (simp add: p keys_unique_def)
    qed
  qed
qed

lemma put_holds: "xs \<noteq> [] \<Longrightarrow> \<exists>x \<in> set (put k v xs). key x = Some k"
  using put_slot [of xs k v] by (metis set_update_memI)

lemma put_others:
  assumes "xs \<noteq> []"
  shows "\<exists>i < length xs. \<forall>j < length xs. j \<noteq> i \<longrightarrow> put k v xs ! j = xs ! j"
  using put_slot [OF assms, of k v] by auto

end

end
