(* ===== verification/Core_Types.thy ===== *)
theory Core_Types
  imports Prelude
begin

text \<open>
  The data of \<open>components/sniffer_core/include/sniffer/core.hpp\<close>: categories, radios, rule
  kinds, observations, rules, detections, settings and the pet, each structure a record whose
  fields carry the prefix of the structure (\<open>o_\<close> for \<open>Observation\<close>, \<open>r_\<close> for \<open>Rule\<close>,
  \<open>d_\<close> for \<open>Detection\<close>, \<open>s_\<close> for \<open>Settings\<close>, \<open>p_\<close> for \<open>Pet\<close>).  Arrays are lists of their
  full capacity next to a length field, as in the code; a \<open>char\<close> array holds a C string up to
  its first NUL.
\<close>

section \<open>Enumerations\<close>

text \<open>
  \<open>enum class Category : uint8_t\<close>.  A category can be read from a stored byte, so an
  enumerator above the 19 listed ones is a value of the type too: \<open>Out_Of_Range n\<close> has
  index \<open>19 + n\<close>.
\<close>

datatype category =
    FLOCK | AXON | GLASSES | SKIMMER | RAVEN | AIRTAG | TILE | SAMSUNG_TAG | GOOGLE_TAG
  | DRONE | ALPR | CAMERA | RING | IBEACON | FLIPPER | PWNAGOTCHI | PINEAPPLE | DEAUTH
  | EVIL_TWIN | Out_Of_Range nat

definition category_count :: nat where
  "category_count = 19"

definition listed_categories :: "category list" where
  "listed_categories = [FLOCK, AXON, GLASSES, SKIMMER, RAVEN, AIRTAG, TILE, SAMSUNG_TAG,
     GOOGLE_TAG, DRONE, ALPR, CAMERA, RING, IBEACON, FLIPPER, PWNAGOTCHI, PINEAPPLE, DEAUTH,
     EVIL_TWIN]"

fun category_index :: "category \<Rightarrow> nat" where
  "category_index FLOCK = 0"
| "category_index AXON = 1"
| "category_index GLASSES = 2"
| "category_index SKIMMER = 3"
| "category_index RAVEN = 4"
| "category_index AIRTAG = 5"
| "category_index TILE = 6"
| "category_index SAMSUNG_TAG = 7"
| "category_index GOOGLE_TAG = 8"
| "category_index DRONE = 9"
| "category_index ALPR = 10"
| "category_index CAMERA = 11"
| "category_index RING = 12"
| "category_index IBEACON = 13"
| "category_index FLIPPER = 14"
| "category_index PWNAGOTCHI = 15"
| "category_index PINEAPPLE = 16"
| "category_index DEAUTH = 17"
| "category_index EVIL_TWIN = 18"
| "category_index (Out_Of_Range n) = 19 + n"

definition category_of_byte :: "u8 \<Rightarrow> category" where
  "category_of_byte b = (if unat b < category_count then listed_categories ! unat b
     else Out_Of_Range (unat b - category_count))"

definition categories :: "string list" where
  "categories = [''FLOCK'', ''AXON'', ''GLASSES'', ''SKIMMER'', ''RAVEN'', ''AIRTAG'', ''TILE'',
     ''SAMSUNG_TAG'', ''GOOGLE_TAG'', ''DRONE'', ''ALPR'', ''CAMERA'', ''RING'', ''IBEACON'',
     ''FLIPPER'', ''PWNAGOTCHI'', ''PINEAPPLE'', ''DEAUTH'', ''EVIL_TWIN'']"

datatype radio = Wifi | Ble

datatype kind = Oui | SsidExact | SsidPrefix | NameExact | NamePrefix | Uuid16 | Uuid128
  | Company | Payload | Protocol | Behavior

fun kind_index :: "kind \<Rightarrow> nat" where
  "kind_index Oui = 0"
| "kind_index SsidExact = 1"
| "kind_index SsidPrefix = 2"
| "kind_index NameExact = 3"
| "kind_index NamePrefix = 4"
| "kind_index Uuid16 = 5"
| "kind_index Uuid128 = 6"
| "kind_index Company = 7"
| "kind_index Payload = 8"
| "kind_index Protocol = 9"
| "kind_index Behavior = 10"

definition kind_count :: nat where
  "kind_count = 11"

datatype samsung_state = Unavailable | Unknown | RecentlySeparated | Offline | LongOffline
  | Connected

section \<open>Structures\<close>

type_synonym address = "u8 list"

text \<open>The C string held in a \<open>char\<close> array.\<close>

definition c_str :: "string \<Rightarrow> string" where
  "c_str buf = takeWhile (\<lambda>c. c \<noteq> CHR 0x00) buf"

record samsung_tag =
  st_id :: "u8 list"
  st_state :: samsung_state

definition no_samsung :: samsung_tag where
  "no_samsung = \<lparr>st_id = replicate 8 0, st_state = Unavailable\<rparr>"

definition samsung_valid :: "samsung_tag \<Rightarrow> bool" where
  "samsung_valid t \<longleftrightarrow> st_state t \<noteq> Unavailable"

record observation =
  o_ms :: u64
  o_address :: address
  o_radio :: radio
  o_address_type :: u8
  o_channel :: u8
  o_subtype :: u8
  o_rssi :: int
  o_protected_network :: bool
  o_rsn :: bool
  o_contradiction :: bool
  o_rsn_caps :: u16
  o_ssid :: "u8 list"
  o_ssid_len :: nat
  o_name :: string
  o_uuids :: "u16 list"
  o_uuid_count :: nat
  o_uuid128_count :: nat
  o_uuids128 :: "u8 list list"
  o_pwnagotchi :: bool
  o_vendor_fingerprint :: u32
  o_manufacturer :: "u8 list"
  o_service :: "u8 list"
  o_manufacturer_len :: nat
  o_service_len :: nat
  o_vendor :: "u8 list"
  o_vendor_len :: nat
  o_samsung :: samsung_tag

text \<open>\<open>Observation{}\<close>: value initialisation.\<close>

definition observation0 :: observation where
  "observation0 = \<lparr>o_ms = 0, o_address = replicate 6 0, o_radio = Wifi, o_address_type = 0,
     o_channel = 0, o_subtype = 0, o_rssi = 0, o_protected_network = False, o_rsn = False,
     o_contradiction = False, o_rsn_caps = 0, o_ssid = replicate 32 0, o_ssid_len = 0,
     o_name = replicate 33 (CHR 0x00), o_uuids = replicate 8 0, o_uuid_count = 0,
     o_uuid128_count = 0, o_uuids128 = [replicate 16 0], o_pwnagotchi = False,
     o_vendor_fingerprint = 0, o_manufacturer = replicate 31 0, o_service = replicate 31 0,
     o_manufacturer_len = 0, o_service_len = 0, o_vendor = replicate 128 0, o_vendor_len = 0,
     o_samsung = no_samsung\<rparr>"

record rule =
  r_id :: string
  r_category :: category
  r_kind :: kind
  r_value :: string
  r_score :: u8
  r_cap :: u8
  r_generic :: bool
  r_label :: string
  r_reason :: string

record detection =
  d_first_ms :: u64
  d_last_ms :: u64
  d_unix_seconds :: u64
  d_rssi_sum :: int
  d_rules :: "rule option list"
  d_seen_count :: u32
  d_samsung :: samsung_tag
  d_address :: address
  d_category :: category
  d_radio :: radio
  d_address_type :: u8
  d_channel :: u8
  d_score :: u8
  d_rule_count :: nat
  d_rssi_min :: int
  d_rssi_max :: int
  d_meal :: bool
  d_demo :: bool

definition detection0 :: detection where
  "detection0 = \<lparr>d_first_ms = 0, d_last_ms = 0, d_unix_seconds = 0, d_rssi_sum = 0,
     d_rules = replicate 4 None, d_seen_count = 0, d_samsung = no_samsung,
     d_address = replicate 6 0, d_category = FLOCK, d_radio = Wifi, d_address_type = 0,
     d_channel = 0, d_score = 0, d_rule_count = 0, d_rssi_min = 0, d_rssi_max = 0,
     d_meal = False, d_demo = False\<rparr>"

definition samsung_identity :: "detection \<Rightarrow> bool" where
  "samsung_identity d \<longleftrightarrow>
     d_category d = SAMSUNG_TAG \<and> d_radio d = Ble \<and> samsung_valid (d_samsung d)"

definition samsung_connected :: "detection \<Rightarrow> bool" where
  "samsung_connected d \<longleftrightarrow> samsung_identity d \<and> st_state (d_samsung d) = Connected"

record settings =
  s_version :: u32
  s_enabled_categories :: u32
  s_threshold :: u8
  s_region :: u8
  s_brightness :: u8
  s_character :: u8
  s_sound :: bool
  s_low_feeding :: bool
  s_reduced_animation :: bool
  s_research :: bool
  s_raw_ssid :: bool
  s_onboarded :: bool
  s_ibeacon_alerts :: bool
  s_name :: string
  s_portrait :: bool
  s_rotation_locked :: bool
  s_alert_categories :: u32

text \<open>\<open>mask & (1U << index)\<close>\<close>

definition has_category :: "u32 \<Rightarrow> category \<Rightarrow> bool" where
  "has_category m c \<longleftrightarrow> m AND push_bit (category_index c) 1 \<noteq> 0"

definition all_categories :: u32 where
  "all_categories = push_bit category_count 1 - 1"

definition settings0 :: settings where
  "settings0 = \<lparr>s_version = 2, s_enabled_categories = all_categories, s_threshold = 50,
     s_region = 0, s_brightness = 70, s_character = 0, s_sound = False, s_low_feeding = False,
     s_reduced_animation = False, s_research = False, s_raw_ssid = False, s_onboarded = False,
     s_ibeacon_alerts = False, s_name = ''SCOUT'' @ replicate 8 (CHR 0x00), s_portrait = False,
     s_rotation_locked = True,
     s_alert_categories = all_categories AND NOT (push_bit (category_index IBEACON) 1)\<rparr>"

definition should_alert :: "settings \<Rightarrow> detection \<Rightarrow> bool" where
  "should_alert s d \<longleftrightarrow>
     category_index (d_category d) < category_count \<and>
     has_category (s_alert_categories s) (d_category d) \<and>
     s_threshold s \<le> d_score d \<and> \<not> samsung_connected d"

section \<open>Lemmas\<close>

lemma length_listed_categories [simp]: "length listed_categories = category_count"
  by (simp add: listed_categories_def category_count_def)

lemma category_index_listed:
  "i < category_count \<Longrightarrow> category_index (listed_categories ! i) = i"
  by (auto simp: listed_categories_def category_count_def less_Suc_eq numeral_nat)

lemma category_index_of_byte: "category_index (category_of_byte b) = unat b"
  by (auto simp: category_of_byte_def category_index_listed category_count_def)

lemma category_index_inject [simp]: "category_index c = category_index c' \<longleftrightarrow> c = c'"
  by (cases c; cases c') simp_all

lemma has_category_bit: "has_category m c = bit m (category_index c)"
  unfolding has_category_def
  by (simp add: bit_iff_and_push_bit_not_eq_0)

lemma c_str_no_nul: "CHR 0x00 \<notin> set (c_str buf)"
  by (auto simp: c_str_def dest: set_takeWhileD)

lemma length_c_str_le: "length (c_str buf) \<le> length buf"
  by (simp add: c_str_def length_takeWhile_le)

lemma c_str_append_nul: "CHR 0x00 \<notin> set s \<Longrightarrow> c_str (s @ CHR 0x00 # rest) = s"
  by (induction s) (auto simp: c_str_def)

end
