(* ===== verification/Json.thy ===== *)
theory Json
  imports Core_Types
begin

text \<open>
  The bounded JSON reader \<open>components/sniffer_core/json.cpp\<close> (class \<open>Json\<close>).  The token
  array is the list of the tokens counted so far, at most 160 of them, and \<open>pos_\<close> is the number of
  characters consumed.  The recursion \<open>value(depth)\<close> is structural in the levels left below
  the depth limit; its member loop takes fuel, and \<open>json_value_total\<close> shows that it never
  runs out.
\<close>

section \<open>Tokens and character classes\<close>

datatype json_type = JObject | JArray | JString | JNumber | JBoolean | JNull

record token =
  t_start :: nat
  t_size :: nat
  t_after :: nat
  t_type :: json_type

definition max_tokens :: nat where
  "max_tokens = 160"

datatype 'a outcome = Fuel_Out | Reject | Accept 'a

abbreviation quote :: char where "quote \<equiv> CHR 0x22"
abbreviation backslash :: char where "backslash \<equiv> CHR 0x5C"
abbreviation nul :: char where "nul \<equiv> CHR 0x00"

definition is_space :: "char \<Rightarrow> bool" where
  "is_space c \<longleftrightarrow> c = CHR 0x20 \<or> c = CHR 0x0A \<or> c = CHR 0x0D \<or> c = CHR 0x09"

definition is_digit :: "char \<Rightarrow> bool" where
  "is_digit c \<longleftrightarrow> 48 \<le> (of_char c :: nat) \<and> (of_char c :: nat) \<le> 57"

definition is_hex :: "char \<Rightarrow> bool" where
  "is_hex c \<longleftrightarrow> is_digit c
     \<or> (97 \<le> (of_char c :: nat) \<and> (of_char c :: nat) \<le> 102)
     \<or> (65 \<le> (of_char c :: nat) \<and> (of_char c :: nat) \<le> 70)"

text \<open>\<open>space()\<close>, and the two digit loops of a number.\<close>

definition skip_space :: "string \<Rightarrow> nat \<Rightarrow> nat" where
  "skip_space inp pos = pos + length (takeWhile is_space (drop pos inp))"

definition skip_digits :: "string \<Rightarrow> nat \<Rightarrow> nat" where
  "skip_digits inp pos = pos + length (takeWhile is_digit (drop pos inp))"

text \<open>\<open>pos_ < input_.size() && p(input_[pos_])\<close>\<close>

definition char_at :: "string \<Rightarrow> nat \<Rightarrow> (char \<Rightarrow> bool) \<Rightarrow> bool" where
  "char_at inp pos p \<longleftrightarrow> pos < length inp \<and> p (inp ! pos)"

section \<open>Scalars\<close>

text \<open>The characters of an escape sequence after its backslash, if it is a permitted one.\<close>

definition escape_length :: "string \<Rightarrow> nat option" where
  "escape_length xs =
     (case xs of
        [] \<Rightarrow> None
      | e # ys \<Rightarrow>
          if e = CHR ''u'' then
            (if 4 \<le> length ys \<and> list_all is_hex (take 4 ys) then Some 5 else None)
          else if e \<in> set [quote, backslash, CHR ''/'', CHR ''b'', CHR ''f'', CHR ''n'',
                          CHR ''r'', CHR ''t''] then Some 1
          else None)"

text \<open>
  The loop over a string after its opening quote: the number of characters up to and including
  the closing quote, or \<open>None\<close> where the code returns -1.
\<close>

function scan_string :: "string \<Rightarrow> nat option" where
  "scan_string [] = None"
| "scan_string (x # xs) =
     (if x = quote then Some 1
      else if (of_char x :: nat) < 32 \<or> 128 \<le> (of_char x :: nat) then None
      else if x = backslash then
        (case escape_length xs of
           None \<Rightarrow> None
         | Some n \<Rightarrow> map_option ((+) (Suc n)) (scan_string (drop n xs)))
      else map_option Suc (scan_string xs))"
  by pat_completeness auto
termination
  by (relation "measure length") auto

text \<open>
  The grammar of a number: \<open>scan_int\<close> the sign and integer part from the first character,
  \<open>scan_frac\<close> the optional fraction, \<open>scan_exp\<close> the optional exponent, each giving the
  position after it.
\<close>

definition scan_int :: "string \<Rightarrow> nat \<Rightarrow> nat option" where
  "scan_int inp p0 =
     (let p = (if inp ! p0 = CHR ''-'' then Suc p0 else p0) in
      if length inp \<le> p then None
      else if inp ! p = CHR ''0'' then Some (Suc p)
      else if \<not> char_at inp p is_digit then None
      else Some (skip_digits inp p))"

definition scan_frac :: "string \<Rightarrow> nat \<Rightarrow> nat option" where
  "scan_frac inp p =
     (if char_at inp p (\<lambda>c. c = CHR ''.'') then
        (if \<not> char_at inp (Suc p) is_digit then None else Some (skip_digits inp (Suc p)))
      else Some p)"

definition scan_exp :: "string \<Rightarrow> nat \<Rightarrow> nat option" where
  "scan_exp inp p =
     (if char_at inp p (\<lambda>c. c = CHR ''e'' \<or> c = CHR ''E'') then
        (let q = (if char_at inp (Suc p) (\<lambda>c. c = CHR ''+'' \<or> c = CHR ''-'')
                  then Suc (Suc p) else Suc p)
         in if \<not> char_at inp q is_digit then None else Some (skip_digits inp q))
      else Some p)"

definition scan_number :: "string \<Rightarrow> nat \<Rightarrow> nat option" where
  "scan_number inp p =
     (case scan_int inp p of
        None \<Rightarrow> None
      | Some p1 \<Rightarrow> (case scan_frac inp p1 of None \<Rightarrow> None | Some p2 \<Rightarrow> scan_exp inp p2))"

definition scan_word :: "string \<Rightarrow> string \<Rightarrow> nat \<Rightarrow> nat option" where
  "scan_word word inp p =
     (if take (length word) (drop p inp) = word then Some (p + length word) else None)"

section \<open>Reading tokens\<close>

text \<open>\<open>raw(t)\<close>; a negative token index is \<open>None\<close>.\<close>

definition json_raw :: "string \<Rightarrow> token list \<Rightarrow> nat option \<Rightarrow> string" where
  "json_raw inp toks t =
     (case t of
        Some i \<Rightarrow> if i < length toks then take (t_size (toks ! i)) (drop (t_start (toks ! i)) inp)
                  else []
      | None \<Rightarrow> [])"

definition unescape :: "char \<Rightarrow> char" where
  "unescape e =
     (if e = CHR ''n'' then CHR 0x0A else if e = CHR ''r'' then CHR 0x0D
      else if e = CHR ''t'' then CHR 0x09 else if e = CHR ''b'' then CHR 0x08
      else if e = CHR ''f'' then CHR 0x0C else e)"

definition hex_digit :: "char \<Rightarrow> nat" where
  "hex_digit h = (if (of_char h :: nat) \<le> 57 then of_char h - 48
     else (of_char h OR 32) - 97 + 10)"

text \<open>
  One step of the copy loop of \<open>string()\<close>, over the text that is left, at least two characters:
  the character decoded and the number of source characters it takes, or \<open>None\<close> for an escape
  above 127 or the escaped NUL.
\<close>

definition decode_char :: "string \<Rightarrow> (char \<times> nat) option" where
  "decode_char s =
     (if s ! 0 = backslash then
        (if s ! 1 = CHR ''u'' then
           (if length s < 6 then None
            else let n = ((hex_digit (s ! 2) * 16 + hex_digit (s ! 3)) * 16 + hex_digit (s ! 4)) * 16
                         + hex_digit (s ! 5)
              in if n = 0 \<or> 127 < n then None else Some (char_of n, 6))
         else Some (unescape (s ! 1), 2))
      else Some (s ! 0, 1))"

lemma decode_char_pos: "decode_char s = Some (c, k) \<Longrightarrow> 0 < k"
  by (auto simp: decode_char_def Let_def split: if_splits)

text \<open>
  The loop of \<open>string()\<close>, over the text after the opening quote and including the closing one;
  \<open>j\<close> characters are in the buffer \<open>out\<close>.  It runs while at least two characters are left.
  On failure the buffer keeps what was copied.
\<close>

function decode_string :: "string \<Rightarrow> nat \<Rightarrow> string \<Rightarrow> bool \<times> string" where
  "decode_string s j out =
     (if length s < 2 then (True, out[j := nul])
      else case decode_char s of
             None \<Rightarrow> (False, out)
           | Some (c, k) \<Rightarrow>
               if length out \<le> j + 1 \<or> c = nul then (False, out)
               else decode_string (drop k s) (j + 1) (out[j := c]))"
  by pat_completeness auto
termination
  by (relation "measure (\<lambda>(s, j, out). length s)") (auto dest: decode_char_pos)

declare decode_string.simps [simp del]

definition json_string :: "string \<Rightarrow> token list \<Rightarrow> nat option \<Rightarrow> string \<Rightarrow> bool \<times> string" where
  "json_string inp toks t out =
     (case t of
        None \<Rightarrow> (False, out)
      | Some i \<Rightarrow>
          if length toks \<le> i \<or> t_type (toks ! i) \<noteq> JString \<or> out = [] then (False, out)
          else decode_string (tl (json_raw inp toks (Some i))) 0 out)"

text \<open>\<open>char name[80]; string(i, name)\<close>: the C string read, if the read succeeds.\<close>

definition read_string :: "nat \<Rightarrow> string \<Rightarrow> token list \<Rightarrow> nat option \<Rightarrow> string option" where
  "read_string cap inp toks t =
     (let (ok, buf) = json_string inp toks t (replicate cap nul)
      in if ok then Some (c_str buf) else None)"

text \<open>The scan of \<open>member()\<close>; every iteration moves to a later token, so \<open>count\<close> steps are
  enough (\<open>member_from_fuel\<close>).\<close>

fun member_from :: "nat \<Rightarrow> string \<Rightarrow> token list \<Rightarrow> string \<Rightarrow> nat \<Rightarrow> nat \<Rightarrow> nat option" where
  "member_from 0 inp toks key limit i = None"
| "member_from (Suc fuel) inp toks key limit i =
     (if i < limit then
        (if read_string 80 inp toks (Some i) = Some key then Some (i + 1)
         else member_from fuel inp toks key limit (t_after (toks ! (i + 1))))
      else None)"

definition json_member :: "string \<Rightarrow> token list \<Rightarrow> nat option \<Rightarrow> string \<Rightarrow> nat option" where
  "json_member inp toks obj key =
     (case obj of
        None \<Rightarrow> None
      | Some b \<Rightarrow>
          if length toks \<le> b \<or> t_type (toks ! b) \<noteq> JObject then None
          else member_from (Suc (length toks)) inp toks key (t_after (toks ! b)) (b + 1))"

text \<open>\<open>std::from_chars\<close> on the whole text of a number token: an optional minus sign and decimal
  digits, in the range of \<open>int64_t\<close>.\<close>

fun digits_value :: "nat \<Rightarrow> string \<Rightarrow> nat" where
  "digits_value acc [] = acc"
| "digits_value acc (c # cs) = digits_value (acc * 10 + (of_char c - 48)) cs"

definition from_chars_int64 :: "string \<Rightarrow> int option" where
  "from_chars_int64 s =
     (let neg = (s \<noteq> [] \<and> hd s = CHR ''-''); ds = (if neg then tl s else s);
          v = (if neg then - int (digits_value 0 ds) else int (digits_value 0 ds))
      in if ds = [] \<or> \<not> list_all is_digit ds \<or> v < - (2 ^ 63) \<or> 2 ^ 63 - 1 < v then None
         else Some v)"

definition json_integer :: "string \<Rightarrow> token list \<Rightarrow> nat option \<Rightarrow> int option" where
  "json_integer inp toks t =
     (case t of
        None \<Rightarrow> None
      | Some i \<Rightarrow> if length toks \<le> i \<or> t_type (toks ! i) \<noteq> JNumber then None
                 else from_chars_int64 (json_raw inp toks (Some i)))"

section \<open>The parser\<close>

text \<open>The duplicate check of an object's keys: every earlier key reads and differs.\<close>

fun keys_differ :: "nat \<Rightarrow> string \<Rightarrow> token list \<Rightarrow> string \<Rightarrow> nat \<Rightarrow> nat \<Rightarrow> bool" where
  "keys_differ 0 inp toks name k i = True"
| "keys_differ (Suc fuel) inp toks name k i =
     (if i < k then
        (case read_string 80 inp toks (Some i) of
           None \<Rightarrow> False
         | Some prev \<Rightarrow> prev \<noteq> name \<and> keys_differ fuel inp toks name k (t_after (toks ! (i + 1))))
      else True)"

text \<open>Completing token \<open>t\<close>: \<open>tok.size = pos_ - tok.start; tok.after = count\<close>.\<close>

definition close_token :: "nat \<Rightarrow> token list \<times> nat \<Rightarrow> token list \<times> nat" where
  "close_token t s =
     (let (toks, pos) = s
      in (toks[t := (toks ! t)\<lparr>t_size := pos - t_start (toks ! t), t_after := length toks\<rparr>], pos))"

definition open_token :: "token list \<Rightarrow> nat \<Rightarrow> json_type \<Rightarrow> token list" where
  "open_token toks pos ty =
     toks @ [\<lparr>t_start = pos, t_size = 0, t_after = 0, t_type = ty\<rparr>]"

text \<open>Everything of \<open>value()\<close> that does not recurse: strings, words and numbers.\<close>

definition json_scalar :: "string \<Rightarrow> token list \<Rightarrow> nat \<Rightarrow> (token list \<times> nat) outcome" where
  "json_scalar inp toks pos =
     (let c = inp ! pos; t = length toks in
      if c = quote then
        (case scan_string (drop (Suc pos) inp) of
           None \<Rightarrow> Reject
         | Some n \<Rightarrow> Accept (close_token t (open_token toks pos JString, Suc pos + n)))
      else if c = CHR ''t'' \<or> c = CHR ''f'' \<or> c = CHR ''n'' then
        (case scan_word (if c = CHR ''t'' then ''true'' else if c = CHR ''f'' then ''false''
                         else ''null'') inp pos of
           None \<Rightarrow> Reject
         | Some p \<Rightarrow> Accept (close_token t
             (open_token toks pos (if c = CHR ''n'' then JNull else JBoolean), p)))
      else
        (case scan_number inp pos of
           None \<Rightarrow> Reject
         | Some p \<Rightarrow> Accept (close_token t (open_token toks pos JNumber, p))))"

text \<open>
  The part of the member loop that reads a key and its colon; \<open>val\<close> is
  \<open>value(depth + 1)\<close> and \<open>t\<close> the token of the enclosing object.
\<close>

definition json_key ::
  "(token list \<times> nat \<Rightarrow> (token list \<times> nat) outcome) \<Rightarrow> string \<Rightarrow> nat \<Rightarrow> token list \<times> nat
     \<Rightarrow> (token list \<times> nat) outcome" where
  "json_key val inp t s =
     (let pos = skip_space inp (snd s); k = length (fst s) in
      if \<not> char_at inp pos (\<lambda>c. c = quote) then Reject
      else case val (fst s, pos) of
             Accept (toks, pos1) \<Rightarrow>
               (case read_string 80 inp toks (Some k) of
                  None \<Rightarrow> Reject
                | Some name \<Rightarrow>
                    if \<not> keys_differ (length toks) inp toks name k (t + 1) then Reject
                    else
                      (let pos2 = skip_space inp pos1 in
                       if char_at inp pos2 (\<lambda>c. c = CHR '':'') then Accept (toks, Suc pos2)
                       else Reject))
           | r \<Rightarrow> r)"

text \<open>The \<open>for (;;)\<close> loop of object or array \<open>t\<close>, one unit of fuel per iteration.\<close>

primrec json_items ::
  "nat \<Rightarrow> (token list \<times> nat \<Rightarrow> (token list \<times> nat) outcome) \<Rightarrow> string \<Rightarrow> bool \<Rightarrow> nat
     \<Rightarrow> token list \<times> nat \<Rightarrow> (token list \<times> nat) outcome" where
  "json_items 0 val inp obj t s = Fuel_Out"
| "json_items (Suc fuel) val inp obj t s =
     (case (if obj then json_key val inp t s else Accept s) of
        Accept s1 \<Rightarrow>
          (case val s1 of
             Accept (toks, pos1) \<Rightarrow>
               (let pos = skip_space inp pos1 in
                if length inp \<le> pos then Reject
                else if inp ! pos = (if obj then CHR ''}'' else CHR '']'')
                     then Accept (toks, Suc pos)
                else if inp ! pos \<noteq> CHR '','' then Reject
                else json_items fuel val inp obj t (toks, Suc pos))
           | r \<Rightarrow> r)
      | r \<Rightarrow> r)"

text \<open>
  \<open>value(depth)\<close> at \<open>levels = 9 - depth\<close>: a value at depth 9 is refused, so the recursion is
  structural.  The code returns the index of the token it adds, which is the number of
  tokens before the call.
\<close>

primrec json_value ::
  "nat \<Rightarrow> string \<Rightarrow> token list \<times> nat \<Rightarrow> (token list \<times> nat) outcome" where
  "json_value 0 inp s = Reject"
| "json_value (Suc levels) inp s =
     (let toks = fst s; pos = skip_space inp (snd s); t = length toks in
      if length inp \<le> pos \<or> max_tokens \<le> length toks then Reject
      else
        (let c = inp ! pos in
         if c = CHR ''{'' \<or> c = CHR ''['' then
           (let obj = (c = CHR ''{'');
                toks' = open_token toks pos (if obj then JObject else JArray);
                pos' = skip_space inp (Suc pos)
            in if char_at inp pos' (\<lambda>x. x = (if obj then CHR ''}'' else CHR '']''))
               then Accept (close_token t (toks', Suc pos'))
               else case json_items (Suc (length inp)) (json_value levels inp) inp obj t
                           (toks', pos') of
                      Accept s' \<Rightarrow> Accept (close_token t s')
                    | r \<Rightarrow> r)
         else json_scalar inp toks pos))"

definition json_parse :: "string \<Rightarrow> token list option" where
  "json_parse inp =
     (if inp = [] \<or> 2048 < length inp then None
      else case json_value 9 inp ([], 0) of
             Accept (toks, pos) \<Rightarrow>
               if skip_space inp pos = length inp then Some toks else None
           | _ \<Rightarrow> None)"


section \<open>Progress and bounds of the scanners\<close>

lemma skip_space_ge: "pos \<le> skip_space inp pos"
  by (simp add: skip_space_def)

lemma skip_space_le: "pos \<le> length inp \<Longrightarrow> skip_space inp pos \<le> length inp"
  using length_takeWhile_le [of is_space "drop pos inp"] by (simp add: skip_space_def)

lemma skip_digits_le: "pos \<le> length inp \<Longrightarrow> skip_digits inp pos \<le> length inp"
  using length_takeWhile_le [of is_digit "drop pos inp"] by (simp add: skip_digits_def)

lemma skip_digits_gt: "char_at inp pos is_digit \<Longrightarrow> pos < skip_digits inp pos"
  by (auto simp: skip_digits_def char_at_def Cons_nth_drop_Suc [symmetric])

lemma skip_digits_bounds:
  "char_at inp pos is_digit \<Longrightarrow> pos < skip_digits inp pos \<and> skip_digits inp pos \<le> length inp"
  using skip_digits_gt [of inp pos] skip_digits_le [of pos inp] by (simp add: char_at_def)

lemma escape_length_bounds: "escape_length xs = Some n \<Longrightarrow> 1 \<le> n \<and> n \<le> length xs"
  by (auto simp: escape_length_def split: list.splits if_splits)

lemma scan_string_bounds: "scan_string xs = Some n \<Longrightarrow> 1 \<le> n \<and> n \<le> length xs"
proof (induction xs arbitrary: n rule: scan_string.induct)
  case (2 x xs)
  show ?case
  proof (cases "x = backslash")
    case True
    then obtain k m where k: "escape_length xs = Some k" and m: "scan_string (drop k xs) = Some m"
      and n: "n = Suc k + m"
      using "2.prems" by (auto split: option.splits)
    have "m \<le> length (drop k xs)"
      using "2.IH"(1) [OF _ _ True k m] True by simp
    with n escape_length_bounds [OF k] show ?thesis by (simp; arith)
  next
    case False
    then show ?thesis
      using "2.prems" "2.IH"(2) by (force split: if_splits)
  qed
qed simp

lemma scan_word_bounds:
  assumes "scan_word word inp p = Some q" and "word \<noteq> []"
  shows "p < q \<and> q \<le> length inp"
proof -
  from assms(1) have w: "take (length word) (drop p inp) = word" and q: "q = p + length word"
    by (auto simp: scan_word_def split: if_splits)
  from w have "length word \<le> length inp - p" by (metis length_drop length_take min.cobounded1)
  with q assms(2) show ?thesis by (cases word) auto
qed

lemma scan_int_bounds:
  "scan_int inp p = Some q \<Longrightarrow> p < length inp \<Longrightarrow> p < q \<and> q \<le> length inp"
  using skip_digits_bounds [of inp p] skip_digits_bounds [of inp "Suc p"]
  by (auto simp: scan_int_def Let_def split: if_splits)

lemma scan_frac_bounds: "scan_frac inp p = Some q \<Longrightarrow> p \<le> length inp \<Longrightarrow> p \<le> q \<and> q \<le> length inp"
  using skip_digits_bounds [of inp "Suc p"] by (auto simp: scan_frac_def split: if_splits)

lemma scan_exp_bounds: "scan_exp inp p = Some q \<Longrightarrow> p \<le> length inp \<Longrightarrow> p \<le> q \<and> q \<le> length inp"
  using skip_digits_bounds [of inp "Suc p"] skip_digits_bounds [of inp "Suc (Suc p)"]
  by (auto simp: scan_exp_def Let_def split: if_splits)

lemma scan_number_bounds:
  assumes "scan_number inp p = Some q" and "p < length inp"
  shows "p < q \<and> q \<le> length inp"
proof -
  obtain a b where "scan_int inp p = Some a" "scan_frac inp a = Some b" "scan_exp inp b = Some q"
    using assms(1) by (auto simp: scan_number_def split: option.splits)
  with assms(2) show ?thesis
    using scan_int_bounds scan_frac_bounds scan_exp_bounds by (meson le_trans order_less_le_trans)
qed

section \<open>Well-formed token arrays\<close>

text \<open>
  The members of an object: from token \<open>i\<close> up to the limit, a string token followed by a value
  token, whose \<open>after\<close> leads to the next member.
\<close>

inductive members :: "token list \<Rightarrow> nat \<Rightarrow> nat \<Rightarrow> bool" for toks where
  members_end: "members toks i i"
| members_step: "t_type (toks ! i) = JString \<Longrightarrow> i + 1 < t_after (toks ! (i + 1)) \<Longrightarrow>
     t_after (toks ! (i + 1)) \<le> lim \<Longrightarrow> members toks (t_after (toks ! (i + 1))) lim \<Longrightarrow>
     members toks i lim"

lemma members_le: "members toks i lim \<Longrightarrow> i \<le> lim"
  by (induction rule: members.induct) auto

lemma members_cong:
  assumes "members toks i lim" and "\<And>j. i \<le> j \<Longrightarrow> j < lim \<Longrightarrow> toks' ! j = toks ! j"
  shows "members toks' i lim"
  using assms
proof (induction rule: members.induct)
  case (members_step i lim)
  have eq: "toks' ! i = toks ! i" "toks' ! (i + 1) = toks ! (i + 1)"
    using members_step.prems members_step.hyps by auto
  show ?case
    by (rule members.members_step) (use eq members_step in auto)
qed (rule members.members_end)

lemma members_single:
  assumes "t_type (toks ! m) = JString" and "m + 1 < t_after (toks ! (m + 1))"
  shows "members toks m (t_after (toks ! (m + 1)))"
  by (rule members.members_step [OF assms order_refl members.members_end])

lemma members_trans: "members toks i m \<Longrightarrow> members toks m n \<Longrightarrow> members toks i n"
proof (induction rule: members.induct)
  case (members_step i lim)
  have "lim \<le> n" using members_step.prems by (rule members_le)
  show ?case
    by (rule members.members_step [OF members_step.hyps(1,2) _ members_step.IH])
       (use members_step.hyps(3) \<open>lim \<le> n\<close> members_step.prems in auto)
qed

text \<open>
  A finished token: its text lies within the input, \<open>after\<close> is a later token index, a string
  token is a complete string literal without sub-tokens, and the members of an object end
  exactly at its \<open>after\<close>.
\<close>

definition token_ok :: "string \<Rightarrow> token list \<Rightarrow> nat \<Rightarrow> bool" where
  "token_ok inp toks i \<longleftrightarrow>
     (let t = toks ! i in
        t_start t + t_size t \<le> length inp \<and> 1 \<le> t_size t \<and> i < t_after t \<and> t_after t \<le> length toks \<and>
        (t_type t = JString \<longrightarrow> t_after t = i + 1 \<and>
           scan_string (drop (Suc (t_start t)) inp) = Some (t_size t - 1)) \<and>
        (t_type t = JObject \<longrightarrow> members toks (i + 1) (t_after t)))"

text \<open>What a successful read adds: complete tokens after the ones already there.\<close>

definition extends :: "string \<Rightarrow> token list \<times> nat \<Rightarrow> token list \<times> nat \<Rightarrow> bool" where
  "extends inp s s' \<longleftrightarrow>
     snd s \<le> snd s' \<and> snd s' \<le> length inp \<and> take (length (fst s)) (fst s') = fst s \<and>
     (length (fst s) \<le> max_tokens \<longrightarrow> length (fst s') \<le> max_tokens) \<and>
     (\<forall>i. length (fst s) \<le> i \<longrightarrow> i < length (fst s') \<longrightarrow> token_ok inp (fst s') i)"

lemma extends_length: "extends inp s s' \<Longrightarrow> length (fst s) \<le> length (fst s')"
  unfolding extends_def by (metis length_take min.cobounded1)

lemma extends_nth: "extends inp s s' \<Longrightarrow> i < length (fst s) \<Longrightarrow> fst s' ! i = fst s ! i"
  unfolding extends_def by (metis nth_take)

lemma token_ok_extend:
  assumes "token_ok inp toks i" and "i < length toks" and "take (length toks) toks' = toks"
  shows "token_ok inp toks' i"
proof -
  have len: "length toks \<le> length toks'" using assms(3) by (metis length_take min.cobounded1)
  have eq: "toks' ! j = toks ! j" if "j < length toks" for j
    using that assms(3) by (metis nth_take)
  show ?thesis
    using assms(1,2) len
    by (auto simp: token_ok_def Let_def eq intro!: members_cong [where toks = toks and toks' = toks'])
qed

lemma extends_trans:
  assumes "extends inp s s1" and "extends inp s1 s2"
  shows "extends inp s s2"
proof -
  have "token_ok inp (fst s2) i" if "length (fst s) \<le> i" "i < length (fst s2)" for i
    using that assms token_ok_extend [of inp "fst s1" i "fst s2"]
    by (cases "i < length (fst s1)") (auto simp: extends_def)
  moreover have "take (length (fst s)) (fst s2) = fst s"
  proof -
    have "take (length (fst s)) (take (length (fst s1)) (fst s2)) = fst s"
      using assms by (simp add: extends_def)
    then show ?thesis using extends_length [OF assms(1)] by (simp add: min_def)
  qed
  ultimately show ?thesis using assms by (auto simp: extends_def)
qed

lemma extends_space:
  "pos \<le> length inp \<Longrightarrow> extends inp (toks, pos) (toks, skip_space inp pos)"
  by (auto simp: extends_def skip_space_ge skip_space_le)

lemma length_open_token [simp]: "length (open_token toks pos ty) = Suc (length toks)"
  by (simp add: open_token_def)

lemma open_token_nth [simp]:
  "open_token toks pos ty ! length toks =
     \<lparr>t_start = pos, t_size = 0, t_after = 0, t_type = ty\<rparr>"
  by (simp add: open_token_def)

lemma close_open:
  "close_token (length toks) (open_token toks pos ty, p) =
     (toks @ [\<lparr>t_start = pos, t_size = p - pos, t_after = Suc (length toks), t_type = ty\<rparr>], p)"
  by (simp add: close_token_def open_token_def)

lemma extends_leaf:
  assumes "pos < p" and "p \<le> length inp" and "length toks < max_tokens" and "ty \<noteq> JObject"
    and "ty = JString \<Longrightarrow> scan_string (drop (Suc pos) inp) = Some (p - pos - 1)"
  shows "extends inp (toks, pos) (close_token (length toks) (open_token toks pos ty, p))"
  using assms by (auto simp: extends_def close_open token_ok_def nth_append less_Suc_eq Let_def)

text \<open>The contract of \<open>value()\<close>: it consumes input, adds at least one token and the first
  token it adds spans them all.\<close>

definition value_ok :: "string \<Rightarrow> token list \<times> nat \<Rightarrow> token list \<times> nat \<Rightarrow> bool" where
  "value_ok inp s s' \<longleftrightarrow> extends inp s s' \<and> snd s < snd s' \<and> length (fst s) < length (fst s') \<and>
     t_after (fst s' ! length (fst s)) = length (fst s')"

lemma json_scalar_ok:
  assumes "json_scalar inp toks pos = Accept s'" and "pos < length inp"
    and "length toks < max_tokens"
  shows "value_ok inp (toks, pos) s'"
proof -
  have leaf: "value_ok inp (toks, pos) (close_token (length toks) (open_token toks pos ty, p))"
    if "pos < p" "p \<le> length inp" "ty \<noteq> JObject"
      "ty = JString \<Longrightarrow> scan_string (drop (Suc pos) inp) = Some (p - pos - 1)" for p ty
    using extends_leaf [OF that(1,2) assms(3) that(3,4)] that(1)
    by (simp add: value_ok_def close_open)
  consider (str) n where "scan_string (drop (Suc pos) inp) = Some n"
      "s' = close_token (length toks) (open_token toks pos JString, Suc pos + n)"
    | (word) w p ty where "scan_word w inp pos = Some p" "w \<noteq> []" "ty \<noteq> JObject" "ty \<noteq> JString"
      "s' = close_token (length toks) (open_token toks pos ty, p)"
    | (num) p where "scan_number inp pos = Some p"
      "s' = close_token (length toks) (open_token toks pos JNumber, p)"
    using assms(1) by (auto simp: json_scalar_def Let_def split: if_splits option.splits)
  then show ?thesis
  proof cases
    case str
    with scan_string_bounds [OF str(1)] assms(2) show ?thesis
      unfolding str(2) by (intro leaf) auto
  next
    case word
    with scan_word_bounds [OF word(1)] show ?thesis unfolding word(5) by (intro leaf) auto
  next
    case num
    with scan_number_bounds [OF num(1) assms(2)] show ?thesis unfolding num(2) by (intro leaf) auto
  qed
qed

definition reader_ok :: "string \<Rightarrow> (token list \<times> nat \<Rightarrow> (token list \<times> nat) outcome) \<Rightarrow> bool" where
  "reader_ok inp val \<longleftrightarrow> (\<forall>s. snd s \<le> length inp \<longrightarrow>
     (case val s of Accept s' \<Rightarrow> value_ok inp s s' | Fuel_Out \<Rightarrow> False | Reject \<Rightarrow> True))"

lemma reader_okD:
  "reader_ok inp val \<Longrightarrow> snd s \<le> length inp \<Longrightarrow> val s = Accept s' \<Longrightarrow> value_ok inp s s'"
  "reader_ok inp val \<Longrightarrow> snd s \<le> length inp \<Longrightarrow> val s \<noteq> Fuel_Out"
  by (cases s; auto simp: reader_ok_def dest!: spec [of _ "fst s"] spec [of _ "snd s"])+

lemma read_string_type:
  "read_string n inp toks (Some k) = Some name \<Longrightarrow> k < length toks \<and> t_type (toks ! k) = JString"
  by (auto simp: read_string_def json_string_def split: if_splits prod.splits)

lemma value_ok_end: "value_ok inp s s' \<Longrightarrow> snd s' \<le> length inp"
  by (simp add: value_ok_def extends_def)

lemma extends_move:
  "extends inp s (toks, pos) \<Longrightarrow> pos \<le> pos' \<Longrightarrow> pos' \<le> length inp \<Longrightarrow> extends inp s (toks, pos')"
  by (simp add: extends_def)

lemma json_key_ok:
  assumes "reader_ok inp val" and "snd s \<le> length inp" and "json_key val inp t s = Accept s'"
  shows "extends inp s s' \<and> snd s < snd s' \<and> length (fst s') = Suc (length (fst s)) \<and>
    t_type (fst s' ! length (fst s)) = JString"
proof -
  define pos where "pos = skip_space inp (snd s)"
  have pos: "pos \<le> length inp" using skip_space_le [OF assms(2)] by (simp add: pos_def)
  obtain toks pos1 name where v: "val (fst s, pos) = Accept (toks, pos1)"
    and n: "read_string 80 inp toks (Some (length (fst s))) = Some name"
    and c: "char_at inp (skip_space inp pos1) (\<lambda>c. c = CHR '':'')"
    and s': "s' = (toks, Suc (skip_space inp pos1))"
    using assms(3) [unfolded json_key_def Let_def, folded pos_def]
    by (cases "val (fst s, pos)") (auto split: if_splits option.splits)
  have vo: "value_ok inp (fst s, pos) (toks, pos1)"
    using reader_okD(1) [OF assms(1) _ v] pos by simp
  have "t_type (toks ! length (fst s)) = JString" using read_string_type [OF n] by simp
  moreover have "token_ok inp toks (length (fst s))"
    using vo by (auto simp: value_ok_def extends_def)
  ultimately have len: "length toks = Suc (length (fst s))"
    using vo by (simp add: value_ok_def token_ok_def Let_def)
  have p: "snd s \<le> pos" "pos1 \<le> skip_space inp pos1" "skip_space inp pos1 < length inp"
    using c skip_space_ge [of "snd s" inp] skip_space_ge [of pos1 inp] by (auto simp: pos_def char_at_def)
  have "extends inp s (fst s, pos)"
    using extends_space [OF assms(2), of "fst s"] by (simp add: pos_def)
  then have "extends inp s (toks, pos1)"
    using vo by (auto simp: value_ok_def intro: extends_trans)
  then have "extends inp s s'"
    unfolding s' by (rule extends_move) (use p skip_space_ge [of pos1 inp] in linarith)+
  moreover have "pos < pos1" using vo by (simp add: value_ok_def)
  ultimately show ?thesis
    using len p \<open>t_type (toks ! length (fst s)) = JString\<close> by (simp add: s')
qed

text \<open>One iteration of the member loop, without the fuel.\<close>

lemma items_step_ok:
  assumes rd: "reader_ok inp val" and le: "snd s \<le> length inp"
    and head: "(if obj then json_key val inp t s else Accept s) = Accept s1"
    and v: "val s1 = Accept (toks, pos1)"
  shows "extends inp s (toks, pos1) \<and> snd s < pos1 \<and>
    (obj \<longrightarrow> members (fst s) (t + 1) (length (fst s)) \<longrightarrow> members toks (t + 1) (length toks))"
proof (cases obj)
  case False
  then have "s1 = s" using head by simp
  with reader_okD(1) [OF rd le] v False show ?thesis by (auto simp: value_ok_def)
next
  case True
  have k: "extends inp s s1" "snd s < snd s1" "length (fst s1) = Suc (length (fst s))"
    "t_type (fst s1 ! length (fst s)) = JString"
    using json_key_ok [OF rd le] head True by auto
  have vo: "value_ok inp s1 (toks, pos1)"
    using reader_okD(1) [OF rd _ v] k(1) by (simp add: extends_def)
  then have e1: "extends inp s1 (toks, pos1)" and p: "snd s1 < pos1"
    and gt: "Suc (length (fst s)) < length toks"
    and af: "t_after (toks ! Suc (length (fst s))) = length toks"
    using k(3) by (auto simp: value_ok_def)
  have ty: "t_type (toks ! length (fst s)) = JString"
    using extends_nth [OF e1, of "length (fst s)"] k(3,4) by simp
  have e: "extends inp s (toks, pos1)" using extends_trans [OF k(1) e1] .
  have "members toks (t + 1) (length toks)" if m: "members (fst s) (t + 1) (length (fst s))"
  proof -
    have "members toks (t + 1) (length (fst s))"
      by (rule members_cong [OF m]) (use extends_nth [OF e] in auto)
    moreover have "members toks (length (fst s)) (length toks)"
      using members_single [of toks "length (fst s)"] ty af gt by simp
    ultimately show ?thesis by (rule members_trans)
  qed
  with e k(2) p show ?thesis by simp
qed

lemma json_items_ok:
  assumes "reader_ok inp val"
  shows "snd s \<le> length inp \<Longrightarrow> json_items fuel val inp obj t s = Accept s' \<Longrightarrow>
    extends inp s s' \<and> snd s < snd s' \<and>
    (obj \<longrightarrow> members (fst s) (t + 1) (length (fst s)) \<longrightarrow> members (fst s') (t + 1) (length (fst s')))"
proof (induction fuel arbitrary: s)
  case (Suc fuel)
  obtain s1 toks pos1 where h: "(if obj then json_key val inp t s else Accept s) = Accept s1"
    and v: "val s1 = Accept (toks, pos1)"
    using Suc.prems(2) by (auto split: outcome.splits if_splits)
  note st = items_step_ok [OF assms Suc.prems(1) h v]
  define pos where "pos = skip_space inp pos1"
  have pos: "pos1 \<le> pos" by (simp add: pos_def skip_space_ge)
  from Suc.prems(2) consider "s' = (toks, Suc pos)" "pos < length inp"
    | "pos < length inp" "json_items fuel val inp obj t (toks, Suc pos) = Accept s'"
    by (auto simp: h v Let_def pos_def [symmetric] split: if_splits simp del: if_split)
  then show ?case
  proof cases
    case 1
    with st pos show ?thesis by (auto intro: extends_move)
  next
    case 2
    have "extends inp s (toks, Suc pos)"
      using st pos 2(1) by (auto intro: extends_move)
    with Suc.IH [OF _ 2(2)] 2(1) st pos show ?thesis by (auto intro: extends_trans)
  qed
qed simp

lemma json_items_total:
  assumes rd: "reader_ok inp val"
  shows "snd s \<le> length inp \<Longrightarrow> length inp < snd s + fuel \<Longrightarrow>
    json_items fuel val inp obj t s \<noteq> Fuel_Out"
proof (induction fuel arbitrary: s)
  case (Suc fuel)
  have key: "json_key val inp t s \<noteq> Fuel_Out"
    using reader_okD(2) [OF rd, of "(fst s, skip_space inp (snd s))"] skip_space_le [OF Suc.prems(1)]
    by (auto simp: json_key_def Let_def split: outcome.splits option.splits)
  show ?case
  proof (cases "if obj then json_key val inp t s else Accept s")
    case (Accept s1)
    have le: "snd s1 \<le> length inp"
      using Accept Suc.prems(1) json_key_ok [OF rd Suc.prems(1)]
      by (auto simp: extends_def split: if_splits)
    show ?thesis
    proof (cases "val s1")
      case (Accept s2)
      obtain toks pos1 where s2: "s2 = (toks, pos1)" by (cases s2)
      note st = items_step_ok [OF rd Suc.prems(1) \<open>_ = Accept s1\<close> Accept [unfolded s2]]
      have "json_items fuel val inp obj t (toks, Suc (skip_space inp pos1)) \<noteq> Fuel_Out"
        if "skip_space inp pos1 < length inp"
        using Suc.IH [of "(toks, Suc (skip_space inp pos1))"] Suc.prems(2) st that
          skip_space_ge [of pos1 inp] by simp
      then show ?thesis
        using \<open>(if obj then json_key val inp t s else Accept s) = Accept s1\<close> Accept s2
        by (auto simp: Let_def)
    qed (use reader_okD(2) [OF rd le] \<open>_ = Accept s1\<close> in simp_all)
  qed (use key in \<open>auto split: if_splits\<close>)
qed simp

lemma close_token_extends:
  assumes e: "extends inp (open_token toks pos ty, pos') s'" and "pos < pos'"
    and "length toks < max_tokens" and "ty \<noteq> JString"
    and "ty = JObject \<Longrightarrow> members (fst s') (Suc (length toks)) (length (fst s'))"
  shows "value_ok inp (toks, pos) (close_token (length toks) s')"
proof -
  obtain toks' p where s': "s' = (toks', p)" by (cases s')
  define tk where "tk = (toks' ! length toks)\<lparr>t_size := p - pos, t_after := length toks'\<rparr>"
  define res where "res = toks'[length toks := tk]"
  have len: "length toks < length toks'" using extends_length [OF e] by (simp add: s')
  have at: "toks' ! length toks = \<lparr>t_start = pos, t_size = 0, t_after = 0, t_type = ty\<rparr>"
    using extends_nth [OF e, of "length toks"] by (simp add: s')
  have cl: "close_token (length toks) s' = (res, p)"
    by (simp add: close_token_def s' res_def tk_def at)
  have p: "pos' \<le> p" "p \<le> length inp" and mx: "length toks' \<le> max_tokens"
    using e assms(3) by (auto simp: extends_def s')
  have pre: "take (length toks) res = toks"
  proof -
    have "take (length toks) (take (Suc (length toks)) toks') = toks"
      using e by (simp add: extends_def s' open_token_def)
    then show ?thesis by (simp add: res_def min_def)
  qed
  have later: "token_ok inp res i" if "Suc (length toks) \<le> i" "i < length res" for i
  proof -
    have "token_ok inp toks' i" using e that by (auto simp: extends_def s' res_def)
    then show ?thesis
      using that by (auto simp: token_ok_def Let_def res_def
          intro!: members_cong [where toks = toks' and toks' = res, unfolded res_def])
  qed
  have first: "token_ok inp res (length toks)"
  proof -
    have "members res (Suc (length toks)) (length toks')" if "ty = JObject"
      by (rule members_cong [OF assms(5) [OF that, unfolded s' fst_conv]]) (simp add: res_def)
    then show ?thesis
      using len p assms(2,4) by (auto simp: token_ok_def Let_def res_def tk_def at)
  qed
  have "token_ok inp res i" if "length toks \<le> i" "i < length res" for i
    using that first later by (cases "i = length toks") auto
  then show ?thesis
    using pre p mx len assms(2)
    by (auto simp: value_ok_def extends_def cl) (simp_all add: res_def tk_def)
qed

lemma json_value_ok: "reader_ok inp (json_value levels inp)"
proof (induction levels)
  case 0
  show ?case by (simp add: reader_ok_def)
next
  case (Suc levels)
  have "case json_value (Suc levels) inp (toks, pos0) of Accept s' \<Rightarrow> value_ok inp (toks, pos0) s'
      | Fuel_Out \<Rightarrow> False | Reject \<Rightarrow> True" if le: "pos0 \<le> length inp" for toks pos0
  proof -
    define pos where "pos = skip_space inp pos0"
    define obj where "obj = (inp ! pos = CHR ''{'')"
    define ty where "ty = (if obj then JObject else JArray)"
    define pos' where "pos' = skip_space inp (Suc pos)"
    have lift: "value_ok inp (toks, pos0) s'" if "value_ok inp (toks, pos) s'" for s'
      using that extends_trans [OF extends_space [OF le, of toks]]
        le_less_trans [OF skip_space_ge [of pos0 inp]]
      by (simp add: value_ok_def pos_def)
    show ?thesis
    proof (cases "length inp \<le> pos \<or> max_tokens \<le> length toks")
      case True
      then show ?thesis by (simp add: pos_def)
    next
      case False
      then have lt: "pos < length inp" "length toks < max_tokens" by auto
      have pos': "pos < pos'" "pos' \<le> length inp"
        using lt skip_space_ge [of "Suc pos" inp] skip_space_le [of "Suc pos" inp]
        by (auto simp: pos'_def)
      show ?thesis
      proof (cases "inp ! pos = CHR ''{'' \<or> inp ! pos = CHR ''[''")
        case scalar: False
        have eq: "json_value (Suc levels) inp (toks, pos0) = json_scalar inp toks pos"
          using False scalar by (auto simp: Let_def pos_def)
        have "json_scalar inp toks pos \<noteq> Fuel_Out"
          by (auto simp: json_scalar_def Let_def split: option.splits)
        then show ?thesis
          unfolding eq using json_scalar_ok [OF _ lt] lift by (cases "json_scalar inp toks pos") auto
      next
        case bracket: True
        then have ty: "ty \<noteq> JString" by (simp add: ty_def)
        define closed where "closed = char_at inp pos' (\<lambda>x. x = (if obj then CHR ''}'' else CHR '']''))"
        define its where "its = json_items (Suc (length inp)) (json_value levels inp) inp obj
          (length toks) (open_token toks pos ty, pos')"
        have eq: "json_value (Suc levels) inp (toks, pos0) =
          (if closed then Accept (close_token (length toks) (open_token toks pos ty, Suc pos'))
           else case its of Accept s' \<Rightarrow> Accept (close_token (length toks) s') | r \<Rightarrow> r)"
          using False bracket
          by (simp add: Let_def pos_def [symmetric] obj_def [symmetric] ty_def [symmetric]
              pos'_def [symmetric] closed_def its_def)
        have init: "extends inp (open_token toks pos ty, pos') (open_token toks pos ty, p)"
          if "pos' \<le> p" "p \<le> length inp" for p
          using that by (simp add: extends_def)
        show ?thesis
        proof (cases closed)
          case True
          then have "Suc pos' \<le> length inp" by (auto simp: closed_def char_at_def)
          then have "value_ok inp (toks, pos) (close_token (length toks) (open_token toks pos ty, Suc pos'))"
            by (intro close_token_extends [OF init [of "Suc pos'"]])
               (use pos' ty lt in \<open>auto intro: members_end\<close>)
          with lift True show ?thesis unfolding eq by simp
        next
          case open_: False
          have nf: "its \<noteq> Fuel_Out"
            unfolding its_def using pos' by (intro json_items_total [OF Suc.IH]) auto
          have "value_ok inp (toks, pos) (close_token (length toks) s')" if "its = Accept s'" for s'
          proof -
            note ok = json_items_ok [OF Suc.IH, where s = "(open_token toks pos ty, pos')",
                OF _ that [unfolded its_def]]
            show ?thesis
              using ok pos' ty lt
              by (intro close_token_extends [where pos' = pos']) (auto simp: ty_def members_end split: if_splits)
          qed
          with lift nf open_ show ?thesis unfolding eq by (cases its) auto
        qed
      qed
    qed
  qed
  then show ?case by (simp add: reader_ok_def)
qed

section \<open>The reader's guarantees\<close>

lemma json_value_total: "pos \<le> length inp \<Longrightarrow> json_value levels inp (toks, pos) \<noteq> Fuel_Out"
  using reader_okD(2) [OF json_value_ok, of "(toks, pos)"] by simp

lemma json_parse_value:
  assumes "json_parse inp = Some toks"
  obtains pos where "json_value 9 inp ([], 0) = Accept (toks, pos)" "skip_space inp pos = length inp"
  using assms by (auto simp: json_parse_def split: if_splits outcome.splits)

lemma json_parse_tokens:
  assumes "json_parse inp = Some toks"
  shows "0 < length toks" and "length toks \<le> max_tokens"
    and "\<And>i. i < length toks \<Longrightarrow> token_ok inp toks i"
    and "t_after (toks ! 0) = length toks"
proof -
  obtain pos where "json_value 9 inp ([], 0) = Accept (toks, pos)"
    using json_parse_value [OF assms] by blast
  then have "value_ok inp ([], 0) (toks, pos)"
    using reader_okD(1) [OF json_value_ok, of "([], 0)"] by simp
  then show "0 < length toks" "length toks \<le> max_tokens"
    "\<And>i. i < length toks \<Longrightarrow> token_ok inp toks i" "t_after (toks ! 0) = length toks"
    by (auto simp: value_ok_def extends_def)
qed

section \<open>Member lookup\<close>

text \<open>The positions of the keys of an object whose members run from token \<open>i\<close> to \<open>lim\<close>.\<close>

inductive member_key :: "token list \<Rightarrow> nat \<Rightarrow> nat \<Rightarrow> nat \<Rightarrow> bool" for toks lim where
  key_here: "i < lim \<Longrightarrow> member_key toks lim i i"
| key_later: "i < lim \<Longrightarrow> member_key toks lim (t_after (toks ! (i + 1))) k \<Longrightarrow> member_key toks lim i k"

inductive_cases member_keyE: "member_key toks lim i k"
inductive_cases membersE: "members toks i lim"

lemma member_key_end [simp]: "\<not> member_key toks lim lim k"
  by (auto elim: member_keyE)

lemma member_key_bounds:
  "members toks i lim \<Longrightarrow> member_key toks lim i k \<Longrightarrow>
     i \<le> k \<and> k + 1 < lim \<and> t_type (toks ! k) = JString"
proof (induction rule: members.induct)
  case (members_step i lim)
  from members_step.prems show ?case
  proof (cases rule: member_key.cases)
    case key_here
    moreover have "i + 1 < lim" using members_step.hyps(2,3) by simp
    ultimately show ?thesis using members_step.hyps(1) by simp
  next
    case key_later
    then show ?thesis using members_step by auto
  qed
qed simp

lemma member_from_spec:
  assumes "members toks i lim" and "lim - i < fuel"
  shows "(case member_from fuel inp toks key lim i of
      Some v \<Rightarrow> \<exists>k. v = k + 1 \<and> member_key toks lim i k \<and> read_string 80 inp toks (Some k) = Some key
    | None \<Rightarrow> \<forall>k. member_key toks lim i k \<longrightarrow> read_string 80 inp toks (Some k) \<noteq> Some key)"
  using assms
proof (induction arbitrary: fuel rule: members.induct)
  case (members_end i)
  then show ?case by (cases fuel) auto
next
  case (members_step i lim)
  obtain f where f: "fuel = Suc f" using members_step.prems by (cases fuel) auto
  have lt: "i < lim" using members_step.hyps by simp
  show ?case
  proof (cases "read_string 80 inp toks (Some i) = Some key")
    case True
    then show ?thesis by (auto simp: f lt intro: key_here)
  next
    case False
    have "lim - t_after (toks ! (i + 1)) < f" using members_step.prems members_step.hyps f by arith
    from members_step.IH [OF this] False show ?thesis
      by (auto simp: f lt split: option.splits elim: member_keyE
          intro: key_later [OF lt, simplified])
  qed
qed

lemma member_from_fuel:
  assumes "members toks i lim" and "lim - i < fuel"
  shows "member_from (Suc fuel) inp toks key lim i = member_from fuel inp toks key lim i"
  using assms
proof (induction arbitrary: fuel rule: members.induct)
  case (members_end i)
  then show ?case by (cases fuel) auto
next
  case (members_step i lim)
  obtain f where f: "fuel = Suc f" using members_step.prems by (cases fuel) auto
  have "lim - t_after (toks ! (i + 1)) < f" using members_step.prems members_step.hyps f by arith
  from members_step.IH [OF this] show ?case by (simp add: f)
qed

lemma object_members:
  assumes "json_parse inp = Some toks" and "b < length toks" and "t_type (toks ! b) = JObject"
  shows "members toks (b + 1) (t_after (toks ! b))" and "t_after (toks ! b) \<le> length toks"
  using json_parse_tokens(3) [OF assms(1,2)] assms(3) by (auto simp: token_ok_def Let_def)

lemma json_member_spec:
  assumes "json_parse inp = Some toks" and "b < length toks" and "t_type (toks ! b) = JObject"
  shows "case json_member inp toks (Some b) key of
      Some v \<Rightarrow> v < length toks \<and> (\<exists>k. v = k + 1 \<and> member_key toks (t_after (toks ! b)) (b + 1) k \<and>
        read_string 80 inp toks (Some k) = Some key)
    | None \<Rightarrow> \<forall>k. member_key toks (t_after (toks ! b)) (b + 1) k \<longrightarrow>
        read_string 80 inp toks (Some k) \<noteq> Some key"
proof -
  note m = object_members [OF assms]
  have "t_after (toks ! b) - (b + 1) < Suc (length toks)" using m(2) by simp
  from member_from_spec [OF m(1) this, of inp key] show ?thesis
    using assms(2,3) m member_key_bounds [OF m(1)]
    by (fastforce simp: json_member_def split: option.splits)
qed

section \<open>Properties\<close>

text \<open>
  The reader always returns: the fuel of the member loop never runs out, at any
  nesting and from any state inside the input.
\<close>

theorem json_value_terminates: "json_value 9 inp ([], 0) \<noteq> Fuel_Out"
  by (rule json_value_total) simp

text \<open>
  Property C1.  Memory safety of the token array: after a successful \<open>parse\<close> there are between 1
  and 160 tokens, the text of each lies within the input, \<open>after\<close> is a later index within
  the array (so the walks of \<open>member()\<close> and of the array readers make progress), string
  tokens are complete literals, and every object's members are key/value pairs that end exactly
  at its \<open>after\<close>.
\<close>

theorem json_parse_safe:
  assumes "json_parse inp = Some toks"
  shows "0 < length toks \<and> length toks \<le> max_tokens \<and>
    t_after (toks ! 0) = length toks \<and> (\<forall>i < length toks. token_ok inp toks i)"
  using json_parse_tokens [OF assms] by simp

lemma example_object:
  "map_option (\<lambda>toks. (length toks, t_type (toks ! 0)))
     (json_parse ''{\"a\":[1,true],\"b\":-7}'') = Some (7, JObject)"
  by code_simp

theorem json_parse_safe_witness:
  "\<exists>toks. json_parse ''{\"a\":[1,true],\"b\":-7}'' = Some toks \<and> length toks = 7 \<and>
     (\<forall>i < length toks. token_ok ''{\"a\":[1,true],\"b\":-7}'' toks i)"
proof -
  obtain toks where p: "json_parse ''{\"a\":[1,true],\"b\":-7}'' = Some toks" "length toks = 7"
    using example_object by auto
  show ?thesis using json_parse_safe [OF p(1)] p by blast
qed

text \<open>
  Property C2.  \<open>member(object, key)\<close> on a parsed object finds exactly its keys: a result is the
  token right after a key that reads as the one asked for, and lies in the array; the failure
  -1 means that no key of the object reads as it.
\<close>

theorem json_member_correct:
  assumes "json_parse inp = Some toks" and "b < length toks" and "t_type (toks ! b) = JObject"
  shows "case json_member inp toks (Some b) key of
      Some v \<Rightarrow> v < length toks \<and> (\<exists>k. v = k + 1 \<and> member_key toks (t_after (toks ! b)) (b + 1) k \<and>
        read_string 80 inp toks (Some k) = Some key)
    | None \<Rightarrow> \<forall>k. member_key toks (t_after (toks ! b)) (b + 1) k \<longrightarrow>
        read_string 80 inp toks (Some k) \<noteq> Some key"
  by (rule json_member_spec [OF assms])

theorem json_member_correct_witness:
  "\<exists>toks. json_parse ''{\"a\":[1,true],\"b\":-7}'' = Some toks \<and>
     (case json_member ''{\"a\":[1,true],\"b\":-7}'' toks (Some 0) ''b'' of
        Some v \<Rightarrow> v < length toks | None \<Rightarrow> \<forall>k. member_key toks (t_after (toks ! 0)) (0 + 1) k \<longrightarrow>
        read_string 80 ''{\"a\":[1,true],\"b\":-7}'' toks (Some k) \<noteq> Some ''b'')"
proof -
  obtain toks where p: "json_parse ''{\"a\":[1,true],\"b\":-7}'' = Some toks"
    and t: "t_type (toks ! 0) = JObject" and l: "length toks = 7"
    using example_object by auto
  from l have l0: "0 < length toks" by simp
  show ?thesis
    using json_member_correct [OF p l0 t, of "''b''"] p by (auto split: option.splits)
qed

end
