(* ===== verification/Parsers.thy ===== *)
theory Parsers
  imports Json
begin

text \<open>
  The frame parsers of \<open>components/sniffer_core/parsers.cpp\<close>: IEEE 802.11 management frames,
  legacy Bluetooth LE advertisements, Samsung finding advertisements, pwnagotchi beacons and
  ASTM Remote ID messages.  A parser that returns \<open>false\<close> without writing its output is
  \<open>None\<close>; the loops over elements are recursions over the bytes not yet read.
\<close>

section \<open>Byte order\<close>

definition le16 :: "u8 \<Rightarrow> u8 \<Rightarrow> u16" where
  "le16 a b = ucast a OR push_bit 8 (ucast b)"

definition le16_at :: "u8 list \<Rightarrow> nat \<Rightarrow> u16" where
  "le16_at p i = le16 (p ! i) (p ! (i + 1))"

definition le32s_at :: "u8 list \<Rightarrow> nat \<Rightarrow> int" where
  "le32s_at p i =
     sint ((ucast (p ! i) :: u32) OR push_bit 8 (ucast (p ! (i + 1)))
       OR push_bit 16 (ucast (p ! (i + 2))) OR push_bit 24 (ucast (p ! (i + 3))))"

text \<open>\<open>std::copy\<close> of bytes to the start of an array.\<close>

definition copy_into :: "'a list \<Rightarrow> 'a list \<Rightarrow> 'a list" where
  "copy_into v arr = v @ drop (length v) arr"

section \<open>Robust security network element\<close>

definition rsn_group :: "u8 list \<Rightarrow> nat \<Rightarrow> nat option" where
  "rsn_group v pos =
     (if length v < pos + 2 then None
      else let n = unat (le16_at v pos); pos' = pos + 2 in
        if n = 0 \<or> (length v - pos') div 4 < n then None else Some (pos' + n * 4))"

text \<open>\<open>rsn_valid\<close>: the capabilities when the element is well formed.\<close>

definition rsn_valid :: "u8 list \<Rightarrow> u16 option" where
  "rsn_valid v =
     (if length v < 8 \<or> le16_at v 0 \<noteq> 1 then None
      else case rsn_group v 6 of
        None \<Rightarrow> None
      | Some p1 \<Rightarrow> (case rsn_group v p1 of
          None \<Rightarrow> None
        | Some pos \<Rightarrow>
            if pos = length v then Some 0
            else if length v - pos < 2 then None
            else Some (le16_at v pos)))"

section \<open>Names\<close>

definition sanitize_byte :: "u8 \<Rightarrow> char" where
  "sanitize_byte b = (if 32 \<le> b \<and> b \<le> 126 then char_of_byte b else CHR ''?'')"

definition sanitize :: "u8 list \<Rightarrow> string \<Rightarrow> string" where
  "sanitize bytes dst =
     (if dst = [] then dst
      else let n = min (length bytes) (length dst - 1)
           in map sanitize_byte (take n bytes) @ nul # drop (n + 1) dst)"

section \<open>Pwnagotchi advertisements\<close>

text \<open>
  \<open>parse_pwnagotchi\<close> decodes the name straight into the caller's buffer, which keeps what was
  written when a later check fails; so the buffer is part of the result.
\<close>

definition parse_pwnagotchi :: "u8 list \<Rightarrow> string \<Rightarrow> bool \<times> string" where
  "parse_pwnagotchi data name =
     (let inp = map char_of_byte data in
      case json_parse inp of
        None \<Rightarrow> (False, name)
      | Some toks \<Rightarrow>
          if t_type (toks ! 0) \<noteq> JObject then (False, name)
          else case json_integer inp toks (json_member inp toks (Some 0) ''pwnd_tot'') of
            None \<Rightarrow> (False, name)
          | Some pwnd \<Rightarrow>
              if pwnd < 0 \<or> 0xffffffff < pwnd then (False, name)
              else let (ok, name') = json_string inp toks (json_member inp toks (Some 0) ''name'') name
                in if \<not> ok \<or> name' ! 0 = nul then (False, name')
                   else if \<not> list_all (\<lambda>c. 32 \<le> (of_char c :: nat) \<and> (of_char c :: nat) \<le> 126)
                                  (c_str name') then (False, name')
                   else case read_string 33 inp toks (json_member inp toks (Some 0) ''version'') of
                     None \<Rightarrow> (False, name')
                   | Some version \<Rightarrow> (version \<noteq> [], name'))"

section \<open>802.11 management frames\<close>

definition fnv_offset :: u32 where
  "fnv_offset = 2166136261"

definition fnv_step :: "u32 \<Rightarrow> u8 \<Rightarrow> u32" where
  "fnv_step h b = (h XOR ucast b) * 16777619"

text \<open>
  The loop state: the observation, the bytes collected for a pwnagotchi document (an array of 472
  bytes and \<open>pwn_size\<close>), and \<open>ssid_seen\<close>.
\<close>

type_synonym wifi_state = "observation \<times> u8 list \<times> bool"

definition pwn_capacity :: nat where
  "pwn_capacity = 472"

definition wifi_element :: "u8 \<Rightarrow> u8 list \<Rightarrow> wifi_state \<Rightarrow> wifi_state option" where
  "wifi_element ty v st =
     (let (ob, pwn, ssid_seen) = st; n = length v in
      if ty = 0 then
        (if ssid_seen \<or> 32 < n then None
         else Some (ob\<lparr>o_ssid_len := n, o_ssid := copy_into v (o_ssid ob),
                       o_name := sanitize v (o_name ob)\<rparr>, pwn, True))
      else if ty = 48 then
        (if o_rsn ob then None
         else case rsn_valid v of
           None \<Rightarrow> None
         | Some caps \<Rightarrow> Some (ob\<lparr>o_rsn_caps := caps, o_rsn := True, o_protected_network := True\<rparr>,
                             pwn, ssid_seen))
      else if ty = 222 then
        (if pwn_capacity < length pwn + n then None else Some (ob, pwn @ v, ssid_seen))
      else if ty = 221 \<and> 3 \<le> n \<and> o_vendor_len ob = 0 then
        (let len = min n (length (o_vendor ob)) in
         Some (ob\<lparr>o_vendor_fingerprint := foldl fnv_step fnv_offset (take 4 v),
                  o_vendor_len := len, o_vendor := copy_into (take len v) (o_vendor ob)\<rparr>,
               pwn, ssid_seen))
      else Some (ob, pwn, ssid_seen))"

function wifi_elements :: "u8 list \<Rightarrow> wifi_state \<Rightarrow> wifi_state option" where
  "wifi_elements [] st = Some st"
| "wifi_elements [x] st = None"
| "wifi_elements (ty # n # body) st =
     (if length body < unat n then None
      else case wifi_element ty (take (unat n) body) st of
             None \<Rightarrow> None
           | Some st' \<Rightarrow> wifi_elements (drop (unat n) body) st')"
  by pat_completeness auto
termination
  by (relation "measure (\<lambda>(xs, st). length xs)") auto

definition mesh_address :: address where
  "mesh_address = [0xde, 0xad, 0xbe, 0xef, 0xde, 0xad]"

text \<open>What follows the element loop.\<close>

definition wifi_finish :: "u8 list \<Rightarrow> wifi_state \<Rightarrow> observation option" where
  "wifi_finish frame st =
     (let (ob, pwn, ssid_seen) = st;
          ob' = (if pwn \<noteq> [] \<and> o_subtype ob = 8 \<and> o_address ob = mesh_address then
                   (let (ok, name) = parse_pwnagotchi pwn (o_name ob)
                    in if ok then ob\<lparr>o_pwnagotchi := True, o_name := name,
                                     o_address := take 6 (drop 16 frame)\<rparr>
                       else ob\<lparr>o_name := name\<rparr>)
                 else ob)
      in if \<not> ssid_seen \<and> \<not> o_pwnagotchi ob' then None else Some ob')"

definition parse_wifi :: "u8 list \<Rightarrow> observation \<Rightarrow> observation option" where
  "parse_wifi frame out =
     (if length frame < 24 \<or> frame ! 0 AND 0x0f \<noteq> 0 \<or> frame ! 1 AND 0x03 \<noteq> 0 then None
      else
        let subtype = drop_bit 4 (frame ! 0);
            ob = observation0\<lparr>o_ms := o_ms out, o_channel := o_channel out, o_rssi := o_rssi out,
                   o_radio := Wifi, o_subtype := subtype, o_address := take 6 (drop 10 frame)\<rparr>
        in if subtype = 10 \<or> subtype = 12 then
             (if length frame < 26 \<or> frame ! 1 AND 0x40 \<noteq> 0 then None else Some ob)
           else if (subtype \<noteq> 8 \<and> subtype \<noteq> 5 \<and> subtype \<noteq> 4) \<or>
                   length frame < (if subtype = 4 then 24 else 36) then None
           else
             let ob1 = ob\<lparr>o_protected_network := subtype \<noteq> 4 \<and> le16_at frame 34 AND 0x10 \<noteq> 0\<rparr>
             in case wifi_elements (drop (if subtype = 4 then 24 else 36) frame) (ob1, [], False) of
                  None \<Rightarrow> None
                | Some st \<Rightarrow> wifi_finish frame st)"

section \<open>Samsung finding advertisements\<close>

definition samsung_state_of :: "u8 \<Rightarrow> samsung_state" where
  "samsung_state_of b =
     (if b = 1 then RecentlySeparated else if b = 2 then Offline else if b = 3 then LongOffline
      else if b = 5 then Connected else Unknown)"

definition parse_samsung_tag :: "u8 list \<Rightarrow> samsung_tag option" where
  "parse_samsung_tag service =
     (if length service \<noteq> 22 \<or> service ! 0 \<noteq> 0x5a \<or> service ! 1 \<noteq> 0xfd \<or>
         service ! 2 AND 0xf8 \<noteq> 0x10 then None
      else let i = take 8 (drop 6 service) in
        if list_all (\<lambda>b. b = 0) i \<or> list_all (\<lambda>b. b = 0xff) i then None
        else Some \<lparr>st_id = i, st_state = samsung_state_of (service ! 2 AND 7)\<rparr>)"

section \<open>Bluetooth LE advertisements\<close>

definition add_uuid :: "u16 \<Rightarrow> observation \<Rightarrow> observation" where
  "add_uuid u ob =
     (if o_uuid_count ob < length (o_uuids ob)
      then ob\<lparr>o_uuids := (o_uuids ob)[o_uuid_count ob := u], o_uuid_count := o_uuid_count ob + 1\<rparr>
      else ob)"

fun add_uuids :: "u8 list \<Rightarrow> observation \<Rightarrow> observation" where
  "add_uuids (a # b # v) ob = add_uuids v (add_uuid (le16 a b) ob)"
| "add_uuids _ ob = ob"

function add_uuids128 :: "u8 \<Rightarrow> u8 list \<Rightarrow> observation \<Rightarrow> observation" where
  "add_uuids128 ty v ob =
     (if 16 \<le> length v \<and> o_uuid128_count ob < length (o_uuids128 ob) then
        (let ob' = ob\<lparr>o_uuids128 := (o_uuids128 ob)[o_uuid128_count ob := rev (take 16 v)],
                      o_uuid128_count := o_uuid128_count ob + 1\<rparr>
         in if ty = 0x21 then ob' else add_uuids128 ty (drop 16 v) ob')
      else ob)"
  by pat_completeness auto
termination
  by (relation "measure (\<lambda>(ty, v, ob). length v)") auto

declare add_uuids128.simps [simp del]

text \<open>One AD structure; the state is the observation and \<open>full_name\<close>.\<close>

definition ble_structure :: "u8 \<Rightarrow> u8 list \<Rightarrow> observation \<times> bool \<Rightarrow> (observation \<times> bool) option" where
  "ble_structure ty v st =
     (let (ob, full) = st in
      if ty = 2 \<or> ty = 3 then
        (if length v mod 2 \<noteq> 0 then None else Some (add_uuids v ob, full))
      else if ty = 6 \<or> ty = 7 \<or> ty = 0x21 then
        (if (if ty = 0x21 then length v < 16 else length v mod 16 \<noteq> 0) then None
         else Some (add_uuids128 ty v ob, full))
      else if ty = 8 \<or> ty = 9 then
        Some (if ty = 9 \<or> \<not> full then ob\<lparr>o_name := sanitize v (o_name ob)\<rparr> else ob, full \<or> ty = 9)
      else if ty = 0xff then
        (if length v < 2 \<or> o_manufacturer_len ob \<noteq> 0 then None
         else Some (ob\<lparr>o_manufacturer_len := length v,
                       o_manufacturer := copy_into v (o_manufacturer ob)\<rparr>, full))
      else if ty = 0x16 then
        (if length v < 2 \<or> o_service_len ob \<noteq> 0 then None
         else Some (add_uuid (le16_at v 0)
                     (ob\<lparr>o_service_len := length v, o_service := copy_into v (o_service ob)\<rparr>), full))
      else Some (ob, full))"

function ble_structures :: "u8 list \<Rightarrow> observation \<times> bool \<Rightarrow> (observation \<times> bool) option" where
  "ble_structures [] st = Some st"
| "ble_structures (n # body) st =
     (if n = 0 then (if list_all (\<lambda>b. b = 0) body then Some st else None)
      else if length body < unat n then None
      else case ble_structure (body ! 0) (take (unat n - 1) (tl body)) st of
             None \<Rightarrow> None
           | Some st' \<Rightarrow> ble_structures (drop (unat n) body) st')"
  by pat_completeness auto
termination
  by (relation "measure (\<lambda>(xs, st). length xs)") auto

definition parse_ble :: "u8 list \<Rightarrow> observation \<Rightarrow> observation option" where
  "parse_ble data out =
     (if 31 < length data then None
      else case ble_structures data
              (observation0\<lparr>o_ms := o_ms out, o_rssi := o_rssi out, o_address := o_address out,
                 o_address_type := o_address_type out, o_radio := Ble\<rparr>, False) of
        None \<Rightarrow> None
      | Some (ob, full) \<Rightarrow>
          Some (case parse_samsung_tag (take (o_service_len ob) (o_service ob)) of
                  None \<Rightarrow> ob
                | Some tag \<Rightarrow> ob\<lparr>o_samsung := tag\<rparr>))"

section \<open>Remote ID\<close>

record remote_id =
  ri_type :: u8
  ri_latitude_e7 :: int
  ri_longitude_e7 :: int
  ri_location_valid :: bool
  ri_id :: "u8 list"
  ri_id_type :: u8
  ri_aircraft_type :: u8
  ri_status :: u8
  ri_altitude_dm :: int
  ri_altitude_valid :: bool

definition remote_id0 :: remote_id where
  "remote_id0 = \<lparr>ri_type = 0, ri_latitude_e7 = 0, ri_longitude_e7 = 0, ri_location_valid = False,
     ri_id = replicate 20 0, ri_id_type = 0, ri_aircraft_type = 0, ri_status = 0,
     ri_altitude_dm = 0, ri_altitude_valid = False\<rparr>"

definition remote_coordinates :: "u8 list \<Rightarrow> nat \<Rightarrow> remote_id \<Rightarrow> remote_id option" where
  "remote_coordinates m at r =
     (let lat = le32s_at m at; lon = le32s_at m (at + 4) in
      if lat < -900000000 \<or> 900000000 < lat \<or> lon < -1800000000 \<or> 1800000000 < lon then None
      else Some (r\<lparr>ri_latitude_e7 := lat, ri_longitude_e7 := lon,
                   ri_location_valid := lat \<noteq> 0 \<or> lon \<noteq> 0\<rparr>))"

definition remote_altitude :: "u16 \<Rightarrow> remote_id \<Rightarrow> remote_id" where
  "remote_altitude alt r =
     r\<lparr>ri_altitude_valid := alt \<noteq> 0, ri_altitude_dm := int (unat alt) * 5 - 10000\<rparr>"

text \<open>A serial number or registration: printable characters, then only NULs.\<close>

definition remote_text_ok :: "u8 list \<Rightarrow> bool" where
  "remote_text_ok i \<longleftrightarrow>
     list_all (\<lambda>b. 32 \<le> b \<and> b \<le> 126) (takeWhile (\<lambda>b. b \<noteq> 0) i) \<and>
     list_all (\<lambda>b. b = 0) (dropWhile (\<lambda>b. b \<noteq> 0) i)"

definition remote_basic :: "u8 list \<Rightarrow> remote_id \<Rightarrow> remote_id option" where
  "remote_basic m r =
     (let idt = drop_bit 4 (m ! 1); i = take 20 (drop 2 m) in
      if idt < 1 \<or> 4 < idt then None
      else if list_all (\<lambda>b. b = 0) i then None
      else if idt \<le> 2 \<and> \<not> remote_text_ok i then None
      else if m ! 22 \<noteq> 0 \<or> m ! 23 \<noteq> 0 \<or> m ! 24 \<noteq> 0 then None
      else Some (r\<lparr>ri_id_type := idt, ri_aircraft_type := m ! 1 AND 15, ri_id := i\<rparr>))"

definition remote_location :: "u8 list \<Rightarrow> remote_id \<Rightarrow> remote_id option" where
  "remote_location m r0 =
     (let r = r0\<lparr>ri_status := drop_bit 4 (m ! 1)\<rparr> in
      if 3 < ri_status r \<or> m ! 1 AND 8 \<noteq> 0 \<or> 180 < m ! 2 \<or> m ! 23 AND 0xf0 \<noteq> 0 \<or> m ! 24 \<noteq> 0
      then None
      else case remote_coordinates m 5 r of
        None \<Rightarrow> None
      | Some r' \<Rightarrow>
          (let time = le16_at m 21 in
           if time \<noteq> 0xffff \<and> 36000 < time then None
           else Some (remote_altitude (le16_at m 15) r')))"

definition remote_system :: "u8 list \<Rightarrow> remote_id \<Rightarrow> remote_id option" where
  "remote_system m r =
     (if m ! 1 AND 0xe0 \<noteq> 0 \<or> 2 < m ! 1 AND 3 \<or> 1 < drop_bit 2 (m ! 1) AND 7 \<or> m ! 24 \<noteq> 0
      then None
      else case remote_coordinates m 2 r of
        None \<Rightarrow> None
      | Some r' \<Rightarrow> Some (remote_altitude (le16_at m 18) r'))"

definition parse_remote_id :: "u8 list \<Rightarrow> remote_id option" where
  "parse_remote_id p =
     (if length p \<noteq> 29 \<or> p ! 0 \<noteq> 0xfa \<or> p ! 1 \<noteq> 0xff \<or> p ! 2 \<noteq> 0x0d then None
      else let m = drop 4 p; ty = drop_bit 4 (m ! 0); r = remote_id0\<lparr>ri_type := ty\<rparr> in
        if m ! 0 AND 15 \<noteq> 2 \<or> (ty \<noteq> 0 \<and> ty \<noteq> 1 \<and> ty \<noteq> 4) then None
        else if ty = 0 then remote_basic m r
        else if ty = 1 then remote_location m r
        else remote_system m r)"

section \<open>Grades\<close>

definition grade :: "u8 \<Rightarrow> string" where
  "grade score = (if 80 \<le> score then ''high'' else if 50 \<le> score then ''medium''
     else if 20 \<le> score then ''low'' else ''informational'')"

definition badge :: "u8 \<Rightarrow> string" where
  "badge score = (if 80 \<le> score then ''STRONG MATCH'' else if 50 \<le> score then ''LIKELY''
     else ''POSSIBLE'')"


section \<open>Buffer invariants\<close>

text \<open>A \<open>char\<close> buffer whose last byte is NUL, so that reading it as a C string stays inside.\<close>

definition terminated :: "string \<Rightarrow> bool" where
  "terminated buf \<longleftrightarrow> buf \<noteq> [] \<and> last buf = nul"

text \<open>Every array of an observation keeps its capacity, every length field stays within it, and
  the name buffer stays terminated.\<close>

definition wf_obs :: "observation \<Rightarrow> bool" where
  "wf_obs ob \<longleftrightarrow>
     length (o_address ob) = 6 \<and>
     length (o_ssid ob) = 32 \<and> o_ssid_len ob \<le> 32 \<and>
     length (o_name ob) = 33 \<and> terminated (o_name ob) \<and>
     length (o_uuids ob) = 8 \<and> o_uuid_count ob \<le> 8 \<and>
     length (o_uuids128 ob) = 1 \<and> o_uuid128_count ob \<le> 1 \<and> length (o_uuids128 ob ! 0) = 16 \<and>
     length (o_manufacturer ob) = 31 \<and> o_manufacturer_len ob \<le> 31 \<and>
     length (o_service ob) = 31 \<and> o_service_len ob \<le> 31 \<and>
     length (o_vendor ob) = 128 \<and> o_vendor_len ob \<le> 128"

lemma wf_obs0: "wf_obs observation0"
  by (simp add: wf_obs_def observation0_def terminated_def)

lemma length_copy_into [simp]: "length v \<le> length arr \<Longrightarrow> length (copy_into v arr) = length arr"
  by (simp add: copy_into_def)

lemma length_sanitize [simp]: "length (sanitize v dst) = length dst"
  by (cases dst) (auto simp: sanitize_def Let_def min_def)

lemma sanitize_terminated: "terminated dst \<Longrightarrow> terminated (sanitize v dst)"
  by (auto simp: terminated_def sanitize_def Let_def last_drop)

lemma decode_string_length [simp]: "length (snd (decode_string s j out)) = length out"
proof (induction s j out rule: decode_string.induct)
  case (1 s j out)
  then show ?case
    by (subst decode_string.simps) (auto split: option.splits)
qed

lemma decode_string_terminated:
  "terminated out \<Longrightarrow> j < length out \<Longrightarrow> terminated (snd (decode_string s j out))"
proof (induction s j out rule: decode_string.induct)
  case (1 s j out)
  then show ?case
    by (subst decode_string.simps) (auto simp: terminated_def last_list_update split: option.splits)
qed

lemma json_string_length [simp]: "length (snd (json_string inp toks t out)) = length out"
  by (auto simp: json_string_def split: option.splits)

lemma json_string_terminated: "terminated out \<Longrightarrow> terminated (snd (json_string inp toks t out))"
  by (auto simp: json_string_def terminated_def [of out] split: option.splits
      intro!: decode_string_terminated)

lemma parse_pwnagotchi_cases:
  "snd (parse_pwnagotchi data name) = name \<or>
   (\<exists>inp toks t. snd (parse_pwnagotchi data name) = snd (json_string inp toks t name))"
proof (cases "json_parse (map char_of_byte data)")
  case None
  then show ?thesis by (simp add: parse_pwnagotchi_def)
next
  case (Some toks)
  define inp where "inp = map char_of_byte data"
  define t where "t = json_member inp toks (Some 0) ''name''"
  obtain ok buf where j: "json_string inp toks t name = (ok, buf)" by fastforce
  have "snd (parse_pwnagotchi data name) \<in> {name, buf}"
    using Some by (simp add: parse_pwnagotchi_def inp_def [symmetric] t_def [symmetric] j
        split: option.split)
  with j show ?thesis by (metis insertE singletonD snd_conv)
qed

lemma parse_pwnagotchi_length [simp]: "length (snd (parse_pwnagotchi data name)) = length name"
  using parse_pwnagotchi_cases [of data name] by auto

lemma parse_pwnagotchi_terminated:
  "terminated name \<Longrightarrow> terminated (snd (parse_pwnagotchi data name))"
  using parse_pwnagotchi_cases [of data name] json_string_terminated by metis

section \<open>Wi-Fi elements keep the invariant\<close>

lemma wifi_element_wf:
  assumes "wf_obs ob" and "length pwn \<le> pwn_capacity"
    and "wifi_element ty v (ob, pwn, seen) = Some (ob', pwn', seen')"
  shows "wf_obs ob' \<and> length pwn' \<le> pwn_capacity"
proof -
  consider "ty = 0" | "ty = 48" | "ty = 222" | "ty = 221 \<and> 3 \<le> length v \<and> o_vendor_len ob = 0"
    | "ty \<notin> {0, 48, 222} \<and> \<not> (ty = 221 \<and> 3 \<le> length v \<and> o_vendor_len ob = 0)"
    by blast
  then show ?thesis
  proof cases
    case 1
    with assms show ?thesis
      by (auto simp: wifi_element_def wf_obs_def Let_def sanitize_terminated split: if_splits)
  next
    case 2
    with assms show ?thesis
      by (auto simp: wifi_element_def wf_obs_def Let_def split: if_splits option.splits)
  next
    case 3
    with assms show ?thesis by (auto simp: wifi_element_def Let_def split: if_splits)
  next
    case 4
    with assms show ?thesis
      by (auto simp: wifi_element_def wf_obs_def Let_def min_def copy_into_def split: if_splits)
  next
    case 5
    with assms show ?thesis by (auto simp: wifi_element_def Let_def split: if_splits)
  qed
qed

text \<open>What no element changes.\<close>

lemma wifi_element_frame:
  assumes "wifi_element ty v (ob, pwn, seen) = Some (ob', pwn', seen')"
  shows "o_ms ob' = o_ms ob \<and> o_rssi ob' = o_rssi ob \<and> o_channel ob' = o_channel ob \<and>
    o_radio ob' = o_radio ob \<and> o_subtype ob' = o_subtype ob \<and> o_address ob' = o_address ob \<and>
    o_pwnagotchi ob' = o_pwnagotchi ob \<and> (seen \<longrightarrow> seen')"
  using assms by (auto simp: wifi_element_def Let_def split: if_splits option.splits)

lemma wifi_elements_wf:
  "wf_obs ob \<Longrightarrow> length pwn \<le> pwn_capacity \<Longrightarrow>
     wifi_elements xs (ob, pwn, seen) = Some (ob', pwn', seen') \<Longrightarrow>
     wf_obs ob' \<and> length pwn' \<le> pwn_capacity"
proof (induction xs "(ob, pwn, seen)" arbitrary: ob pwn seen rule: wifi_elements.induct)
  case (3 ty n body)
  from "3.prems"(3) obtain ob1 pwn1 seen1
    where e: "wifi_element ty (take (unat n) body) (ob, pwn, seen) = Some (ob1, pwn1, seen1)"
      and l: "\<not> length body < unat n"
      and r: "wifi_elements (drop (unat n) body) (ob1, pwn1, seen1) = Some (ob', pwn', seen')"
    by (auto split: if_splits option.splits)
  from wifi_element_wf [OF "3.prems"(1,2) e] show ?case
    using "3.hyps" [OF l e] r by blast
qed auto

lemma wifi_elements_frame:
  "wifi_elements xs (ob, pwn, seen) = Some (ob', pwn', seen') \<Longrightarrow>
     o_ms ob' = o_ms ob \<and> o_rssi ob' = o_rssi ob \<and> o_channel ob' = o_channel ob \<and>
     o_radio ob' = o_radio ob \<and> o_subtype ob' = o_subtype ob \<and> o_address ob' = o_address ob \<and>
     o_pwnagotchi ob' = o_pwnagotchi ob \<and> (seen \<longrightarrow> seen')"
proof (induction xs "(ob, pwn, seen)" arbitrary: ob pwn seen rule: wifi_elements.induct)
  case (3 ty n body)
  from "3.prems" obtain ob1 pwn1 seen1
    where e: "wifi_element ty (take (unat n) body) (ob, pwn, seen) = Some (ob1, pwn1, seen1)"
      and l: "\<not> length body < unat n"
      and r: "wifi_elements (drop (unat n) body) (ob1, pwn1, seen1) = Some (ob', pwn', seen')"
    by (auto split: if_splits option.splits)
  from wifi_element_frame [OF e] "3.hyps" [OF l e r] show ?case by auto
qed auto

lemma wifi_finish_wf:
  assumes "wifi_finish frame (ob, pwn, seen) = Some ob'" and "wf_obs ob" and "22 \<le> length frame"
  shows "wf_obs ob'"
proof -
  obtain ok name where p: "parse_pwnagotchi pwn (o_name ob) = (ok, name)" by fastforce
  have "length name = length (o_name ob)" "terminated (o_name ob) \<Longrightarrow> terminated name"
    using parse_pwnagotchi_length [of pwn "o_name ob"]
      parse_pwnagotchi_terminated [of "o_name ob" pwn] p by simp_all
  with assms show ?thesis
    by (auto simp: wifi_finish_def wf_obs_def p split: if_splits)
qed

text \<open>The observation before the element loop, and the two ways a frame is accepted.\<close>

definition wifi_start :: "u8 list \<Rightarrow> observation \<Rightarrow> observation" where
  "wifi_start frame out = observation0\<lparr>o_ms := o_ms out, o_channel := o_channel out,
     o_rssi := o_rssi out, o_radio := Wifi, o_subtype := drop_bit 4 (frame ! 0),
     o_address := take 6 (drop 10 frame)\<rparr>"

lemma parse_wifi_cases:
  assumes "parse_wifi frame out = Some ob"
  obtains (short) "24 \<le> length frame" "o_subtype ob \<in> {10, 12}" "ob = wifi_start frame out"
  | (full) prot ob1 pwn seen where "24 \<le> length frame" "drop_bit 4 (frame ! 0) \<in> {4, 5, 8}"
      "wifi_elements (drop (if drop_bit 4 (frame ! 0) = 4 then 24 else 36) frame)
         ((wifi_start frame out)\<lparr>o_protected_network := prot\<rparr>, [], False) = Some (ob1, pwn, seen)"
      "wifi_finish frame (ob1, pwn, seen) = Some ob"
proof -
  define sub where "sub = drop_bit 4 (frame ! 0)"
  have len: "24 \<le> length frame" using assms by (simp add: parse_wifi_def split: if_splits)
  show ?thesis
  proof (cases "sub = 10 \<or> sub = 12")
    case True
    with assms have "o_subtype ob \<in> {10, 12}" "ob = wifi_start frame out"
      by (auto simp: parse_wifi_def Let_def wifi_start_def sub_def split: if_splits)
    with len show ?thesis by (rule short)
  next
    case False
    with assms have "sub \<in> {4, 5, 8}"
      by (auto simp: parse_wifi_def Let_def sub_def [symmetric] split: if_splits)
    moreover obtain st where "wifi_elements (drop (if sub = 4 then 24 else 36) frame)
        ((wifi_start frame out)\<lparr>o_protected_network := sub \<noteq> 4 \<and> le16_at frame 34 AND 0x10 \<noteq> 0\<rparr>,
         [], False) = Some st" "wifi_finish frame st = Some ob"
      using assms False
      by (simp add: parse_wifi_def Let_def wifi_start_def sub_def [symmetric]
          split: if_split_asm option.split_asm)
    ultimately show ?thesis
      using len full by (cases st) (auto simp: sub_def)
  qed
qed

lemma wifi_start_wf: "24 \<le> length frame \<Longrightarrow> wf_obs (wifi_start frame out)"
  using wf_obs0 by (simp add: wifi_start_def wf_obs_def)

lemma parse_wifi_wf:
  assumes "parse_wifi frame out = Some ob"
  shows "wf_obs ob"
  using assms
proof (cases rule: parse_wifi_cases)
  case short
  then show ?thesis by (simp add: wifi_start_wf)
next
  case (full prot ob1 pwn seen)
  have "wf_obs ((wifi_start frame out)\<lparr>o_protected_network := prot\<rparr>)"
    using wifi_start_wf [OF full(1), of out] by (simp add: wf_obs_def)
  from wifi_elements_wf [OF this _ full(3)] wifi_finish_wf [OF full(4)] full(1)
  show ?thesis by simp
qed

lemma wifi_finish_frame:
  "wifi_finish frame (ob, pwn, seen) = Some ob' \<Longrightarrow>
     o_ms ob' = o_ms ob \<and> o_rssi ob' = o_rssi ob \<and> o_channel ob' = o_channel ob \<and>
     o_radio ob' = o_radio ob \<and> o_subtype ob' = o_subtype ob \<and> (seen \<or> o_pwnagotchi ob')"
  by (auto simp: wifi_finish_def split: if_splits prod.splits)

lemma parse_wifi_facts:
  assumes "parse_wifi frame out = Some ob"
  shows "o_radio ob = Wifi \<and> o_subtype ob \<in> {4, 5, 8, 10, 12} \<and> o_ms ob = o_ms out \<and>
    o_channel ob = o_channel out \<and> o_rssi ob = o_rssi out"
  using assms
proof (cases rule: parse_wifi_cases)
  case short
  then show ?thesis by (simp add: wifi_start_def)
next
  case (full prot ob1 pwn seen)
  then show ?thesis
    using wifi_elements_frame [OF full(3)] wifi_finish_frame [OF full(4)]
    by (auto simp: wifi_start_def)
qed

section \<open>Bluetooth structures keep the invariant\<close>

lemma add_uuid_wf: "wf_obs ob \<Longrightarrow> wf_obs (add_uuid u ob)"
  by (simp add: add_uuid_def wf_obs_def)

lemma add_uuids_wf: "wf_obs ob \<Longrightarrow> wf_obs (add_uuids v ob)"
  by (induction v ob rule: add_uuids.induct) (auto intro: add_uuid_wf)

lemma add_uuids128_wf: "wf_obs ob \<Longrightarrow> wf_obs (add_uuids128 ty v ob)"
proof (induction ty v ob rule: add_uuids128.induct)
  case (1 ty v ob)
  show ?case
  proof (cases "16 \<le> length v \<and> o_uuid128_count ob < length (o_uuids128 ob)")
    case True
    let ?ob = "ob\<lparr>o_uuids128 := (o_uuids128 ob)[o_uuid128_count ob := rev (take 16 v)],
      o_uuid128_count := o_uuid128_count ob + 1\<rparr>"
    have "wf_obs ?ob" using "1.prems" True by (auto simp: wf_obs_def)
    with "1.IH" [OF True refl] True show ?thesis by (subst add_uuids128.simps) (simp add: Let_def)
  qed (use "1.prems" in \<open>subst add_uuids128.simps, auto\<close>)
qed

lemma ble_structure_wf:
  assumes "wf_obs ob" and "length v \<le> 29" and "ble_structure ty v (ob, full) = Some (ob', full')"
  shows "wf_obs ob'"
proof -
  consider "ty \<in> {2, 3}" | "ty \<in> {6, 7, 0x21}" | "ty \<in> {8, 9}" | "ty = 0xff" | "ty = 0x16"
    | "ty \<notin> {2, 3, 6, 7, 0x21, 8, 9, 0xff, 0x16}" by blast
  then show ?thesis
  proof cases
    case 1
    with assms show ?thesis by (auto simp: ble_structure_def add_uuids_wf split: if_splits)
  next
    case 2
    with assms show ?thesis by (auto simp: ble_structure_def add_uuids128_wf split: if_splits)
  next
    case 3
    with assms show ?thesis
      by (auto simp: ble_structure_def wf_obs_def sanitize_terminated split: if_splits)
  next
    case 4
    with assms show ?thesis by (auto simp: ble_structure_def wf_obs_def split: if_splits)
  next
    case 5
    with assms show ?thesis
      by (auto simp: ble_structure_def split: if_splits intro!: add_uuid_wf)
         (simp_all add: wf_obs_def)
  next
    case 6
    with assms show ?thesis by (auto simp: ble_structure_def)
  qed
qed

lemma ble_structures_wf:
  "wf_obs ob \<Longrightarrow> length xs \<le> 31 \<Longrightarrow> ble_structures xs (ob, full) = Some (ob', full') \<Longrightarrow> wf_obs ob'"
proof (induction xs "(ob, full)" arbitrary: ob full rule: ble_structures.induct)
  case (2 n body)
  show ?case
  proof (cases "n = 0")
    case True
    with "2.prems" show ?thesis by (auto split: if_splits)
  next
    case False
    from "2.prems"(3) False obtain ob1 full1
      where l: "\<not> length body < unat n"
        and e: "ble_structure (body ! 0) (take (unat n - 1) (tl body)) (ob, full) = Some (ob1, full1)"
        and r: "ble_structures (drop (unat n) body) (ob1, full1) = Some (ob', full')"
      by (auto split: if_splits option.splits)
    have "length (take (unat n - 1) (tl body)) \<le> 29" using "2.prems"(2) by simp
    from ble_structure_wf [OF "2.prems"(1) this e] show ?thesis
      using "2.hyps" [OF False l e _ _ r] "2.prems"(2) by simp
  qed
qed auto

text \<open>What no structure changes.\<close>

definition same_radio_facts :: "observation \<Rightarrow> observation \<Rightarrow> bool" where
  "same_radio_facts ob ob' \<longleftrightarrow> o_ms ob' = o_ms ob \<and> o_rssi ob' = o_rssi ob \<and>
     o_address ob' = o_address ob \<and> o_address_type ob' = o_address_type ob \<and>
     o_radio ob' = o_radio ob \<and> o_samsung ob' = o_samsung ob"

lemma same_radio_facts_trans:
  "same_radio_facts a b \<Longrightarrow> same_radio_facts b c \<Longrightarrow> same_radio_facts a c"
  by (simp add: same_radio_facts_def)

lemma add_uuid_facts: "same_radio_facts ob (add_uuid u ob) \<and> o_name (add_uuid u ob) = o_name ob"
  by (simp add: add_uuid_def same_radio_facts_def)

lemma add_uuids_facts: "same_radio_facts ob (add_uuids v ob) \<and> o_name (add_uuids v ob) = o_name ob"
proof (induction v ob rule: add_uuids.induct)
  case (1 a b v ob)
  then show ?case using add_uuid_facts [of ob "le16 a b"] by (auto intro: same_radio_facts_trans)
qed (simp_all add: same_radio_facts_def)

lemma add_uuids128_facts:
  "same_radio_facts ob (add_uuids128 ty v ob) \<and> o_name (add_uuids128 ty v ob) = o_name ob"
proof (induction ty v ob rule: add_uuids128.induct)
  case (1 ty v ob)
  then show ?case
    by (subst (1 2) add_uuids128.simps) (auto simp: Let_def same_radio_facts_def)
qed

definition printable :: "char \<Rightarrow> bool" where
  "printable c \<longleftrightarrow> 32 \<le> (of_char c :: nat) \<and> (of_char c :: nat) \<le> 126"

lemma sanitize_byte_printable: "printable (sanitize_byte b)"
  by (auto simp: printable_def sanitize_byte_def char_of_byte_def word_le_nat_alt)

lemma printable_not_nul: "printable c \<Longrightarrow> c \<noteq> nul"
  by (auto simp: printable_def)

lemma c_str_sanitize:
  "dst \<noteq> [] \<Longrightarrow> c_str (sanitize v dst) = map sanitize_byte (take (length dst - 1) v)"
proof -
  assume "dst \<noteq> []"
  then have "c_str (sanitize v dst) = map sanitize_byte (take (min (length v) (length dst - 1)) v)"
    using printable_not_nul [OF sanitize_byte_printable]
    by (auto simp: sanitize_def Let_def intro!: c_str_append_nul) metis
  also have "take (min (length v) (length dst - 1)) v = take (length dst - 1) v"
    by (simp add: min_def)
  finally show ?thesis .
qed

definition name_ok :: "observation \<Rightarrow> bool" where
  "name_ok ob \<longleftrightarrow> o_name ob \<noteq> [] \<and> list_all printable (c_str (o_name ob))"

lemma ble_structure_facts:
  assumes "ble_structure ty v (ob, full) = Some (ob', full')"
  shows "same_radio_facts ob ob' \<and> (name_ok ob \<longrightarrow> name_ok ob')"
proof -
  consider "ty \<in> {2, 3}" | "ty \<in> {6, 7, 0x21}" | "ty \<in> {8, 9}" | "ty = 0xff" | "ty = 0x16"
    | "ty \<notin> {2, 3, 6, 7, 0x21, 8, 9, 0xff, 0x16}" by blast
  then show ?thesis
  proof cases
    case 1
    with assms show ?thesis
      using add_uuids_facts [of ob v] by (auto simp: ble_structure_def name_ok_def split: if_splits)
  next
    case 2
    with assms show ?thesis
      using add_uuids128_facts [of ob ty v] by (auto simp: ble_structure_def name_ok_def split: if_splits)
  next
    case 3
    have "name_ok ob \<Longrightarrow> name_ok (ob\<lparr>o_name := sanitize v (o_name ob)\<rparr>)"
      using length_sanitize [of v "o_name ob"]
      by (auto simp: name_ok_def c_str_sanitize list_all_iff sanitize_byte_printable
          simp del: length_sanitize)
    with 3 assms show ?thesis
      by (auto simp: ble_structure_def same_radio_facts_def split: if_splits)
  next
    case 4
    with assms show ?thesis
      by (auto simp: ble_structure_def name_ok_def same_radio_facts_def split: if_splits)
  next
    case 5
    let ?ob = "ob\<lparr>o_service_len := length v, o_service := copy_into v (o_service ob)\<rparr>"
    have "same_radio_facts ob ?ob" by (simp add: same_radio_facts_def)
    moreover have "name_ok ob \<Longrightarrow> name_ok ?ob" by (simp add: name_ok_def)
    ultimately show ?thesis
      using assms 5 add_uuid_facts [of ?ob "le16_at v 0"]
      by (auto simp: ble_structure_def name_ok_def split: if_splits intro: same_radio_facts_trans)
  next
    case 6
    with assms show ?thesis by (auto simp: ble_structure_def same_radio_facts_def)
  qed
qed

lemma ble_structures_facts:
  "ble_structures xs (ob, full) = Some (ob', full') \<Longrightarrow>
     same_radio_facts ob ob' \<and> (name_ok ob \<longrightarrow> name_ok ob')"
proof (induction xs "(ob, full)" arbitrary: ob full rule: ble_structures.induct)
  case (2 n body)
  show ?case
  proof (cases "n = 0")
    case True
    with "2.prems" show ?thesis by (auto simp: same_radio_facts_def split: if_splits)
  next
    case False
    from "2.prems" False obtain ob1 full1
      where l: "\<not> length body < unat n"
        and e: "ble_structure (body ! 0) (take (unat n - 1) (tl body)) (ob, full) = Some (ob1, full1)"
        and r: "ble_structures (drop (unat n) body) (ob1, full1) = Some (ob', full')"
      by (auto split: if_splits option.splits)
    from ble_structure_facts [OF e] "2.hyps" [OF False l e r] show ?thesis
      by (auto intro: same_radio_facts_trans)
  qed
qed (simp add: same_radio_facts_def)

section \<open>Encoding and parsing of element lists\<close>

text \<open>The wire form of a list of AD structures or information elements.\<close>

definition ad_bytes :: "u8 \<times> u8 list \<Rightarrow> u8 list" where
  "ad_bytes a = word_of_nat (length (snd a) + 1) # fst a # snd a"

definition ie_bytes :: "u8 \<times> u8 list \<Rightarrow> u8 list" where
  "ie_bytes a = fst a # word_of_nat (length (snd a)) # snd a"

text \<open>The effect of a list of elements, in order, stopping at the first that is refused.\<close>

primrec fold_until :: "('a \<Rightarrow> 's \<Rightarrow> 's option) \<Rightarrow> 'a list \<Rightarrow> 's \<Rightarrow> 's option" where
  "fold_until f [] s = Some s"
| "fold_until f (x # xs) s = (case f x s of None \<Rightarrow> None | Some s' \<Rightarrow> fold_until f xs s')"

lemma unat_length_byte: "n < 256 \<Longrightarrow> unat (word_of_nat n :: u8) = n"
  by (simp add: unat_of_nat)

lemma ble_structures_encode:
  "list_all (\<lambda>a. length (snd a) < 255) ads \<Longrightarrow>
     ble_structures (concat (map ad_bytes ads) @ replicate k 0) st =
       fold_until (\<lambda>(ty, v). ble_structure ty v) ads st"
proof (induction ads arbitrary: st)
  case Nil
  show ?case by (cases k) (auto simp: list_all_iff)
next
  case (Cons a ads)
  obtain ty v where a: "a = (ty, v)" by (cases a)
  have n: "unat (word_of_nat (length v + 1) :: u8) = length v + 1"
    using Cons.prems a by (intro unat_length_byte) simp
  then have nz: "(word_of_nat (length v + 1) :: u8) \<noteq> 0" by (metis add_is_0 one_neq_zero unat_0)
  from n nz Cons show ?case by (simp add: a ad_bytes_def split: option.split)
qed

lemma wifi_elements_encode:
  "list_all (\<lambda>a. length (snd a) < 256) ies \<Longrightarrow>
     wifi_elements (concat (map ie_bytes ies)) st = fold_until (\<lambda>(ty, v). wifi_element ty v) ies st"
proof (induction ies arbitrary: st)
  case (Cons a ies)
  then show ?case
    by (cases a) (simp add: ie_bytes_def unat_length_byte split: option.split)
qed simp

section \<open>What an advertisement says\<close>

text \<open>
  The sender's side of \<open>parse_ble\<close>: what the AD structures of an advertisement mean, and how each is
  written on the air (Bluetooth Core Specification Supplement, part A).  Nothing here refers to the parser.
\<close>

datatype advert =
    Services bool "u16 list"
  | Services128 bool "u8 list list"
  | Service_Data128 "u8 list" "u8 list"
  | Name_Of bool "u8 list"
  | Company_Data "u8 list"
  | Service_Data u16 "u8 list"
  | Other_Ad u8 "u8 list"

definition wire16 :: "u16 \<Rightarrow> u8 list" where
  "wire16 u = [ucast u, ucast (drop_bit 8 u)]"

fun ad_of :: "advert \<Rightarrow> u8 \<times> u8 list" where
  "ad_of (Services complete us) = (if complete then 3 else 2, concat (map wire16 us))"
| "ad_of (Services128 complete us) = (if complete then 7 else 6, concat (map rev us))"
| "ad_of (Service_Data128 u d) = (0x21, rev u @ d)"
| "ad_of (Name_Of complete n) = (if complete then 9 else 8, n)"
| "ad_of (Company_Data d) = (0xff, d)"
| "ad_of (Service_Data u d) = (0x16, wire16 u @ d)"
| "ad_of (Other_Ad ty v) = (ty, v)"

definition on_air :: "advert list \<Rightarrow> u8 list" where
  "on_air ads = concat (map (\<lambda>a. ad_bytes (ad_of a)) ads)"

text \<open>What makes a structure well formed: whole identifiers, a company in front, and other types for the rest.\<close>

fun advert_ok :: "advert \<Rightarrow> bool" where
  "advert_ok (Services128 complete us) \<longleftrightarrow> list_all (\<lambda>u. length u = 16) us"
| "advert_ok (Service_Data128 u d) \<longleftrightarrow> length u = 16"
| "advert_ok (Company_Data d) \<longleftrightarrow> 2 \<le> length d"
| "advert_ok (Other_Ad ty v) \<longleftrightarrow> ty \<notin> {2, 3, 6, 7, 8, 9, 0x16, 0x21, 0xff}"
| "advert_ok _ \<longleftrightarrow> True"

text \<open>What a list of structures says: the services, the names, the company data and the service data, in order.\<close>

fun services_in :: "advert \<Rightarrow> u16 list" where
  "services_in (Services complete us) = us"
| "services_in (Service_Data u d) = [u]"
| "services_in _ = []"

fun services128_in :: "advert \<Rightarrow> u8 list list" where
  "services128_in (Services128 complete us) = us"
| "services128_in (Service_Data128 u d) = [u]"
| "services128_in _ = []"

fun company_in :: "advert \<Rightarrow> u8 list list" where
  "company_in (Company_Data d) = [d]"
| "company_in _ = []"

fun data_in :: "advert \<Rightarrow> u8 list list" where
  "data_in (Service_Data u d) = [wire16 u @ d]"
| "data_in _ = []"

fun names_in :: "bool \<Rightarrow> advert \<Rightarrow> u8 list list" where
  "names_in complete (Name_Of c n) = (if c = complete then [n] else [])"
| "names_in complete _ = []"

definition said :: "('b \<Rightarrow> 'a list) \<Rightarrow> 'b list \<Rightarrow> 'a list" where
  "said f ads = concat (map f ads)"

text \<open>The name: the last complete one, or else the last shortened one.\<close>

definition name_said :: "advert list \<Rightarrow> u8 list" where
  "name_said ads = last ([] # (if said (names_in True) ads \<noteq> [] then said (names_in True) ads else said (names_in False) ads))"

text \<open>A name as it is shown_text: at most 32 characters, a question mark for whatever is not printable ASCII.\<close>

definition shown_text :: "u8 list \<Rightarrow> string" where
  "shown_text bytes = map (\<lambda>b. if 32 \<le> b \<and> b \<le> 126 then char_of (unat b) else CHR ''?'') (take 32 bytes)"

text \<open>The first items of an array are the first items of a list.\<close>

definition holds_first :: "'a list \<Rightarrow> nat \<Rightarrow> 'a list \<Rightarrow> bool" where
  "holds_first arr n xs \<longleftrightarrow> n = min (length arr) (length xs) \<and> take n arr = take n xs"

lemma holds_first_all: "holds_first arr n xs \<Longrightarrow> length xs \<le> length arr \<Longrightarrow> n = length xs \<and> take n arr = xs"
  unfolding holds_first_def by (metis min_absorb2 order_refl take_all)

definition advert_heard :: "advert list \<Rightarrow> observation \<Rightarrow> bool" where
  "advert_heard ads ob \<longleftrightarrow>
     holds_first (o_uuids ob) (o_uuid_count ob) (said services_in ads) \<and>
     holds_first (o_uuids128 ob) (o_uuid128_count ob) (said services128_in ads) \<and>
     c_str (o_name ob) = shown_text (name_said ads) \<and>
     holds_first (o_manufacturer ob) (o_manufacturer_len ob) (concat (said company_in ads)) \<and>
     holds_first (o_service ob) (o_service_len ob) (concat (said data_in ads))"

lemma said_simps [simp]: "said f [] = []" "said f (ads @ [a]) = said f ads @ f a"
  by (simp_all add: said_def)

lemma shown_sanitize: "length dst = 33 \<Longrightarrow> c_str (sanitize v dst) = shown_text v"
proof -
  assume "length dst = 33"
  then have "c_str (sanitize v dst) = map sanitize_byte (take 32 v)" by (subst c_str_sanitize) auto
  then show ?thesis by (simp add: shown_text_def sanitize_byte_def [abs_def] char_of_byte_def)
qed

lemma le16_parts: "le16 (ucast u) (ucast (drop_bit 8 u)) = u"
  by (rule bit_word_eqI) (auto simp: le16_def bit_simps)

definition keeps_rest :: "observation \<Rightarrow> observation \<Rightarrow> bool" where
  "keeps_rest ob ob' \<longleftrightarrow> o_uuids128 ob' = o_uuids128 ob \<and> o_uuid128_count ob' = o_uuid128_count ob \<and>
     o_name ob' = o_name ob \<and> o_manufacturer ob' = o_manufacturer ob \<and> o_manufacturer_len ob' = o_manufacturer_len ob \<and>
     o_service ob' = o_service ob \<and> o_service_len ob' = o_service_len ob \<and> length (o_uuids ob') = length (o_uuids ob)"

lemma holds_first_snoc:
  assumes "holds_first arr n xs"
  shows "n < length arr \<Longrightarrow> holds_first (arr[n := x]) (Suc n) (xs @ [x])"
    "\<not> n < length arr \<Longrightarrow> holds_first arr n (xs @ ys)"
proof -
  have n: "n = min (length arr) (length xs)" "take n arr = take n xs" using assms unfolding holds_first_def by blast+
  show "holds_first (arr[n := x]) (Suc n) (xs @ [x])" if "n < length arr"
  proof -
    have xs: "n = length xs" using n(1) that by simp
    then have "take (Suc n) (arr[n := x]) = xs @ [x]" using n(2) that by (simp add: take_Suc_conv_app_nth)
    with xs that show ?thesis by (simp add: holds_first_def)
  qed
  show "holds_first arr n (xs @ ys)" if "\<not> n < length arr"
    using n that by (simp add: holds_first_def)
qed

lemma add_uuid_heard:
  assumes "holds_first (o_uuids ob) (o_uuid_count ob) us"
  shows "holds_first (o_uuids (add_uuid u ob)) (o_uuid_count (add_uuid u ob)) (us @ [u]) \<and> keeps_rest ob (add_uuid u ob)"
  using holds_first_snoc(1) [OF assms, of u] holds_first_snoc(2) [OF assms, of "[u]"] by (simp add: add_uuid_def keeps_rest_def)

lemma add_uuids_heard:
  assumes "holds_first (o_uuids ob) (o_uuid_count ob) us"
  shows "let ob' = add_uuids (concat (map wire16 vs)) ob
    in holds_first (o_uuids ob') (o_uuid_count ob') (us @ vs) \<and> keeps_rest ob ob'"
  using assms
proof (induction vs arbitrary: ob us)
  case (Cons v vs)
  note one = add_uuid_heard [OF Cons.prems, of v]
  have "add_uuids (concat (map wire16 (v # vs))) ob = add_uuids (concat (map wire16 vs)) (add_uuid v ob)"
    by (simp add: wire16_def le16_parts)
  with Cons.IH [of "add_uuid v ob" "us @ [v]"] one show ?case by (simp add: keeps_rest_def Let_def)
qed (simp add: keeps_rest_def)

lemma add_uuids128_heard:
  assumes "holds_first (o_uuids128 ob) (o_uuid128_count ob) us" "list_all (\<lambda>u. length u = 16) vs" "ty \<noteq> 0x21"
  shows "\<exists>arr n. add_uuids128 ty (concat (map rev vs)) ob = ob\<lparr>o_uuids128 := arr, o_uuid128_count := n\<rparr> \<and>
    holds_first arr n (us @ vs)"
  using assms(1,2)
proof (induction vs arbitrary: ob us)
  case Nil
  have "add_uuids128 ty (concat (map rev [])) ob = ob" by (subst add_uuids128.simps) simp
  then show ?case using Nil(1) by (intro exI [of _ "o_uuids128 ob"] exI [of _ "o_uuid128_count ob"]) simp
next
  case (Cons v vs)
  have len: "length (rev v) = 16" using Cons.prems by simp
  show ?case
  proof (cases "o_uuid128_count ob < length (o_uuids128 ob)")
    case True
    let ?ob = "ob\<lparr>o_uuids128 := (o_uuids128 ob)[o_uuid128_count ob := v], o_uuid128_count := Suc (o_uuid128_count ob)\<rparr>"
    have "add_uuids128 ty (concat (map rev (v # vs))) ob = add_uuids128 ty (concat (map rev vs)) ?ob"
      using True len assms(3) by (subst add_uuids128.simps) simp
    moreover have "holds_first (o_uuids128 ?ob) (o_uuid128_count ?ob) (us @ [v])"
      using holds_first_snoc(1) [OF Cons.prems(1) True, of v] by simp
    ultimately show ?thesis using Cons.IH [of ?ob "us @ [v]"] Cons.prems(2) by simp
  next
    case False
    then have "add_uuids128 ty (concat (map rev (v # vs))) ob = ob" by (subst add_uuids128.simps) simp
    moreover have "holds_first (o_uuids128 ob) (o_uuid128_count ob) (us @ v # vs)"
      using holds_first_snoc(2) [OF Cons.prems(1) False] .
    ultimately show ?thesis by (intro exI [of _ "o_uuids128 ob"] exI [of _ "o_uuid128_count ob"]) simp
  qed
qed


lemma add_one128_heard:
  assumes "holds_first (o_uuids128 ob) (o_uuid128_count ob) us" "length u = 16"
  shows "\<exists>arr n. add_uuids128 0x21 (rev u @ d) ob = ob\<lparr>o_uuids128 := arr, o_uuid128_count := n\<rparr> \<and>
    holds_first arr n (us @ [u])"
proof (cases "o_uuid128_count ob < length (o_uuids128 ob)")
  case True
  with assms(2) have "add_uuids128 0x21 (rev u @ d) ob =
      ob\<lparr>o_uuids128 := (o_uuids128 ob)[o_uuid128_count ob := u], o_uuid128_count := Suc (o_uuid128_count ob)\<rparr>"
    by (subst add_uuids128.simps) simp
  then show ?thesis using holds_first_snoc(1) [OF assms(1) True, of u] by blast
next
  case False
  then have "add_uuids128 0x21 (rev u @ d) ob = ob" by (subst add_uuids128.simps) simp
  then show ?thesis using holds_first_snoc(2) [OF assms(1) False, of "[u]"]
    by (intro exI [of _ "o_uuids128 ob"] exI [of _ "o_uuid128_count ob"]) simp
qed

lemma holds_first_copy: "length v \<le> length arr \<Longrightarrow> holds_first (copy_into v arr) (length v) v"
  by (simp add: holds_first_def copy_into_def)

text \<open>What the loop over the structures has read so far.\<close>

definition advert_told :: "advert list \<Rightarrow> observation \<times> bool \<Rightarrow> bool" where
  "advert_told ads st \<longleftrightarrow> (case st of (ob, full) \<Rightarrow>
     advert_heard ads ob \<and> length (o_name ob) = 33 \<and> length (o_manufacturer ob) = 31 \<and> length (o_service ob) = 31 \<and>
     (full \<longleftrightarrow> said (names_in True) ads \<noteq> []) \<and> (o_manufacturer_len ob = 0 \<longleftrightarrow> said company_in ads = []) \<and>
     (o_service_len ob = 0 \<longleftrightarrow> said data_in ads = []))"

definition advert_repeated :: "advert list \<Rightarrow> bool" where
  "advert_repeated ads \<longleftrightarrow> 1 < length (said company_in ads) \<or> 1 < length (said data_in ads)"

lemma told_keeps:
  assumes "advert_told ads (ob, full)" "holds_first (o_uuids ob') (o_uuid_count ob') (said services_in (ads @ [a]))" "keeps_rest ob ob'"
    "services128_in a = []" "names_in True a = []" "names_in False a = []" "company_in a = []" "data_in a = []"
  shows "advert_told (ads @ [a]) (ob', full)"
  using assms by (simp add: advert_told_def advert_heard_def keeps_rest_def name_said_def)

lemma told_128:
  assumes "advert_told ads (ob, full)" "holds_first arr n (said services128_in (ads @ [a]))"
    "services_in a = []" "names_in True a = []" "names_in False a = []" "company_in a = []" "data_in a = []"
  shows "advert_told (ads @ [a]) (ob\<lparr>o_uuids128 := arr, o_uuid128_count := n\<rparr>, full)"
  using assms by (simp add: advert_told_def advert_heard_def name_said_def)

lemma ble_structure_told:
  assumes "advert_told ads (ob, full)" and "advert_ok a" and "length (snd (ad_of a)) \<le> 29"
  shows "case ble_structure (fst (ad_of a)) (snd (ad_of a)) (ob, full) of
      None \<Rightarrow> company_in a \<noteq> [] \<and> said company_in ads \<noteq> [] \<or> data_in a \<noteq> [] \<and> said data_in ads \<noteq> []
    | Some st \<Rightarrow> advert_told (ads @ [a]) st \<and> (company_in a = [] \<or> said company_in ads = []) \<and> (data_in a = [] \<or> said data_in ads = [])"
proof (cases a)
  case (Services complete us)
  have h: "holds_first (o_uuids ob) (o_uuid_count ob) (said services_in ads)"
    using assms(1) by (simp add: advert_told_def advert_heard_def)
  have "length (concat (map wire16 us)) mod 2 = 0" by (induction us) (simp_all add: wire16_def)
  with add_uuids_heard [OF h, of us] told_keeps [OF assms(1), of _ a] show ?thesis
    by (simp add: Services ble_structure_def Let_def)
next
  case (Services128 complete us)
  have h: "holds_first (o_uuids128 ob) (o_uuid128_count ob) (said services128_in ads)"
    using assms(1) by (simp add: advert_told_def advert_heard_def)
  have us: "list_all (\<lambda>u. length u = 16) us" using assms(2) Services128 by simp
  then have "length (concat (map rev us)) mod 16 = 0" by (induction us) simp_all
  with add_uuids128_heard [OF h us, of "fst (ad_of a)"] told_128 [OF assms(1), of _ _ a] show ?thesis
    by (auto simp: Services128 ble_structure_def split: if_splits)
next
  case (Service_Data128 u d)
  have h: "holds_first (o_uuids128 ob) (o_uuid128_count ob) (said services128_in ads)"
    using assms(1) by (simp add: advert_told_def advert_heard_def)
  with add_one128_heard [OF h, of u d] told_128 [OF assms(1), of _ _ a] assms(2) show ?thesis
    by (auto simp: Service_Data128 ble_structure_def)
next
  case (Name_Of complete n)
  then show ?thesis using assms(1)
    by (cases complete) (auto simp: ble_structure_def advert_told_def advert_heard_def name_said_def shown_sanitize)
next
  case (Company_Data d)
  have "2 \<le> length d" "length d \<le> 31" using assms(2,3) Company_Data by simp_all
  moreover from this have "d \<noteq> []" by auto
  ultimately show ?thesis using assms Company_Data holds_first_copy [of d "o_manufacturer ob"]
    by (auto simp: ble_structure_def advert_told_def advert_heard_def name_said_def)
next
  case (Service_Data u d)
  let ?v = "wire16 u @ d"
  have h: "holds_first (o_uuids ob) (o_uuid_count ob) (said services_in ads)"
    using assms(1) by (simp add: advert_told_def advert_heard_def)
  have v: "2 \<le> length ?v" "length ?v \<le> 31" "le16_at ?v 0 = u"
    using assms(3) Service_Data by (simp_all add: wire16_def le16_at_def le16_parts)
  let ?ob = "ob\<lparr>o_service_len := length ?v, o_service := copy_into ?v (o_service ob)\<rparr>"
  define x where "x = add_uuid u ?ob"
  have "holds_first (o_uuids x) (o_uuid_count x) (said services_in ads @ [u]) \<and> keeps_rest ?ob x"
    unfolding x_def by (rule add_uuid_heard) (simp add: h)
  moreover have "?v \<noteq> []" using v(1) by auto
  moreover have "length (o_service ob) = 31" using assms(1) by (simp add: advert_told_def)
  moreover have "holds_first (copy_into ?v (o_service ob)) (length ?v) ?v" "length (copy_into ?v (o_service ob)) = 31"
    using v(2) \<open>length (o_service ob) = 31\<close> holds_first_copy [of ?v "o_service ob"] by auto
  ultimately have "advert_told (ads @ [a]) (x, full)" if "said data_in ads = []"
    using assms(1) that Service_Data by (simp add: advert_told_def advert_heard_def keeps_rest_def name_said_def)
  then show ?thesis using assms(1) v Service_Data
    by (cases "said data_in ads = []") (simp_all add: ble_structure_def advert_told_def x_def)
next
  case (Other_Ad ty v)
  then show ?thesis using assms(1,2) by (simp add: ble_structure_def advert_told_def advert_heard_def name_said_def)
qed


lemma ble_structures_told:
  assumes "advert_told pre st" and "list_all advert_ok ads" and "list_all (\<lambda>a. length (snd (ad_of a)) \<le> 29) ads"
    and "\<not> advert_repeated pre"
  shows "case fold_until (\<lambda>(ty, v). ble_structure ty v) (map ad_of ads) st of
      None \<Rightarrow> advert_repeated (pre @ ads)
    | Some st' \<Rightarrow> advert_told (pre @ ads) st' \<and> \<not> advert_repeated (pre @ ads)"
  using assms
proof (induction ads arbitrary: pre st)
  case (Cons a ads)
  obtain ob full where st: "st = (ob, full)" by fastforce
  have a: "advert_told pre (ob, full)" "advert_ok a" "length (snd (ad_of a)) \<le> 29" using Cons.prems st by simp_all
  note step = ble_structure_told [OF a]
  have one: "length (company_in a) \<le> 1" "length (data_in a) \<le> 1" by (cases a; simp)+
  show ?case
  proof (cases "ble_structure (fst (ad_of a)) (snd (ad_of a)) (ob, full)")
    case None
    have two: "1 < length (xs @ ys)" if "xs \<noteq> []" "ys \<noteq> []" for xs ys :: "'b list"
      using that by (cases xs; cases ys) simp_all
    from step have "1 < length (said company_in pre @ company_in a) \<or> 1 < length (said data_in pre @ data_in a)"
      unfolding None option.case by (blast intro: two)
    then have "advert_repeated (pre @ [a])" by (simp only: advert_repeated_def said_simps)
    then have "advert_repeated (pre @ a # ads)" by (auto simp: advert_repeated_def said_def)
    with None show ?thesis by (simp add: st case_prod_unfold)
  next
    case (Some st')
    with step have "advert_told (pre @ [a]) st'" and "\<not> advert_repeated (pre @ [a])"
      using one Cons.prems(4) by (auto simp: advert_repeated_def)
    with Cons.IH [of "pre @ [a]" st', unfolded append_assoc append.simps] Cons.prems(2,3) Some show ?thesis by (simp add: st case_prod_unfold)
  qed
qed simp

lemma told_start:
  "advert_told [] (observation0\<lparr>o_ms := o_ms out, o_rssi := o_rssi out, o_address := o_address out,
     o_address_type := o_address_type out, o_radio := Ble\<rparr>, False)"
  by (simp add: advert_told_def advert_heard_def holds_first_def observation0_def name_said_def shown_text_def c_str_def)

lemma on_air_length: "list_all (\<lambda>a. length (snd (ad_of a)) + 2 \<le> length (on_air ads)) ads"
  by (induction ads) (auto simp: on_air_def ad_bytes_def list_all_iff)

lemma data_length: "length (concat (said data_in ads)) \<le> length (on_air ads)"
proof (induction ads)
  case (Cons a ads)
  then show ?case by (cases a) (simp_all add: said_def on_air_def ad_bytes_def)
qed (simp add: said_def)

section \<open>What a management frame says\<close>

datatype info =
    Ssid "u8 list"
  | Rsn "u8 list" "u8 list list" "u8 list list" "(u16 \<times> u8 list) option"
  | Mesh_Data "u8 list"
  | Vendor "u8 list"
  | Other_Info u8 "u8 list"

fun ie_of :: "info \<Rightarrow> u8 \<times> u8 list" where
  "ie_of (Ssid s) = (0, s)"
| "ie_of (Rsn suite ciphers akms tail) = (48, [1, 0] @ suite @ wire16 (word_of_nat (length ciphers)) @ concat ciphers @
     wire16 (word_of_nat (length akms)) @ concat akms @ (case tail of None \<Rightarrow> [] | Some (caps, rest) \<Rightarrow> wire16 caps @ rest))"
| "ie_of (Mesh_Data d) = (222, d)"
| "ie_of (Vendor d) = (221, d)"
| "ie_of (Other_Info ty v) = (ty, v)"

fun info_ok :: "info \<Rightarrow> bool" where
  "info_ok (Rsn suite ciphers akms tail) \<longleftrightarrow> length suite = 4 \<and> ciphers \<noteq> [] \<and> akms \<noteq> [] \<and>
     list_all (\<lambda>s. length s = 4) ciphers \<and> list_all (\<lambda>s. length s = 4) akms"
| "info_ok (Vendor d) \<longleftrightarrow> 3 \<le> length d"
| "info_ok (Other_Info ty v) \<longleftrightarrow> ty \<notin> {0, 48, 222} \<and> (ty = 221 \<longrightarrow> length v < 3)"
| "info_ok _ \<longleftrightarrow> True"

fun ssid_in :: "info \<Rightarrow> u8 list list" where
  "ssid_in (Ssid s) = [s]"
| "ssid_in _ = []"

fun security_in :: "info \<Rightarrow> u16 list" where
  "security_in (Rsn suite ciphers akms tail) = [case tail of None \<Rightarrow> 0 | Some (caps, rest) \<Rightarrow> caps]"
| "security_in _ = []"

fun mesh_in :: "info \<Rightarrow> u8 list list" where
  "mesh_in (Mesh_Data d) = [d]"
| "mesh_in _ = []"

fun vendor_in :: "info \<Rightarrow> u8 list list" where
  "vendor_in (Vendor d) = [d]"
| "vendor_in _ = []"

text \<open>What makes the parser refuse the frame: a second name or security element, a name or mesh data too long.\<close>

definition info_refused :: "info list \<Rightarrow> bool" where
  "info_refused ies \<longleftrightarrow> 1 < length (said ssid_in ies) \<or> (\<exists>s \<in> set (said ssid_in ies). 32 < length s) \<or>
     1 < length (said security_in ies) \<or> 472 < length (concat (said mesh_in ies))"

text \<open>The buffer of a name.\<close>

definition name_buffer :: "u8 list \<Rightarrow> string" where
  "name_buffer bytes = shown_text bytes @ replicate (33 - length (shown_text bytes)) nul"

definition fnv_hash :: "u8 list \<Rightarrow> u32" where
  "fnv_hash bytes = fold (\<lambda>b h. (h XOR ucast b) * 16777619) bytes 2166136261"

text \<open>The facts of the elements: name, security (as announced in the header or by the element) and vendor.\<close>

definition info_heard :: "bool \<Rightarrow> info list \<Rightarrow> observation \<Rightarrow> bool" where
  "info_heard secret ies ob \<longleftrightarrow>
     holds_first (o_ssid ob) (o_ssid_len ob) (concat (said ssid_in ies)) \<and>
     (o_rsn ob \<longleftrightarrow> said security_in ies \<noteq> []) \<and>
     o_rsn_caps ob = (case said security_in ies of [] \<Rightarrow> 0 | caps # _ \<Rightarrow> caps) \<and>
     (o_protected_network ob \<longleftrightarrow> secret \<or> said security_in ies \<noteq> []) \<and>
     (case said vendor_in ies of
        [] \<Rightarrow> o_vendor_len ob = 0 \<and> o_vendor_fingerprint ob = 0
      | v # _ \<Rightarrow> holds_first (o_vendor ob) (o_vendor_len ob) v \<and> o_vendor_fingerprint ob = fnv_hash (take 4 v))"

lemma name_buffer_sanitize: "sanitize v (replicate 33 nul) = name_buffer v"
proof -
  have "map sanitize_byte (take 32 v) = shown_text v"
    by (simp add: shown_text_def sanitize_byte_def [abs_def] char_of_byte_def)
  moreover have "take (min (length v) 32) v = take 32 v" by (simp add: min_def)
  moreover have "length (shown_text v) = min (length v) 32" by (simp add: shown_text_def)
  moreover have "nul # replicate (32 - n) nul = replicate (33 - n) nul" if "n \<le> 32" for n
    using that by (simp add: Suc_diff_le flip: replicate_Suc)
  ultimately show ?thesis by (simp add: sanitize_def name_buffer_def del: replicate_Suc)
qed

lemma length_wire16 [simp]: "length (wire16 u) = 2" "wire16 u \<noteq> []"
  by (simp_all add: wire16_def)

lemma le16_at_read: "le16_at (pre @ wire16 u @ rest) (length pre) = u"
  by (simp add: le16_at_def wire16_def nth_append le16_parts)

lemma length_concat_fours: "list_all (\<lambda>s. length s = 4) xs \<Longrightarrow> length (concat xs) = 4 * length xs"
  by (induction xs) simp_all

lemma rsn_group_read:
  assumes "list_all (\<lambda>s. length s = 4) xs" "xs \<noteq> []" "length xs < 256"
  shows "rsn_group (pre @ wire16 (word_of_nat (length xs)) @ concat xs @ rest) (length pre) = Some (length pre + 2 + 4 * length xs)"
proof -
  have "unat (word_of_nat (length xs) :: u16) = length xs" using assms(3) by (simp add: unat_of_nat)
  then show ?thesis using assms
    by (simp add: rsn_group_def le16_at_read length_concat_fours Let_def)
qed

lemma rsn_valid_read:
  assumes "info_ok (Rsn suite ciphers akms tail)" "length (snd (ie_of (Rsn suite ciphers akms tail))) < 256"
  shows "rsn_valid (snd (ie_of (Rsn suite ciphers akms tail))) = Some (case tail of None \<Rightarrow> 0 | Some (caps, rest) \<Rightarrow> caps)"
proof -
  define t where "t = (case tail of None \<Rightarrow> [] | Some (caps, rest) \<Rightarrow> wire16 caps @ rest)"
  define one where "one = [1, 0] @ suite"
  define two where "two = one @ wire16 (word_of_nat (length ciphers)) @ concat ciphers"
  define three where "three = two @ wire16 (word_of_nat (length akms)) @ concat akms"
  have ok: "length suite = 4" "list_all (\<lambda>s. length s = 4) ciphers" "ciphers \<noteq> []" "list_all (\<lambda>s. length s = 4) akms" "akms \<noteq> []"
    using assms(1) by simp_all
  have v: "snd (ie_of (Rsn suite ciphers akms tail)) = three @ t"
    by (simp add: three_def two_def one_def t_def)
  have len: "length one = 6" "length two = 8 + 4 * length ciphers" "length three = 10 + 4 * length ciphers + 4 * length akms"
    using ok by (simp_all add: one_def two_def three_def length_concat_fours)
  then have few: "length ciphers < 256" "length akms < 256" using assms(2) unfolding v by simp_all
  have "rsn_group (three @ t) 6 = Some (length two)"
    using rsn_group_read [OF ok(2,3) few(1), of one] len by (simp add: three_def two_def)
  moreover have "rsn_group (three @ t) (length two) = Some (length three)"
    using rsn_group_read [OF ok(4,5) few(2), of two t] len by (simp add: three_def)
  moreover have "le16_at (three @ t) 0 = 1" by (simp add: three_def two_def one_def le16_at_def le16_def)
  moreover have "8 \<le> length (three @ t)" using len by simp
  moreover have "le16_at (three @ wire16 caps @ rest) (length three) = caps" for caps rest by (rule le16_at_read)
  ultimately show ?thesis
    unfolding v by (cases tail) (auto simp: rsn_valid_def t_def)
qed


lemma fnv_hash_steps: "foldl fnv_step fnv_offset v = fnv_hash v"
proof -
  have "foldl fnv_step h v = fold (\<lambda>b h. (h XOR ucast b) * 16777619) v h" for h
    by (induction v arbitrary: h) (simp_all add: fnv_step_def)
  then show ?thesis by (simp add: fnv_hash_def fnv_offset_def)
qed

definition info_told :: "bool \<Rightarrow> info list \<Rightarrow> wifi_state \<Rightarrow> bool" where
  "info_told secret ies st \<longleftrightarrow> (case st of (ob, mesh, seen) \<Rightarrow>
     info_heard secret ies ob \<and> o_name ob = name_buffer (concat (said ssid_in ies)) \<and>
     length (o_ssid ob) = 32 \<and> length (o_vendor ob) = 128 \<and> (seen \<longleftrightarrow> said ssid_in ies \<noteq> []) \<and>
     mesh = concat (said mesh_in ies) \<and> (o_vendor_len ob = 0 \<longleftrightarrow> said vendor_in ies = []))"

lemma info_heard_named [simp]:
  "info_heard secret ies (ob\<lparr>o_pwnagotchi := p, o_name := n, o_address := a\<rparr>) = info_heard secret ies ob"
  by (simp add: info_heard_def split: list.split)

definition info_new :: "info list \<Rightarrow> info \<Rightarrow> bool" where
  "info_new ies i \<longleftrightarrow> (ssid_in i = [] \<or> said ssid_in ies = []) \<and> (\<forall>s \<in> set (ssid_in i). length s \<le> 32) \<and>
     (security_in i = [] \<or> said security_in ies = []) \<and> length (concat (said mesh_in ies)) + length (concat (mesh_in i)) \<le> 472"

lemma sanitize_buffer:
  assumes "dst = name_buffer []"
  shows "sanitize v dst = name_buffer v"
  using assms name_buffer_sanitize [of v] by (simp add: name_buffer_def shown_text_def del: replicate_Suc)

lemma wifi_element_told:
  assumes "info_told secret ies st" and "info_ok i" and "length (snd (ie_of i)) < 256" and "\<not> info_refused ies"
  shows "case wifi_element (fst (ie_of i)) (snd (ie_of i)) st of
      None \<Rightarrow> \<not> info_new ies i
    | Some st' \<Rightarrow> info_told secret (ies @ [i]) st' \<and> info_new ies i"
proof -
  obtain ob mesh seen where st: "st = (ob, mesh, seen)" by (metis surj_pair)
  note told = assms(1) [unfolded st info_told_def prod.case]
  have room: "length (concat (said mesh_in ies)) \<le> 472" using assms(4) by (simp add: info_refused_def)
  show ?thesis
  proof (cases i)
    case (Ssid s)
    have "info_told secret (ies @ [i]) (ob\<lparr>o_ssid_len := length s, o_ssid := copy_into s (o_ssid ob), o_name := sanitize s (o_name ob)\<rparr>,
        mesh, True)" if "said ssid_in ies = []" "length s \<le> 32"
      using told that Ssid holds_first_copy [of s "o_ssid ob"] sanitize_buffer [of "o_name ob" s]
      by (simp add: info_told_def info_heard_def split: list.splits)
    then show ?thesis using told room by (auto simp: Ssid st wifi_element_def info_new_def Let_def)
  next
    case (Rsn suite ciphers akms tail)
    note valid = rsn_valid_read [OF assms(2,3) [unfolded Rsn]]
    have "o_rsn ob \<longleftrightarrow> said security_in ies \<noteq> []" using told by (simp add: info_heard_def)
    then show ?thesis using told room valid
      by (auto simp: Rsn st wifi_element_def info_new_def info_told_def info_heard_def simp del: info_ok.simps split: list.splits)
  next
    case (Mesh_Data d)
    then show ?thesis using told by (auto simp: st wifi_element_def info_new_def info_told_def info_heard_def pwn_capacity_def)
  next
    case (Vendor d)
    have d: "3 \<le> length d" using assms(2) Vendor by simp
    let ?v = "take (min (length d) (length (o_vendor ob))) d"
    have "holds_first (copy_into ?v (o_vendor ob)) (length ?v) d"
      by (simp add: holds_first_def copy_into_def)
    then show ?thesis using told room d
      by (auto simp: Vendor st wifi_element_def info_new_def info_told_def info_heard_def fnv_hash_steps Let_def split: list.splits)
  next
    case (Other_Info ty v)
    then show ?thesis using told room assms(2) by (auto simp: st wifi_element_def info_new_def info_told_def info_heard_def)
  qed
qed


lemma wifi_elements_told:
  assumes "info_told secret pre st" and "list_all info_ok ies" and "list_all (\<lambda>i. length (snd (ie_of i)) < 256) ies"
    and "\<not> info_refused pre"
  shows "case fold_until (\<lambda>(ty, v). wifi_element ty v) (map ie_of ies) st of
      None \<Rightarrow> info_refused (pre @ ies)
    | Some st' \<Rightarrow> info_told secret (pre @ ies) st' \<and> \<not> info_refused (pre @ ies)"
  using assms
proof (induction ies arbitrary: pre st)
  case (Cons i ies)
  have i: "info_told secret pre st" "info_ok i" "length (snd (ie_of i)) < 256" "\<not> info_refused pre" using Cons.prems by simp_all
  note step = wifi_element_told [OF i]
  have one: "length (ssid_in i) \<le> 1" "length (security_in i) \<le> 1" by (cases i; simp)+
  have new: "info_refused (pre @ [i]) \<longleftrightarrow> \<not> info_new pre i"
    using i(4) one by (auto simp: info_refused_def info_new_def not_le le_Suc_eq Suc_lessI)
  show ?case
  proof (cases "wifi_element (fst (ie_of i)) (snd (ie_of i)) st")
    case None
    with step new have "info_refused (pre @ [i])" by simp
    then have "info_refused (pre @ i # ies)" by (auto simp: info_refused_def said_def)
    with None show ?thesis by (simp add: case_prod_unfold)
  next
    case (Some st')
    with step new have "info_told secret (pre @ [i]) st'" "\<not> info_refused (pre @ [i])" by simp_all
    with Cons.IH [of "pre @ [i]" st', unfolded append_assoc append.simps] Cons.prems(2,3) Some show ?thesis
      by (simp add: case_prod_unfold)
  qed
qed simp

text \<open>A beacon, probe response or probe request as it is sent (IEEE 802.11, management frames).\<close>

record sent_frame =
  sf_subtype :: u8
  sf_flags :: u8
  sf_duration :: "u8 list"
  sf_destination :: address
  sf_source :: address
  sf_bssid :: address
  sf_sequence :: "u8 list"
  sf_timing :: "u8 list"
  sf_capabilities :: u16
  sf_elements :: "info list"

definition sent_ok :: "sent_frame \<Rightarrow> bool" where
  "sent_ok f \<longleftrightarrow> sf_subtype f \<in> {4, 5, 8} \<and> sf_flags f AND 3 = 0 \<and> length (sf_duration f) = 2 \<and>
     length (sf_destination f) = 6 \<and> length (sf_source f) = 6 \<and> length (sf_bssid f) = 6 \<and> length (sf_sequence f) = 2 \<and>
     length (sf_timing f) = 10 \<and> list_all info_ok (sf_elements f) \<and> list_all (\<lambda>i. length (snd (ie_of i)) < 256) (sf_elements f)"

definition frame_bytes :: "sent_frame \<Rightarrow> u8 list" where
  "frame_bytes f = [push_bit 4 (sf_subtype f), sf_flags f] @ sf_duration f @ sf_destination f @ sf_source f @ sf_bssid f @
     sf_sequence f @ (if sf_subtype f = 4 then [] else sf_timing f @ wire16 (sf_capabilities f)) @
     concat (map (\<lambda>i. ie_bytes (ie_of i)) (sf_elements f))"

text \<open>Whether the frame is a pwnagotchi's, and the name it then shows.\<close>

definition mesh_name :: "sent_frame \<Rightarrow> bool \<times> string" where
  "mesh_name f = (let buffer = name_buffer (concat (said ssid_in (sf_elements f))); mesh = concat (said mesh_in (sf_elements f))
     in if mesh \<noteq> [] \<and> sf_subtype f = 8 \<and> sf_source f = [0xde, 0xad, 0xbe, 0xef, 0xde, 0xad]
        then parse_pwnagotchi mesh buffer else (False, buffer))"

text \<open>The parser's start on such a frame, and its end.\<close>

definition sent_secret :: "sent_frame \<Rightarrow> bool" where
  "sent_secret f \<longleftrightarrow> sf_subtype f \<noteq> 4 \<and> bit (sf_capabilities f) 4"

definition sent_start :: "sent_frame \<Rightarrow> observation \<Rightarrow> observation" where
  "sent_start f out = observation0\<lparr>o_ms := o_ms out, o_channel := o_channel out, o_rssi := o_rssi out, o_radio := Wifi,
     o_subtype := sf_subtype f, o_address := sf_source f, o_protected_network := sent_secret f\<rparr>"

lemma sent_start_told: "info_told (sent_secret f) [] (sent_start f out, [], False)"
  by (simp add: info_told_def info_heard_def sent_start_def observation0_def holds_first_def name_buffer_def shown_text_def)

lemma sent_addresses:
  assumes "sent_ok f"
  shows "take 6 (drop 10 (frame_bytes f)) = sf_source f" "take 6 (drop 16 (frame_bytes f)) = sf_bssid f"
  using assms by (simp_all add: sent_ok_def frame_bytes_def)

lemma sent_capabilities:
  assumes "sent_ok f" and "sf_subtype f \<noteq> 4"
  shows "le16_at (frame_bytes f) 34 AND 0x10 \<noteq> 0 \<longleftrightarrow> bit (sf_capabilities f) 4"
proof -
  define pre where "pre = [push_bit 4 (sf_subtype f), sf_flags f] @ sf_duration f @ sf_destination f @ sf_source f @
     sf_bssid f @ sf_sequence f @ sf_timing f"
  have "\<exists>rest. frame_bytes f = pre @ wire16 (sf_capabilities f) @ rest" using assms(2) by (simp add: frame_bytes_def pre_def)
  moreover have "length pre = 34" using assms(1) by (simp add: sent_ok_def pre_def)
  ultimately have "le16_at (frame_bytes f) 34 = sf_capabilities f" using le16_at_read [of pre "sf_capabilities f"] by auto
  then show ?thesis using and_exp_eq_0_iff_not_bit [of "sf_capabilities f" 4] by simp
qed

lemma parse_wifi_sent:
  assumes "sent_ok f"
  shows "parse_wifi (frame_bytes f) out =
    (case wifi_elements (concat (map (\<lambda>i. ie_bytes (ie_of i)) (sf_elements f))) (sent_start f out, [], False) of
       None \<Rightarrow> None | Some st \<Rightarrow> wifi_finish (frame_bytes f) st)"
proof -
  define n where "n = (if sf_subtype f = 4 then 24 else 36 :: nat)"
  have ok: "sf_subtype f \<in> {4, 5, 8}" "sf_flags f AND 3 = 0" using assms by (simp_all add: sent_ok_def)
  have "frame_bytes f ! 0 AND 0x0f = 0" "drop_bit 4 (frame_bytes f ! 0) = sf_subtype f" "frame_bytes f ! 1 = sf_flags f"
    using ok(1) by (auto simp: frame_bytes_def)
  moreover have "n \<le> length (frame_bytes f)" "24 \<le> n"
      "drop n (frame_bytes f) = concat (map (\<lambda>i. ie_bytes (ie_of i)) (sf_elements f))"
    using assms by (auto simp: sent_ok_def frame_bytes_def n_def)
  moreover have "sf_subtype f \<noteq> 10" "sf_subtype f \<noteq> 12" using ok(1) by auto
  ultimately show ?thesis using ok sent_capabilities [OF assms] sent_addresses(1) [OF assms]
    by (cases "sf_subtype f = 4") (auto simp: parse_wifi_def n_def sent_start_def sent_secret_def Let_def)
qed

lemma wifi_finish_told:
  assumes "sent_ok f" and "info_told secret (sf_elements f) (ob, mesh, seen)"
    and "o_subtype ob = sf_subtype f" "o_address ob = sf_source f" "\<not> o_pwnagotchi ob"
  shows "wifi_finish (frame_bytes f) (ob, mesh, seen) =
    (if \<not> seen \<and> \<not> fst (mesh_name f) then None else Some (ob\<lparr>o_pwnagotchi := fst (mesh_name f), o_name := snd (mesh_name f),
       o_address := (if fst (mesh_name f) then sf_bssid f else sf_source f)\<rparr>))"
  using assms(2-5) sent_addresses(2) [OF assms(1)]
  by (cases ob) (auto simp: wifi_finish_def info_told_def mesh_name_def mesh_address_def Let_def split: prod.splits if_splits)

section \<open>Properties\<close>

lemma parse_ble_cases:
  assumes "parse_ble data out = Some ob"
  obtains ob1 full where "length data \<le> 31"
    "ble_structures data (observation0\<lparr>o_ms := o_ms out, o_rssi := o_rssi out,
       o_address := o_address out, o_address_type := o_address_type out, o_radio := Ble\<rparr>, False)
       = Some (ob1, full)"
    "ob = (case parse_samsung_tag (take (o_service_len ob1) (o_service ob1)) of
        None \<Rightarrow> ob1 | Some tag \<Rightarrow> ob1\<lparr>o_samsung := tag\<rparr>)"
  using assms by (auto simp: parse_ble_def split: if_splits option.splits)

text \<open>
  Property C3.  Whatever bytes arrive, an observation accepted by \<open>parse_ble\<close> keeps every array at
  its capacity with its length field inside it, its name is a terminated string of printable
  ASCII characters, and time, signal strength and address are those of the packet.
\<close>

theorem parse_ble_safe:
  assumes "parse_ble data out = Some ob" and "length (o_address out) = 6"
  shows "wf_obs ob \<and> list_all printable (c_str (o_name ob)) \<and> o_radio ob = Ble \<and>
    o_ms ob = o_ms out \<and> o_rssi ob = o_rssi out \<and> o_address ob = o_address out \<and>
    o_address_type ob = o_address_type out"
proof -
  obtain ob1 full where d: "length data \<le> 31"
    and b: "ble_structures data (observation0\<lparr>o_ms := o_ms out, o_rssi := o_rssi out,
       o_address := o_address out, o_address_type := o_address_type out, o_radio := Ble\<rparr>, False)
       = Some (ob1, full)"
    and ob: "ob = (case parse_samsung_tag (take (o_service_len ob1) (o_service ob1)) of
        None \<Rightarrow> ob1 | Some tag \<Rightarrow> ob1\<lparr>o_samsung := tag\<rparr>)"
    using assms(1) by (rule parse_ble_cases)
  have "wf_obs ob1"
    by (rule ble_structures_wf [OF _ d b]) (use wf_obs0 assms(2) in \<open>simp add: wf_obs_def\<close>)
  moreover have "name_ok ob1"
    using ble_structures_facts [OF b] by (simp add: name_ok_def observation0_def c_str_def)
  ultimately show ?thesis
    using ble_structures_facts [OF b]
    by (auto simp: ob same_radio_facts_def name_ok_def wf_obs_def split: option.split)
qed

theorem parse_ble_safe_witness:
  "\<exists>ob. parse_ble [3, 9, 0x48, 0x07, 2, 1, 6] observation0 = Some ob \<and> wf_obs ob \<and>
     c_str (o_name ob) = ''H?''"
proof -
  have "map_option (\<lambda>ob. c_str (o_name ob)) (parse_ble [3, 9, 0x48, 0x07, 2, 1, 6] observation0)
      = Some ''H?''"
    by code_simp
  then obtain ob where p: "parse_ble [3, 9, 0x48, 0x07, 2, 1, 6] observation0 = Some ob"
    and n: "c_str (o_name ob) = ''H?''"
    by auto
  have "length (o_address observation0) = 6" by (simp add: observation0_def)
  from parse_ble_safe [OF p this] p n show ?thesis by blast
qed

text \<open>
  Property C4.  \<open>parse_ble\<close> reads an advertisement back: from the bytes of any list of well-formed AD
  structures, padded with zeros, it gets exactly the first eight 16-bit services, the first 128-bit one, the
  name (the last complete one, else the last shortened one), the company data and the service data that were
  sent, and the Samsung identifier inside them; it refuses the packet exactly when company data or service
  data is there twice.
\<close>

theorem parse_ble_roundtrip:
  assumes "list_all advert_ok ads" and "length (on_air ads) + k \<le> 31"
  shows "case parse_ble (on_air ads @ replicate k 0) out of
      None \<Rightarrow> advert_repeated ads
    | Some ob \<Rightarrow> \<not> advert_repeated ads \<and> advert_heard ads ob \<and>
        o_samsung ob = (case parse_samsung_tag (concat (said data_in ads)) of None \<Rightarrow> no_samsung | Some tag \<Rightarrow> tag) \<and>
        o_radio ob = Ble \<and> o_ms ob = o_ms out \<and> o_rssi ob = o_rssi out \<and> o_address ob = o_address out \<and>
        o_address_type ob = o_address_type out"
proof -
  let ?start = "observation0\<lparr>o_ms := o_ms out, o_rssi := o_rssi out, o_address := o_address out,
     o_address_type := o_address_type out, o_radio := Ble\<rparr>"
  have fit: "list_all (\<lambda>a. length (snd (ad_of a)) \<le> 29) ads"
    using on_air_length [of ads] assms(2) by (auto simp: list_all_iff)
  then have "list_all (\<lambda>a. length (snd a) < 255) (map ad_of ads)" by (auto simp: list_all_iff)
  from ble_structures_encode [OF this, of k] have enc: "ble_structures (on_air ads @ replicate k 0) st =
      fold_until (\<lambda>(ty, v). ble_structure ty v) (map ad_of ads) st" for st by (simp add: on_air_def comp_def)
  note loop = ble_structures_told [OF told_start assms(1) fit, of out, unfolded append_Nil]
  have none: "\<not> advert_repeated []" by (simp add: advert_repeated_def)
  show ?thesis
  proof (cases "ble_structures (on_air ads @ replicate k 0) (?start, False)")
    case None
    with loop [OF none] enc assms(2) show ?thesis by (simp add: parse_ble_def)
  next
    case (Some st)
    obtain ob full where st: "st = (ob, full)" by fastforce
    have t: "advert_told ads (ob, full)" "\<not> advert_repeated ads" using loop [OF none] Some enc st by simp_all
    have "o_samsung ?start = no_samsung" by (simp add: observation0_def)
    then have facts: "same_radio_facts ?start ob" "o_samsung ob = no_samsung"
      using ble_structures_facts [OF Some [unfolded st]] by (simp_all add: same_radio_facts_def)
    have "length (concat (said data_in ads)) \<le> 31" using data_length [of ads] assms(2) by simp
    then have data: "take (o_service_len ob) (o_service ob) = concat (said data_in ads)"
      using t(1) by (intro holds_first_all [THEN conjunct2]) (simp_all add: advert_told_def advert_heard_def)
    show ?thesis using t facts data Some assms(2)
      by (auto simp: parse_ble_def st advert_told_def advert_heard_def same_radio_facts_def split: option.split)
  qed
qed

definition example_advert :: "advert list" where
  "example_advert = [Other_Ad 1 [6], Services True [0x180f], Name_Of False [0x48], Service_Data 0xfd5a [0x15, 7], Name_Of True [0x48, 9],
     Company_Data [0x4c, 0, 2]]"

theorem parse_ble_roundtrip_witness:
  "\<exists>ob. parse_ble (on_air example_advert @ replicate 0 0) observation0 = Some ob \<and> take 2 (o_uuids ob) = [0x180f, 0xfd5a] \<and>
    c_str (o_name ob) = ''H?'' \<and> take 3 (o_manufacturer ob) = [0x4c, 0, 2]"
proof -
  have "list_all advert_ok example_advert" "length (on_air example_advert) + 0 \<le> 31" "\<not> advert_repeated example_advert"
    by code_simp+
  moreover have "said services_in example_advert = [0x180f, 0xfd5a]" "shown_text (name_said example_advert) = ''H?''"
      "concat (said company_in example_advert) = [0x4c, 0, 2]"
    by code_simp+
  ultimately obtain ob where ob: "parse_ble (on_air example_advert @ replicate 0 0) observation0 = Some ob" "advert_heard example_advert ob"
    and said: "said services_in example_advert = [0x180f, 0xfd5a]" "shown_text (name_said example_advert) = ''H?''"
      "concat (said company_in example_advert) = [0x4c, 0, 2]"
    using parse_ble_roundtrip [of example_advert 0 observation0] by (auto split: option.splits)
  have "map_option (\<lambda>ob. (length (o_uuids ob), length (o_manufacturer ob)))
      (parse_ble (on_air example_advert @ replicate 0 0) observation0) = Some (8, 31)" by code_simp
  then have "length (o_uuids ob) = 8" "length (o_manufacturer ob) = 31" using ob(1) by simp_all
  then show ?thesis
    using ob said holds_first_all [of "o_uuids ob" "o_uuid_count ob" "[0x180f, 0xfd5a]"]
      holds_first_all [of "o_manufacturer ob" "o_manufacturer_len ob" "[0x4c, 0, 2]"]
    by (intro exI [of _ ob]) (auto simp: advert_heard_def numeral_2_eq_2 numeral_3_eq_3)
qed


text \<open>
  Property C5.  An observation accepted by \<open>parse_wifi\<close> keeps every array within its capacity and
  its name terminated, whatever the frame holds; it is a beacon, probe, deauthentication or
  disassociation frame, and carries the time, channel and signal strength of the packet.
\<close>

theorem parse_wifi_safe:
  assumes "parse_wifi frame out = Some ob"
  shows "wf_obs ob \<and> o_radio ob = Wifi \<and> o_subtype ob \<in> {4, 5, 8, 10, 12} \<and>
    o_ms ob = o_ms out \<and> o_channel ob = o_channel out \<and> o_rssi ob = o_rssi out"
  using parse_wifi_wf [OF assms] parse_wifi_facts [OF assms] by blast

definition example_beacon :: "u8 list" where
  "example_beacon = [0x80, 0] @ replicate 8 0xff @ [2, 3, 4, 5, 6, 7] @ replicate 18 0 @ [0x10, 0]
     @ [0, 2, 0x48, 0x49, 221, 3, 1, 2, 3]"

theorem parse_wifi_safe_witness:
  "\<exists>ob. parse_wifi example_beacon observation0 = Some ob \<and> wf_obs ob \<and> o_subtype ob = 8 \<and>
     o_ssid_len ob = 2"
proof -
  have "map_option (\<lambda>ob. (o_subtype ob, o_ssid_len ob)) (parse_wifi example_beacon observation0)
      = Some (8, 2)"
    by code_simp
  then obtain ob where p: "parse_wifi example_beacon observation0 = Some ob"
    and n: "o_subtype ob = 8" "o_ssid_len ob = 2"
    by auto
  from parse_wifi_safe [OF p] p n show ?thesis by blast
qed

text \<open>
  Property C6.  \<open>parse_wifi\<close> reads a beacon or probe back: from the bytes of a frame with any list of
  well-formed elements it gets the sender, the name, the security element and its capabilities, the first
  vendor element with its fingerprint, and the name of a pwnagotchi, as they were sent; it refuses the frame
  exactly when a name or security element is there twice, a name or the mesh data is too long, or there is
  neither a name nor a pwnagotchi.
\<close>

theorem parse_wifi_roundtrip:
  assumes "sent_ok f"
  shows "case parse_wifi (frame_bytes f) out of
      None \<Rightarrow> info_refused (sf_elements f) \<or> said ssid_in (sf_elements f) = [] \<and> \<not> fst (mesh_name f)
    | Some ob \<Rightarrow> \<not> info_refused (sf_elements f) \<and> (said ssid_in (sf_elements f) \<noteq> [] \<or> fst (mesh_name f)) \<and>
        info_heard (sf_subtype f \<noteq> 4 \<and> bit (sf_capabilities f) 4) (sf_elements f) ob \<and>
        o_pwnagotchi ob = fst (mesh_name f) \<and> o_name ob = snd (mesh_name f) \<and>
        o_address ob = (if fst (mesh_name f) then sf_bssid f else sf_source f) \<and> o_subtype ob = sf_subtype f \<and>
        o_radio ob = Wifi \<and> o_ms ob = o_ms out \<and> o_channel ob = o_channel out \<and> o_rssi ob = o_rssi out"
proof -
  define body where "body = concat (map (\<lambda>i. ie_bytes (ie_of i)) (sf_elements f))"
  have fine: "list_all info_ok (sf_elements f)" "list_all (\<lambda>i. length (snd (ie_of i)) < 256) (sf_elements f)"
    using assms by (simp_all add: sent_ok_def)
  then have "list_all (\<lambda>a. length (snd a) < 256) (map ie_of (sf_elements f))" by (simp add: list_all_iff)
  from wifi_elements_encode [OF this] have "wifi_elements body st =
      fold_until (\<lambda>(ty, v). wifi_element ty v) (map ie_of (sf_elements f)) st" for st by (simp add: body_def comp_def)
  then have loop: "case wifi_elements body (sent_start f out, [], False) of None \<Rightarrow> info_refused (sf_elements f)
     | Some st \<Rightarrow> info_told (sent_secret f) (sf_elements f) st \<and> \<not> info_refused (sf_elements f)"
    using wifi_elements_told [OF sent_start_told [of f out] fine, unfolded append_Nil] by (simp add: info_refused_def)
  show ?thesis
  proof (cases "wifi_elements body (sent_start f out, [], False)")
    case None
    with loop parse_wifi_sent [OF assms] show ?thesis by (simp add: body_def)
  next
    case (Some st)
    obtain ob mesh seen where st: "st = (ob, mesh, seen)" by (metis surj_pair)
    have told: "info_told (sent_secret f) (sf_elements f) (ob, mesh, seen)" "\<not> info_refused (sf_elements f)"
      using loop Some st by simp_all
    have kept: "o_ms ob = o_ms out" "o_rssi ob = o_rssi out" "o_channel ob = o_channel out" "o_radio ob = Wifi"
        "o_subtype ob = sf_subtype f" "o_address ob = sf_source f" "\<not> o_pwnagotchi ob"
      using wifi_elements_frame [OF Some [unfolded st]] by (simp_all add: sent_start_def) (simp add: observation0_def)
    show ?thesis
      using told kept wifi_finish_told [OF assms told(1) kept(5-7)] parse_wifi_sent [OF assms, of out] Some st
      by (auto simp: info_told_def sent_secret_def body_def)
  qed
qed

definition example_sent :: sent_frame where
  "example_sent = \<lparr>sf_subtype = 8, sf_flags = 0, sf_duration = [0, 0], sf_destination = replicate 6 0xff,
     sf_source = [2, 3, 4, 5, 6, 7], sf_bssid = [2, 3, 4, 5, 6, 7], sf_sequence = [0, 0], sf_timing = replicate 10 0,
     sf_capabilities = 0x11, sf_elements = [Ssid [0x48, 0x49], Other_Info 3 [6], Vendor [1, 2, 3],
       Rsn [0, 0xf, 0xac, 4] [[0, 0xf, 0xac, 4]] [[0, 0xf, 0xac, 2]] (Some (0x80, []))]\<rparr>"

theorem parse_wifi_roundtrip_witness:
  "\<exists>ob. parse_wifi (frame_bytes example_sent) observation0 = Some ob \<and> c_str (o_name ob) = ''HI'' \<and> o_rsn_caps ob = 0x80 \<and>
    o_protected_network ob \<and> take 3 (o_vendor ob) = [1, 2, 3]"
proof -
  have "map_option (\<lambda>ob. length (o_vendor ob)) (parse_wifi (frame_bytes example_sent) observation0) = Some 128" by code_simp
  then obtain ob where ob: "parse_wifi (frame_bytes example_sent) observation0 = Some ob" "length (o_vendor ob) = 128" by auto
  have "sent_ok example_sent" by code_simp
  from parse_wifi_roundtrip [OF this, of observation0] have
    "info_heard True (sf_elements example_sent) ob \<and> o_name ob = snd (mesh_name example_sent)"
    using ob by (simp add: example_sent_def bit_simps)
  moreover have "snd (mesh_name example_sent) = name_buffer [0x48, 0x49]"
    by (simp add: mesh_name_def example_sent_def said_def)
  moreover have "c_str (name_buffer [0x48, 0x49]) = ''HI''" by code_simp
  moreover have "said vendor_in (sf_elements example_sent) = [[1, 2, 3]]" "said security_in (sf_elements example_sent) = [0x80]"
    by code_simp+
  ultimately show ?thesis using ob holds_first_all [of "o_vendor ob" "o_vendor_len ob" "[1, 2, 3]"]
    by (intro exI [of _ ob]) (auto simp: info_heard_def numeral_3_eq_3)
qed

lemma samsung_header:
  assumes "(h :: u8) AND 0xf8 = 0x10"
  shows "h AND 7 = 5 \<longleftrightarrow> h = 0x15"
proof
  assume "h AND 7 = 5"
  have "h = h AND (- 1)" by simp
  also have "(- 1) = (0xf8 OR 7 :: u8)" by simp
  finally have "h = (h AND 0xf8) OR (h AND 7)"
    by (simp only: bit.conj_disj_distrib)
  then show "h = 0x15" using assms \<open>h AND 7 = 5\<close> by simp
qed simp

lemma samsung_state_connected: "samsung_state_of b = Connected \<longleftrightarrow> b = 5"
  by (auto simp: samsung_state_of_def)

text \<open>
  \<open>parse_samsung_tag\<close> accepts exactly the documented FD5A payload: 22 bytes with the
  little-endian service UUID, version 1 and type 0 in the header, and an eight-byte identifier
  that is neither all zero nor all one bits.  Only the header 0x15 reports an owner connection.
\<close>

theorem parse_samsung_exact:
  "parse_samsung_tag s = Some t \<longleftrightarrow>
     (\<exists>h a i b. s = [0x5a, 0xfd, h] @ a @ i @ b \<and> length a = 3 \<and> length i = 8 \<and> length b = 8 \<and>
        h AND 0xf8 = 0x10 \<and> i \<noteq> replicate 8 0 \<and> i \<noteq> replicate 8 0xff \<and>
        st_id t = i \<and> st_state t = samsung_state_of (h AND 7) \<and>
        (st_state t = Connected \<longleftrightarrow> h = 0x15))"
proof -
  have rep: "list_all (\<lambda>b. b = x) i \<longleftrightarrow> i = replicate 8 x" if "length i = 8" for i and x :: u8
    using that by (auto simp: list_all_iff intro: replicate_eqI)
  show ?thesis (is "?l = (\<exists>h a i b. ?r h a i b)")
  proof
    assume l: ?l
    then have len: "length s = 22" and u: "s ! 0 = 0x5a" "s ! 1 = 0xfd" "s ! 2 AND 0xf8 = 0x10"
      and i: "take 8 (drop 6 s) \<noteq> replicate 8 0" "take 8 (drop 6 s) \<noteq> replicate 8 0xff"
      and t: "t = \<lparr>st_id = take 8 (drop 6 s), st_state = samsung_state_of (s ! 2 AND 7)\<rparr>"
      by (auto simp: parse_samsung_tag_def Let_def list_all_iff split: if_splits)
    have "s = [s ! 0, s ! 1, s ! 2] @ take 3 (drop 3 s) @ take 8 (drop 6 s) @ drop 14 s"
      using len by (auto simp: list_eq_iff_nth_eq nth_append nth_Cons numeral_eq_Suc less_Suc_eq
          split: nat.splits)
    with u i t len show "\<exists>h a i b. ?r h a i b"
      by (intro exI [of _ "s ! 2"] exI [of _ "take 3 (drop 3 s)"] exI [of _ "take 8 (drop 6 s)"]
          exI [of _ "drop 14 s"]) (auto simp: samsung_state_connected samsung_header)
  next
    assume "\<exists>h a i b. ?r h a i b"
    then obtain h a i b where r: "?r h a i b" by blast
    then have "\<not> list_all (\<lambda>b. b = 0) i" "\<not> list_all (\<lambda>b. b = 0xff) i"
      using rep by auto
    with r show ?l by (auto simp: parse_samsung_tag_def numeral_eq_Suc)
  qed
qed

definition remote_id_in_range :: "remote_id \<Rightarrow> bool" where
  "remote_id_in_range r \<longleftrightarrow>
     ri_type r \<in> {0, 1, 4} \<and>
     \<bar>ri_latitude_e7 r\<bar> \<le> 900000000 \<and> \<bar>ri_longitude_e7 r\<bar> \<le> 1800000000 \<and>
     - 10000 \<le> ri_altitude_dm r \<and> ri_altitude_dm r \<le> 317675 \<and> ri_status r \<le> 3 \<and>
     length (ri_id r) = 20 \<and>
     (ri_type r = 0 \<longrightarrow> 1 \<le> ri_id_type r \<and> ri_id_type r \<le> 4 \<and> (\<exists>b \<in> set (ri_id r). b \<noteq> 0)) \<and>
     (ri_location_valid r \<longrightarrow> ri_type r \<noteq> 0)"

lemma remote_altitude_range:
  "- 10000 \<le> int (unat (a :: u16)) * 5 - 10000 \<and> int (unat a) * 5 - 10000 \<le> 317675"
  using unsigned_less [of a, where 'a = int] by simp

lemma remote_id_type_pos: "drop_bit 4 (x :: u8) \<noteq> 0 \<Longrightarrow> 1 \<le> drop_bit 4 x"
  by (simp add: word_le_nat_alt unat_gt_0 Suc_le_eq)

lemma remote_coordinates_facts:
  assumes "remote_coordinates m at r = Some r'"
  shows "\<bar>ri_latitude_e7 r'\<bar> \<le> 900000000 \<and> \<bar>ri_longitude_e7 r'\<bar> \<le> 1800000000 \<and>
    ri_type r' = ri_type r \<and> ri_status r' = ri_status r \<and> ri_id r' = ri_id r"
  using assms by (auto simp: remote_coordinates_def Let_def split: if_splits)

text \<open>
  Every accepted Remote ID message carries data in range: a supported message type,
  coordinates within the globe, an altitude the field can encode, a status of at most 3, and a
  basic message has an identifier type from 1 to 4 and a 20-byte identifier that is not all zero.
\<close>

theorem parse_remote_id_in_range:
  assumes "parse_remote_id p = Some r"
  shows "remote_id_in_range r"
proof -
  define m where "m = drop 4 p"
  define r0 where "r0 = remote_id0\<lparr>ri_type := drop_bit 4 (m ! 0)\<rparr>"
  have len: "length m = 25" using assms by (simp add: parse_remote_id_def m_def split: if_splits)
  have r0: "ri_latitude_e7 r0 = 0" "ri_longitude_e7 r0 = 0" "ri_altitude_dm r0 = 0"
    "ri_status r0 = 0" "length (ri_id r0) = 20" "\<not> ri_location_valid r0"
    by (simp_all add: r0_def remote_id0_def)
  from assms consider "ri_type r0 = 0" "remote_basic m r0 = Some r"
    | "ri_type r0 = 1" "remote_location m r0 = Some r"
    | "ri_type r0 = 4" "remote_system m r0 = Some r"
    by (auto simp: parse_remote_id_def Let_def m_def r0_def remote_id0_def split: if_splits)
  then show ?thesis
  proof cases
    case 1
    then show ?thesis
      using r0 len
      by (auto simp: remote_basic_def Let_def remote_id_in_range_def list_all_iff not_less
          remote_id_type_pos split: if_splits)
  next
    case 2
    then obtain r1 where c: "remote_coordinates m 5 (r0\<lparr>ri_status := drop_bit 4 (m ! 1)\<rparr>) = Some r1"
      and r: "r = remote_altitude (le16_at m 15) r1" and s: "drop_bit 4 (m ! 1) \<le> 3"
      by (auto simp: remote_location_def Let_def not_less split: if_splits option.splits)
    from remote_coordinates_facts [OF c] show ?thesis
      using r0 2 s remote_altitude_range [of "le16_at m 15"]
      by (simp add: r remote_altitude_def remote_id_in_range_def)
  next
    case 3
    then obtain r1 where c: "remote_coordinates m 2 r0 = Some r1"
      and r: "r = remote_altitude (le16_at m 18) r1"
      by (auto simp: remote_system_def Let_def split: if_splits option.splits)
    from remote_coordinates_facts [OF c] show ?thesis
      using r0 3 remote_altitude_range [of "le16_at m 18"]
      by (simp add: r remote_altitude_def remote_id_in_range_def)
  qed
qed

definition example_remote :: "u8 list" where
  "example_remote = [0xfa, 0xff, 0x0d, 0, 0x12, 0x20, 0, 0, 0, 1, 0, 0, 0, 2, 0, 0, 0] @ replicate 12 0"

theorem parse_remote_id_in_range_witness:
  "\<exists>r. parse_remote_id example_remote = Some r \<and> remote_id_in_range r \<and> ri_latitude_e7 r = 1"
proof -
  have "map_option ri_latitude_e7 (parse_remote_id example_remote) = Some 1"
    by code_simp
  then obtain r where p: "parse_remote_id example_remote = Some r" and l: "ri_latitude_e7 r = 1"
    by auto
  from parse_remote_id_in_range [OF p] p l show ?thesis by blast
qed

end
