(* ===== verification/Matching.thy ===== *)
theory Matching
  imports Parsers
begin

text \<open>
  The rule predicates of \<open>components/sniffer_core/engine.cpp\<close>: the hexadecimal prefix test, the
  evidence group and the score cap of a rule, and \<open>matches\<close>, the verdict of one stateless rule on
  one observation.  Properties: the prefix test accepts exactly the upper-case encodings of byte
  prefixes, every rule is confined to its radio and address class, and caps of weak evidence.
\<close>

section \<open>Hexadecimal prefixes\<close>

definition hex :: "char \<Rightarrow> int" where
  "hex c = (if CHR ''0'' \<le> c \<and> c \<le> CHR ''9'' then of_char c - of_char (CHR ''0'')
     else if CHR ''A'' \<le> c \<and> c \<le> CHR ''F'' then of_char c - of_char (CHR ''A'') + 10
     else - 1)"

definition hex_prefix :: "string \<Rightarrow> u8 list \<Rightarrow> bool" where
  "hex_prefix value bytes \<longleftrightarrow>
     \<not> (value = [] \<or> length value mod 2 \<noteq> 0 \<or> length bytes < length value div 2) \<and>
     list_all (\<lambda>i. let a = hex (value ! (2 * i)); b = hex (value ! (2 * i + 1))
                  in \<not> (a < 0 \<or> b < 0 \<or> uint (bytes ! i) \<noteq> a * 16 + b))
       [0..<length value div 2]"

section \<open>Rules\<close>

text \<open>Exact and prefix rules on the same field share one evidence group.\<close>

definition evidence_group :: "kind \<Rightarrow> nat" where
  "evidence_group k = kind_index k
     - of_bool (kind_index SsidPrefix \<le> kind_index k) - of_bool (kind_index NamePrefix \<le> kind_index k)"

definition evidence_group_count :: nat where
  "evidence_group_count = kind_count - 2"

definition cap :: "rule \<Rightarrow> observation \<Rightarrow> u8" where
  "cap r ob =
     (let limit = r_cap r;
          limit = (if r_generic r \<or> (r_kind r = Oui \<and> o_address ob ! 0 AND 2 \<noteq> 0)
                   then min limit 49 else limit)
      in if r_kind r \<in> {NameExact, NamePrefix, SsidExact, SsidPrefix} then min limit 79 else limit)"

text \<open>The views of the observation that the rules read.\<close>

definition ssid_view :: "observation \<Rightarrow> string" where
  "ssid_view ob = map char_of_byte (take (o_ssid_len ob) (o_ssid ob))"

definition name_view :: "observation \<Rightarrow> string" where
  "name_view ob = c_str (o_name ob)"

definition match_protocol :: "string \<Rightarrow> observation \<Rightarrow> bool" where
  "match_protocol v ob =
     (if v = ''pwnagotchi'' then o_radio ob = Wifi \<and> o_pwnagotchi ob
      else if o_radio ob \<noteq> Ble then False
      else if v = ''apple_find_my''
        then o_manufacturer_len ob = 29 \<and> hex_prefix ''4C001219'' (o_manufacturer ob)
      else if v = ''ibeacon''
        then o_manufacturer_len ob = 25 \<and> hex_prefix ''4C000215'' (o_manufacturer ob) \<and>
          - 126 \<le> int8 (o_manufacturer ob ! 24) \<and> int8 (o_manufacturer ob ! 24) \<le> 20
      else if v = ''find_hub''
        then (o_service_len ob = 23 \<or> o_service_len ob = 24) \<and> hex_prefix ''AAFE'' (o_service ob) \<and>
          (o_service ob ! 2 = 0x40 \<or> o_service ob ! 2 = 0x41)
      else if v = ''fast_pair_model''
        then o_service_len ob = 5 \<and> hex_prefix ''2CFE'' (o_service ob)
      else if v = ''remote_id''
        then parse_remote_id (take (o_service_len ob) (o_service ob)) \<noteq> None
      else False)"

definition hosts_ssid :: "observation \<Rightarrow> bool" where
  "hosts_ssid ob \<longleftrightarrow> o_radio ob = Wifi \<and> (o_subtype ob = 8 \<or> o_subtype ob = 5)"

fun match_kind :: "kind \<Rightarrow> string \<Rightarrow> observation \<Rightarrow> bool" where
  "match_kind Oui v ob =
     (o_radio ob = Wifi \<and> o_address ob ! 0 AND 3 = 0 \<and> hex_prefix v (o_address ob))"
| "match_kind SsidExact v ob = (hosts_ssid ob \<and> ssid_view ob = v)"
| "match_kind SsidPrefix v ob = (hosts_ssid ob \<and> take (length v) (ssid_view ob) = v)"
| "match_kind NameExact v ob = (o_radio ob = Ble \<and> name_view ob = v)"
| "match_kind NamePrefix v ob = (o_radio ob = Ble \<and> take (length v) (name_view ob) = v)"
| "match_kind Uuid16 v ob =
     (o_radio ob = Ble \<and> length v = 4 \<and>
      list_ex (\<lambda>u. hex_prefix v [ucast (drop_bit 8 u), ucast u]) (take (o_uuid_count ob) (o_uuids ob)))"
| "match_kind Uuid128 v ob =
     (o_radio ob = Ble \<and> length v = 32 \<and> o_uuid128_count ob \<noteq> 0 \<and>
      hex_prefix v (o_uuids128 ob ! 0))"
| "match_kind Company v ob =
     (o_radio ob = Ble \<and> 2 \<le> o_manufacturer_len ob \<and>
      hex_prefix v [o_manufacturer ob ! 1, o_manufacturer ob ! 0])"
| "match_kind Payload v ob =
     (if o_radio ob = Wifi then hex_prefix v (take (o_vendor_len ob) (o_vendor ob))
      else hex_prefix v (take (o_manufacturer_len ob) (o_manufacturer ob)))"
| "match_kind Protocol v ob = match_protocol v ob"
| "match_kind Behavior v ob = False"

definition matches :: "rule \<Rightarrow> observation \<Rightarrow> bool" where
  "matches r ob = match_kind (r_kind r) (r_value r) ob"

section \<open>Lemmas\<close>

lemma evidence_group_less [layout]: "evidence_group k < evidence_group_count"
  by (cases k) (simp_all add: evidence_group_def evidence_group_count_def kind_count_def)

lemma evidence_group_eq:
  "evidence_group k = evidence_group k' \<longleftrightarrow>
     k = k' \<or> {k, k'} = {SsidExact, SsidPrefix} \<or> {k, k'} = {NameExact, NamePrefix}"
  by (cases k; cases k') (simp_all add: evidence_group_def doubleton_eq_iff)

text \<open>The upper-case encoding of a byte.\<close>

definition hex_char :: "nat \<Rightarrow> char" where
  "hex_char n = (if n < 10 then char_of (48 + n) else char_of (55 + n))"

definition hex_byte :: "u8 \<Rightarrow> string" where
  "hex_byte b = [hex_char (unat b div 16), hex_char (unat b mod 16)]"

definition hex_bytes :: "u8 list \<Rightarrow> string" where
  "hex_bytes bs = concat (map hex_byte bs)"

lemma length_hex_bytes [simp]: "length (hex_bytes bs) = 2 * length bs"
  by (induction bs) (simp_all add: hex_bytes_def hex_byte_def)

lemma hex_char_hex [simp]: "n < 16 \<Longrightarrow> hex (hex_char n) = int n"
proof -
  have "list_all (\<lambda>n. hex (hex_char n) = int n) [0..<16]" by code_simp
  then show "n < 16 \<Longrightarrow> hex (hex_char n) = int n" by (simp add: list_all_iff)
qed

lemma hex_range:
  assumes "0 \<le> hex c"
  shows "hex c < 16 \<and> c = hex_char (nat (hex c))"
proof -
  define n where "n = (of_char c :: nat)"
  have c: "c = char_of n" by (simp add: n_def)
  have i: "(of_char c :: int) = int n" by (simp add: of_char_def n_def)
  from assms consider "48 \<le> n" "n \<le> 57" "hex c = int n - 48"
    | "65 \<le> n" "n \<le> 70" "hex c = int n - 55"
    unfolding hex_def i by (auto simp: less_eq_char_def n_def split: if_splits)
  then show ?thesis
  proof cases
    case 1
    then have "nat (hex c) = n - 48" "n - 48 < 10" by simp_all
    with 1 show ?thesis by (simp add: hex_char_def c)
  next
    case 2
    then have "nat (hex c) = n - 55" "\<not> n - 55 < 10" by simp_all
    with 2 show ?thesis by (simp add: hex_char_def c)
  qed
qed

lemma unat_byte_digits: "unat (d :: u8) div 16 < 16 \<and> unat d mod 16 < 16"
  using unsigned_less [of d, where 'a = nat] by auto

lemma hex_pair:
  "0 \<le> hex a \<and> 0 \<le> hex b \<and> uint d = hex a * 16 + hex b \<longleftrightarrow> [a, b] = hex_byte d"
proof
  assume l: "0 \<le> hex a \<and> 0 \<le> hex b \<and> uint d = hex a * 16 + hex b"
  then have r: "hex a < 16" "hex b < 16" "a = hex_char (nat (hex a))" "b = hex_char (nat (hex b))"
    using hex_range [of a] hex_range [of b] by blast+
  have u: "unat d = nat (hex b) + nat (hex a) * 16"
    using l by (simp add: unat_eq_nat_uint nat_add_distrib nat_mult_distrib)
  have "nat (hex b) < 16" using r(2) by simp
  then have "unat d div 16 = nat (hex a)" "unat d mod 16 = nat (hex b)"
    by (simp_all add: u)
  then show "[a, b] = hex_byte d" unfolding hex_byte_def using r(3,4) by metis
next
  assume "[a, b] = hex_byte d"
  then have a: "a = hex_char (unat d div 16)" and b: "b = hex_char (unat d mod 16)"
    by (simp_all add: hex_byte_def)
  have "hex a = int (unat d div 16)" "hex b = int (unat d mod 16)"
    unfolding a b using unat_byte_digits [of d] by (simp_all only: hex_char_hex)
  moreover have "uint d = int (unat d div 16) * 16 + int (unat d mod 16)"
    unfolding uint_nat by presburger
  ultimately show "0 \<le> hex a \<and> 0 \<le> hex b \<and> uint d = hex a * 16 + hex b" by simp
qed

lemma hex_bytes_iff:
  "length v = 2 * length bs \<Longrightarrow>
     (\<forall>i < length bs. [v ! (2 * i), v ! (2 * i + 1)] = hex_byte (bs ! i)) \<longleftrightarrow> v = hex_bytes bs"
proof (induction bs arbitrary: v)
  case (Cons d bs)
  then obtain a b v' where v: "v = a # b # v'" and l: "length v' = 2 * length bs"
    by (cases v; cases "tl v") auto
  show ?case
    using Cons.IH [OF l] by (simp add: v All_less_Suc2 hex_bytes_def hex_byte_def)
qed (simp add: hex_bytes_def)

lemma cap_le: "cap r ob \<le> r_cap r"
  by (auto simp: cap_def Let_def min_le_iff_disj)

lemma cap_generic: "r_generic r \<Longrightarrow> cap r ob \<le> 49"
  by (auto simp: cap_def Let_def min.coboundedI1)

lemma cap_textual:
  "r_kind r \<in> {NameExact, NamePrefix, SsidExact, SsidPrefix} \<Longrightarrow> cap r ob \<le> 79"
  by (auto simp: cap_def Let_def)

lemma matches_radio:
  assumes "matches r ob"
  shows "r_kind r \<in> {Oui, SsidExact, SsidPrefix} \<Longrightarrow> o_radio ob = Wifi"
    and "r_kind r \<in> {NameExact, NamePrefix, Uuid16, Uuid128, Company} \<Longrightarrow> o_radio ob = Ble"
  using assms by (auto simp: matches_def hosts_ssid_def)

lemma hex_pair_test:
  "(let a' = hex a; b' = hex b in \<not> (a' < 0 \<or> b' < 0 \<or> uint d \<noteq> a' * 16 + b')) \<longleftrightarrow>
     [a, b] = hex_byte d"
  unfolding hex_pair [symmetric] Let_def by linarith

lemma hex_prefix_alt:
  "hex_prefix v bytes \<longleftrightarrow> v \<noteq> [] \<and> length v mod 2 = 0 \<and> length v div 2 \<le> length bytes \<and>
      (\<forall>i < length v div 2. [v ! (2 * i), v ! (2 * i + 1)] = hex_byte (bytes ! i))"
  unfolding hex_prefix_def hex_pair_test by (simp only: list_all_iff set_upt atLeastLessThan_iff
      de_Morgan_disj not_not not_less Ball_def le0 simp_thms conj_assoc)

lemma hex_prefix_split:
  "hex_prefix v bytes \<longleftrightarrow> v \<noteq> [] \<and> (\<exists>bs tail. bytes = bs @ tail \<and> length v = 2 * length bs \<and>
      (\<forall>i < length bs. [v ! (2 * i), v ! (2 * i + 1)] = hex_byte (bs ! i)))" (is "_ = ?r")
proof
  assume l: "hex_prefix v bytes"
  then have n: "length v = 2 * length (take (length v div 2) bytes)"
    by (auto simp: hex_prefix_alt)
  show ?r
    using l n by (intro conjI exI [of _ "take (length v div 2) bytes"]
        exI [of _ "drop (length v div 2) bytes"]) (auto simp: hex_prefix_alt)
next
  assume ?r
  then show "hex_prefix v bytes" by (auto simp: hex_prefix_alt nth_append)
qed

section \<open>Properties\<close>

text \<open>
  The prefix test of OUI, UUID, company and payload rules accepts a rule value
  exactly when it is the upper-case hexadecimal encoding of a non-empty prefix of the bytes.
\<close>

theorem hex_prefix_iff:
  "hex_prefix v bytes \<longleftrightarrow> (\<exists>bs tail. bs \<noteq> [] \<and> v = hex_bytes bs \<and> bytes = bs @ tail)"
proof -
  have "length v = 2 * length bs \<and>
      (\<forall>i < length bs. [v ! (2 * i), v ! (2 * i + 1)] = hex_byte (bs ! i)) \<longleftrightarrow> v = hex_bytes bs" for bs
    using hex_bytes_iff [of v bs] length_hex_bytes [of bs] by metis
  moreover have "hex_bytes bs = [] \<longleftrightarrow> bs = []" for bs
    using length_hex_bytes [of bs] by (metis length_0_conv mult_is_0 zero_neq_numeral)
  ultimately show ?thesis unfolding hex_prefix_split by metis
qed

end
