(* ===== verification/Engine.thy ===== *)
theory Engine
  imports Matching
begin

text \<open>
  The detection engine of \<open>components/sniffer_core/engine.cpp\<close>: the deauthentication burst rings,
  the table of remembered access points, the evidence cache, the fusion of evidence into a score,
  and the rate-limited emission of detections.  The C++ member pointers into \<open>cache_\<close> and
  \<open>bursts_\<close> are slot indices, so two categories that end up on the same slot share its entry here
  as they do in the code.  Rule pointers are the rules themselves.
\<close>

section \<open>State\<close>

record evidence =
  ev_rule :: "rule option"
  ev_at :: u32

definition no_evidence :: evidence where
  "no_evidence = \<lparr>ev_rule = None, ev_at = 0\<rparr>"

record entry =
  e_detection :: detection
  e_emitted :: u64
  e_emitted_samsung_state :: samsung_state
  e_evidence :: "evidence list"

definition entry0 :: entry where
  "entry0 = \<lparr>e_detection = detection0, e_emitted = 0, e_emitted_samsung_state = Unavailable,
     e_evidence = replicate evidence_group_count no_evidence\<rparr>"

record burst =
  b_used :: bool
  b_address :: address
  b_channel :: u8
  b_times :: "u64 list"
  b_count :: nat
  b_next :: nat
  b_last :: u64

definition burst0 :: burst where
  "burst0 = \<lparr>b_used = False, b_address = replicate 6 0, b_channel = 0, b_times = replicate 20 0,
     b_count = 0, b_next = 0, b_last = 0\<rparr>"

record access_point =
  a_used :: bool
  a_ms :: u64
  a_address :: address
  a_ssid :: "u8 list"
  a_ssid_len :: nat
  a_protected_network :: bool
  a_rsn_caps :: u16
  a_rssi :: int
  a_channel :: u8
  a_vendor_fingerprint :: u32

definition access_point0 :: access_point where
  "access_point0 = \<lparr>a_used = False, a_ms = 0, a_address = replicate 6 0, a_ssid = replicate 32 0,
     a_ssid_len = 0, a_protected_network = False, a_rsn_caps = 0, a_rssi = 0, a_channel = 0,
     a_vendor_fingerprint = 0\<rparr>"

record engine =
  g_rules :: "rule list"
  g_cache :: "entry list"
  g_bursts :: "burst list"
  g_aps :: "access_point list"
  g_next_emit :: u64

definition engine0 :: "rule list \<Rightarrow> engine" where
  "engine0 rules = \<lparr>g_rules = rules, g_cache = replicate 128 entry0, g_bursts = replicate 16 burst0,
     g_aps = replicate 24 access_point0, g_next_emit = 0\<rparr>"

section \<open>Behaviour rules\<close>

text \<open>\<open>deauth_burst\<close>: one ring of the last 20 time stamps per transmitter and channel.\<close>

definition burst_push :: "u64 \<Rightarrow> burst \<Rightarrow> burst" where
  "burst_push ms b = b\<lparr>b_times := (b_times b)[b_next b := ms],
     b_next := (b_next b + 1) mod length (b_times b),
     b_count := min 20 (b_count b + 1), b_last := ms\<rparr>"

definition burst_fires :: "u64 \<Rightarrow> burst \<Rightarrow> bool" where
  "burst_fires ms b \<longleftrightarrow> b_count b = 20 \<and> b_times b ! b_next b \<le> ms \<and>
     ms - b_times b ! b_next b \<le> 10000"

definition burst_slot :: "address \<Rightarrow> u8 \<Rightarrow> burst list \<Rightarrow> nat \<times> bool" where
  "burst_slot address channel bs =
     pick_slot (\<lambda>x. b_used x \<and> b_address x = address \<and> b_channel x = channel)
       (\<lambda>x. \<not> b_used x) b_last bs"

definition burst_record :: "address \<Rightarrow> u8 \<Rightarrow> u64 \<Rightarrow> burst list \<Rightarrow> burst list \<times> bool" where
  "burst_record address channel ms bs =
     (let (i, found) = burst_slot address channel bs;
          b = (if found then bs ! i
               else burst0\<lparr>b_used := True, b_address := address, b_channel := channel\<rparr>);
          b = burst_push ms b
      in (bs[i := b], burst_fires ms b))"

text \<open>
  The two security rules compare the observation with the access points remembered in the last
  30 seconds.
\<close>

definition ap_clues :: "access_point \<Rightarrow> observation \<Rightarrow> nat" where
  "ap_clues a ob =
     of_bool (a_address a ! 0 \<noteq> o_address ob ! 0 \<or> a_address a ! 1 \<noteq> o_address ob ! 1 \<or>
              a_address a ! 2 \<noteq> o_address ob ! 2)
     + of_bool (a_rsn_caps a AND 0xc0 \<noteq> o_rsn_caps ob AND 0xc0)
     + of_bool (a_vendor_fingerprint a \<noteq> 0 \<and> o_vendor_fingerprint ob \<noteq> 0 \<and>
                a_vendor_fingerprint a \<noteq> o_vendor_fingerprint ob)
     + of_bool (a_channel a \<noteq> o_channel ob \<and> 20 \<le> \<bar>a_rssi a - o_rssi ob\<bar>)"

definition ap_conflict :: "string \<Rightarrow> observation \<Rightarrow> access_point \<Rightarrow> bool" where
  "ap_conflict v ob a \<longleftrightarrow>
     \<not> (\<not> a_used a \<or> o_ms ob < a_ms a \<or> 30000 < o_ms ob - a_ms a \<or> a_address a = o_address ob) \<and>
     o_ssid_len ob = a_ssid_len a \<and>
     take (o_ssid_len ob) (o_ssid ob) = take (o_ssid_len ob) (a_ssid a) \<and>
     o_protected_network ob \<noteq> a_protected_network a \<and>
     (v = ''security_downgrade'' \<or> 2 \<le> ap_clues a ob)"

definition behavior :: "rule \<Rightarrow> observation \<Rightarrow> engine \<Rightarrow> engine \<times> bool" where
  "behavior r ob g =
     (if o_radio ob \<noteq> Wifi then (g, False)
      else if r_value r = ''deauth_burst'' then
        (if o_subtype ob \<noteq> 10 \<and> o_subtype ob \<noteq> 12 then (g, False)
         else let (bs, fires) = burst_record (o_address ob) (o_channel ob) (o_ms ob) (g_bursts g)
              in (g\<lparr>g_bursts := bs\<rparr>, fires))
      else if r_value r = ''security_downgrade'' \<or> r_value r = ''security_corroborated'' then
        (if (o_subtype ob \<noteq> 8 \<and> o_subtype ob \<noteq> 5) \<or> o_ssid_len ob = 0 then (g, False)
         else (g, list_ex (ap_conflict (r_value r) ob) (g_aps g)))
      else (g, False))"

definition ap_of :: "observation \<Rightarrow> access_point" where
  "ap_of ob = \<lparr>a_used = True, a_ms = o_ms ob, a_address = o_address ob, a_ssid = o_ssid ob,
     a_ssid_len = o_ssid_len ob, a_protected_network = o_protected_network ob,
     a_rsn_caps = o_rsn_caps ob, a_rssi = o_rssi ob, a_channel = o_channel ob,
     a_vendor_fingerprint = o_vendor_fingerprint ob\<rparr>"

definition ap_put :: "address \<Rightarrow> access_point \<Rightarrow> access_point list \<Rightarrow> access_point list" where
  "ap_put address a aps =
     aps[fst (pick_slot (\<lambda>x. a_used x \<and> a_address x = address) (\<lambda>x. \<not> a_used x) a_ms aps) :=
       a\<lparr>a_used := True, a_address := address\<rparr>]"

definition remember_ap :: "observation \<Rightarrow> engine \<Rightarrow> engine" where
  "remember_ap ob g =
     (if o_radio ob \<noteq> Wifi \<or> (o_subtype ob \<noteq> 8 \<and> o_subtype ob \<noteq> 5) \<or> o_ssid_len ob = 0 \<or>
         o_pwnagotchi ob then g
      else g\<lparr>g_aps := ap_put (o_address ob) (ap_of ob) (g_aps g)\<rparr>)"

section \<open>The evidence cache\<close>

text \<open>Looking up or claiming the entry of a category for this observation.\<close>

definition same_entry :: "rule \<Rightarrow> observation \<Rightarrow> entry \<Rightarrow> bool" where
  "same_entry r ob e =
     (let d = e_detection e;
          payload_identity = samsung_identity d \<and> samsung_valid (o_samsung ob);
          same = (if payload_identity then st_id (d_samsung d) = st_id (o_samsung ob)
                  else d_address d = o_address ob \<and> d_address_type d = o_address_type ob)
      in d_seen_count d \<noteq> 0 \<and> same \<and> d_category d = r_category r \<and> d_radio d = o_radio ob)"

definition fresh_entry :: "rule \<Rightarrow> observation \<Rightarrow> entry" where
  "fresh_entry r ob = entry0\<lparr>e_detection := detection0\<lparr>d_category := r_category r,
     d_radio := o_radio ob, d_address := o_address ob, d_address_type := o_address_type ob,
     d_first_ms := o_ms ob, d_rssi_min := o_rssi ob, d_rssi_max := o_rssi ob\<rparr>\<rparr>"

definition update_entry :: "observation \<Rightarrow> entry \<Rightarrow> entry" where
  "update_entry ob e =
     (let d = e_detection e;
          e = (if o_ms ob < d_last_ms d \<or> 30000 < o_ms ob - d_last_ms d
               then e\<lparr>e_evidence := replicate evidence_group_count no_evidence\<rparr> else e);
          d = d\<lparr>d_last_ms := o_ms ob, d_address := o_address ob, d_address_type := o_address_type ob,
                d_samsung := (if d_category d = SAMSUNG_TAG \<and> o_radio ob = Ble
                              then o_samsung ob else no_samsung),
                d_channel := o_channel ob, d_rssi_min := min (d_rssi_min d) (o_rssi ob),
                d_rssi_max := max (d_rssi_max d) (o_rssi ob)\<rparr>;
          d = (if d_seen_count d \<noteq> - 1
               then d\<lparr>d_seen_count := d_seen_count d + 1, d_rssi_sum := d_rssi_sum d + o_rssi ob\<rparr>
               else d)
      in e\<lparr>e_detection := d\<rparr>)"

definition claim_entry :: "rule \<Rightarrow> observation \<Rightarrow> entry list \<Rightarrow> entry list \<times> nat" where
  "claim_entry r ob cache =
     (let (i, found) = pick_slot (same_entry r ob) (\<lambda>e. d_seen_count (e_detection e) = 0)
                         (\<lambda>e. d_last_ms (e_detection e)) cache;
          e = (if found then cache ! i else fresh_entry r ob)
      in (cache[i := update_entry ob e], i))"

definition add_evidence :: "rule \<Rightarrow> observation \<Rightarrow> entry \<Rightarrow> entry" where
  "add_evidence r ob e =
     (let k = evidence_group (r_kind r); ev = e_evidence e ! k
      in if (case ev_rule ev of None \<Rightarrow> True
             | Some old \<Rightarrow> 30000 < ucast (o_ms ob) - ev_at ev \<or> r_score old \<le> r_score r)
         then e\<lparr>e_evidence := (e_evidence e)[k := \<lparr>ev_rule = Some r, ev_at = ucast (o_ms ob)\<rparr>]\<rparr>
         else e)"

text \<open>The body of the loop over the rules; \<open>touched\<close> maps a category index to its slot.\<close>

definition rule_step ::
  "settings \<Rightarrow> observation \<Rightarrow> rule \<Rightarrow> engine \<times> nat option list \<Rightarrow> engine \<times> nat option list" where
  "rule_step s ob r = (\<lambda>(g, touched).
     (let c = category_index (r_category r)
      in if \<not> has_category (s_enabled_categories s) (r_category r) then (g, touched)
         else let (g, hit) = (if r_kind r = Behavior then behavior r ob g else (g, matches r ob))
              in if \<not> hit then (g, touched)
                 else let (cache, i) = (case touched ! c of
                                          Some i \<Rightarrow> (g_cache g, i)
                                        | None \<Rightarrow> claim_entry r ob (g_cache g))
                      in (g\<lparr>g_cache := cache[i := add_evidence r ob (cache ! i)]\<rparr>,
                          touched[c := Some i])))"

section \<open>Fusion and emission\<close>

definition strength :: "observation \<Rightarrow> rule \<Rightarrow> u8" where
  "strength ob r = min (r_score r) (cap r ob)"

definition active_rules :: "observation \<Rightarrow> entry \<Rightarrow> rule list" where
  "active_rules ob e =
     map (\<lambda>ev. the (ev_rule ev))
       (filter (\<lambda>ev. ev_rule ev \<noteq> None \<and> ucast (o_ms ob) - ev_at ev \<le> (30000 :: u32))
         (e_evidence e))"

text \<open>
  \<open>std::sort\<close> by decreasing strength.  At most nine rules are active, and below its 16-element
  threshold the library sorts by insertion, which keeps equal elements in order.
\<close>

definition sort_rules :: "observation \<Rightarrow> rule list \<Rightarrow> rule list" where
  "sort_rules ob = sort_key (\<lambda>r. - int (unat (strength ob r)))"

definition ceiling_of :: "observation \<Rightarrow> rule list \<Rightarrow> nat" where
  "ceiling_of ob rs = foldl (\<lambda>m r. max m (unat (cap r ob))) 0 rs"

text \<open>The score of a sorted list of active rules.\<close>

definition fuse :: "observation \<Rightarrow> rule list \<Rightarrow> nat" where
  "fuse ob rs =
     (let score = (case rs of [] \<Rightarrow> 0
                   | [r] \<Rightarrow> unat (strength ob r)
                   | r # r2 # _ \<Rightarrow> unat (strength ob r)
                       + (if \<not> r_generic r \<and> \<not> r_generic r2 then unat (strength ob r2) div 4 else 0));
          score = min score (ceiling_of ob rs)
      in if o_contradiction ob then (if 20 < score then score - 20 else 1) else score)"

definition level_of :: "u8 \<Rightarrow> nat" where
  "level_of score = (if 80 \<le> score then 3 else if 50 \<le> score then 2 else if 20 \<le> score then 1 else 0)"

text \<open>One round of the emission loop for a touched entry: the rescored entry and its \<open>due\<close> flag.\<close>

definition score_entry :: "observation \<Rightarrow> entry \<Rightarrow> entry" where
  "score_entry ob e =
     (let rs = sort_rules ob (active_rules ob e)
      in e\<lparr>e_detection := (e_detection e)\<lparr>
            d_rule_count := min (length rs) 4,
            d_rules := take 4 (map Some rs @ replicate 4 None),
            d_score := of_nat (fuse ob rs)\<rparr>\<rparr>)"

definition due :: "observation \<Rightarrow> u8 \<Rightarrow> entry \<Rightarrow> bool" where
  "due ob old_score e \<longleftrightarrow>
     e_emitted e = 0 \<or> 30000 \<le> o_ms ob - e_emitted e \<or>
     st_state (d_samsung (e_detection e)) \<noteq> e_emitted_samsung_state e \<or>
     level_of old_score < level_of (d_score (e_detection e))"

definition emit_step ::
  "observation \<Rightarrow> nat \<Rightarrow> nat option \<Rightarrow> engine \<times> detection list \<Rightarrow> engine \<times> detection list" where
  "emit_step ob capacity slot = (\<lambda>(g, out).
     (case slot of
        None \<Rightarrow> (g, out)
      | Some i \<Rightarrow>
          (let old = d_score (e_detection (g_cache g ! i));
               e = score_entry ob (g_cache g ! i)
           in if due ob old e \<and> g_next_emit g \<le> o_ms ob \<and> length out < capacity
              then (g\<lparr>g_cache := (g_cache g)[i := e\<lparr>e_emitted := max 1 (o_ms ob),
                        e_emitted_samsung_state := st_state (d_samsung (e_detection e))\<rparr>],
                      g_next_emit := o_ms ob + 100\<rparr>, out @ [e_detection e])
              else (g\<lparr>g_cache := (g_cache g)[i := e]\<rparr>, out))))"

definition gather :: "settings \<Rightarrow> observation \<Rightarrow> engine \<Rightarrow> engine \<times> nat option list" where
  "gather s ob g = fold (rule_step s ob) (g_rules g) (g, replicate category_count None)"

definition ingest :: "observation \<Rightarrow> settings \<Rightarrow> nat \<Rightarrow> engine \<Rightarrow> engine \<times> detection list" where
  "ingest ob s capacity g =
     (let (g, touched) = gather s ob g
      in fold (emit_step ob capacity) touched (remember_ap ob g, []))"

section \<open>Recent signals\<close>

definition recent_active :: "u64 \<Rightarrow> settings \<Rightarrow> entry \<Rightarrow> bool" where
  "recent_active now s e =
     (let d = e_detection e
      in d_seen_count d \<noteq> 0 \<and> 20 \<le> d_score d \<and> d_last_ms d \<le> now \<and> now - d_last_ms d \<le> 90000 \<and>
         has_category (s_enabled_categories s) (d_category d))"

definition same_identity :: "detection \<Rightarrow> detection \<Rightarrow> bool" where
  "same_identity d d' =
     (if samsung_identity d \<and> samsung_identity d' then st_id (d_samsung d) = st_id (d_samsung d')
      else d_address d = d_address d' \<and> d_radio d = d_radio d' \<and>
           d_address_type d = d_address_type d')"

definition already_counted :: "u64 \<Rightarrow> settings \<Rightarrow> entry list \<Rightarrow> nat \<Rightarrow> bool" where
  "already_counted now s cache i =
     (let d = e_detection (cache ! i)
      in list_ex (\<lambda>j. let d' = e_detection (cache ! j)
            in i \<noteq> j \<and> recent_active now s (cache ! j) \<and> same_identity d d' \<and>
               (d_score d < d_score d' \<or> (d_score d' = d_score d \<and> j < i)))
          [0..<length cache])"

definition counted :: "u64 \<Rightarrow> settings \<Rightarrow> entry list \<Rightarrow> nat list" where
  "counted now s cache =
     filter (\<lambda>i. recent_active now s (cache ! i) \<and> \<not> already_counted now s cache i)
       [0..<length cache]"

definition count_class :: "u8 \<Rightarrow> nat" where
  "count_class score = (if 80 \<le> score then 0 else if 50 \<le> score then 1 else 2)"

definition recent_counts :: "u64 \<Rightarrow> settings \<Rightarrow> engine \<Rightarrow> u32 list" where
  "recent_counts now s g =
     fold (\<lambda>i counts. let k = count_class (d_score (e_detection (g_cache g ! i)))
                      in counts[k := counts ! k + 1])
       (counted now s (g_cache g)) [0, 0, 0]"

section \<open>Burst rings\<close>

text \<open>A ring that has recorded the time stamps \<open>ts\<close>, oldest first.\<close>

definition burst_tracks :: "burst \<Rightarrow> u64 list \<Rightarrow> bool" where
  "burst_tracks b ts \<longleftrightarrow> length (b_times b) = 20 \<and> b_count b = min 20 (length ts) \<and>
     b_next b = length ts mod 20 \<and>
     (\<forall>i < length ts. length ts \<le> i + 20 \<longrightarrow> b_times b ! (i mod 20) = ts ! i)"

lemma burst_tracks_fresh:
  "burst_tracks (burst0\<lparr>b_used := u, b_address := a, b_channel := c\<rparr>) []"
  by (simp add: burst_tracks_def burst0_def)

lemma burst_tracks_push:
  assumes "burst_tracks b ts"
  shows "burst_tracks (burst_push ms b) (ts @ [ms])"
proof -
  have l: "length (b_times b) = 20" "b_next b = length ts mod 20" "b_count b = min 20 (length ts)"
    and t: "\<And>i. i < length ts \<Longrightarrow> length ts \<le> i + 20 \<Longrightarrow> b_times b ! (i mod 20) = ts ! i"
    using assms by (auto simp: burst_tracks_def)
  have "(b_times b)[length ts mod 20 := ms] ! (i mod 20) = (ts @ [ms]) ! i"
    if i: "i < Suc (length ts)" "Suc (length ts) \<le> i + 20" for i
  proof (cases "i = length ts")
    case False
    have "i mod 20 \<noteq> length ts mod 20"
    proof
      assume "i mod 20 = length ts mod 20"
      then have "20 dvd length ts - i" using i(1) by (metis less_Suc_eq_le mod_eq_dvd_iff_nat)
      moreover have "0 < length ts - i" using i(1) False by simp
      ultimately have "20 \<le> length ts - i" by (rule dvd_imp_le)
      then show False using i by simp
    qed
    then show ?thesis using i False t [of i] by (simp add: nth_append)
  qed (simp add: l nth_append)
  then show ?thesis
    by (simp add: burst_tracks_def burst_push_def l mod_Suc_eq)
qed

lemma burst_push_key [simp]:
  "b_used (burst_push ms b) = b_used b" "b_address (burst_push ms b) = b_address b"
  "b_channel (burst_push ms b) = b_channel b"
  by (simp_all add: burst_push_def)

definition burst_span :: "u64 list \<Rightarrow> bool" where
  "burst_span ts \<longleftrightarrow> 20 \<le> length ts \<and>
     ts ! (length ts - 20) \<le> last ts \<and> last ts - ts ! (length ts - 20) \<le> 10000"

lemma burst_fires_iff:
  assumes "burst_tracks b ts" and "ts \<noteq> []"
  shows "burst_fires (last ts) b \<longleftrightarrow> burst_span ts"
proof (cases "20 \<le> length ts")
  case True
  then have "(length ts - 20) mod 20 = length ts mod 20"
    by (metis le_add_diff_inverse2 mod_add_self2)
  moreover have "b_times b ! ((length ts - 20) mod 20) = ts ! (length ts - 20)"
    using assms True unfolding burst_tracks_def by (elim conjE allE [of _ "length ts - 20"]) auto
  ultimately show ?thesis
    using assms(1) True by (simp add: burst_tracks_def burst_fires_def burst_span_def)
next
  case False
  then show ?thesis using assms(1) by (simp add: burst_tracks_def burst_fires_def burst_span_def)
qed

text \<open>The table of rings is a bounded table keyed by transmitter and channel.\<close>

definition burst_key :: "burst \<Rightarrow> (address \<times> u8) option" where
  "burst_key b = (if b_used b then Some (b_address b, b_channel b) else None)"

definition burst_put :: "address \<times> u8 \<Rightarrow> u64 \<Rightarrow> burst list \<Rightarrow> burst list" where
  "burst_put k ms bs = fst (burst_record (fst k) (snd k) ms bs)"

lemma burst_same_key:
  "(b_used x \<and> b_address x = fst k \<and> b_channel x = snd k) \<longleftrightarrow> burst_key x = Some k"
  by (cases k) (auto simp: burst_key_def)

definition burst_new :: "address \<times> u8 \<Rightarrow> burst" where
  "burst_new k = burst0\<lparr>b_used := True, b_address := fst k, b_channel := snd k\<rparr>"

lemma burst_new_key [simp]: "burst_key (burst_new k) = Some k"
  by (simp add: burst_new_def burst_key_def)

lemma burst_push_keeps_key [simp]: "burst_key (burst_push ms b) = burst_key b"
  by (simp add: burst_key_def)

lemma burst_record_found:
  assumes "first_index (\<lambda>x. burst_key x = Some k) bs = Some i"
  shows "burst_record (fst k) (snd k) ms bs =
    (bs[i := burst_push ms (bs ! i)], burst_fires ms (burst_push ms (bs ! i)))"
  using assms unfolding burst_record_def burst_slot_def burst_same_key by (simp add: pick_slot_def Let_def)

lemma burst_record_new:
  assumes "first_index (\<lambda>x. burst_key x = Some k) bs = None" and "bs \<noteq> []"
  shows "\<exists>i < length bs. burst_record (fst k) (snd k) ms bs =
      (bs[i := burst_push ms (burst_new k)], burst_fires ms (burst_push ms (burst_new k))) \<and>
      (\<not> b_used (bs ! i) \<or> (\<forall>x \<in> set bs. b_used x))"
proof -
  define i where "i = (case first_index (\<lambda>x. \<not> b_used x) bs of
      Some i \<Rightarrow> i | None \<Rightarrow> min_index b_last bs)"
  have s: "burst_slot (fst k) (snd k) bs = (i, False)"
    unfolding burst_slot_def burst_same_key pick_slot_def i_def
    by (simp add: assms(1) split: option.split)
  have "fst (burst_slot (fst k) (snd k) bs) < length bs"
    unfolding burst_slot_def by (rule pick_slot_less [OF assms(2)])
  then have "i < length bs" by (simp add: s)
  moreover have "\<not> b_used (bs ! i) \<or> (\<forall>x \<in> set bs. b_used x)"
    using pick_slot_new [OF s [unfolded burst_slot_def], THEN conjunct2] by (simp only: not_not) blast
  moreover have "burst_record (fst k) (snd k) ms bs =
      (bs[i := burst_push ms (burst_new k)], burst_fires ms (burst_push ms (burst_new k)))"
    unfolding burst_record_def s burst_new_def by (simp add: Let_def)
  ultimately show ?thesis by blast
qed

interpretation bursts: bounded_table burst_key burst_put
proof
  fix xs :: "burst list" and k :: "address \<times> u8" and v
  assume ne: "xs \<noteq> []"
  show "\<exists>i e. i < length xs \<and> burst_put k v xs = xs[i := e] \<and> burst_key e = Some k \<and>
      (\<forall>j < length xs. burst_key (xs ! j) = Some k \<longrightarrow> burst_key (xs ! i) = Some k)"
  proof (cases "first_index (\<lambda>x. burst_key x = Some k) xs")
    case None
    from burst_record_new [OF None ne, of v] None show ?thesis
      unfolding burst_put_def first_index_None
      by (metis burst_new_key burst_push_keeps_key fst_conv nth_mem)
  next
    case (Some i)
    then show ?thesis
      unfolding burst_put_def burst_record_found [OF Some] first_index_Some
      by (intro exI [of _ i] exI [of _ "burst_push v (xs ! i)"]) simp
  qed
qed

text \<open>So is the table of access points, keyed by transmitter.\<close>

definition ap_key :: "access_point \<Rightarrow> address option" where
  "ap_key a = (if a_used a then Some (a_address a) else None)"

lemma ap_same_key: "(a_used x \<and> a_address x = k) \<longleftrightarrow> ap_key x = Some k"
  by (simp add: ap_key_def)

interpretation aps: bounded_table ap_key ap_put
proof
  fix xs :: "access_point list" and k :: address and v
  assume ne: "xs \<noteq> []"
  define i where "i = fst (pick_slot (\<lambda>x. ap_key x = Some k) (\<lambda>x. \<not> a_used x) a_ms xs)"
  have i: "i < length xs" unfolding i_def by (rule pick_slot_less [OF ne])
  have p: "ap_put k v xs = xs[i := v\<lparr>a_used := True, a_address := k\<rparr>]"
    unfolding ap_put_def ap_same_key i_def ..
  have "ap_key (xs ! i) = Some k" if "j < length xs" "ap_key (xs ! j) = Some k" for j
  proof -
    have "first_index (\<lambda>x. ap_key x = Some k) xs \<noteq> None"
      using that nth_mem unfolding first_index_None by blast
    then obtain l where l: "first_index (\<lambda>x. ap_key x = Some k) xs = Some l" by blast
    then have "i = l" by (simp add: i_def pick_slot_def)
    with first_index_holds [OF l] show ?thesis by simp
  qed
  with i show "\<exists>i e. i < length xs \<and> ap_put k v xs = xs[i := e] \<and> ap_key e = Some k \<and>
      (\<forall>j < length xs. ap_key (xs ! j) = Some k \<longrightarrow> ap_key (xs ! i) = Some k)"
    unfolding p by (intro exI [of _ i] exI [of _ "v\<lparr>a_used := True, a_address := k\<rparr>"])
      (simp add: ap_key_def)
qed

section \<open>Burst detection over a history\<close>

text \<open>
  A history is the deauthentication frames received so far, each a key and a time stamp.
\<close>

type_synonym burst_history = "((address \<times> u8) \<times> u64) list"

definition bursts_after :: "burst_history \<Rightarrow> burst list" where
  "bursts_after h = foldl (\<lambda>bs (k, ms). burst_put k ms bs) (replicate 16 burst0) h"

definition stamps_of :: "address \<times> u8 \<Rightarrow> burst_history \<Rightarrow> u64 list" where
  "stamps_of k h = map snd (filter (\<lambda>e. fst e = k) h)"

lemma stamps_of_append [simp]:
  "stamps_of k (h @ [(k', ms)]) = stamps_of k h @ (if k' = k then [ms] else [])"
  by (simp add: stamps_of_def)

definition bursts_track :: "burst list \<Rightarrow> burst_history \<Rightarrow> bool" where
  "bursts_track bs h \<longleftrightarrow> length bs = 16 \<and> bursts.keys_unique bs \<and>
     (\<forall>b \<in> set bs. \<forall>k. burst_key b = Some k \<longrightarrow> k \<in> fst ` set h \<and> burst_tracks b (stamps_of k h)) \<and>
     (\<forall>k \<in> fst ` set h. \<exists>b \<in> set bs. burst_key b = Some k)"

lemma bursts_track_start: "bursts_track (replicate 16 burst0) []"
  by (simp add: bursts_track_def bursts.keys_unique_def burst_key_def burst0_def)

text \<open>With fewer keys than slots, one slot is unused.\<close>

lemma bursts_free_slot:
  assumes "bursts_track bs h" and "card (fst ` set h) < 16"
  shows "\<not> (\<forall>b \<in> set bs. b_used b)"
proof
  assume used: "\<forall>b \<in> set bs. b_used b"
  have l: "length bs = 16" and u: "bursts.keys_unique bs"
    using assms(1) by (auto simp: bursts_track_def)
  define f where "f = (\<lambda>i. the (burst_key (bs ! i)))"
  have s: "burst_key (bs ! i) = Some (f i)" if "i < 16" for i
    using that used l nth_mem [of i bs] by (auto simp: f_def burst_key_def)
  have "inj_on f {..<16}"
    using u l s unfolding bursts.keys_unique_def by (intro inj_onI) (metis lessThan_iff option.discI)
  moreover have "f ` {..<16} \<subseteq> fst ` set h"
    using assms(1) s l unfolding bursts_track_def by (metis image_subsetI lessThan_iff nth_mem)
  ultimately have "card {..<16 :: nat} \<le> card (fst ` set h)"
    by (intro card_inj_on_le) auto
  then show False using assms(2) by simp
qed

lemma in_set_update_cases:
  "x \<in> set (xs[i := y]) \<Longrightarrow> x = y \<or> (\<exists>j < length xs. j \<noteq> i \<and> x = xs ! j)"
  unfolding in_set_conv_nth by (metis length_list_update nth_list_update_eq nth_list_update_neq)

lemma stamps_of_other: "k \<notin> fst ` set h \<Longrightarrow> stamps_of k h = []"
  by (auto simp: stamps_of_def filter_empty_conv image_iff)

lemma bursts_track_update:
  assumes t: "bursts_track bs h" and i: "i < 16" and b: "burst_key b = Some k"
    and p: "burst_put k ms bs = bs[i := b]" and r: "burst_tracks b (stamps_of k h @ [ms])"
    and other: "\<And>j. j < 16 \<Longrightarrow> j \<noteq> i \<Longrightarrow> burst_key (bs ! j) \<noteq> Some k"
    and lost: "burst_key (bs ! i) = None \<or> burst_key (bs ! i) = Some k"
  shows "bursts_track (burst_put k ms bs) (h @ [(k, ms)])"
proof -
  have l: "length bs = 16" and u: "bursts.keys_unique bs"
    and tr: "\<And>b k. b \<in> set bs \<Longrightarrow> burst_key b = Some k \<Longrightarrow> k \<in> fst ` set h \<and> burst_tracks b (stamps_of k h)"
    and ex: "\<And>k. k \<in> fst ` set h \<Longrightarrow> \<exists>b \<in> set bs. burst_key b = Some k"
    using t unfolding bursts_track_def by blast+
  from l have ne: "bs \<noteq> []" by auto
  have "k' \<in> fst ` set (h @ [(k, ms)]) \<and> burst_tracks x (stamps_of k' (h @ [(k, ms)]))"
    if x: "x \<in> set (bs[i := b])" and k': "burst_key x = Some k'" for x k'
    using in_set_update_cases [OF x]
  proof
    assume "x = b"
    then show ?thesis using b k' r by simp
  next
    assume "\<exists>j < length bs. j \<noteq> i \<and> x = bs ! j"
    then obtain j where j: "j < 16" "j \<noteq> i" "x = bs ! j" by (auto simp: l)
    with other k' have "k' \<noteq> k" by auto
    with tr [of x k'] j k' l show ?thesis by simp
  qed
  moreover have "\<exists>x \<in> set (bs[i := b]). burst_key x = Some k'"
    if k': "k' \<in> fst ` set (h @ [(k, ms)])" for k'
  proof (cases "k' = k")
    case True
    then show ?thesis using b i l by (metis set_update_memI)
  next
    case False
    with ex [of k'] k' obtain j where j: "j < 16" "burst_key (bs ! j) = Some k'"
      by (auto simp: in_set_conv_nth l)
    with lost False have "j \<noteq> i" by auto
    with j l show ?thesis by (metis length_list_update nth_list_update_neq nth_mem)
  qed
  ultimately show ?thesis
    unfolding bursts_track_def using bursts.put_unique [OF ne u, of k ms] l by (simp add: p)
qed

lemma bursts_track_put:
  assumes t: "bursts_track bs h" and c: "card (fst ` set (h @ [(k, ms)])) \<le> 16"
  shows "bursts_track (burst_put k ms bs) (h @ [(k, ms)]) \<and>
    snd (burst_record (fst k) (snd k) ms bs) = burst_span (stamps_of k h @ [ms])"
proof (cases "first_index (\<lambda>x. burst_key x = Some k) bs")
  case (Some i)
  have i: "i < 16" "burst_key (bs ! i) = Some k"
    using Some t by (auto simp: first_index_Some bursts_track_def)
  then have r: "burst_tracks (burst_push ms (bs ! i)) (stamps_of k h @ [ms])"
    using t unfolding bursts_track_def by (metis burst_tracks_push nth_mem)
  have other: "burst_key (bs ! j) \<noteq> Some k" if "j < 16" "j \<noteq> i" for j
    using t that i unfolding bursts_track_def bursts.keys_unique_def by (metis option.discI)
  show ?thesis
    using bursts_track_update [OF t i(1) _ _ r other] i(2) burst_fires_iff [OF r]
    by (simp add: burst_put_def burst_record_found [OF Some])
next
  case None
  have l: "length bs = 16" "bs \<noteq> []" using t by (auto simp: bursts_track_def)
  have nk: "\<And>x. x \<in> set bs \<Longrightarrow> burst_key x \<noteq> Some k" using None by (simp add: first_index_None)
  with t have k: "k \<notin> fst ` set h" unfolding bursts_track_def by blast
  then have "card (fst ` set h) < 16" using c by simp
  then obtain i where i: "i < 16" "\<not> b_used (bs ! i)"
    "burst_record (fst k) (snd k) ms bs =
      (bs[i := burst_push ms (burst_new k)], burst_fires ms (burst_push ms (burst_new k)))"
    using burst_record_new [OF None l(2), of ms] bursts_free_slot [OF t] l by auto
  have r: "burst_tracks (burst_push ms (burst_new k)) (stamps_of k h @ [ms])"
    unfolding stamps_of_other [OF k] burst_new_def
    using burst_tracks_push [OF burst_tracks_fresh] by simp
  show ?thesis
    using bursts_track_update [OF t i(1) _ _ r] nk l i burst_fires_iff [OF r]
    by (simp add: burst_put_def) (simp add: burst_key_def)
qed

lemma bursts_after_track:
  "card (fst ` set h) \<le> 16 \<Longrightarrow> bursts_track (bursts_after h) h"
proof (induction h rule: rev_induct)
  case Nil
  then show ?case by (simp add: bursts_after_def bursts_track_start)
next
  case (snoc e h)
  obtain k ms where e: "e = (k, ms)" by fastforce
  have "card (fst ` set h) \<le> card (fst ` set (h @ [e]))" by (intro card_mono) auto
  with snoc have "bursts_track (bursts_after h) h" by simp
  from bursts_track_put [OF this, of k ms] snoc.prems show ?case
    by (simp add: e bursts_after_def)
qed

text \<open>
  With more than sixteen pairs the ring that was used least recently is given up.  Whatever happened, a
  ring holds the latest frames of its pair; and while the clock does not step back, the ring of a pair is
  kept as long as at most sixteen pairs are heard.
\<close>

definition heard_since :: "u64 \<Rightarrow> burst_history \<Rightarrow> (address \<times> u8) set" where
  "heard_since s h = fst ` {e \<in> set h. s \<le> snd e}"

definition bursts_latest :: "burst list \<Rightarrow> burst_history \<Rightarrow> bool" where
  "bursts_latest bs h \<longleftrightarrow> length bs = 16 \<and> bursts.keys_unique bs \<and>
     (\<forall>b \<in> set bs. \<forall>k. burst_key b = Some k \<longrightarrow> stamps_of k h \<noteq> [] \<and> b_last b = last (stamps_of k h) \<and>
        (\<exists>n < length (stamps_of k h). burst_tracks b (drop n (stamps_of k h))))"

definition bursts_kept :: "burst list \<Rightarrow> burst_history \<Rightarrow> bool" where
  "bursts_kept bs h \<longleftrightarrow> (\<forall>s. card (heard_since s h) \<le> 16 \<longrightarrow> (\<forall>k \<in> heard_since s h. \<exists>b \<in> set bs. burst_key b = Some k \<and>
     (\<exists>n \<le> length (filter (\<lambda>t. t < s) (stamps_of k h)). burst_tracks b (drop n (stamps_of k h)))))"

lemma bursts_latestD:
  "bursts_latest bs h \<Longrightarrow> b \<in> set bs \<Longrightarrow> burst_key b = Some k \<Longrightarrow> stamps_of k h \<noteq> [] \<and> b_last b = last (stamps_of k h) \<and>
     (\<exists>n < length (stamps_of k h). burst_tracks b (drop n (stamps_of k h)))"
  unfolding bursts_latest_def by blast

lemma heard_since_finite [simp]: "finite (heard_since s h)"
  by (simp add: heard_since_def)

lemma heard_since_append [simp]: "heard_since s (h @ [(k, ms)]) = heard_since s h \<union> (if s \<le> ms then {k} else {})"
  by (auto simp: heard_since_def image_iff)

lemma heard_since_iff: "k \<in> heard_since s h \<longleftrightarrow> (\<exists>t \<in> set (stamps_of k h). s \<le> t)"
  by (force simp: heard_since_def stamps_of_def)

lemma stamps_sorted: "sorted (map snd h) \<Longrightarrow> sorted (stamps_of k h)"
  by (simp add: stamps_of_def sorted_filter)

lemma sorted_le_end: "sorted xs \<Longrightarrow> t \<in> set xs \<Longrightarrow> t \<le> last xs" for xs :: "u64 list"
  by (induction xs rule: rev_induct) (auto simp: sorted_append)

lemma burst_slot_cases:
  assumes "bs \<noteq> []"
  obtains (found) i where "i < length bs" "burst_key (bs ! i) = Some k"
      "burst_record (fst k) (snd k) ms bs = (bs[i := burst_push ms (bs ! i)], burst_fires ms (burst_push ms (bs ! i)))"
    | (new) i where "i < length bs" "\<forall>x \<in> set bs. burst_key x \<noteq> Some k"
      "burst_record (fst k) (snd k) ms bs = (bs[i := burst_push ms (burst_new k)], burst_fires ms (burst_push ms (burst_new k)))"
      "b_used (bs ! i) \<longrightarrow> (\<forall>x \<in> set bs. b_used x \<and> b_last (bs ! i) \<le> b_last x)"
proof (cases "first_index (\<lambda>x. burst_key x = Some k) bs")
  case (Some i)
  then show thesis using found [of i] burst_record_found [OF Some, of ms] by (auto simp: first_index_Some)
next
  case None
  define i where "i = (case first_index (\<lambda>x. \<not> b_used x) bs of Some i \<Rightarrow> i | None \<Rightarrow> min_index b_last bs)"
  have s: "burst_slot (fst k) (snd k) bs = (i, False)"
    unfolding burst_slot_def burst_same_key pick_slot_def i_def by (simp add: None split: option.split)
  have "fst (burst_slot (fst k) (snd k) bs) < length bs" unfolding burst_slot_def by (rule pick_slot_less [OF assms])
  then have "i < length bs" by (simp add: s)
  moreover have "b_used (bs ! i) \<longrightarrow> (\<forall>x \<in> set bs. b_used x \<and> b_last (bs ! i) \<le> b_last x)"
    using pick_slot_new [OF s [unfolded burst_slot_def]] by blast
  moreover have "burst_record (fst k) (snd k) ms bs = (bs[i := burst_push ms (burst_new k)], burst_fires ms (burst_push ms (burst_new k)))"
    unfolding burst_record_def s burst_new_def by (simp add: Let_def)
  ultimately show thesis using None new by (simp add: first_index_None)
qed

lemma burst_push_last [simp]: "b_last (burst_push ms b) = ms"
  by (simp add: burst_push_def)

lemma burst_new_tracks: "burst_tracks (burst_push ms (burst_new k)) [ms]"
  using burst_tracks_push [OF burst_tracks_fresh, of ms] by (simp add: burst_new_def)

text \<open>The slot of the frame's pair, after the frame.\<close>

lemma bursts_latest_slot:
  assumes "bursts_latest bs h"
  obtains i b where "i < 16" "burst_put k ms bs = bs[i := b]" "snd (burst_record (fst k) (snd k) ms bs) = burst_fires ms b"
    "burst_key b = Some k" "b_last b = ms" "burst_key (bs ! i) = Some k \<or> (\<forall>x \<in> set bs. burst_key x \<noteq> Some k)"
    "\<exists>n \<le> length (stamps_of k h). burst_tracks b (drop n (stamps_of k h) @ [ms])"
    "\<And>n. burst_key (bs ! i) = Some k \<Longrightarrow> burst_tracks (bs ! i) (drop n (stamps_of k h)) \<Longrightarrow> burst_tracks b (drop n (stamps_of k h) @ [ms])"
    "burst_key (bs ! i) \<noteq> Some k \<Longrightarrow> b_used (bs ! i) \<Longrightarrow> (\<forall>x \<in> set bs. b_used x \<and> b_last (bs ! i) \<le> b_last x)"
    "burst_key (bs ! i) \<noteq> Some k \<Longrightarrow> burst_tracks b [ms]"
proof -
  have l: "length bs = 16" "bs \<noteq> []" using assms by (auto simp: bursts_latest_def)
  from l(2) show thesis
  proof (cases rule: burst_slot_cases [where k = k and ms = ms])
    case (found i)
    then have "\<exists>n < length (stamps_of k h). burst_tracks (bs ! i) (drop n (stamps_of k h))"
      using bursts_latestD [OF assms] nth_mem by blast
    then have "\<exists>n \<le> length (stamps_of k h). burst_tracks (burst_push ms (bs ! i)) (drop n (stamps_of k h) @ [ms])"
      using burst_tracks_push less_imp_le by blast
    then show thesis using found l(1) burst_tracks_push by (intro that [of i]) (simp_all add: burst_put_def)
  next
    case (new i)
    have "\<exists>n \<le> length (stamps_of k h). burst_tracks (burst_push ms (burst_new k)) (drop n (stamps_of k h) @ [ms])"
      using burst_new_tracks by (intro exI [of _ "length (stamps_of k h)"]) simp
    moreover have "burst_key (bs ! i) \<noteq> Some k" using new(1,2) by simp
    ultimately show thesis using new l(1) burst_new_tracks by (intro that [of i]) (simp_all add: burst_put_def)
  qed
qed

lemma bursts_latest_put:
  assumes "bursts_latest bs h"
  shows "bursts_latest (burst_put k ms bs) (h @ [(k, ms)])"
proof -
  have l: "length bs = 16" "bs \<noteq> []" "bursts.keys_unique bs" using assms by (auto simp: bursts_latest_def)
  obtain i b where i: "i < 16" "burst_put k ms bs = bs[i := b]" "burst_key b = Some k" "b_last b = ms"
    "burst_key (bs ! i) = Some k \<or> (\<forall>x \<in> set bs. burst_key x \<noteq> Some k)"
    "\<exists>n \<le> length (stamps_of k h). burst_tracks b (drop n (stamps_of k h) @ [ms])"
    using bursts_latest_slot [OF assms, of k ms] by metis
  have "stamps_of k' (h @ [(k, ms)]) \<noteq> [] \<and> b_last x = last (stamps_of k' (h @ [(k, ms)])) \<and>
      (\<exists>n < length (stamps_of k' (h @ [(k, ms)])). burst_tracks x (drop n (stamps_of k' (h @ [(k, ms)]))))"
    if x: "x \<in> set (bs[i := b])" "burst_key x = Some k'" for x k'
    using in_set_update_cases [OF x(1)]
  proof
    assume "x = b"
    moreover from this have "k' = k" using i(3) x(2) by simp
    moreover obtain n where "n \<le> length (stamps_of k h)" "burst_tracks b (drop n (stamps_of k h) @ [ms])" using i(6) by blast
    ultimately show ?thesis using i(4) by (auto intro!: exI [of _ n])
  next
    assume "\<exists>j < length bs. j \<noteq> i \<and> x = bs ! j"
    then obtain j where j: "j < 16" "j \<noteq> i" "x = bs ! j" using l(1) by auto
    have "k' \<noteq> k"
      using j i(1,5) x(2) l(1,3) unfolding bursts.keys_unique_def by (metis nth_mem option.discI)
    moreover have "x \<in> set bs" using j l(1) by simp
    ultimately show ?thesis using bursts_latestD [OF assms _ x(2)] by simp
  qed
  then show ?thesis
    unfolding bursts_latest_def using bursts.put_unique [OF l(2,3), of k ms] l(1) by (simp add: i(2))
qed


text \<open>A pair that loses its ring is the least recently heard of seventeen.\<close>

lemma bursts_lost:
  assumes latest: "bursts_latest bs h" and sorted: "sorted (map snd h @ [ms])"
    and i: "i < 16" "burst_key (bs ! i) = Some k'" "\<forall>x \<in> set bs. b_used x \<and> b_last (bs ! i) \<le> b_last x"
    and new: "\<forall>x \<in> set bs. burst_key x \<noteq> Some k" and heard: "k' \<in> heard_since s h"
  shows "16 < card (heard_since s (h @ [(k, ms)]))"
proof -
  have l: "length bs = 16" "bursts.keys_unique bs" using latest by (auto simp: bursts_latest_def)
  define f where "f = (\<lambda>j. the (burst_key (bs ! j)))"
  have key: "burst_key (bs ! j) = Some (f j)" if "j < 16" for j
    using i(3) that l(1) by (simp add: f_def burst_key_def)
  have srt: "sorted (map snd h)" "\<forall>t \<in> set (map snd h). t \<le> ms" using sorted by (auto simp: sorted_append)
  obtain t where "t \<in> set (stamps_of k' h)" "s \<le> t" using heard by (auto simp: heard_since_iff)
  then have own: "s \<le> b_last (bs ! i)"
    using bursts_latestD [OF latest _ i(2)] i(1) l(1) sorted_le_end [OF stamps_sorted [OF srt(1)], of t k']
    by (auto intro: order_trans)
  have since: "f j \<in> heard_since s h" if "j < 16" for j
  proof -
    have "bs ! j \<in> set bs" using that l(1) by simp
    then have "stamps_of (f j) h \<noteq> []" "s \<le> last (stamps_of (f j) h)"
      using bursts_latestD [OF latest _ key [OF that]] own i(3) by (auto intro: order_trans)
    then show ?thesis unfolding heard_since_iff by (intro bexI [of _ "last (stamps_of (f j) h)"]) simp_all
  qed
  have "inj_on f {..<16}"
    using l key unfolding bursts.keys_unique_def by (intro inj_onI) (metis lessThan_iff option.discI)
  moreover have "k \<notin> f ` {..<16}" using new key l(1) nth_mem by (metis imageE lessThan_iff)
  ultimately have "card (insert k (f ` {..<16})) = 17" by (simp add: card_image)
  moreover have "s \<le> ms" using since [of 0] srt(2) by (fastforce simp: heard_since_def)
  then have "insert k (f ` {..<16}) \<subseteq> heard_since s (h @ [(k, ms)])" using since by auto
  then have "card (insert k (f ` {..<16})) \<le> card (heard_since s (h @ [(k, ms)]))" by (rule card_mono [OF heard_since_finite])
  ultimately show ?thesis by simp
qed


lemma bursts_kept_put:
  assumes latest: "bursts_latest bs h" and kept: "bursts_kept bs h" and sorted: "sorted (map snd h @ [ms])"
  shows "bursts_kept (burst_put k ms bs) (h @ [(k, ms)])"
  unfolding bursts_kept_def
proof (intro allI impI ballI)
  fix s k' assume few: "card (heard_since s (h @ [(k, ms)])) \<le> 16" and k': "k' \<in> heard_since s (h @ [(k, ms)])"
  have l: "length bs = 16" "bursts.keys_unique bs" using latest by (auto simp: bursts_latest_def)
  have "card (heard_since s h) \<le> card (heard_since s (h @ [(k, ms)]))" by (intro card_mono) auto
  with few kept have old: "\<exists>b \<in> set bs. burst_key b = Some k'' \<and>
      (\<exists>n \<le> length (filter (\<lambda>t. t < s) (stamps_of k'' h)). burst_tracks b (drop n (stamps_of k'' h)))"
    if "k'' \<in> heard_since s h" for k'' using that unfolding bursts_kept_def by auto
  have early: "filter (\<lambda>t. t < s) (stamps_of k'' h) = stamps_of k'' h" if "k'' \<notin> heard_since s h" for k''
    using that by (auto simp: heard_since_iff filter_id_conv not_le)
  obtain i b where i: "i < 16" "burst_put k ms bs = bs[i := b]" "burst_key b = Some k"
    and hit: "burst_key (bs ! i) = Some k \<or> (\<forall>x \<in> set bs. burst_key x \<noteq> Some k)"
    and some: "\<exists>n \<le> length (stamps_of k h). burst_tracks b (drop n (stamps_of k h) @ [ms])"
    and more: "\<And>n. burst_key (bs ! i) = Some k \<Longrightarrow> burst_tracks (bs ! i) (drop n (stamps_of k h)) \<Longrightarrow> burst_tracks b (drop n (stamps_of k h) @ [ms])"
    and lru: "burst_key (bs ! i) \<noteq> Some k \<Longrightarrow> b_used (bs ! i) \<Longrightarrow> (\<forall>x \<in> set bs. b_used x \<and> b_last (bs ! i) \<le> b_last x)"
    using bursts_latest_slot [OF latest, of k ms] by metis
  have b: "b \<in> set (bs[i := b])" using i(1) l(1) by (simp add: set_update_memI)
  show "\<exists>b \<in> set (burst_put k ms bs). burst_key b = Some k' \<and> (\<exists>n \<le> length (filter (\<lambda>t. t < s) (stamps_of k' (h @ [(k, ms)]))).
      burst_tracks b (drop n (stamps_of k' (h @ [(k, ms)]))))"
  proof (cases "k' = k")
    case True
    have "\<exists>n \<le> length (filter (\<lambda>t. t < s) (stamps_of k h)). n \<le> length (stamps_of k h) \<and> burst_tracks b (drop n (stamps_of k h) @ [ms])"
    proof (cases "k \<in> heard_since s h")
      case seen: True
      obtain x n where x: "x \<in> set bs" "burst_key x = Some k" "n \<le> length (filter (\<lambda>t. t < s) (stamps_of k h))"
        "burst_tracks x (drop n (stamps_of k h))" using old [OF seen] by blast
      then have "burst_key (bs ! i) = Some k" using hit by blast
      moreover from this have "x = bs ! i"
        using x(1,2) i(1) l unfolding bursts.keys_unique_def in_set_conv_nth by (metis option.discI)
      ultimately show ?thesis using more x(3,4) length_filter_le [of "\<lambda>t. t < s" "stamps_of k h"] by (blast intro: order_trans)
    qed (use some early in auto)
    then obtain n where "n \<le> length (filter (\<lambda>t. t < s) (stamps_of k h))" "n \<le> length (stamps_of k h)"
      "burst_tracks b (drop n (stamps_of k h) @ [ms])" by blast
    then show ?thesis using b i(2,3) True by (intro bexI [of _ b] conjI exI [of _ n]) auto
  next
    case False
    with k' have seen: "k' \<in> heard_since s h" by (auto split: if_splits)
    obtain x n where x: "x \<in> set bs" "burst_key x = Some k'" "n \<le> length (filter (\<lambda>t. t < s) (stamps_of k' h))"
      "burst_tracks x (drop n (stamps_of k' h))" using old [OF seen] by blast
    obtain j where j: "j < 16" "x = bs ! j" using x(1) l(1) by (auto simp: in_set_conv_nth)
    have "j \<noteq> i"
    proof
      assume "j = i"
      with x(2) j(2) False have own: "burst_key (bs ! i) = Some k'" "burst_key (bs ! i) \<noteq> Some k" by auto
      then have "b_used (bs ! i)" by (auto simp: burst_key_def split: if_splits)
      with own(2) hit lru have "\<forall>x \<in> set bs. b_used x \<and> b_last (bs ! i) \<le> b_last x" "\<forall>x \<in> set bs. burst_key x \<noteq> Some k" by auto
      from bursts_lost [OF latest sorted i(1) own(1) this seen] few show False by simp
    qed
    then have "x \<in> set (bs[i := b])" using j l(1) by (metis length_list_update nth_list_update_neq nth_mem)
    then show ?thesis using x(2-4) i(2) False by (intro bexI [of _ x]) auto
  qed
qed

lemma bursts_after_latest: "bursts_latest (bursts_after h) h"
proof (induction h rule: rev_induct)
  case Nil
  show ?case by (simp add: bursts_after_def bursts_latest_def bursts.keys_unique_def burst_key_def burst0_def)
next
  case (snoc e h)
  obtain k ms where "e = (k, ms)" by fastforce
  with bursts_latest_put [OF snoc, of k ms] show ?case by (simp add: bursts_after_def)
qed

lemma bursts_after_kept: "sorted (map snd h) \<Longrightarrow> bursts_kept (bursts_after h) h"
proof (induction h rule: rev_induct)
  case Nil
  show ?case by (simp add: bursts_kept_def heard_since_def)
next
  case (snoc e h)
  obtain k ms where "e = (k, ms)" by fastforce
  with bursts_kept_put [OF bursts_after_latest, of h ms k] snoc show ?case by (simp add: bursts_after_def sorted_append)
qed

lemma burst_span_drop: "20 \<le> length (drop n ts) \<Longrightarrow> burst_span (drop n ts) \<longleftrightarrow> burst_span ts"
  by (auto simp: burst_span_def last_drop)

text \<open>What the rule answers after any history.\<close>

lemma burst_answer_sound:
  assumes "snd (burst_record (fst k) (snd k) ms (bursts_after h))"
  shows "burst_span (stamps_of k h @ [ms])"
proof -
  obtain b n where b: "burst_fires ms b" "n \<le> length (stamps_of k h)" "burst_tracks b (drop n (stamps_of k h) @ [ms])"
    using bursts_latest_slot [OF bursts_after_latest [of h], of k ms] assms by metis
  then have span: "burst_span (drop n (stamps_of k h @ [ms]))" using burst_fires_iff [OF b(3)] by simp
  then have "20 \<le> length (drop n (stamps_of k h @ [ms]))" unfolding burst_span_def by blast
  with span burst_span_drop show ?thesis by blast
qed

lemma burst_answer_complete:
  assumes span: "burst_span (stamps_of k h @ [ms])" and sorted: "sorted (map snd h @ [ms])"
    and few: "card (heard_since ((stamps_of k h @ [ms]) ! (length (stamps_of k h @ [ms]) - 20)) (h @ [(k, ms)])) \<le> 16"
  shows "snd (burst_record (fst k) (snd k) ms (bursts_after h))"
proof -
  define ts where "ts = stamps_of k h @ [ms]"
  define s where "s = ts ! (length ts - 20)"
  have long: "20 \<le> length ts" using span by (simp add: burst_span_def ts_def)
  have srt: "sorted ts" using stamps_sorted [of "h @ [(k, ms)]" k] sorted by (simp add: ts_def)
  obtain i b where b: "burst_put k ms (bursts_after h) = (bursts_after h)[i := b]" "i < 16" "burst_key b = Some k"
    and fires: "snd (burst_record (fst k) (snd k) ms (bursts_after h)) = burst_fires ms b"
    using bursts_latest_slot [OF bursts_after_latest [of h], of k ms] by metis
  have after: "bursts_after (h @ [(k, ms)]) = (bursts_after h)[i := b]" using b(1) by (simp add: bursts_after_def)
  have "s \<in> set ts" unfolding s_def using long by (intro nth_mem) simp
  then have "s \<le> ms" using sorted_le_end [OF srt, of s] by (simp add: ts_def)
  then have "k \<in> heard_since s (h @ [(k, ms)])" by simp
  moreover have "card (heard_since s (h @ [(k, ms)])) \<le> 16" using few by (simp add: s_def ts_def)
  ultimately obtain x n where x: "x \<in> set (bursts_after (h @ [(k, ms)]))" "burst_key x = Some k"
    "n \<le> length (filter (\<lambda>t. t < s) (stamps_of k (h @ [(k, ms)])))" "burst_tracks x (drop n (stamps_of k (h @ [(k, ms)])))"
    using bursts_after_kept [of "h @ [(k, ms)]"] sorted unfolding bursts_kept_def by (metis (no_types) list.simps(8,9) map_append snd_conv)
  have same: "stamps_of k (h @ [(k, ms)]) = ts" by (simp add: ts_def)
  note x = x [unfolded same]
  have "length (bursts_after h) = 16" "bursts.keys_unique (bursts_after (h @ [(k, ms)]))"
    using bursts_after_latest [of h] bursts_after_latest [of "h @ [(k, ms)]"] by (auto simp: bursts_latest_def)
  then have "x = b" using x(1,2) b(2,3) unfolding after bursts.keys_unique_def in_set_conv_nth
    by (metis length_list_update nth_list_update_eq option.discI)
  have "length (filter (\<lambda>t. t < s) ts) \<le> length ts - 20"
  proof -
    have "filter (\<lambda>t. t < s) (drop (length ts - 20) ts) = []"
      using srt long by (auto simp: filter_empty_conv in_set_conv_nth s_def not_less intro!: sorted_nth_mono)
    then have "filter (\<lambda>t. t < s) ts = filter (\<lambda>t. t < s) (take (length ts - 20) ts)"
      by (metis append_Nil2 append_take_drop_id filter_append)
    then show ?thesis using length_filter_le [of "\<lambda>t. t < s" "take (length ts - 20) ts"] by simp
  qed
  then have n: "20 \<le> length (drop n ts)" using x(3) long by simp
  then have "last (drop n ts) = ms" "drop n ts \<noteq> []" by (auto simp: ts_def last_drop)
  then have "burst_fires ms x \<longleftrightarrow> burst_span ts" using burst_fires_iff [OF x(4)] burst_span_drop [OF n] by simp
  then show ?thesis using span fires \<open>x = b\<close> by (simp add: ts_def)
qed


lemma behavior_deauth:
  assumes "o_radio ob = Wifi" and "r_value r = ''deauth_burst''"
    and "o_subtype ob = 10 \<or> o_subtype ob = 12" and "g_bursts g = bursts_after h"
  shows "snd (behavior r ob g) = snd (burst_record (o_address ob) (o_channel ob) (o_ms ob) (bursts_after h))"
  using assms by (auto simp: behavior_def split: prod.split)

lemma burst_answer_all:
  assumes "card (fst ` set (h @ [(k, ms)])) \<le> 16"
  shows "snd (burst_record (fst k) (snd k) ms (bursts_after h)) = burst_span (stamps_of k h @ [ms])"
proof -
  have "card (fst ` set h) \<le> card (fst ` set (h @ [(k, ms)]))" by (intro card_mono) auto
  with assms have "bursts_track (bursts_after h) h" by (intro bursts_after_track) simp
  from bursts_track_put [OF this assms] show ?thesis by simp
qed

section \<open>Entries\<close>

text \<open>The rules of a build: a listed category, and scores and caps of at most 100.\<close>

definition rules_ok :: "rule list \<Rightarrow> bool" where
  "rules_ok rs \<longleftrightarrow> list_all (\<lambda>r. category_index (r_category r) < category_count \<and>
     r_score r \<le> 100 \<and> r_cap r \<le> 100) rs"

definition evidence_ok :: "rule list \<Rightarrow> evidence list \<Rightarrow> bool" where
  "evidence_ok rs evs \<longleftrightarrow> length evs = evidence_group_count \<and>
     (\<forall>ev \<in> set evs. \<forall>r. ev_rule ev = Some r \<longrightarrow> r \<in> set rs)"

text \<open>
  A signal summary: the extremes bound the sum, so the mean signal strength lies between them.
\<close>

definition signal_ok :: "detection \<Rightarrow> bool" where
  "signal_ok d \<longleftrightarrow> - 128 \<le> d_rssi_min d \<and> d_rssi_min d \<le> d_rssi_max d \<and> d_rssi_max d \<le> 127 \<and>
     int (unat (d_seen_count d)) * d_rssi_min d \<le> d_rssi_sum d \<and>
     d_rssi_sum d \<le> int (unat (d_seen_count d)) * d_rssi_max d"

definition rules_field_ok :: "rule list \<Rightarrow> detection \<Rightarrow> bool" where
  "rules_field_ok rs d \<longleftrightarrow> length (d_rules d) = 4 \<and> d_rule_count d \<le> 4 \<and>
     (\<forall>i < 4. (case d_rules d ! i of Some r \<Rightarrow> i < d_rule_count d \<and> r \<in> set rs
               | None \<Rightarrow> d_rule_count d \<le> i))"

definition entry_ok :: "rule list \<Rightarrow> entry \<Rightarrow> bool" where
  "entry_ok rs e \<longleftrightarrow> evidence_ok rs (e_evidence e) \<and> rules_field_ok rs (e_detection e) \<and>
     signal_ok (e_detection e) \<and> d_score (e_detection e) \<le> 100"

definition rssi_ok :: "observation \<Rightarrow> bool" where
  "rssi_ok ob \<longleftrightarrow> - 128 \<le> o_rssi ob \<and> o_rssi ob \<le> 127"

lemma evidence_ok_blank: "evidence_ok rs (replicate evidence_group_count no_evidence)"
  by (simp add: evidence_ok_def no_evidence_def)

lemma rules_field_ok_blank: "rules_field_ok rs detection0"
  by (simp add: rules_field_ok_def detection0_def)

lemma entry_ok_blank: "entry_ok rs entry0"
  by (simp add: entry_ok_def entry0_def evidence_ok_blank rules_field_ok_blank)
    (simp add: signal_ok_def detection0_def)

text \<open>What an entry touched by the observation holds.\<close>

definition touched_ok :: "settings \<Rightarrow> observation \<Rightarrow> entry \<Rightarrow> bool" where
  "touched_ok s ob e \<longleftrightarrow>
     (let d = e_detection e
      in d_seen_count d \<noteq> 0 \<and> d_last_ms d = o_ms ob \<and> d_address d = o_address ob \<and>
         d_address_type d = o_address_type ob \<and> d_radio d = o_radio ob \<and>
         d_channel d = o_channel ob \<and> d_rssi_min d \<le> o_rssi ob \<and> o_rssi ob \<le> d_rssi_max d \<and>
         has_category (s_enabled_categories s) (d_category d))"

definition has_active :: "observation \<Rightarrow> entry \<Rightarrow> bool" where
  "has_active ob e \<longleftrightarrow> active_rules ob e \<noteq> []"

lemma evidence_ok_update:
  "evidence_ok rs evs \<Longrightarrow> r \<in> set rs \<Longrightarrow> ev_rule ev = Some r \<Longrightarrow> evidence_ok rs (evs[k := ev])"
  by (auto simp: evidence_ok_def dest!: in_set_update_cases)

lemma add_evidence_detection [simp]:
  "e_detection (add_evidence r ob e) = e_detection e"
  "e_emitted (add_evidence r ob e) = e_emitted e"
  "e_emitted_samsung_state (add_evidence r ob e) = e_emitted_samsung_state e"
  by (simp_all add: add_evidence_def Let_def)

lemma add_evidence_ok:
  "entry_ok rs e \<Longrightarrow> r \<in> set rs \<Longrightarrow> entry_ok rs (add_evidence r ob e)"
  by (auto simp: entry_ok_def add_evidence_def Let_def intro: evidence_ok_update)

lemma add_evidence_touched: "touched_ok s ob (add_evidence r ob e) = touched_ok s ob e"
  by (simp add: touched_ok_def)

lemma active_rules_nth:
  assumes "k < length (e_evidence e)" and "ev_rule (e_evidence e ! k) = Some r"
    and "ucast (o_ms ob) - ev_at (e_evidence e ! k) \<le> (30000 :: u32)"
  shows "r \<in> set (active_rules ob e)"
  using assms unfolding active_rules_def
  by (auto simp: image_iff intro!: exI [of _ "e_evidence e ! k"] nth_mem)

lemma add_evidence_active:
  assumes "length (e_evidence e) = evidence_group_count"
  shows "has_active ob (add_evidence r ob e)"
proof -
  define k where "k = evidence_group (r_kind r)"
  have k: "k < length (e_evidence e)" using assms by (simp add: k_def layout)
  define ev where "ev = e_evidence e ! k"
  show ?thesis
  proof (cases "ev_rule ev = None \<or> 30000 < ucast (o_ms ob) - ev_at ev \<or>
      r_score (the (ev_rule ev)) \<le> r_score r")
    case True
    then have "add_evidence r ob e =
        e\<lparr>e_evidence := (e_evidence e)[k := \<lparr>ev_rule = Some r, ev_at = ucast (o_ms ob)\<rparr>]\<rparr>"
      by (auto simp: add_evidence_def k_def ev_def Let_def split: option.split)
    then show ?thesis
      using active_rules_nth [of k "add_evidence r ob e" r ob] k by (auto simp: has_active_def)
  next
    case False
    then have "add_evidence r ob e = e" "ev_rule ev = Some (the (ev_rule ev))"
      by (auto simp: add_evidence_def k_def ev_def Let_def split: option.split)
    then show ?thesis
      using active_rules_nth [of k e _ ob] k False by (fastforce simp: has_active_def ev_def)
  qed
qed

lemma signal_ok_update:
  assumes "signal_ok d" and "rssi_ok ob"
  shows "signal_ok (e_detection (update_entry ob (e\<lparr>e_detection := d\<rparr>)))"
proof -
  define n where "n = int (unat (d_seen_count d))"
  define lo where "lo = min (d_rssi_min d) (o_rssi ob)"
  define hi where "hi = max (d_rssi_max d) (o_rssi ob)"
  have s: "n * d_rssi_min d \<le> d_rssi_sum d" "d_rssi_sum d \<le> n * d_rssi_max d" "0 \<le> n"
    using assms(1) by (simp_all add: signal_ok_def n_def)
  have "n * lo \<le> n * d_rssi_min d" "n * d_rssi_max d \<le> n * hi"
    using s(3) by (simp_all add: lo_def hi_def mult_left_mono)
  with s have b: "n * lo \<le> d_rssi_sum d" "d_rssi_sum d \<le> n * hi" by linarith+
  moreover have "(n + 1) * lo \<le> d_rssi_sum d + o_rssi ob"
    "d_rssi_sum d + o_rssi ob \<le> (n + 1) * hi"
    using b by (simp_all add: lo_def hi_def distrib_right add_mono)
  moreover have "int (unat (d_seen_count d + 1)) = n + 1" if "d_seen_count d \<noteq> - 1"
    using that by (simp add: n_def unat_Suc_small)
  ultimately show ?thesis
    using assms
    by (auto simp: signal_ok_def update_entry_def Let_def rssi_ok_def n_def lo_def hi_def)
qed

lemma update_entry_keeps [simp]:
  "d_rules (e_detection (update_entry ob e)) = d_rules (e_detection e)"
  "d_rule_count (e_detection (update_entry ob e)) = d_rule_count (e_detection e)"
  "d_score (e_detection (update_entry ob e)) = d_score (e_detection e)"
  "d_category (e_detection (update_entry ob e)) = d_category (e_detection e)"
  "e_emitted (update_entry ob e) = e_emitted e"
  "e_emitted_samsung_state (update_entry ob e) = e_emitted_samsung_state e"
  by (simp_all add: update_entry_def Let_def)

lemma rules_field_ok_cong:
  "d_rules d = d_rules d' \<Longrightarrow> d_rule_count d = d_rule_count d' \<Longrightarrow>
     rules_field_ok rs d = rules_field_ok rs d'"
  by (simp add: rules_field_ok_def cong: option.case_cong)

lemma update_entry_ok:
  assumes "entry_ok rs e" and "rssi_ok ob"
  shows "entry_ok rs (update_entry ob e)"
proof -
  have "signal_ok (e_detection (update_entry ob e))"
    using signal_ok_update [of "e_detection e" ob e] assms by (simp add: entry_ok_def)
  moreover have "evidence_ok rs (e_evidence (update_entry ob e))"
    using assms(1) by (auto simp: entry_ok_def update_entry_def Let_def evidence_ok_blank)
  moreover have "rules_field_ok rs (e_detection (update_entry ob e))"
    using assms(1) rules_field_ok_cong [of "e_detection (update_entry ob e)" "e_detection e" rs]
    by (simp add: entry_ok_def)
  moreover have "d_score (e_detection (update_entry ob e)) \<le> 100"
    using assms(1) by (simp add: entry_ok_def)
  ultimately show ?thesis by (simp add: entry_ok_def)
qed

lemma fresh_entry_ok: "rssi_ok ob \<Longrightarrow> entry_ok rs (fresh_entry r ob)"
  using rules_field_ok_blank [of rs]
    rules_field_ok_cong [of "e_detection (fresh_entry r ob)" detection0 rs]
  by (simp add: entry_ok_def fresh_entry_def entry0_def evidence_ok_blank)
    (simp add: signal_ok_def detection0_def rssi_ok_def)

lemma update_entry_touched:
  assumes "d_radio (e_detection e) = o_radio ob"
    and "has_category (s_enabled_categories s) (d_category (e_detection e))"
    and "d_seen_count (e_detection e) = 0 \<Longrightarrow>
      d_rssi_min (e_detection e) \<le> o_rssi ob \<and> o_rssi ob \<le> d_rssi_max (e_detection e)"
  shows "touched_ok s ob (update_entry ob e)"
proof -
  have "n + 1 \<noteq> 0" if "n \<noteq> - 1" for n :: u32
    using that by (simp add: eq_neg_iff_add_eq_0)
  with assms show ?thesis by (auto simp: touched_ok_def update_entry_def Let_def)
qed

lemma claim_entry_facts:
  assumes "claim_entry r ob cache = (cache', i)" and "cache \<noteq> []" and "list_all (entry_ok rs) cache"
    and "rssi_ok ob" and "has_category (s_enabled_categories s) (r_category r)"
  shows "\<exists>e. i < length cache \<and> cache' = cache[i := e] \<and> entry_ok rs e \<and> touched_ok s ob e"
proof -
  define slot where "slot = pick_slot (same_entry r ob) (\<lambda>e. d_seen_count (e_detection e) = 0)
                         (\<lambda>e. d_last_ms (e_detection e)) cache"
  define e where "e = (if snd slot then cache ! fst slot else fresh_entry r ob)"
  have c: "cache' = cache[i := update_entry ob e]" "fst slot = i"
    using assms(1) unfolding claim_entry_def slot_def [symmetric] e_def
    by (auto simp: Let_def split: prod.splits)
  have i: "i < length cache"
    unfolding c(2) [symmetric] slot_def by (rule pick_slot_less [OF assms(2)])
  show ?thesis
  proof (cases "snd slot")
    case True
    with c(2) have "slot = (i, True)" by (cases slot) simp
    then have "first_index (same_entry r ob) cache = Some i"
      unfolding slot_def by (simp add: pick_slot_found)
    then have "same_entry r ob (cache ! i)" by (rule first_index_holds)
    then have "touched_ok s ob (update_entry ob (cache ! i))"
      using assms(5) by (intro update_entry_touched) (auto simp: same_entry_def Let_def)
    moreover have "entry_ok rs (cache ! i)" using assms(3) i by (simp add: list_all_length)
    ultimately show ?thesis
      using c i True assms(4) by (auto simp: e_def intro: update_entry_ok)
  next
    case False
    have "touched_ok s ob (update_entry ob (fresh_entry r ob))"
      using assms(5) by (intro update_entry_touched) (auto simp: fresh_entry_def)
    then show ?thesis
      using c i False assms(4) by (auto simp: e_def intro: update_entry_ok fresh_entry_ok)
  qed
qed

section \<open>The loop over the rules\<close>

definition tables_ok :: "engine \<Rightarrow> bool" where
  "tables_ok g \<longleftrightarrow> length (g_bursts g) = 16 \<and> bursts.keys_unique (g_bursts g) \<and>
     length (g_aps g) = 24 \<and> aps.keys_unique (g_aps g)"

definition engine_ok :: "engine \<Rightarrow> bool" where
  "engine_ok g \<longleftrightarrow> rules_ok (g_rules g) \<and> length (g_cache g) = 128 \<and>
     list_all (entry_ok (g_rules g)) (g_cache g) \<and> tables_ok g"

definition slots_ok :: "settings \<Rightarrow> observation \<Rightarrow> engine \<Rightarrow> nat option list \<Rightarrow> bool" where
  "slots_ok s ob g touched \<longleftrightarrow> length touched = category_count \<and>
     (\<forall>i. Some i \<in> set touched \<longrightarrow> i < length (g_cache g) \<and>
        touched_ok s ob (g_cache g ! i) \<and> has_active ob (g_cache g ! i))"

lemma behavior_frame:
  assumes "behavior r ob g = (g', hit)"
  shows "g_rules g' = g_rules g \<and> g_cache g' = g_cache g \<and> g_aps g' = g_aps g \<and>
    g_next_emit g' = g_next_emit g \<and> (tables_ok g \<longrightarrow> tables_ok g')"
proof -
  have "g' = g \<or> g' = g\<lparr>g_bursts := burst_put (o_address ob, o_channel ob) (o_ms ob) (g_bursts g)\<rparr>"
    using assms by (auto simp: behavior_def burst_put_def split: if_splits prod.splits)
  moreover have "tables_ok g \<Longrightarrow> g_bursts g \<noteq> []" by (auto simp: tables_ok_def)
  ultimately show ?thesis
    using bursts.put_unique [of "g_bursts g"] bursts.put_length [of "g_bursts g"]
    unfolding tables_ok_def by fastforce
qed

lemma rule_step_ok:
  assumes g: "engine_ok g" and t: "slots_ok s ob g touched" and r: "r \<in> set (g_rules g)"
    and ob: "rssi_ok ob" and step: "rule_step s ob r (g, touched) = (g', touched')"
  shows "engine_ok g' \<and> slots_ok s ob g' touched' \<and> g_rules g' = g_rules g \<and>
    g_next_emit g' = g_next_emit g"
proof -
  define c where "c = category_index (r_category r)"
  obtain g1 hit where b: "(if r_kind r = Behavior then behavior r ob g else (g, matches r ob)) = (g1, hit)"
    by fastforce
  have g1: "g_rules g1 = g_rules g" "g_cache g1 = g_cache g" "g_next_emit g1 = g_next_emit g"
    "engine_ok g1"
    using b behavior_frame [of r ob g] g by (auto simp: engine_ok_def split: if_splits)
  have t1: "slots_ok s ob g1 touched" using t by (simp add: slots_ok_def g1)
  have l: "length (g_cache g) = 128" "list_all (entry_ok (g_rules g)) (g_cache g)"
    "length touched = category_count" "c < category_count"
    using g r t by (auto simp: engine_ok_def slots_ok_def rules_ok_def list_all_iff c_def)
  show ?thesis
  proof (cases "has_category (s_enabled_categories s) (r_category r) \<and> hit")
    case False
    then have "(g', touched') = (g, touched) \<or> (g', touched') = (g1, touched)"
      using step b by (auto simp: rule_step_def Let_def split: if_splits prod.splits)
    then show ?thesis using g t g1 t1 by auto
  next
    case True
    have "\<exists>cache i e. (case touched ! c of Some i \<Rightarrow> (g_cache g1, i)
          | None \<Rightarrow> claim_entry r ob (g_cache g1)) = (cache, i) \<and> i < 128 \<and>
        cache = (g_cache g)[i := e] \<and> entry_ok (g_rules g) e \<and> touched_ok s ob e"
    proof (cases "touched ! c")
      case None
      obtain cache i where "claim_entry r ob (g_cache g) = (cache, i)" by fastforce
      moreover from this have "\<exists>e. i < length (g_cache g) \<and> cache = (g_cache g)[i := e] \<and>
          entry_ok (g_rules g) e \<and> touched_ok s ob e"
        using l ob True by (intro claim_entry_facts) auto
      ultimately show ?thesis using None l by (auto simp: g1)
    next
      case (Some i)
      then have "Some i \<in> set touched" using l by (metis nth_mem)
      then have "i < 128" "touched_ok s ob (g_cache g ! i)" using t l by (auto simp: slots_ok_def)
      with Some l show ?thesis
        by (intro exI [of _ "g_cache g"] exI [of _ i] exI [of _ "g_cache g ! i"])
          (auto simp: g1 list_all_length)
    qed
    then obtain cache i e where slot: "(case touched ! c of Some i \<Rightarrow> (g_cache g1, i)
          | None \<Rightarrow> claim_entry r ob (g_cache g1)) = (cache, i)" and i: "i < 128"
      and cache: "cache = (g_cache g)[i := e]" and e: "entry_ok (g_rules g) e" "touched_ok s ob e"
      by blast
    define e' where "e' = add_evidence r ob e"
    have e': "entry_ok (g_rules g) e'" "touched_ok s ob e'"
      using e r by (simp_all add: e'_def add_evidence_ok add_evidence_touched)
    have act: "has_active ob e'"
      using e(1) unfolding e'_def by (intro add_evidence_active) (simp add: entry_ok_def evidence_ok_def)
    have g': "g' = g1\<lparr>g_cache := (g_cache g)[i := e']\<rparr>" "touched' = touched[c := Some i]"
      using step b slot True i l
      by (auto simp: rule_step_def Let_def c_def [symmetric] cache e'_def)
    have "engine_ok g'"
      using g1 l e'(1) unfolding engine_ok_def g' tables_ok_def
      by (auto simp: list_all_iff dest!: in_set_update_cases)
    moreover have "slots_ok s ob g' touched'"
      using t l i e' act unfolding slots_ok_def g'
      by (auto simp: nth_list_update dest!: in_set_update_cases intro: nth_mem)
    ultimately show ?thesis by (simp add: g' g1)
  qed
qed

lemma gather_ok:
  assumes "engine_ok g" and "rssi_ok ob" and "gather s ob g = (g', touched)"
  shows "engine_ok g' \<and> slots_ok s ob g' touched \<and> g_rules g' = g_rules g \<and>
    g_next_emit g' = g_next_emit g"
proof -
  have "engine_ok g' \<and> slots_ok s ob g' touched \<and> g_rules g' = g_rules g0 \<and>
      g_next_emit g' = g_next_emit g0"
    if "fold (rule_step s ob) rs (g0, t0) = (g', touched)" "engine_ok g0" "slots_ok s ob g0 t0"
      "set rs \<subseteq> set (g_rules g0)" for rs g0 t0
    using that
  proof (induction rs arbitrary: g0 t0)
    case (Cons r rs)
    obtain g1 t1 where s: "rule_step s ob r (g0, t0) = (g1, t1)" by fastforce
    have "engine_ok g1 \<and> slots_ok s ob g1 t1 \<and> g_rules g1 = g_rules g0 \<and>
        g_next_emit g1 = g_next_emit g0"
      using Cons.prems s assms(2) by (intro rule_step_ok) auto
    with Cons.prems s Cons.IH [of g1 t1] show ?case by simp
  qed simp
  from this [of "g_rules g" g "replicate category_count None"] assms show ?thesis
    by (simp add: gather_def slots_ok_def)
qed

lemma remember_ap_ok:
  "engine_ok g \<Longrightarrow> engine_ok (remember_ap ob g) \<and> g_rules (remember_ap ob g) = g_rules g \<and>
     g_cache (remember_ap ob g) = g_cache g \<and> g_next_emit (remember_ap ob g) = g_next_emit g"
  using aps.put_unique [of "g_aps g" "o_address ob" "ap_of ob"]
    aps.put_length [of "g_aps g" "o_address ob" "ap_of ob"]
  by (cases "g_aps g = []") (auto simp: remember_ap_def engine_ok_def tables_ok_def)

section \<open>Fusion\<close>

lemma ceiling_le_iff: "ceiling_of ob rs \<le> k \<longleftrightarrow> (\<forall>r \<in> set rs. unat (cap r ob) \<le> k)"
proof -
  have "foldl (\<lambda>m r. max m (unat (cap r ob))) m rs \<le> k \<longleftrightarrow>
      m \<le> k \<and> (\<forall>r \<in> set rs. unat (cap r ob) \<le> k)" for m
    by (induction rs arbitrary: m) auto
  then show ?thesis by (simp add: ceiling_of_def)
qed

lemma cap_le_ceiling: "r \<in> set rs \<Longrightarrow> unat (cap r ob) \<le> ceiling_of ob rs"
  using ceiling_le_iff [of ob rs "ceiling_of ob rs"] by simp

lemma set_sort_rules [simp]: "set (sort_rules ob rs) = set rs"
  by (simp add: sort_rules_def)

lemma length_sort_rules [simp]: "length (sort_rules ob rs) = length rs"
  by (simp add: sort_rules_def)

lemma sort_rules_order:
  assumes "sort_rules ob rs = r # rest" and "r' \<in> set rest"
  shows "strength ob r' \<le> strength ob r"
proof -
  have "sorted (map (\<lambda>r. - int (unat (strength ob r))) (r # rest))"
    unfolding assms(1) [symmetric] sort_rules_def by (rule sorted_sort_key)
  then show ?thesis using assms(2) by (simp add: word_le_def)
qed

lemma strength_le_cap: "strength ob r \<le> cap r ob"
  by (simp add: strength_def)

lemma fuse_le_ceiling: "fuse ob rs \<le> max 1 (ceiling_of ob rs)"
  by (auto simp: fuse_def Let_def)

lemma fuse_le: "\<forall>r \<in> set rs. unat (cap r ob) \<le> k \<Longrightarrow> 1 \<le> k \<Longrightarrow> fuse ob rs \<le> k"
  using fuse_le_ceiling [of ob rs] ceiling_le_iff [of ob rs k] by simp

lemma fuse_strongest:
  assumes "\<not> o_contradiction ob" and "r \<in> set rs"
  shows "unat (strength ob r) \<le> fuse ob (sort_rules ob rs)"
proof -
  obtain h t where s: "sort_rules ob rs = h # t"
    using assms(2) set_sort_rules [of ob rs] by (cases "sort_rules ob rs") auto
  then have "r = h \<or> r \<in> set t" using assms(2) set_sort_rules [of ob rs] by auto
  then have "strength ob r \<le> strength ob h" using sort_rules_order [OF s] by auto
  moreover have "unat (strength ob h) \<le> ceiling_of ob (h # t)"
    using cap_le_ceiling [of h "h # t" ob] strength_le_cap [of ob h]
    by (simp add: word_le_nat_alt)
  ultimately show ?thesis
    using assms(1) by (auto simp: s fuse_def Let_def word_le_nat_alt split: list.split)
qed

lemma fuse_quarter:
  assumes "\<not> o_contradiction ob" and "rs \<noteq> []"
  shows "\<exists>r \<in> set rs. fuse ob (sort_rules ob rs) \<le> unat (strength ob r) + unat (strength ob r) div 4"
proof -
  obtain h t where s: "sort_rules ob rs = h # t"
    using assms(2) length_sort_rules [of ob rs] by (cases "sort_rules ob rs") auto
  have "unat (strength ob r) div 4 \<le> unat (strength ob h) div 4" if "r \<in> set t" for r
    using sort_rules_order [OF s that] by (simp add: div_le_mono word_le_nat_alt)
  moreover have "h \<in> set rs" using s set_sort_rules [of ob rs] by (metis list.set_intros(1))
  ultimately show ?thesis
    using assms(1) by (intro bexI [of _ h]) (auto simp: s fuse_def Let_def min_le_iff_disj split: list.split)
qed

section \<open>Scoring and emission\<close>

lemma active_rules_subset:
  "evidence_ok rs (e_evidence e) \<Longrightarrow> set (active_rules ob e) \<subseteq> set rs"
  by (auto simp: active_rules_def evidence_ok_def)

lemma nth_padded:
  "i < 4 \<Longrightarrow> (take 4 (map Some rs) @ replicate (4 - length rs) None) ! i =
     (if i < length rs then Some (rs ! i) else None)"
  by (auto simp: nth_append)

lemma score_entry_keeps [simp]:
  "e_evidence (score_entry ob e) = e_evidence e" "e_emitted (score_entry ob e) = e_emitted e"
  "e_emitted_samsung_state (score_entry ob e) = e_emitted_samsung_state e"
  "has_active ob (score_entry ob e) = has_active ob e"
  "touched_ok s ob (score_entry ob e) = touched_ok s ob e"
  by (simp_all add: score_entry_def Let_def has_active_def active_rules_def touched_ok_def)

lemma score_of_nat:
  assumes "rules_ok rs" and "set as \<subseteq> set rs"
  shows "fuse ob as \<le> 100" and "unat (of_nat (fuse ob as) :: u8) = fuse ob as"
proof -
  have "unat (cap r ob) \<le> 100" if "r \<in> set as" for r
  proof -
    have "r_cap r \<le> 100" using assms that by (auto simp: rules_ok_def list_all_iff)
    with cap_le [of r ob] have "cap r ob \<le> 100" by (rule order_trans)
    then show ?thesis by (simp add: word_le_nat_alt)
  qed
  then show f: "fuse ob as \<le> 100" by (intro fuse_le) auto
  then show "unat (of_nat (fuse ob as) :: u8) = fuse ob as"
    by (simp add: unat_of_nat)
qed

lemma score_entry_ok:
  assumes "rules_ok rs" and "entry_ok rs e"
  shows "entry_ok rs (score_entry ob e)"
proof -
  define as where "as = sort_rules ob (active_rules ob e)"
  have sub: "set as \<subseteq> set rs"
    using assms(2) active_rules_subset by (simp add: as_def entry_ok_def)
  have "rules_field_ok rs (e_detection (score_entry ob e))"
    using sub nth_mem [of _ as]
    by (auto simp: rules_field_ok_def score_entry_def Let_def as_def [symmetric] nth_padded
        simp del: length_sort_rules cong: option.case_cong)
  moreover have "d_score (e_detection (score_entry ob e)) \<le> 100"
    using score_of_nat [OF assms(1) sub, of ob]
    by (simp add: score_entry_def Let_def as_def [symmetric] word_le_nat_alt)
  moreover have "signal_ok (e_detection (score_entry ob e))"
    using assms(2) by (simp add: entry_ok_def signal_ok_def score_entry_def Let_def)
  ultimately show ?thesis using assms(2) by (simp add: entry_ok_def)
qed

text \<open>What a detection that leaves the engine promises to its consumers.\<close>

definition detection_ok :: "rule list \<Rightarrow> settings \<Rightarrow> observation \<Rightarrow> detection \<Rightarrow> bool" where
  "detection_ok rs s ob d \<longleftrightarrow>
     rules_field_ok rs d \<and> 1 \<le> d_rule_count d \<and> signal_ok d \<and> d_score d \<le> 100 \<and>
     d_seen_count d \<noteq> 0 \<and> d_last_ms d = o_ms ob \<and> d_address d = o_address ob \<and>
     d_address_type d = o_address_type ob \<and> d_radio d = o_radio ob \<and> d_channel d = o_channel ob \<and>
     d_rssi_min d \<le> o_rssi ob \<and> o_rssi ob \<le> d_rssi_max d \<and>
     has_category (s_enabled_categories s) (d_category d)"

lemma scored_detection_ok:
  assumes "rules_ok rs" and "entry_ok rs e" and "touched_ok s ob e" and "has_active ob e"
  shows "detection_ok rs s ob (e_detection (score_entry ob e))"
proof -
  have "1 \<le> d_rule_count (e_detection (score_entry ob e))"
    using assms(4) by (cases "active_rules ob e") (simp_all add: score_entry_def Let_def has_active_def)
  moreover have "touched_ok s ob (score_entry ob e)" using assms(3) by simp
  ultimately show ?thesis
    using score_entry_ok [OF assms(1,2), of ob]
    by (simp add: detection_ok_def entry_ok_def touched_ok_def Let_def)
qed

definition emit_inv :: "settings \<Rightarrow> observation \<Rightarrow> engine \<Rightarrow> nat option list \<Rightarrow> engine \<times> detection list \<Rightarrow> bool" where
  "emit_inv s ob g0 touched = (\<lambda>(g, out).
     engine_ok g \<and> g_rules g = g_rules g0 \<and> slots_ok s ob g touched \<and>
     (out = [] \<and> g_next_emit g = g_next_emit g0 \<or>
      (\<exists>d. out = [d] \<and> detection_ok (g_rules g0) s ob d \<and> g_next_emit g0 \<le> o_ms ob \<and>
         g_next_emit g = o_ms ob + 100)))"

lemma next_emit_later: "unat (ms :: u64) + 100 < 2 ^ 64 \<Longrightarrow> \<not> ms + 100 \<le> ms"
  by (simp add: word_le_nat_alt unat_plus_small)

lemma emit_step_inv:
  assumes inv: "emit_inv s ob g0 touched (g, out)" and slot: "slot \<in> set touched"
    and ms: "unat (o_ms ob) + 100 < 2 ^ 64"
  shows "emit_inv s ob g0 touched (emit_step ob capacity slot (g, out))"
proof (cases slot)
  case None
  then show ?thesis using inv by (simp add: emit_step_def)
next
  case (Some i)
  define e where "e = score_entry ob (g_cache g ! i)"
  have g: "engine_ok g" "g_rules g = g_rules g0" "slots_ok s ob g touched"
    using inv by (auto simp: emit_inv_def)
  then have i: "i < 128" "touched_ok s ob (g_cache g ! i)" "has_active ob (g_cache g ! i)"
    "length (g_cache g) = 128" and rs: "rules_ok (g_rules g)"
    using slot Some by (auto simp: slots_ok_def engine_ok_def)
  have old: "entry_ok (g_rules g) (g_cache g ! i)"
    using g(1) i by (simp add: engine_ok_def list_all_length)
  have e: "entry_ok (g_rules g) e" "detection_ok (g_rules g) s ob (e_detection e)"
    "touched_ok s ob e" "has_active ob e"
    using i by (simp_all add: e_def score_entry_ok [OF rs old] scored_detection_ok [OF rs old])
  have put: "engine_ok (g\<lparr>g_cache := (g_cache g)[i := e']\<rparr>) \<and>
      slots_ok s ob (g\<lparr>g_cache := (g_cache g)[i := e']\<rparr>) touched"
    if "e_detection e' = e_detection e" "e_evidence e' = e_evidence e" for e'
  proof -
    have "entry_ok (g_rules g) e'" "touched_ok s ob e'" "has_active ob e'"
      using that e by (simp_all add: entry_ok_def touched_ok_def has_active_def active_rules_def)
    with g i show ?thesis
      by (auto simp: engine_ok_def tables_ok_def slots_ok_def list_all_iff nth_list_update
          dest!: in_set_update_cases)
  qed
  show ?thesis
  proof (cases "due ob (d_score (e_detection (g_cache g ! i))) e \<and> g_next_emit g \<le> o_ms ob \<and>
      length out < capacity")
    case True
    with inv ms have "out = []" "g_next_emit g = g_next_emit g0"
      using next_emit_later by (auto simp: emit_inv_def)
    with True e(2) g(2) put [of "e\<lparr>e_emitted := max 1 (o_ms ob),
        e_emitted_samsung_state := st_state (d_samsung (e_detection e))\<rparr>"]
    show ?thesis
      by (auto simp: Some emit_step_def emit_inv_def Let_def e_def [symmetric] engine_ok_def
          tables_ok_def slots_ok_def)
  next
    case False
    have "emit_step ob capacity slot (g, out) = (g\<lparr>g_cache := (g_cache g)[i := e]\<rparr>, out)"
      unfolding Some emit_step_def Let_def option.case prod.case e_def [symmetric] if_not_P [OF False] ..
    with inv put [of e] show ?thesis by (simp add: emit_inv_def)
  qed
qed

lemma ingest_inv:
  assumes g: "engine_ok g" and ob: "rssi_ok ob" and ms: "unat (o_ms ob) + 100 < 2 ^ 64"
    and i: "ingest ob s capacity g = (g', out)"
  shows "engine_ok g' \<and> g_rules g' = g_rules g \<and>
    (out = [] \<and> g_next_emit g' = g_next_emit g \<or>
     (\<exists>d. out = [d] \<and> detection_ok (g_rules g) s ob d \<and> g_next_emit g \<le> o_ms ob \<and>
        g_next_emit g' = o_ms ob + 100))"
proof -
  obtain g1 touched where ga: "gather s ob g = (g1, touched)" by fastforce
  note g1 = gather_ok [OF g ob ga]
  have "emit_inv s ob g touched (fold (emit_step ob capacity) ts (h, o'))"
    if "emit_inv s ob g touched (h, o')" "set ts \<subseteq> set touched" for ts h o'
    using that
  proof (induction ts arbitrary: h o')
    case (Cons t ts)
    then show ?case
      using emit_step_inv [OF Cons.prems(1) _ ms, of t capacity]
      by (cases "emit_step ob capacity t (h, o')") simp
  qed simp
  moreover have "emit_inv s ob g touched (remember_ap ob g1, [])"
    using g1 remember_ap_ok [of g1 ob] by (simp add: emit_inv_def slots_ok_def)
  ultimately have "emit_inv s ob g touched (fold (emit_step ob capacity) touched (remember_ap ob g1, []))"
    by blast
  then have "emit_inv s ob g touched (g', out)" using i by (simp add: ingest_def ga)
  then show ?thesis by (auto simp: emit_inv_def)
qed

interpretation detection_engine: invariant_machine
  "\<lambda>g (ob, s, capacity). fst (ingest ob s capacity g)" "\<lambda>g. engine_ok g \<and> g_rules g = rs"
  "\<lambda>(ob, s :: settings, capacity :: nat). rssi_ok ob \<and> unat (o_ms ob) + 100 < 2 ^ 64" for rs
proof
  fix g and e :: "observation \<times> settings \<times> nat"
  assume g: "engine_ok g \<and> g_rules g = rs"
    and e: "case e of (ob, s, capacity) \<Rightarrow> rssi_ok ob \<and> unat (o_ms ob) + 100 < 2 ^ 64"
  obtain ob s capacity where [simp]: "e = (ob, s, capacity)" by (cases e)
  obtain g' out where "ingest ob s capacity g = (g', out)" by fastforce
  with ingest_inv [OF conjunct1 [OF g] _ _ this] e g
  show "engine_ok (case e of (ob, s, capacity) \<Rightarrow> fst (ingest ob s capacity g)) \<and>
      g_rules (case e of (ob, s, capacity) \<Rightarrow> fst (ingest ob s capacity g)) = rs" by simp
qed

lemma engine_ok_start: "rules_ok rs \<Longrightarrow> engine_ok (engine0 rs)"
  by (simp add: engine_ok_def engine0_def tables_ok_def bursts.keys_unique_def aps.keys_unique_def
      burst_key_def ap_key_def burst0_def access_point0_def list_all_iff entry_ok_blank)

text \<open>A run of the engine: the observations in order, and what each of them emitted.\<close>

primrec engine_run :: "engine \<Rightarrow> (observation \<times> settings \<times> nat) list \<Rightarrow> engine \<times> (observation \<times> detection list) list"
where
  "engine_run g [] = (g, [])"
| "engine_run g (e # es) =
     (let (ob, s, capacity) = e;
          (g', out) = ingest ob s capacity g;
          (g'', outs) = engine_run g' es
      in (g'', (ob, out) # outs))"

definition timely :: "(observation \<times> settings \<times> nat) list \<Rightarrow> bool" where
  "timely es \<longleftrightarrow> list_all (\<lambda>(ob, s, capacity). rssi_ok ob \<and> unat (o_ms ob) + 100 < 2 ^ 64) es"

definition emission_times :: "(observation \<times> detection list) list \<Rightarrow> nat list" where
  "emission_times outs = concat (map (\<lambda>(ob, out). map (\<lambda>_. unat (o_ms ob)) out) outs)"

lemma engine_run_spaced:
  assumes "engine_ok g" and "timely es"
  shows "sorted_wrt (\<lambda>a b. a + 100 \<le> b) (emission_times (snd (engine_run g es))) \<and>
    (\<forall>t \<in> set (emission_times (snd (engine_run g es))). unat (g_next_emit g) \<le> t)"
  using assms
proof (induction es arbitrary: g)
  case Nil
  then show ?case by (simp add: emission_times_def)
next
  case (Cons e es)
  obtain ob s capacity where e: "e = (ob, s, capacity)" by (cases e)
  obtain g' out where i: "ingest ob s capacity g = (g', out)" by fastforce
  obtain g'' outs where r: "engine_run g' es = (g'', outs)" by fastforce
  have ob: "rssi_ok ob" "unat (o_ms ob) + 100 < 2 ^ 64" and es: "timely es"
    using Cons.prems(2) by (auto simp: timely_def e)
  note inv = ingest_inv [OF Cons.prems(1) ob i]
  have IH: "sorted_wrt (\<lambda>a b. a + 100 \<le> b) (emission_times outs)"
    "\<forall>t \<in> set (emission_times outs). unat (g_next_emit g') \<le> t"
    using Cons.IH [of g'] inv es r by auto
  have t: "emission_times (snd (engine_run g (e # es))) =
      map (\<lambda>_. unat (o_ms ob)) out @ emission_times outs"
    by (simp add: e i r emission_times_def)
  from inv consider "out = []" "g_next_emit g' = g_next_emit g"
    | d where "out = [d]" "g_next_emit g \<le> o_ms ob" "g_next_emit g' = o_ms ob + 100"
    by blast
  then show ?case
  proof cases
    case 1
    with IH show ?thesis unfolding t by simp
  next
    case 2
    then have "unat (g_next_emit g') = unat (o_ms ob) + 100"
      using ob(2) by (simp add: unat_plus_small)
    with 2 IH show ?thesis unfolding t by (fastforce simp: word_le_nat_alt)
  qed
qed

section \<open>Counting signals\<close>

lemma same_identity_sym: "same_identity d d' = same_identity d' d"
  by (auto simp: same_identity_def)

lemma already_counted_iff:
  "already_counted now s cache i \<longleftrightarrow> (\<exists>j < length cache. i \<noteq> j \<and> recent_active now s (cache ! j) \<and>
     same_identity (e_detection (cache ! i)) (e_detection (cache ! j)) \<and>
     (d_score (e_detection (cache ! i)) < d_score (e_detection (cache ! j)) \<or>
      d_score (e_detection (cache ! j)) = d_score (e_detection (cache ! i)) \<and> j < i))"
  by (auto simp: already_counted_def list_ex_iff Let_def)

lemma counted_iff:
  "i \<in> set (counted now s cache) \<longleftrightarrow> i < length cache \<and> recent_active now s (cache ! i) \<and>
     \<not> already_counted now s cache i"
  by (auto simp: counted_def)

lemma counted_distinct_identity:
  assumes "i \<in> set (counted now s cache)" and "j \<in> set (counted now s cache)" and "i \<noteq> j"
  shows "\<not> same_identity (e_detection (cache ! i)) (e_detection (cache ! j))"
proof
  assume same: "same_identity (e_detection (cache ! i)) (e_detection (cache ! j))"
  define a where "a = d_score (e_detection (cache ! i))"
  define b where "b = d_score (e_detection (cache ! j))"
  have "a < b \<or> b = a \<and> j < i \<or> (b < a \<or> a = b \<and> i < j)"
    using assms(3) by (metis linorder_neqE)
  then show False
    using assms same same_identity_sym unfolding counted_iff already_counted_iff a_def b_def by metis
qed

lemma count_class_less: "count_class score < 3"
  by (simp add: count_class_def)

lemma counts_fold:
  assumes "length cs = 3" and "k < 3"
  shows "fold (\<lambda>i counts. let k = count_class (f i) in counts[k := counts ! k + 1]) xs cs ! k =
    cs ! k + (of_nat (length (filter (\<lambda>i. count_class (f i) = k) xs)) :: u32)"
  using assms
proof (induction xs arbitrary: cs)
  case (Cons x xs)
  then show ?case
    using count_class_less [of "f x"] by (simp add: Let_def nth_list_update)
qed simp

definition identities_uniform :: "u64 \<Rightarrow> settings \<Rightarrow> entry list \<Rightarrow> bool" where
  "identities_uniform now s cache \<longleftrightarrow>
     (\<forall>i < length cache. \<forall>j < length cache. recent_active now s (cache ! i) \<longrightarrow>
        recent_active now s (cache ! j) \<longrightarrow>
        samsung_identity (e_detection (cache ! i)) = samsung_identity (e_detection (cache ! j)))"

lemma same_identity_trans:
  assumes "samsung_identity a = samsung_identity b" and "samsung_identity b = samsung_identity c"
    and "same_identity a b" and "same_identity b c"
  shows "same_identity a c"
  using assms by (auto simp: same_identity_def split: if_splits)

lemma same_identity_refl: "same_identity d d"
  by (simp add: same_identity_def)

lemma represented:
  assumes u: "identities_uniform now s cache"
    and i: "i < length cache" "recent_active now s (cache ! i)"
  shows "\<exists>j \<in> set (counted now s cache).
    same_identity (e_detection (cache ! i)) (e_detection (cache ! j)) \<and>
    d_score (e_detection (cache ! i)) \<le> d_score (e_detection (cache ! j))"
proof -
  define n where "n = length cache"
  define S where "S = {j. j < n \<and> recent_active now s (cache ! j) \<and>
    same_identity (e_detection (cache ! i)) (e_detection (cache ! j))}"
  define w where "w = (\<lambda>j. unat (d_score (e_detection (cache ! j))) * Suc n + (n - j))"
  have S: "finite S" "i \<in> S" using i same_identity_refl by (auto simp: S_def n_def)
  then have "Max (w ` S) \<in> w ` S" by (intro Max_in) auto
  then obtain j where j: "j \<in> S" "w j = Max (w ` S)" by (elim imageE) (rule that, simp_all only:)
  have top: "w l \<le> w j" if "l \<in> S" for l
    unfolding j(2) using S(1) that by (intro Max_ge) auto
  have key: "w a < w b" if "a < n" "b < n"
    "d_score (e_detection (cache ! a)) < d_score (e_detection (cache ! b)) \<or>
     d_score (e_detection (cache ! b)) = d_score (e_detection (cache ! a)) \<and> b < a" for a b
    using that(3)
  proof
    assume "d_score (e_detection (cache ! a)) < d_score (e_detection (cache ! b))"
    then have "Suc (unat (d_score (e_detection (cache ! a)))) * Suc n \<le>
        unat (d_score (e_detection (cache ! b))) * Suc n"
      by (intro mult_le_mono1) (simp add: word_less_nat_alt)
    then show ?thesis by (simp add: w_def)
  next
    assume eq: "d_score (e_detection (cache ! b)) = d_score (e_detection (cache ! a)) \<and> b < a"
    have "n - a < n - b" by (rule diff_less_mono2 [OF conjunct2 [OF eq] order_less_trans [OF conjunct2 [OF eq] that(1)]])
    then show ?thesis unfolding w_def conjunct1 [OF eq] by (rule add_strict_left_mono)
  qed
  have "\<not> already_counted now s cache j"
  proof
    assume "already_counted now s cache j"
    then obtain l where l: "l < n" "recent_active now s (cache ! l)"
      "same_identity (e_detection (cache ! j)) (e_detection (cache ! l))" and
      less: "d_score (e_detection (cache ! j)) < d_score (e_detection (cache ! l)) \<or>
        d_score (e_detection (cache ! l)) = d_score (e_detection (cache ! j)) \<and> l < j"
      unfolding already_counted_iff n_def [symmetric] by blast
    have jn: "j < n" "recent_active now s (cache ! j)" using j(1) by (simp_all add: S_def)
    note less = key [OF jn(1) l(1) less]
    have "same_identity (e_detection (cache ! i)) (e_detection (cache ! l))"
    proof (rule same_identity_trans)
      show "samsung_identity (e_detection (cache ! i)) = samsung_identity (e_detection (cache ! j))"
        using u i jn unfolding identities_uniform_def n_def by blast
      show "samsung_identity (e_detection (cache ! j)) = samsung_identity (e_detection (cache ! l))"
        using u l(1,2) jn unfolding identities_uniform_def n_def by blast
      show "same_identity (e_detection (cache ! i)) (e_detection (cache ! j))"
        using j(1) by (simp add: S_def)
    qed (rule l(3))
    with l have "l \<in> S" by (simp add: S_def)
    from top [OF this] less show False by simp
  qed
  with j have "j \<in> set (counted now s cache)" by (simp add: counted_iff S_def n_def)
  moreover have "d_score (e_detection (cache ! i)) \<le> d_score (e_detection (cache ! j))"
  proof (rule ccontr)
    assume "\<not> d_score (e_detection (cache ! i)) \<le> d_score (e_detection (cache ! j))"
    then have "d_score (e_detection (cache ! j)) < d_score (e_detection (cache ! i))" by simp
    with key [of j i] j(1) S(2) have "w j < w i" by (simp add: S_def)
    with top [OF S(2)] show False by simp
  qed
  ultimately show ?thesis using j by (auto simp: S_def)
qed

section \<open>Properties\<close>

text \<open>
  Property C7.  The burst rule, after any history of deauthentication frames: it never fires unless the last 20
  frames of the transmitter on this channel, this one included, span at most ten seconds; and it does
  fire on them when at most sixteen (transmitter, channel) pairs were ever heard, or when the clock does
  not step back and at most sixteen pairs were heard since the first of those 20 frames.  With more pairs than
  rings the code gives up the ring that was used least recently, and a burst can be missed.
\<close>

theorem deauth_burst_exact:
  assumes "o_radio ob = Wifi" and "r_value r = ''deauth_burst''"
    and "o_subtype ob = 10 \<or> o_subtype ob = 12" and "g_bursts g = bursts_after h"
  shows "let k = (o_address ob, o_channel ob); h' = h @ [(k, o_ms ob)];
      ts = stamps_of k h @ [o_ms ob]; since = ts ! (length ts - 20);
      burst = (20 \<le> length ts \<and> since \<le> o_ms ob \<and> o_ms ob - since \<le> 10000);
      few = (card (fst ` set h') \<le> 16 \<or> sorted (map snd h') \<and> card (heard_since since h') \<le> 16)
    in (snd (behavior r ob g) \<longrightarrow> burst) \<and> (burst \<and> few \<longrightarrow> snd (behavior r ob g))"
proof -
  define k where "k = (o_address ob, o_channel ob)"
  have rule: "snd (behavior r ob g) = snd (burst_record (fst k) (snd k) (o_ms ob) (bursts_after h))"
    unfolding behavior_deauth [OF assms] by (simp add: k_def)
  have span: "burst_span (stamps_of k h @ [o_ms ob]) \<longleftrightarrow> (let ts = stamps_of k h @ [o_ms ob]; since = ts ! (length ts - 20)
      in 20 \<le> length ts \<and> since \<le> o_ms ob \<and> o_ms ob - since \<le> 10000)"
    by (simp add: burst_span_def Let_def)
  show ?thesis
    unfolding Let_def rule k_def [symmetric] span [unfolded Let_def, symmetric] map_append list.map snd_conv
    using burst_answer_sound [of k "o_ms ob" h] burst_answer_all [of h k "o_ms ob"]
      burst_answer_complete [of k h "o_ms ob"] by blast
qed

text \<open>
  Property C8.  Every detection the engine emits is well formed: it reports the observation just
  ingested, its category is enabled, its score is at most 100 and backed by 1 to 4 rules of the
  table (the array of rule pointers is set exactly below \<open>rule_count\<close>), it was seen, and its mean
  signal lies between the recorded extremes.
\<close>

theorem ingest_detection_ok:
  assumes "rules_ok rs" and "timely es" and "rssi_ok ob" and "unat (o_ms ob) + 100 < 2 ^ 64"
    and "d \<in> set (snd (ingest ob s capacity
           (foldl (\<lambda>g (ob, s, capacity). fst (ingest ob s capacity g)) (engine0 rs) es)))"
  shows "detection_ok rs s ob d"
proof -
  define g where "g = foldl (\<lambda>g (ob, s, capacity). fst (ingest ob s capacity g)) (engine0 rs) es"
  have "engine_ok g \<and> g_rules g = rs"
    unfolding g_def using assms(2) engine_ok_start [OF assms(1)]
    by (intro detection_engine.run_inv) (simp_all add: timely_def engine0_def)
  then have g: "engine_ok g" "g_rules g = rs" by simp_all
  from ingest_inv [OF g(1) assms(3,4), of s capacity] assms(5) show ?thesis
    unfolding g_def [symmetric] by (cases "ingest ob s capacity g") (auto simp: g(2))
qed

text \<open>
  Property C9.  The emission rate is bounded: over any run, each observation yields at most one
  detection, and consecutive emissions are at least 100 milliseconds apart.
\<close>

theorem emissions_spaced:
  assumes "rules_ok rs" and "timely es"
  shows "sorted_wrt (\<lambda>a b. a + 100 \<le> b) (emission_times (snd (engine_run (engine0 rs) es)))"
  using engine_run_spaced [OF engine_ok_start [OF assms(1)] assms(2)] by blast

text \<open>
  The fused score is at least the strength of every active rule, exceeds the
  strongest one by at most a quarter of it, and never exceeds the largest cap.
\<close>

theorem fuse_bounds:
  assumes "\<not> o_contradiction ob" and "rs \<noteq> []"
  shows "(\<forall>r \<in> set rs. unat (strength ob r) \<le> fuse ob (sort_rules ob rs)) \<and>
    (\<exists>r \<in> set rs. fuse ob (sort_rules ob rs) \<le> unat (strength ob r) + unat (strength ob r) div 4) \<and>
    (\<exists>r \<in> set rs. fuse ob (sort_rules ob rs) \<le> unat (cap r ob))"
proof -
  have "\<exists>r \<in> set rs. ceiling_of ob (sort_rules ob rs) \<le> unat (cap r ob)"
  proof (rule ccontr)
    assume "\<not> ?thesis"
    then have less: "\<forall>r \<in> set rs. unat (cap r ob) < ceiling_of ob (sort_rules ob rs)"
      by (simp add: not_le)
    then have "ceiling_of ob (sort_rules ob rs) \<le> ceiling_of ob (sort_rules ob rs) - 1"
      unfolding ceiling_le_iff by fastforce
    moreover have "0 < ceiling_of ob (sort_rules ob rs)"
      using less assms(2) by (cases rs) auto
    ultimately show False by simp
  qed
  moreover have "fuse ob (sort_rules ob rs) \<le> ceiling_of ob (sort_rules ob rs)"
    using assms(1) by (auto simp: fuse_def Let_def)
  ultimately have "\<exists>r \<in> set rs. fuse ob (sort_rules ob rs) \<le> unat (cap r ob)"
    using order_trans by blast
  with fuse_strongest [OF assms(1)] fuse_quarter [OF assms] show ?thesis by blast
qed

text \<open>
  Weak evidence cannot raise an alert of a higher grade: when only generic rules
  are active the score stays below 50, and with names and network names only it stays below 80.
\<close>

theorem weak_evidence_capped:
  shows "(list_all r_generic rs \<longrightarrow> fuse ob (sort_rules ob rs) < 50) \<and>
    (list_all (\<lambda>r. r_kind r \<in> {NameExact, NamePrefix, SsidExact, SsidPrefix}) rs \<longrightarrow>
       fuse ob (sort_rules ob rs) < 80)"
proof -
  have "fuse ob (sort_rules ob rs) \<le> 49" if "list_all r_generic rs"
    using that cap_generic [of _ ob] by (intro fuse_le) (simp_all add: list_all_iff word_le_nat_alt)
  moreover have "fuse ob (sort_rules ob rs) \<le> 79"
    if "list_all (\<lambda>r. r_kind r \<in> {NameExact, NamePrefix, SsidExact, SsidPrefix}) rs"
    using that cap_textual [of _ ob] unfolding list_all_iff
    by (intro fuse_le) (simp_all add: word_le_nat_alt)
  ultimately show ?thesis by fastforce
qed

text \<open>
  \<open>recent_counts\<close> counts identities, not cache entries: each class holds the number
  of counted entries of that class, no two counted entries share an identity, and, when the
  active entries are all Samsung identities or all others, every active entry is represented by
  a counted one of the same identity and at least its score.
\<close>

theorem recent_counts_identities:
  assumes "identities_uniform now s (g_cache g)"
  shows "(\<forall>k < 3. recent_counts now s g ! k = of_nat (length (filter
      (\<lambda>i. count_class (d_score (e_detection (g_cache g ! i))) = k) (counted now s (g_cache g))))) \<and>
    (\<forall>i \<in> set (counted now s (g_cache g)). \<forall>j \<in> set (counted now s (g_cache g)). i \<noteq> j \<longrightarrow>
      \<not> same_identity (e_detection (g_cache g ! i)) (e_detection (g_cache g ! j))) \<and>
    (\<forall>i < length (g_cache g). recent_active now s (g_cache g ! i) \<longrightarrow>
      (\<exists>j \<in> set (counted now s (g_cache g)).
        same_identity (e_detection (g_cache g ! i)) (e_detection (g_cache g ! j)) \<and>
        d_score (e_detection (g_cache g ! i)) \<le> d_score (e_detection (g_cache g ! j))))"
proof (intro conjI)
  show "\<forall>k < 3. recent_counts now s g ! k = of_nat (length (filter
      (\<lambda>i. count_class (d_score (e_detection (g_cache g ! i))) = k) (counted now s (g_cache g))))"
    using counts_fold [of "[0, 0, 0]" _ "\<lambda>i. d_score (e_detection (g_cache g ! i))"
        "counted now s (g_cache g)"]
    by (auto simp: recent_counts_def less_Suc_eq numeral_3_eq_3)
qed (use counted_distinct_identity represented [OF assms] in blast)+

section \<open>Witnesses\<close>

definition example_rule :: rule where
  "example_rule = \<lparr>r_id = ''name'', r_category = FLIPPER, r_kind = NamePrefix, r_value = ''Flip'',
     r_score = 60, r_cap = 90, r_generic = False, r_label = ''label'', r_reason = ''reason''\<rparr>"

definition example_seen :: observation where
  "example_seen = observation0\<lparr>o_ms := 1000, o_radio := Ble, o_rssi := - 40,
     o_name := ''Flipper'' @ replicate 26 (CHR 0x00)\<rparr>"

lemma example_emits: "snd (ingest example_seen settings0 4 (engine0 [example_rule])) \<noteq> []"
  by code_simp

theorem deauth_burst_exact_witness:
  "let ob = observation0\<lparr>o_subtype := 12, o_ms := 5000\<rparr>;
       h = map (\<lambda>i. ((replicate 6 0, 0), of_nat i)) [0..<19]
   in snd (behavior (example_rule\<lparr>r_value := ''deauth_burst''\<rparr>) ob
        ((engine0 [])\<lparr>g_bursts := bursts_after h\<rparr>))"
proof -
  define h where "h = map (\<lambda>i. ((replicate 6 0 :: address, 0 :: u8), of_nat i :: u64)) [0..<19]"
  have "fst ` set (h @ [((replicate 6 0, 0), 5000)]) \<subseteq> {(replicate 6 0, 0)}" by (auto simp: h_def)
  then have "card (fst ` set (h @ [((replicate 6 0, 0), 5000)])) \<le> card {(replicate 6 0 :: address, 0 :: u8)}"
    by (intro card_mono) auto
  then have c: "card (fst ` set (h @ [((replicate 6 0, 0), 5000)])) \<le> 16" by simp
  have "stamps_of (replicate 6 0, 0) h = map of_nat [0..<19]" by (simp add: h_def stamps_of_def filter_map comp_def)
  then show ?thesis
    using deauth_burst_exact [of "observation0\<lparr>o_subtype := 12, o_ms := 5000\<rparr>"
        "example_rule\<lparr>r_value := ''deauth_burst''\<rparr>" "(engine0 [])\<lparr>g_bursts := bursts_after h\<rparr>" h] c
    unfolding h_def [symmetric] Let_def by (simp add: observation0_def nth_append)
qed

theorem ingest_detection_ok_witness:
  "detection_ok [example_rule] settings0 example_seen
     (hd (snd (ingest example_seen settings0 4 (engine0 [example_rule]))))"
  using example_emits
  by (intro ingest_detection_ok [where es = "[]" and capacity = 4])
    (simp_all add: rules_ok_def timely_def rssi_ok_def example_rule_def example_seen_def category_count_def
      del: hd_in_set, simp_all add: hd_in_set)

theorem emissions_spaced_witness:
  "sorted_wrt (\<lambda>a b. a + 100 \<le> b) (emission_times (snd (engine_run (engine0 [example_rule])
     [(example_seen, settings0, 4), (example_seen\<lparr>o_ms := 31000\<rparr>, settings0, 4)])))"
  by (rule emissions_spaced)
    (simp_all add: rules_ok_def timely_def rssi_ok_def example_rule_def example_seen_def category_count_def)

theorem fuse_bounds_witness:
  "unat (strength example_seen example_rule) \<le> fuse example_seen (sort_rules example_seen [example_rule]) \<and>
   fuse example_seen (sort_rules example_seen [example_rule]) \<le> unat (cap example_rule example_seen)"
  using fuse_bounds [of example_seen "[example_rule]"] by (simp add: example_seen_def observation0_def)

theorem weak_evidence_capped_witness:
  "fuse example_seen (sort_rules example_seen [example_rule]) < 80"
  using weak_evidence_capped [of "[example_rule]" example_seen] by (simp add: example_rule_def)

definition example_recent :: engine where
  "example_recent = fst (ingest example_seen settings0 4 (engine0 [example_rule]))"

lemma example_recent_cache:
  "list_all (\<lambda>e. \<not> samsung_identity (e_detection e)) (g_cache example_recent)"
  by code_simp

theorem recent_counts_identities_witness:
  "recent_counts 2000 settings0 example_recent ! 1 = of_nat (length (filter
      (\<lambda>i. count_class (d_score (e_detection (g_cache example_recent ! i))) = 1)
      (counted 2000 settings0 (g_cache example_recent))))"
proof -
  have "identities_uniform 2000 settings0 (g_cache example_recent)"
    using example_recent_cache by (simp add: identities_uniform_def list_all_length)
  from recent_counts_identities [OF this, THEN conjunct1, THEN spec, of 1] show ?thesis by simp
qed

end
