(* ===== verification/Pet.thy ===== *)
theory Pet
  imports Core_Types
begin

text \<open>
  The pet of \<open>core.hpp\<close> and \<open>engine.cpp\<close>: decay of its needs over powered-on time, meals, strokes
  and levels, and the meal guard that decides which sightings earn a meal.  Properties: the needs
  stay within 0 to 100, decay is additive in time, and the guard's three cooldowns.
\<close>

section \<open>Pet\<close>

record pet =
  p_xp :: u32
  p_meals :: u32
  p_unique :: u32
  p_category_mask :: u32
  p_lifetime_meals :: "u32 list"
  p_fullness :: u8
  p_mood :: u8
  p_decay_ms :: u64

definition pet0 :: pet where
  "pet0 = \<lparr>p_xp = 0, p_meals = 0, p_unique = 0, p_category_mask = 0,
     p_lifetime_meals = replicate category_count 0, p_fullness = 70, p_mood = 70, p_decay_ms = 0\<rparr>"

definition needs_interval_ms :: u64 where
  "needs_interval_ms = 300000"

definition low_needs :: u8 where
  "low_needs = 25"

text \<open>\<open>x > n ? x - n : 0\<close> at 64 bits, stored back in a byte.\<close>

definition drain :: "u8 \<Rightarrow> u64 \<Rightarrow> u8" where
  "drain x n = (if n < ucast x then ucast (ucast x - n) else 0)"

definition decay_needs :: "u64 \<Rightarrow> u64 \<times> u8 \<times> u8 \<Rightarrow> u64 \<times> u8 \<times> u8" where
  "decay_needs now = (\<lambda>(clock, fullness, mood).
     (let clock = (if now < clock then now else clock);
          steps = (now - clock) div needs_interval_ms
      in if steps = 0 then (clock, fullness, mood)
         else (clock + steps * needs_interval_ms, drain fullness (steps * 3), drain mood (steps * 2))))"

definition clamp :: "int \<Rightarrow> int \<Rightarrow> int \<Rightarrow> int" where
  "clamp v lo hi = (if v < lo then lo else if hi < v then hi else v)"

definition nourish :: "u8 \<Rightarrow> u8 \<times> u8 \<Rightarrow> u8 \<times> u8" where
  "nourish score = (\<lambda>(fullness, mood).
     (of_int (clamp (uint fullness + (if 80 \<le> score then 20 else if 50 \<le> score then 14 else 6)) 35 100),
      of_int (clamp (uint mood + (if 80 \<le> score then 15 else if 50 \<le> score then 12 else 6)) 40 100)))"

definition tick :: "u64 \<Rightarrow> pet \<Rightarrow> pet" where
  "tick now p = (let (clock, fullness, mood) = decay_needs now (p_decay_ms p, p_fullness p, p_mood p)
     in p\<lparr>p_decay_ms := clock, p_fullness := fullness, p_mood := mood\<rparr>)"

definition feed :: "detection \<Rightarrow> bool \<Rightarrow> pet \<Rightarrow> pet" where
  "feed d low p =
     (let c = category_index (d_category d)
      in if d_demo d \<or> \<not> d_meal d \<or> d_score d < (if low then 20 else 50) \<or> category_count \<le> c \<or>
            100 < d_score d then p
         else let bonus = (if p_category_mask p AND push_bit c 1 \<noteq> 0 then 0 else 3);
                  (fullness, mood) = nourish (d_score d) (p_fullness p, p_mood p)
              in p\<lparr>p_category_mask := p_category_mask p OR push_bit c 1,
                   p_xp := p_xp p + (if 80 \<le> d_score d then 10 else if 50 \<le> d_score d then 5 else 1) + bonus,
                   p_fullness := fullness, p_mood := mood, p_decay_ms := d_last_ms d,
                   p_meals := p_meals p + 1,
                   p_lifetime_meals := (p_lifetime_meals p)[c := p_lifetime_meals p ! c + 1]\<rparr>)"

definition stroke :: "pet \<Rightarrow> pet" where
  "stroke p = p\<lparr>p_mood := of_int (min 100 (uint (p_mood p) + 2))\<rparr>"

definition pet_level :: "pet \<Rightarrow> u32" where
  "pet_level p = 1 + p_xp p div 100"

section \<open>Meal guard\<close>

record meal_stamp =
  ms_hash :: u64
  ms_remaining_ms :: u64

definition no_stamp :: meal_stamp where
  "no_stamp = \<lparr>ms_hash = 0, ms_remaining_ms = 0\<rparr>"

record meal_guard =
  mg_stamps :: "meal_stamp list"
  mg_category_until :: "u64 list"
  mg_global_until :: u64

definition meal_guard0 :: meal_guard where
  "meal_guard0 = \<lparr>mg_stamps = replicate 128 no_stamp,
     mg_category_until = replicate category_count 0, mg_global_until = 0\<rparr>"

text \<open>The slot an award overwrites: that of the same identity, else the one that expires first.\<close>

definition stamp_slot :: "u64 \<Rightarrow> meal_stamp list \<Rightarrow> nat" where
  "stamp_slot hash stamps = (case first_index (\<lambda>s. ms_hash s = hash) stamps of
     Some i \<Rightarrow> i | None \<Rightarrow> min_index ms_remaining_ms stamps)"

definition meal_cooldown :: "category \<Rightarrow> u64" where
  "meal_cooldown c = (if c = DEAUTH then 600000 else 1800000)"

definition award :: "u64 \<Rightarrow> u64 \<Rightarrow> category \<Rightarrow> u8 \<Rightarrow> bool \<Rightarrow> meal_guard \<Rightarrow> meal_guard \<times> bool" where
  "award hash now c score low g =
     (if hash = 0 \<or> score < (if low then 20 else 50) then (g, False)
      else if now < mg_global_until g \<or> now < mg_category_until g ! category_index c then (g, False)
      else if list_ex (\<lambda>s. ms_hash s = hash \<and> now < ms_remaining_ms s) (mg_stamps g) then (g, False)
      else (g\<lparr>mg_stamps := (mg_stamps g)[stamp_slot hash (mg_stamps g) :=
                \<lparr>ms_hash = hash, ms_remaining_ms = now + meal_cooldown c\<rparr>],
              mg_global_until := now + 5000,
              mg_category_until := (mg_category_until g)[category_index c := now + 30000]\<rparr>, True))"

definition restore :: "meal_stamp list \<Rightarrow> meal_guard \<Rightarrow> meal_guard" where
  "restore saved g =
     (let kept = take 128 (filter (\<lambda>s. ms_hash s \<noteq> 0 \<and> ms_remaining_ms s \<noteq> 0) saved)
      in g\<lparr>mg_stamps := map (\<lambda>s. \<lparr>ms_hash = ms_hash s, ms_remaining_ms = 1800000\<rparr>) kept
             @ replicate (128 - length kept) no_stamp\<rparr>)"

text \<open>
  The 32 latest-expiring stamps; \<open>std::sort\<close> leaves the order of equal expiries open, and the
  model takes the stable one.
\<close>

definition snapshot :: "u64 \<Rightarrow> meal_guard \<Rightarrow> meal_stamp list" where
  "snapshot now g =
     map (\<lambda>s. if now < ms_remaining_ms s
              then \<lparr>ms_hash = ms_hash s, ms_remaining_ms = ms_remaining_ms s - now\<rparr> else no_stamp)
       (take 32 (sort_key (\<lambda>s. - int (unat (ms_remaining_ms s))) (mg_stamps g)))"

section \<open>Decay\<close>

lemma unat_ucast_byte: "unat (ucast (x :: u8) :: u64) = unat x"
proof -
  have "unat x < 2 ^ LENGTH(64)" using unsigned_less [of x, where 'a = nat] by simp
  then show ?thesis by (simp add: unsigned_ucast_eq take_bit_nat_eq_self)
qed

lemma unat_drain: "unat (drain x n) = unat x - unat n"
proof (cases "n < ucast x")
  case True
  have lt: "unat x - unat n < 256" using unsigned_less [of x, where 'a = nat] by simp
  have "unat (ucast x - n) = unat x - unat n"
    using True by (simp add: unat_sub word_less_nat_alt word_le_nat_alt unat_ucast_byte)
  with lt have "unat (ucast (ucast x - n) :: u8) = unat x - unat n"
    by (simp add: unsigned_ucast_eq take_bit_nat_eq_self)
  then show ?thesis using True by (simp add: drain_def)
next
  case False
  then show ?thesis by (simp add: drain_def word_less_nat_alt unat_ucast_byte)
qed

lemma decay_steps_small: "unat ((a :: u64) div needs_interval_ms) * 300000 < 2 ^ 64"
proof -
  have "unat (a div needs_interval_ms) * 300000 \<le> unat a"
    by (simp add: needs_interval_ms_def unat_div)
  also have "\<dots> < 2 ^ 64" using unsigned_less [of a, where 'a = nat] by simp
  finally show ?thesis .
qed

lemma decay_needs_spec:
  assumes "clock \<le> now" and "decay_needs now (clock, f, m) = (clock', f', m')"
  defines "n \<equiv> (unat now - unat clock) div 300000"
  shows "unat clock' = unat clock + n * 300000" and "unat f' = unat f - 3 * n"
    and "unat m' = unat m - 2 * n"
proof -
  define steps where "steps = (now - clock) div needs_interval_ms"
  have n: "unat steps = n"
    using assms(1) by (simp add: steps_def needs_interval_ms_def unat_div n_def unat_sub)
  have b: "n * 300000 \<le> unat now - unat clock" "n * 300000 < 2 ^ 64"
    using decay_steps_small [of "now - clock"] n by (simp_all add: n_def steps_def)
  have c: "unat clock \<le> unat now" using assms(1) by (simp add: word_le_nat_alt)
  have mul: "unat (steps * 3) = 3 * n" "unat (steps * 2) = 2 * n" "unat (steps * needs_interval_ms) = n * 300000"
    using b(2) n by (simp_all add: unat_word_ariths needs_interval_ms_def)
  have clock: "unat (clock + steps * needs_interval_ms) = unat clock + n * 300000"
    using b(1) c mul(3) unsigned_less [of now, where 'a = nat]
    by (subst unat_plus_small) simp_all
  have z: "steps = 0 \<longleftrightarrow> n = 0" using n by (metis unat_eq_zero)
  have "decay_needs now (clock, f, m) = (if steps = 0 then (clock, f, m)
      else (clock + steps * needs_interval_ms, drain f (steps * 3), drain m (steps * 2)))"
    using assms(1) by (simp add: decay_needs_def Let_def steps_def leD)
  with assms(2) show "unat clock' = unat clock + n * 300000" "unat f' = unat f - 3 * n"
    "unat m' = unat m - 2 * n"
    using z clock by (auto simp: unat_drain mul split: if_splits)
qed

lemma decay_needs_backwards: "now < clock \<Longrightarrow> decay_needs now (clock, f, m) = (now, f, m)"
  by (simp add: decay_needs_def needs_interval_ms_def)

section \<open>The pet's invariant\<close>

datatype pet_event = Tick u64 | Feed detection bool | Stroke

primrec pet_step :: "pet \<Rightarrow> pet_event \<Rightarrow> pet" where
  "pet_step p (Tick now) = tick now p"
| "pet_step p (Feed d low) = feed d low p"
| "pet_step p Stroke = stroke p"

definition pet_ok :: "pet \<Rightarrow> bool" where
  "pet_ok p \<longleftrightarrow> p_fullness p \<le> 100 \<and> p_mood p \<le> 100 \<and>
     length (p_lifetime_meals p) = category_count \<and> sum_list (p_lifetime_meals p) = p_meals p"

lemma clamp_word:
  assumes "0 \<le> lo" and "lo \<le> hi" and "hi \<le> 100"
  shows "lo \<le> uint (of_int (clamp v lo hi) :: u8) \<and> uint (of_int (clamp v lo hi) :: u8) \<le> hi"
proof -
  have c: "lo \<le> clamp v lo hi" "clamp v lo hi \<le> hi" using assms(2) by (simp_all add: clamp_def)
  then have "uint (of_int (clamp v lo hi) :: u8) = clamp v lo hi"
    using assms by (simp add: uint_word_of_int_eq take_bit_int_eq_self)
  with c show ?thesis by simp
qed

lemma nourish_bounds:
  assumes "nourish score (f, m) = (f', m')"
  shows "35 \<le> f' \<and> f' \<le> 100 \<and> 40 \<le> m' \<and> m' \<le> 100"
proof -
  from assms clamp_word [of 35 100] clamp_word [of 40 100] show ?thesis
    by (auto simp: nourish_def word_le_def)
qed

lemma drain_le: "drain x n \<le> x"
  by (simp add: word_le_nat_alt unat_drain)

lemma decay_needs_le:
  "decay_needs now (clock, f, m) = (clock', f', m') \<Longrightarrow> f' \<le> f \<and> m' \<le> m"
  by (auto simp: decay_needs_def Let_def drain_le split: if_splits)

lemma sum_list_increment:
  "i < length xs \<Longrightarrow> sum_list (xs[i := xs ! i + (1 :: u32)]) = sum_list xs + 1"
  by (induction xs arbitrary: i) (auto split: nat.splits)

lemma feed_cases:
  obtains (refused) "feed d low p = p"
  | (fed) f m where "\<not> d_demo d" "d_meal d" "d_score d \<le> 100" "(if low then 20 else 50) \<le> d_score d"
      "category_index (d_category d) < category_count"
      "nourish (d_score d) (p_fullness p, p_mood p) = (f, m)"
      "p_fullness (feed d low p) = f" "p_mood (feed d low p) = m"
      "p_meals (feed d low p) = p_meals p + 1" "p_decay_ms (feed d low p) = d_last_ms d"
      "p_lifetime_meals (feed d low p) = (p_lifetime_meals p)
         [category_index (d_category d) := p_lifetime_meals p ! category_index (d_category d) + 1]"
proof (cases "d_demo d \<or> \<not> d_meal d \<or> d_score d < (if low then 20 else 50) \<or>
    category_count \<le> category_index (d_category d) \<or> 100 < d_score d")
  case True
  then show thesis by (intro refused) (simp add: feed_def Let_def)
next
  case False
  obtain f m where "nourish (d_score d) (p_fullness p, p_mood p) = (f, m)" by fastforce
  with False show thesis by (intro fed) (auto simp: feed_def Let_def)
qed

interpretation pet_life: invariant_machine pet_step pet_ok "\<lambda>_. True"
proof
  fix p e assume p: "pet_ok p"
  show "pet_ok (pet_step p e)"
  proof (cases e)
    case (Tick now)
    obtain c f m where d: "decay_needs now (p_decay_ms p, p_fullness p, p_mood p) = (c, f, m)"
      by (cases "decay_needs now (p_decay_ms p, p_fullness p, p_mood p)")
    from decay_needs_le [OF d] p show ?thesis
      by (auto simp: Tick tick_def d pet_ok_def intro: order_trans)
  next
    case (Feed d low)
    show ?thesis
    proof (cases rule: feed_cases [of d low p])
      case refused
      with p show ?thesis by (simp add: Feed)
    next
      case (fed f m)
      from nourish_bounds [OF fed(6)] p fed show ?thesis
        by (simp add: Feed pet_ok_def sum_list_increment)
    qed
  next
    case Stroke
    have "uint (of_int (min 100 (uint (p_mood p) + 2)) :: u8) \<le> 100"
      by (simp add: uint_word_of_int_eq take_bit_int_eq_self)
    with p show ?thesis by (simp add: Stroke stroke_def pet_ok_def word_le_def)
  qed
qed

lemma pet_ok_start: "pet_ok pet0"
  by (simp add: pet_ok_def pet0_def category_count_def sum_list_replicate)

section \<open>Runs of the meal guard\<close>

record meal_request =
  mr_hash :: u64
  mr_now :: u64
  mr_category :: category
  mr_score :: u8
  mr_low :: bool

primrec meal_run :: "meal_guard \<Rightarrow> meal_request list \<Rightarrow> meal_guard \<times> meal_request list" where
  "meal_run g [] = (g, [])"
| "meal_run g (r # rs) =
     (let (g', ok) = award (mr_hash r) (mr_now r) (mr_category r) (mr_score r) (mr_low r) g;
          (g'', awarded) = meal_run g' rs
      in (g'', if ok then r # awarded else awarded))"

definition request_ok :: "meal_request \<Rightarrow> bool" where
  "request_ok r \<longleftrightarrow> unat (mr_now r) + 1800000 < 2 ^ 64 \<and>
     category_index (mr_category r) < category_count"

definition request_cooldown :: "meal_request \<Rightarrow> nat" where
  "request_cooldown r = unat (meal_cooldown (mr_category r))"

lemma award_granted:
  assumes "award h now c score low g = (g', True)"
  shows "h \<noteq> 0" and "mg_global_until g \<le> now" and "mg_category_until g ! category_index c \<le> now"
    and "\<And>s. s \<in> set (mg_stamps g) \<Longrightarrow> ms_hash s = h \<Longrightarrow> ms_remaining_ms s \<le> now"
    and "g' = g\<lparr>mg_stamps := (mg_stamps g)[stamp_slot h (mg_stamps g) :=
                \<lparr>ms_hash = h, ms_remaining_ms = now + meal_cooldown c\<rparr>],
              mg_global_until := now + 5000,
              mg_category_until := (mg_category_until g)[category_index c := now + 30000]\<rparr>"
    and "(if low then 20 else 50) \<le> score"
  using assms by (auto simp: award_def list_ex_iff not_less split: if_splits)

lemma award_refused: "award h now c score low g = (g', False) \<Longrightarrow> g' = g"
  by (auto simp: award_def split: if_splits)

text \<open>What the guard remembers of the requests it has granted so far.\<close>

definition request_until :: "meal_request \<Rightarrow> nat" where
  "request_until r = unat (mr_now r) + request_cooldown r"

definition outlasting :: "meal_request \<Rightarrow> meal_request list \<Rightarrow> nat" where
  "outlasting q past = length (filter (\<lambda>p. request_until q \<le> request_until p) past)"

text \<open>
  Every cooldown in a used slot is that of a request of its own, and the cooldown of a request is still there
  unless 128 requests outlast it.
\<close>

definition guard_tracks :: "meal_guard \<Rightarrow> meal_request list \<Rightarrow> bool" where
  "guard_tracks g past \<longleftrightarrow>
     length (mg_stamps g) = 128 \<and> length (mg_category_until g) = category_count \<and>
     (\<forall>s \<in> set (mg_stamps g). ms_hash s = 0 \<longleftrightarrow> ms_remaining_ms s = 0) \<and>
     mset (map (\<lambda>s. unat (ms_remaining_ms s)) (filter (\<lambda>s. ms_hash s \<noteq> 0) (mg_stamps g)))
       \<subseteq># mset (map request_until past) \<and>
     (\<forall>r \<in> set past.
        unat (mr_now r) + 5000 \<le> unat (mg_global_until g) \<and>
        unat (mr_now r) + 30000 \<le> unat (mg_category_until g ! category_index (mr_category r)) \<and>
        (outlasting r past < 128 \<longrightarrow>
           (\<exists>i. first_index (\<lambda>s. ms_hash s = mr_hash r) (mg_stamps g) = Some i \<and>
              request_until r \<le> unat (ms_remaining_ms (mg_stamps g ! i)))))"

lemma guard_tracks_start: "guard_tracks meal_guard0 []"
  by (simp add: guard_tracks_def meal_guard0_def no_stamp_def)

lemma cooldown_bounds: "0 < request_cooldown r \<and> request_cooldown r \<le> 1800000"
  by (simp add: request_cooldown_def meal_cooldown_def)

lemma request_until_positive [simp]: "0 < request_until r"
  using cooldown_bounds [of r] by (simp add: request_until_def)

lemma outlasting_append [simp]: "outlasting q (past @ rs) = outlasting q past + outlasting q rs"
  by (simp add: outlasting_def)

lemma mset_filter_update:
  "mset (map f (filter P (xs[i := x]))) \<subseteq># add_mset (f x) (mset (map f (filter P xs)))"
  by (induction xs arbitrary: i) (auto split: nat.splits intro: subset_mset.order_trans)

text \<open>The slot that is given up has the earliest end: when it is a used one, every slot is.\<close>

lemma stamp_slot_less: "stamps \<noteq> [] \<Longrightarrow> stamp_slot h stamps < length stamps"
  by (simp add: stamp_slot_def min_index_less first_index_Some split: option.split)

lemma stamp_slot_kept:
  assumes t: "guard_tracks g past" and q: "outlasting q past < 128"
    and i: "first_index (\<lambda>s. ms_hash s = mr_hash q) (mg_stamps g) = Some i"
      "request_until q \<le> unat (ms_remaining_ms (mg_stamps g ! i))"
    and h: "mr_hash q \<noteq> h"
  shows "stamp_slot h (mg_stamps g) \<noteq> i"
proof
  assume slot: "stamp_slot h (mg_stamps g) = i"
  have l: "length (mg_stamps g) = 128"
    and z: "\<And>s. s \<in> set (mg_stamps g) \<Longrightarrow> ms_hash s = 0 \<longleftrightarrow> ms_remaining_ms s = 0"
    and owned: "mset (map (\<lambda>s. unat (ms_remaining_ms s)) (filter (\<lambda>s. ms_hash s \<noteq> 0) (mg_stamps g)))
       \<subseteq># mset (map request_until past)"
    using t by (auto simp: guard_tracks_def)
  have "ms_hash (mg_stamps g ! i) \<noteq> h" using i(1) h by (simp add: first_index_Some)
  then have least: "i = min_index ms_remaining_ms (mg_stamps g)"
    using slot by (auto simp: stamp_slot_def first_index_Some split: option.splits)
  have long: "request_until q \<le> unat (ms_remaining_ms s)" if s: "s \<in> set (mg_stamps g)" for s
  proof -
    obtain j where "j < length (mg_stamps g)" "s = mg_stamps g ! j" using s by (auto simp: in_set_conv_nth)
    then have "ms_remaining_ms (mg_stamps g ! i) \<le> ms_remaining_ms s" unfolding least by (simp add: min_index_le)
    with i(2) show ?thesis by (simp add: word_le_nat_alt)
  qed
  moreover from this have "ms_hash s \<noteq> 0" if s: "s \<in> set (mg_stamps g)" for s
    using z [OF s] long [OF s] request_until_positive [of q] by (metis not_le unat_0)
  ultimately have "filter_mset (\<lambda>t. request_until q \<le> t)
      (mset (map (\<lambda>s. unat (ms_remaining_ms s)) (filter (\<lambda>s. ms_hash s \<noteq> 0) (mg_stamps g))))
      = mset (map (\<lambda>s. unat (ms_remaining_ms s)) (mg_stamps g))"
    by (simp add: filter_id_conv filter_mset_eq_conv)
  then have "size (mset (map (\<lambda>s. unat (ms_remaining_ms s)) (mg_stamps g)))
      \<le> size (filter_mset (\<lambda>t. request_until q \<le> t) (mset (map request_until past)))"
    using size_mset_mono [OF multiset_filter_mono [OF owned, of "\<lambda>t. request_until q \<le> t"]] by simp
  moreover have "size (filter_mset (\<lambda>t. request_until q \<le> t) (mset (map request_until past))) = outlasting q past"
    unfolding outlasting_def by (simp add: mset_filter [symmetric] filter_map comp_def del: mset_map mset_filter)
  ultimately show False using q l by simp
qed

lemma first_index_update_same:
  assumes f: "first_index P xs = Some i" and k: "k = i \<and> P x \<or> k \<noteq> i \<and> \<not> P x"
  shows "first_index P (xs[k := x]) = Some i"
proof -
  have upd: "xs[k := x] ! j = (if j = k then x else xs ! j)" if "j < length xs" for j
    using that by (cases "j = k") simp_all
  from f k show ?thesis unfolding first_index_Some by (auto simp: upd)
qed

lemma first_index_update_new:
  assumes "first_index P xs \<in> {None, Some k}" and "k < length xs" and "P x"
  shows "first_index P (xs[k := x]) = Some k"
  using assms by (auto simp: first_index_Some first_index_None nth_list_update)

lemma unat_plus_const:
  assumes "unat (a :: u64) + unat b < 2 ^ 64"
  shows "unat (a + b) = unat a + unat b"
  using assms by (simp add: unat_plus_small)

text \<open>What a granted request leaves behind, and what it says of the requests granted before.\<close>

definition cooled :: "meal_request list \<Rightarrow> meal_request \<Rightarrow> meal_request \<Rightarrow> bool" where
  "cooled past q r \<longleftrightarrow> unat (mr_now q) + 5000 \<le> unat (mr_now r) \<and>
     (mr_category q = mr_category r \<longrightarrow> unat (mr_now q) + 30000 \<le> unat (mr_now r)) \<and>
     (mr_hash q = mr_hash r \<and> outlasting q past < 128 \<longrightarrow> request_until q \<le> unat (mr_now r))"

lemma award_cooled:
  assumes t: "guard_tracks g past" and q: "q \<in> set past"
    and a: "award (mr_hash r) (mr_now r) (mr_category r) (mr_score r) (mr_low r) g = (g', True)"
  shows "cooled past q r"
proof -
  note gr = award_granted [OF a]
  have past: "unat (mr_now q) + 5000 \<le> unat (mg_global_until g)"
      "unat (mr_now q) + 30000 \<le> unat (mg_category_until g ! category_index (mr_category q))"
      "outlasting q past < 128 \<longrightarrow> (\<exists>i. first_index (\<lambda>s. ms_hash s = mr_hash q) (mg_stamps g) = Some i \<and>
           request_until q \<le> unat (ms_remaining_ms (mg_stamps g ! i)))"
    using t q by (auto simp: guard_tracks_def)
  have "request_until q \<le> unat (mr_now r)" if same: "mr_hash q = mr_hash r" and few: "outlasting q past < 128"
  proof -
    obtain i where i: "first_index (\<lambda>s. ms_hash s = mr_hash q) (mg_stamps g) = Some i"
      "request_until q \<le> unat (ms_remaining_ms (mg_stamps g ! i))" using past(3) few by blast
    then have "ms_remaining_ms (mg_stamps g ! i) \<le> mr_now r"
      using gr(4) same by (auto simp: first_index_Some)
    with i(2) show ?thesis by (simp add: word_le_nat_alt)
  qed
  with past(1,2) gr(2,3) show ?thesis by (auto simp: cooled_def word_le_nat_alt)
qed

lemma award_keeps_stamp:
  assumes t: "guard_tracks g past"
    and a: "award (mr_hash r) (mr_now r) (mr_category r) (mr_score r) (mr_low r) g = (g', True)"
    and q: "q \<in> set (past @ [r])" "outlasting q (past @ [r]) < 128"
  defines "stamp \<equiv> \<lparr>ms_hash = mr_hash r, ms_remaining_ms = mr_now r + meal_cooldown (mr_category r)\<rparr>"
  defines "stamps \<equiv> (mg_stamps g)[stamp_slot (mr_hash r) (mg_stamps g) := stamp]"
  assumes until: "unat (ms_remaining_ms stamp) = request_until r"
  shows "\<exists>i. first_index (\<lambda>s. ms_hash s = mr_hash q) stamps = Some i \<and>
    request_until q \<le> unat (ms_remaining_ms (stamps ! i))"
proof -
  define k where "k = stamp_slot (mr_hash r) (mg_stamps g)"
  have l: "length (mg_stamps g) = 128" "mg_stamps g \<noteq> []" using t by (auto simp: guard_tracks_def)
  have k: "k < 128" using stamp_slot_less [OF l(2)] l(1) by (simp add: k_def)
  show ?thesis
  proof (cases "mr_hash q = mr_hash r")
    case True
    have "first_index (\<lambda>s. ms_hash s = mr_hash r) (mg_stamps g) \<in> {None, Some k}"
      by (simp add: k_def stamp_slot_def split: option.split)
    then have "first_index (\<lambda>s. ms_hash s = mr_hash q) stamps = Some k"
      unfolding stamps_def k_def [symmetric] True using k l(1) by (intro first_index_update_new) (auto simp: stamp_def)
    moreover have "stamps ! k = stamp" using k l(1) by (simp add: stamps_def k_def [symmetric])
    moreover have "request_until q \<le> request_until r"
    proof (cases "q \<in> set past")
      case seen: True
      have "outlasting q past < 128" using q(2) by simp
      with award_cooled [OF t seen a] True show ?thesis by (simp add: cooled_def request_until_def)
    qed (use q in auto)
    ultimately show ?thesis using until by simp
  next
    case False
    with q have seen: "q \<in> set past" "outlasting q past < 128" by auto
    then obtain i where i: "first_index (\<lambda>s. ms_hash s = mr_hash q) (mg_stamps g) = Some i"
      "request_until q \<le> unat (ms_remaining_ms (mg_stamps g ! i))"
      using t by (auto simp: guard_tracks_def)
    have "k \<noteq> i" unfolding k_def using stamp_slot_kept [OF t seen(2) i] False by simp
    then have "first_index (\<lambda>s. ms_hash s = mr_hash q) stamps = Some i" "stamps ! i = mg_stamps g ! i"
      unfolding stamps_def k_def [symmetric] using i(1) False
      by (auto simp: stamp_def intro!: first_index_update_same)
    with i(2) show ?thesis by auto
  qed
qed

lemma award_tracks:
  assumes t: "guard_tracks g past" and ok: "request_ok r"
    and a: "award (mr_hash r) (mr_now r) (mr_category r) (mr_score r) (mr_low r) g = (g', True)"
  shows "guard_tracks g' (past @ [r])"
proof -
  note gr = award_granted [OF a]
  define k where "k = stamp_slot (mr_hash r) (mg_stamps g)"
  define stamp where "stamp = \<lparr>ms_hash = mr_hash r, ms_remaining_ms = mr_now r + meal_cooldown (mr_category r)\<rparr>"
  have l: "length (mg_stamps g) = 128" "length (mg_category_until g) = category_count" "mg_stamps g \<noteq> []"
    and z: "\<And>s. s \<in> set (mg_stamps g) \<Longrightarrow> ms_hash s = 0 \<longleftrightarrow> ms_remaining_ms s = 0"
    and owned: "mset (map (\<lambda>s. unat (ms_remaining_ms s)) (filter (\<lambda>s. ms_hash s \<noteq> 0) (mg_stamps g)))
       \<subseteq># mset (map request_until past)"
    and past: "\<And>q. q \<in> set past \<Longrightarrow> unat (mr_now q) + 30000 \<le> unat (mg_category_until g ! category_index (mr_category q)) \<and>
        (outlasting q past < 128 \<longrightarrow> (\<exists>i. first_index (\<lambda>s. ms_hash s = mr_hash q) (mg_stamps g) = Some i \<and>
           request_until q \<le> unat (ms_remaining_ms (mg_stamps g ! i))))"
    using t by (auto simp: guard_tracks_def)
  have k: "k < 128" using stamp_slot_less [OF l(3)] l(1) by (simp add: k_def)
  have c: "category_index (mr_category r) < category_count" "unat (mr_now r) + 1800000 < 2 ^ 64"
    using ok by (auto simp: request_ok_def)
  have later: "unat (mr_now r + 5000) = unat (mr_now r) + 5000"
    "unat (mr_now r + 30000) = unat (mr_now r) + 30000" "unat (ms_remaining_ms stamp) = request_until r"
    using c(2) cooldown_bounds [of r]
    by (simp_all add: unat_plus_const stamp_def request_cooldown_def request_until_def)
  note now = award_cooled [OF t _ a, unfolded cooled_def]
  have g': "mg_stamps g' = (mg_stamps g)[k := stamp]" "mg_global_until g' = mr_now r + 5000"
    "mg_category_until g' = (mg_category_until g)[category_index (mr_category r) := mr_now r + 30000]"
    by (simp_all add: gr(5) k_def stamp_def)
  have nz: "ms_hash stamp \<noteq> 0" "ms_remaining_ms stamp \<noteq> 0"
    using gr(1) later(3) request_until_positive [of r] by (auto simp: stamp_def unat_eq_0 [symmetric])
  have "\<forall>s \<in> set (mg_stamps g'). ms_hash s = 0 \<longleftrightarrow> ms_remaining_ms s = 0"
    using z nz set_update_subset_insert [of "mg_stamps g" k stamp] unfolding g' by blast
  moreover have "mset (map (\<lambda>s. unat (ms_remaining_ms s)) (filter (\<lambda>s. ms_hash s \<noteq> 0) (mg_stamps g')))
       \<subseteq># mset (map request_until (past @ [r]))"
    using mset_filter_update [of "\<lambda>s. unat (ms_remaining_ms s)" "\<lambda>s. ms_hash s \<noteq> 0" "mg_stamps g" k stamp] owned
    unfolding g' later(3) by (auto intro: subset_mset.order_trans)
  moreover have "unat (mr_now q) + 5000 \<le> unat (mg_global_until g') \<and>
        unat (mr_now q) + 30000 \<le> unat (mg_category_until g' ! category_index (mr_category q))"
    if q: "q \<in> set (past @ [r])" for q
    using q past [of q] now [of q] later(1,2) c l by (auto simp: g' nth_list_update)
  moreover have "\<exists>i. first_index (\<lambda>s. ms_hash s = mr_hash q) (mg_stamps g') = Some i \<and>
           request_until q \<le> unat (ms_remaining_ms (mg_stamps g' ! i))"
    if q: "q \<in> set (past @ [r])" "outlasting q (past @ [r]) < 128" for q
    using award_keeps_stamp [OF t a q] later(3) by (simp add: g' k_def stamp_def)
  ultimately show "guard_tracks g' (past @ [r])"
    unfolding guard_tracks_def by (simp add: g' l)
qed

lemma meal_run_cooled:
  assumes "guard_tracks g past" and "list_all request_ok rs" and "snd (meal_run g rs) = got"
    and "j < length got" and "q \<in> set (past @ take j got)"
  shows "cooled (past @ take j got) q (got ! j)"
  using assms
proof (induction rs arbitrary: g past got j)
  case (Cons r rs)
  obtain g' ok where a: "award (mr_hash r) (mr_now r) (mr_category r) (mr_score r) (mr_low r) g = (g', ok)"
    by fastforce
  obtain g'' rest where m: "meal_run g' rs = (g'', rest)" by fastforce
  show ?case
  proof (cases ok)
    case True
    then have a': "award (mr_hash r) (mr_now r) (mr_category r) (mr_score r) (mr_low r) g = (g', True)"
      and got: "got = r # rest" using a m Cons.prems(3) by auto
    show ?thesis
    proof (cases j)
      case 0
      then show ?thesis using award_cooled [OF Cons.prems(1) _ a'] Cons.prems(5) got by simp
    next
      case (Suc i)
      have "guard_tracks g' (past @ [r])"
        using award_tracks [OF Cons.prems(1) _ a'] Cons.prems(2) by simp
      from Cons.IH [OF this, of rest i] Cons.prems(2,4,5) m show ?thesis by (simp add: Suc got)
    qed
  next
    case False
    then have "g' = g" using a by (simp add: award_refused)
    with Cons a m False show ?thesis by simp
  qed
qed simp

section \<open>Properties\<close>

text \<open>
  Decay does not depend on how often the clock is read: ticking at an intermediate
  time and then at a later one drains the needs, and advances the decay clock, exactly as a
  single tick at the later time, so partial five-minute intervals are neither lost nor counted
  twice.
\<close>

theorem decay_additive:
  assumes "clock \<le> t1" and "t1 \<le> t2"
  shows "decay_needs t2 (decay_needs t1 (clock, f, m)) = decay_needs t2 (clock, f, m)"
proof -
  obtain c1 f1 m1 where d1: "decay_needs t1 (clock, f, m) = (c1, f1, m1)" by (metis prod_cases3)
  obtain c2 f2 m2 where d2: "decay_needs t2 (c1, f1, m1) = (c2, f2, m2)" by (metis prod_cases3)
  obtain c3 f3 m3 where d3: "decay_needs t2 (clock, f, m) = (c3, f3, m3)" by (metis prod_cases3)
  define a where "a = unat t1 - unat clock"
  define b where "b = unat t2 - unat clock"
  have le: "unat clock \<le> unat t1" "unat t1 \<le> unat t2" "clock \<le> t2"
    using assms by (auto simp: word_le_nat_alt)
  note s1 = decay_needs_spec [OF assms(1) d1, folded a_def]
  note s3 = decay_needs_spec [OF le(3) d3, folded b_def]
  have "a div 300000 * 300000 \<le> a" by simp
  then have c1: "c1 \<le> t2" using s1(1) le by (simp add: word_le_nat_alt a_def)
  have diff: "unat t2 - unat c1 = b - a div 300000 * 300000" using s1(1) by (simp add: b_def)
  have "a \<le> b" using le by (simp add: a_def b_def)
  then have ab: "a div 300000 \<le> b div 300000" by (rule div_le_mono)
  have n: "(unat t2 - unat c1) div 300000 = b div 300000 - a div 300000"
    unfolding diff by (simp add: div_mult_self3 le_div_geq)
  note s2 = decay_needs_spec [OF c1 d2, unfolded n]
  from ab obtain k where k: "b div 300000 = a div 300000 + k" by (rule less_eqE)
  have "unat c2 = unat c3" "unat f2 = unat f3" "unat m2 = unat m3"
    using s1 s2 s3 unfolding k by (simp_all only: add_diff_cancel_left' distrib_left distrib_right
      diff_diff_left add.assoc)
  then show ?thesis by (simp add: d1 d2 d3 word_unat_eq_iff)
qed

theorem decay_additive_witness:
  "decay_needs 900000 (decay_needs 450000 (0, 70, 70)) = decay_needs 900000 (0, 70, 70)"
  by (rule decay_additive) simp_all

text \<open>
  Property C10.  Over any sequence of ticks, meals and strokes the two needs stay within 0 to 100
  and the per-category meal counts add up to the total (both counters wrap at 32 bits).
\<close>

theorem pet_life_ok:
  "let p = foldl pet_step pet0 es
   in p_fullness p \<le> 100 \<and> p_mood p \<le> 100 \<and> length (p_lifetime_meals p) = category_count \<and>
      sum_list (p_lifetime_meals p) = p_meals p"
  using pet_life.run_inv [OF pet_ok_start, of es] by (simp add: pet_ok_def Let_def list_all_iff)

text \<open>
  A meal counts only when it was earned: feeding changes the pet only for a real
  detection marked as a meal, of a listed category and sufficient score, and then fullness ends
  between 35 and 100, mood between 40 and 100, and the decay clock restarts at the sighting.
\<close>

theorem feed_effect:
  "feed d low p = p \<or>
     \<not> d_demo d \<and> d_meal d \<and> category_index (d_category d) < category_count \<and>
     (if low then 20 else 50) \<le> d_score d \<and> d_score d \<le> 100 \<and>
     35 \<le> p_fullness (feed d low p) \<and> p_fullness (feed d low p) \<le> 100 \<and>
     40 \<le> p_mood (feed d low p) \<and> p_mood (feed d low p) \<le> 100 \<and>
     p_meals (feed d low p) = p_meals p + 1 \<and> p_decay_ms (feed d low p) = d_last_ms d"
proof (cases rule: feed_cases [of d low p])
  case (fed f m)
  with nourish_bounds [OF fed(6)] show ?thesis by simp
qed simp

text \<open>
  Property C11.  Meal cooldowns, in any run from an empty guard: two granted meals are at least five seconds
  apart, and 30 seconds when they share a category.  Two meals of one identity are 30 minutes apart (10 after a
  deauthentication) as long as fewer than 128 meals granted before the second one have a cooldown that
  ends no earlier than that of the first: the guard has 128 stamps and gives up the one that ends first.
\<close>

theorem meals_cooled:
  assumes "list_all request_ok rs"
  shows "let got = snd (meal_run meal_guard0 rs)
    in \<forall>j < length got. \<forall>q \<in> set (take j got). let r = got ! j
         in unat (mr_now q) + 5000 \<le> unat (mr_now r) \<and>
            (mr_category q = mr_category r \<longrightarrow> unat (mr_now q) + 30000 \<le> unat (mr_now r)) \<and>
            (mr_hash q = mr_hash r \<and> outlasting q (take j got) < 128 \<longrightarrow>
               unat (mr_now q) + request_cooldown q \<le> unat (mr_now r))"
  using meal_run_cooled [OF guard_tracks_start assms refl]
  unfolding cooled_def request_until_def Let_def append_Nil by blast

definition example_requests :: "meal_request list" where
  "example_requests =
     [\<lparr>mr_hash = 7, mr_now = 1000, mr_category = FLIPPER, mr_score = 80, mr_low = False\<rparr>,
      \<lparr>mr_hash = 7, mr_now = 61000, mr_category = FLIPPER, mr_score = 80, mr_low = False\<rparr>,
      \<lparr>mr_hash = 8, mr_now = 62000, mr_category = DEAUTH, mr_score = 30, mr_low = True\<rparr>,
      \<lparr>mr_hash = 7, mr_now = 1801000, mr_category = FLIPPER, mr_score = 80, mr_low = False\<rparr>]"

theorem meals_cooled_witness:
  "let got = snd (meal_run meal_guard0 example_requests)
   in \<forall>j < length got. \<forall>q \<in> set (take j got). let r = got ! j
        in unat (mr_now q) + 5000 \<le> unat (mr_now r) \<and>
           (mr_category q = mr_category r \<longrightarrow> unat (mr_now q) + 30000 \<le> unat (mr_now r)) \<and>
           (mr_hash q = mr_hash r \<and> outlasting q (take j got) < 128 \<longrightarrow>
              unat (mr_now q) + request_cooldown q \<le> unat (mr_now r))"
  by (rule meals_cooled) (simp add: example_requests_def request_ok_def category_count_def)

end
