(* ===== verification/Utilities.thy ===== *)
theory Utilities
  imports Parsers
begin

text \<open>
  \<open>components/sniffer_core/utilities.cpp\<close> and the small value types next to it: battery
  calibration, UTC text, the assembly of Remote ID fragments (\<open>DroneCache\<close>), the panel
  coordinates of \<open>display.hpp\<close> and the pacing of saves of \<open>save_retry.hpp\<close>.
\<close>

section \<open>Battery\<close>

text \<open>C++ integer division truncates toward zero.\<close>

definition c_div :: "int \<Rightarrow> int \<Rightarrow> int" where
  "c_div a b = sgn a * sgn b * (\<bar>a\<bar> div \<bar>b\<bar>)"

record battery_calibration =
  bc_adc :: "int list"
  bc_millivolts :: "int list"
  bc_enabled :: bool

definition battery_calibration0 :: battery_calibration where
  "battery_calibration0 = \<lparr>bc_adc = [0, 0, 0], bc_millivolts = [3300, 3700, 4200], bc_enabled = False\<rparr>"

definition valid_battery :: "battery_calibration \<Rightarrow> bool" where
  "valid_battery c \<longleftrightarrow> 50 \<le> bc_adc c ! 0 \<and> bc_adc c ! 2 \<le> 4095 \<and> bc_adc c ! 0 + 20 < bc_adc c ! 1 \<and>
     bc_adc c ! 1 + 20 < bc_adc c ! 2 \<and> 2500 \<le> bc_millivolts c ! 0 \<and> bc_millivolts c ! 2 \<le> 4500 \<and>
     bc_millivolts c ! 0 + 100 < bc_millivolts c ! 1 \<and> bc_millivolts c ! 1 + 100 < bc_millivolts c ! 2"

definition clamp_int :: "int \<Rightarrow> int \<Rightarrow> int \<Rightarrow> int" where
  "clamp_int v lo hi = (if v < lo then lo else if hi < v then hi else v)"

definition battery_mv :: "battery_calibration \<Rightarrow> int \<Rightarrow> int" where
  "battery_mv c adc =
     (if \<not> valid_battery c \<or> adc < 0 \<or> 4095 < adc then - 1
      else let i = (if adc < bc_adc c ! 1 then 0 else 1 :: nat)
           in clamp_int (bc_millivolts c ! i +
                c_div ((adc - bc_adc c ! i) * (bc_millivolts c ! (i + 1) - bc_millivolts c ! i))
                      (bc_adc c ! (i + 1) - bc_adc c ! i)) 0 5000)"

definition battery_voltage :: "int list" where
  "battery_voltage = [3300, 3500, 3650, 3700, 3750, 3800, 3900, 4000, 4100, 4200]"

definition battery_charge :: "int list" where
  "battery_charge = [0, 5, 15, 25, 40, 55, 70, 80, 90, 100]"

text \<open>The loop over the segments of the curve, each given by its end points.\<close>

fun percent_from :: "int \<Rightarrow> int \<Rightarrow> (int \<times> int) list \<Rightarrow> int \<Rightarrow> int" where
  "percent_from v0 p0 [] mv = 100"
| "percent_from v0 p0 ((v, p) # rest) mv =
     (if mv < v then max 0 (p0 + c_div ((mv - v0) * (p - p0)) (v - v0))
      else percent_from v p rest mv)"

definition battery_percent :: "int \<Rightarrow> int" where
  "battery_percent mv =
     (if mv < 0 then - 1
      else percent_from (hd battery_voltage) (hd battery_charge)
             (zip (tl battery_voltage) (tl battery_charge)) mv)"

section \<open>UTC text\<close>

definition month_days :: "nat list" where
  "month_days = [31, 28, 31, 30, 31, 30, 31, 31, 30, 31, 30, 31]"

definition digits_nat :: "string \<Rightarrow> nat" where
  "digits_nat s = foldl (\<lambda>v c. v * 10 + (of_char c - 48)) 0 s"

definition leap4 :: "nat \<Rightarrow> nat" where
  "leap4 y = of_bool (y mod 4 = 0)"

definition days_in :: "nat \<Rightarrow> nat \<Rightarrow> nat" where
  "days_in year month = month_days ! (month - 1) + of_bool (month = 2 \<and> year mod 4 = 0)"

definition parse_utc :: "string \<Rightarrow> nat option" where
  "parse_utc s =
     (if length s \<noteq> 12 then None
      else if list_ex (\<lambda>c. c < CHR ''0'' \<or> CHR ''9'' < c) s then None
      else let n = (\<lambda>i size. digits_nat (take size (drop i s)));
               year = n 0 4; month = n 4 2; day = n 6 2; hour = n 8 2; minute = n 10 2
           in if year < 2020 \<or> 2099 < year \<or> month < 1 \<or> 12 < month \<or> 23 < hour \<or> 59 < minute then None
              else if day < 1 \<or> days_in year month < day then None
              else let d = sum_list (map (\<lambda>y. 365 + leap4 y) [1970..<year]);
                       d = d + sum_list (map (days_in year) [1..<month])
                   in Some ((d + day - 1) * 86400 + hour * 3600 + minute * 60))"

text \<open>
  \<open>gmtime_r\<close> for the years the code admits (2020 to 2099, all Gregorian leap years being those
  divisible by four from 1970 on): the year and the month are found by running through them.
\<close>

function year_of :: "nat \<Rightarrow> nat \<Rightarrow> nat \<times> nat" where
  "year_of y d = (if d < 365 + leap4 y then (y, d) else year_of (y + 1) (d - (365 + leap4 y)))"
  by pat_completeness auto
termination by (relation "measure snd") auto

declare year_of.simps [simp del]

fun month_of :: "nat \<Rightarrow> nat list \<Rightarrow> nat \<Rightarrow> nat \<times> nat" where
  "month_of m [] d = (m, d)"
| "month_of m (n # ns) d = (if d < n then (m, d) else month_of (m + 1) ns (d - n))"

definition year_months :: "nat \<Rightarrow> nat list" where
  "year_months y = map (days_in y) [1..<13]"

record tm =
  tm_year :: nat
  tm_month :: nat
  tm_day :: nat
  tm_hour :: nat
  tm_min :: nat
  tm_sec :: nat

definition gmtime :: "nat \<Rightarrow> tm" where
  "gmtime t =
     (let (y, yd) = year_of 1970 (t div 86400); (m, md) = month_of 1 (year_months y) yd
      in \<lparr>tm_year = y, tm_month = m, tm_day = md + 1, tm_hour = t mod 86400 div 3600,
          tm_min = t mod 3600 div 60, tm_sec = t mod 60\<rparr>)"

definition digit :: "nat \<Rightarrow> char" where
  "digit n = char_of (48 + n mod 10)"

text \<open>The decimal digits of an unsigned number, as \<open>snprintf\<close> writes them.\<close>

fun decimal :: "nat \<Rightarrow> string" where
  "decimal n = (if n < 10 then [digit n] else decimal (n div 10) @ [digit n])"

declare decimal.simps [simp del]

definition two :: "nat \<Rightarrow> string" where
  "two n = [digit (n div 10), digit n]"

definition four :: "nat \<Rightarrow> string" where
  "four n = two (n div 100) @ two n"

definition utc_text :: "tm \<Rightarrow> string" where
  "utc_text v = four (tm_year v) @ ''-'' @ two (tm_month v) @ ''-'' @ two (tm_day v) @ ''T'' @
     two (tm_hour v) @ '':'' @ two (tm_min v) @ '':'' @ two (tm_sec v) @ ''Z''"

text \<open>
  The C string left in an output array of the given capacity; \<open>strftime\<close> leaves an array that
  is too small unspecified, which is the value \<open>None\<close>.
\<close>

definition format_utc :: "nat \<Rightarrow> nat \<Rightarrow> string option" where
  "format_utc seconds capacity =
     (if capacity = 0 then None
      else if seconds < 1577836800 \<or> 4102444799 < seconds then Some []
      else let s = utc_text (gmtime seconds)
           in if length s < capacity then Some s else None)"

section \<open>Remote ID assembly\<close>

record drone_track =
  dt_address :: address
  dt_address_type :: u8
  dt_present :: "bool list"
  dt_updated :: "u64 list"
  dt_basic :: remote_id
  dt_location :: remote_id
  dt_system :: remote_id

definition drone_track0 :: drone_track where
  "drone_track0 = \<lparr>dt_address = replicate 6 0, dt_address_type = 0, dt_present = replicate 3 False,
     dt_updated = replicate 3 0, dt_basic = remote_id0, dt_location = remote_id0,
     dt_system = remote_id0\<rparr>"

definition drone_cache0 :: "drone_track list" where
  "drone_cache0 = replicate 8 drone_track0"

definition last_update :: "drone_track \<Rightarrow> u64" where
  "last_update t = max (dt_updated t ! 0) (max (dt_updated t ! 1) (dt_updated t ! 2))"

definition any_present :: "drone_track \<Rightarrow> bool" where
  "any_present t \<longleftrightarrow> dt_present t ! 0 \<or> dt_present t ! 1 \<or> dt_present t ! 2"

text \<open>Clearing the presence bits of fragments that are more than a minute old.\<close>

definition expire :: "u64 \<Rightarrow> drone_track \<Rightarrow> drone_track" where
  "expire now t = t\<lparr>dt_present :=
     map (\<lambda>i. dt_present t ! i \<and> \<not> (now < dt_updated t ! i \<or> 60000 < now - dt_updated t ! i)) [0..<3]\<rparr>"

definition same_drone :: "address \<Rightarrow> u8 \<Rightarrow> drone_track \<Rightarrow> bool" where
  "same_drone a type t \<longleftrightarrow> any_present t \<and> dt_address t = a \<and> dt_address_type t = type"

definition drone_slot :: "address \<Rightarrow> u8 \<Rightarrow> drone_track list \<Rightarrow> nat" where
  "drone_slot a type tracks = (case first_index (same_drone a type) tracks of
     Some i \<Rightarrow> i | None \<Rightarrow> min_index last_update tracks)"

definition store_fragment :: "remote_id \<Rightarrow> u64 \<Rightarrow> drone_track \<Rightarrow> drone_track" where
  "store_fragment r ms t =
     (let slot = (if ri_type r = 0 then 0 else if ri_type r = 1 then 1 else 2 :: nat);
          t = (if slot = 0 then t\<lparr>dt_basic := r\<rparr> else if slot = 1 then t\<lparr>dt_location := r\<rparr>
               else t\<lparr>dt_system := r\<rparr>)
      in t\<lparr>dt_updated := (dt_updated t)[slot := ms], dt_present := (dt_present t)[slot := True]\<rparr>)"

definition update_track :: "address \<times> u8 \<Rightarrow> u64 \<times> remote_id \<Rightarrow> drone_track \<Rightarrow> drone_track" where
  "update_track = (\<lambda>(a, type) (ms, r) t.
     (let t = (if dt_address t \<noteq> a \<or> dt_address_type t \<noteq> type \<or> ms < last_update t \<or>
                  60000 < ms - last_update t then drone_track0 else t)
      in store_fragment r ms (expire ms (t\<lparr>dt_address := a, dt_address_type := type\<rparr>))))"

definition drone_put :: "address \<times> u8 \<Rightarrow> u64 \<times> remote_id \<Rightarrow> drone_track list \<Rightarrow> drone_track list" where
  "drone_put k v tracks =
     (let i = drone_slot (fst k) (snd k) tracks in tracks[i := update_track k v (tracks ! i)])"

definition drone_ingest :: "observation \<Rightarrow> drone_track list \<Rightarrow> drone_track list" where
  "drone_ingest ob tracks =
     (if o_radio ob \<noteq> Ble then tracks
      else case parse_remote_id (take (o_service_len ob) (o_service ob)) of
             None \<Rightarrow> tracks
           | Some r \<Rightarrow> drone_put (o_address ob, o_address_type ob) (o_ms ob, r) tracks)"

definition drone_find ::
  "address \<Rightarrow> u8 \<Rightarrow> u64 \<Rightarrow> drone_track list \<Rightarrow> drone_track list \<times> drone_track option" where
  "drone_find a type now tracks =
     (case first_index (same_drone a type) tracks of
        None \<Rightarrow> (tracks, None)
      | Some i \<Rightarrow> (let t = expire now (tracks ! i)
                   in (tracks[i := t], if any_present t then Some t else None)))"

section \<open>Panel coordinates\<close>

record point =
  pt_x :: int
  pt_y :: int

definition panel_width :: "bool \<Rightarrow> int" where
  "panel_width portrait = (if portrait then 320 else 480)"

definition panel_height :: "bool \<Rightarrow> int" where
  "panel_height portrait = (if portrait then 480 else 320)"

definition from_portrait :: "point \<Rightarrow> bool \<Rightarrow> point" where
  "from_portrait p portrait = (if portrait then p else \<lparr>pt_x = pt_y p, pt_y = 319 - pt_x p\<rparr>)"

definition to_portrait :: "point \<Rightarrow> bool \<Rightarrow> point" where
  "to_portrait p portrait = (if portrait then p else \<lparr>pt_x = 319 - pt_y p, pt_y = pt_x p\<rparr>)"

definition target_point :: "nat \<Rightarrow> bool \<Rightarrow> point" where
  "target_point i portrait =
     (if portrait
      then [\<lparr>pt_x = 30, pt_y = 160\<rparr>, \<lparr>pt_x = 289, pt_y = 180\<rparr>, \<lparr>pt_x = 160, pt_y = 390\<rparr>] ! i
      else [\<lparr>pt_x = 30, pt_y = 110\<rparr>, \<lparr>pt_x = 449, pt_y = 110\<rparr>, \<lparr>pt_x = 240, pt_y = 240\<rparr>] ! i)"

section \<open>Save pacing\<close>

record save_retry =
  sr_pending :: bool
  sr_backup_requested :: bool
  sr_attempted :: u64
  sr_accepted :: u64

definition save_retry0 :: save_retry where
  "save_retry0 = \<lparr>sr_pending = False, sr_backup_requested = False, sr_attempted = 0, sr_accepted = 0\<rparr>"

definition save_due :: "u64 \<Rightarrow> save_retry \<Rightarrow> bool" where
  "save_due now s \<longleftrightarrow>
     (let previous = (if sr_pending s then sr_attempted s else sr_accepted s)
      in previous \<le> now \<and> (if sr_pending s then 1000 else 60000) \<le> now - previous)"

definition save_result :: "u64 \<Rightarrow> bool \<Rightarrow> save_retry \<Rightarrow> save_retry" where
  "save_result now queued s =
     (let s = s\<lparr>sr_attempted := now, sr_pending := \<not> queued\<rparr>
      in if queued then s\<lparr>sr_accepted := now, sr_backup_requested := False\<rparr> else s)"

section \<open>Lemmas\<close>

lemma c_div_nonneg: "0 \<le> a \<Longrightarrow> 0 < b \<Longrightarrow> c_div a b = a div b"
  by (cases "a = 0") (simp_all add: c_div_def)

lemma c_div_neg: "a < 0 \<Longrightarrow> 0 < b \<Longrightarrow> c_div a b \<le> 0"
  by (simp add: c_div_def pos_imp_zdiv_nonneg_iff)

text \<open>A segment of the curve is monotone and stays between the values at its ends.\<close>

lemma segment_mono:
  assumes "v0 < v" and "p0 \<le> (p :: int)" and "v0 \<le> x" and "x \<le> y" and "y < v"
  shows "p0 \<le> p0 + c_div ((x - v0) * (p - p0)) (v - v0) \<and>
    p0 + c_div ((x - v0) * (p - p0)) (v - v0) \<le> p0 + c_div ((y - v0) * (p - p0)) (v - v0) \<and>
    p0 + c_div ((y - v0) * (p - p0)) (v - v0) \<le> p"
proof -
  have x: "c_div ((x - v0) * (p - p0)) (v - v0) = (x - v0) * (p - p0) div (v - v0)"
    and y: "c_div ((y - v0) * (p - p0)) (v - v0) = (y - v0) * (p - p0) div (v - v0)"
    using assms by (simp_all add: c_div_nonneg)
  have "(x - v0) * (p - p0) \<le> (y - v0) * (p - p0)"
    using assms by (intro mult_right_mono) simp_all
  then have xy: "(x - v0) * (p - p0) div (v - v0) \<le> (y - v0) * (p - p0) div (v - v0)"
    using assms by (intro zdiv_mono1) simp_all
  have "(y - v0) * (p - p0) \<le> (p - p0) * (v - v0)"
    using mult_right_mono [of "y - v0" "v - v0" "p - p0"] assms by (simp add: mult.commute)
  then have "(y - v0) * (p - p0) div (v - v0) \<le> (p - p0) * (v - v0) div (v - v0)"
    using assms by (intro zdiv_mono1) simp_all
  then have top: "(y - v0) * (p - p0) div (v - v0) \<le> p - p0" using assms by simp
  have "0 \<le> (x - v0) * (p - p0) div (v - v0)"
    using assms by (intro pos_imp_zdiv_nonneg_iff [THEN iffD2]) simp_all
  with x y xy top show ?thesis by simp
qed

fun curve_ok :: "int \<Rightarrow> int \<Rightarrow> (int \<times> int) list \<Rightarrow> bool" where
  "curve_ok v0 p0 [] \<longleftrightarrow> p0 \<le> 100"
| "curve_ok v0 p0 ((v, p) # rest) \<longleftrightarrow> v0 < v \<and> p0 \<le> p \<and> 0 \<le> p0 \<and> curve_ok v p rest"

lemma curve_le_100: "curve_ok v0 p0 ps \<Longrightarrow> p0 \<le> 100"
  by (induction ps arbitrary: v0 p0) force+

lemma percent_from_bounds:
  assumes "curve_ok v0 p0 ps" and "v0 \<le> x"
  shows "p0 \<le> percent_from v0 p0 ps x \<and> percent_from v0 p0 ps x \<le> 100"
  using assms
proof (induction ps arbitrary: v0 p0)
  case (Cons vp ps)
  obtain v p where vp: "vp = (v, p)" by fastforce
  have c: "v0 < v" "p0 \<le> p" "0 \<le> p0" "curve_ok v p ps" using Cons.prems(1) by (auto simp: vp)
  show ?case
  proof (cases "x < v")
    case True
    with segment_mono [OF c(1,2) Cons.prems(2) order_refl True] curve_le_100 [OF c(4)] c(3)
    show ?thesis by (simp add: vp)
  next
    case False
    with Cons.IH [OF c(4)] c(2) show ?thesis by (simp add: vp order_trans [OF c(2)])
  qed
qed simp

lemma percent_from_mono:
  assumes "curve_ok v0 p0 ps" and "v0 \<le> x" and "x \<le> y"
  shows "percent_from v0 p0 ps x \<le> percent_from v0 p0 ps y"
  using assms
proof (induction ps arbitrary: v0 p0)
  case (Cons vp ps)
  obtain v p where vp: "vp = (v, p)" by fastforce
  have c: "v0 < v" "p0 \<le> p" "0 \<le> p0" "curve_ok v p ps" using Cons.prems(1) by (auto simp: vp)
  consider "y < v" | "x < v" "v \<le> y" | "v \<le> x" by linarith
  then show ?case
  proof cases
    case 1
    with segment_mono [OF c(1,2) Cons.prems(2,3)] Cons.prems(3) c(3) show ?thesis by (simp add: vp max_def)
  next
    case 2
    with segment_mono [OF c(1,2) Cons.prems(2) order_refl 2(1)] percent_from_bounds [OF c(4) 2(2)] c
    show ?thesis by (simp add: vp)
  next
    case 3
    with Cons.IH [OF c(4)] Cons.prems(3) show ?thesis by (simp add: vp)
  qed
qed simp

lemma percent_below:
  assumes "mv < 3300" and "0 \<le> mv"
  shows "battery_percent mv = 0"
proof -
  have "c_div ((mv - 3300) * 5) 200 \<le> 0" using assms by (intro c_div_neg) simp_all
  with assms show ?thesis by (simp add: battery_percent_def battery_voltage_def battery_charge_def)
qed

lemma battery_curve:
  "curve_ok 3300 0 (zip (tl battery_voltage) (tl battery_charge))"
  by (simp add: battery_voltage_def battery_charge_def)

lemma battery_percent_from:
  "0 \<le> mv \<Longrightarrow> battery_percent mv = percent_from 3300 0 (zip (tl battery_voltage) (tl battery_charge)) mv"
  by (simp add: battery_percent_def) (simp add: battery_voltage_def battery_charge_def)

subsection \<open>UTC\<close>

lemma year_of_sum:
  assumes "y0 \<le> y" and "r < 365 + leap4 y"
  shows "year_of y0 (sum_list (map (\<lambda>y. 365 + leap4 y) [y0..<y]) + r) = (y, r)"
  using assms(1)
proof (induction rule: inc_induct)
  case base
  then show ?case using assms(2) by (simp add: year_of.simps)
next
  case (step n)
  then show ?case by (subst year_of.simps) (simp add: upt_conv_Cons add.assoc)
qed

lemma month_of_sum:
  assumes "m0 \<le> m" and "m < 13" and "r < f m"
  shows "month_of m0 (map f [m0..<13]) (sum_list (map f [m0..<m]) + r) = (m, r)"
  using assms(1)
proof (induction rule: inc_induct)
  case base
  then show ?case using assms(2,3) by (simp add: upt_conv_Cons)
next
  case (step n)
  then show ?case using assms(2) by (simp add: upt_conv_Cons add.assoc)
qed

lemma sum_list_split:
  "(a :: nat) \<le> b \<Longrightarrow> b \<le> c \<Longrightarrow>
     sum_list (map f [a..<c]) = sum_list (map f [a..<b]) + (sum_list (map f [b..<c]) :: nat)"
  by (metis le_Suc_ex map_append sum_list_append upt_add_eq_append)

lemma four_years: "sum_list (map (\<lambda>y. 365 + leap4 y) [y..<y + 4 * n]) = 1461 * n"
proof (induction n)
  case (Suc n)
  have "[y + 4 * n..<y + 4 * Suc n] = [y + 4 * n, y + 4 * n + 1, y + 4 * n + 2, y + 4 * n + 3]"
    by (simp add: upt_conv_Cons)
  moreover have "leap4 z + leap4 (z + 1) + leap4 (z + 2) + leap4 (z + 3) = 1" for z
    unfolding leap4_def of_bool_def by presburger
  from this [of "y + 4 * n"]
  have "sum_list (map (\<lambda>y. 365 + leap4 y) [y + 4 * n, y + 4 * n + 1, y + 4 * n + 2, y + 4 * n + 3]) = 1461"
    by simp
  ultimately show ?case
    using Suc sum_list_split [of y "y + 4 * n" "y + 4 * Suc n" "\<lambda>y. 365 + leap4 y"] by simp
qed simp

lemma days_since_1970:
  "sum_list (map (\<lambda>y. 365 + leap4 y) [1970..<1972 + 4 * n]) = 730 + 1461 * n"
proof -
  have "[1970..<1972] = [1970, 1971 :: nat]" by (simp add: upt_conv_Cons)
  then show ?thesis
    using four_years [of 1972 n] sum_list_split [of 1970 1972 "1972 + 4 * n" "\<lambda>y. 365 + leap4 y"]
    by (simp add: leap4_def)
qed

lemma year_length: "sum_list (map (days_in y) [1..<13]) = 365 + leap4 y"
proof -
  have "[1..<13] = [1, 2, 3, 4, 5, 6, 7, 8, 9, 10, 11, 12 :: nat]" by code_simp
  then show ?thesis by (simp add: days_in_def month_days_def leap4_def)
qed

lemma month_start:
  assumes "1 \<le> m" and "m \<le> 12" and "r < days_in y m"
  shows "sum_list (map (days_in y) [1..<m]) + r < 365 + leap4 y"
proof -
  have "sum_list (map (days_in y) [1..<13]) =
      sum_list (map (days_in y) [1..<m]) + sum_list (map (days_in y) [m..<13])"
    using assms by (intro sum_list_split) simp_all
  moreover have "days_in y m \<le> sum_list (map (days_in y) [m..<13])"
    using assms by (simp add: upt_conv_Cons)
  ultimately show ?thesis using assms(3) unfolding year_length by linarith
qed

lemma digit_pair:
  assumes "CHR ''0'' \<le> a" and "a \<le> CHR ''9''" and "CHR ''0'' \<le> b" and "b \<le> CHR ''9''"
  shows "two (digits_nat [a, b]) = [a, b]" and "digits_nat [a, b] < 100"
proof -
  define x where "x = (of_char a :: nat) - 48"
  define y where "y = (of_char b :: nat) - 48"
  have "48 \<le> (of_char a :: nat)" "(of_char a :: nat) \<le> 57" "48 \<le> (of_char b :: nat)" "(of_char b :: nat) \<le> 57"
    using assms by (simp_all add: less_eq_char_def)
  then have xy: "x < 10" "y < 10" "48 + x = of_char a" "48 + y = of_char b"
    by (simp_all add: x_def y_def)
  have d: "digits_nat [a, b] = x * 10 + y" by (simp add: digits_nat_def x_def y_def)
  show "two (digits_nat [a, b]) = [a, b]"
    using xy by (simp add: d two_def digit_def)
  show "digits_nat [a, b] < 100" using xy by (simp add: d)
qed

lemma digits_four:
  "digits_nat [a, b, c, d] = digits_nat [a, b] * 100 + digits_nat [c, d]"
  by (simp add: digits_nat_def)

lemma four_digits:
  assumes "\<forall>x \<in> {a, b, c, d}. CHR ''0'' \<le> x \<and> x \<le> CHR ''9''"
  shows "four (digits_nat [a, b, c, d]) = [a, b, c, d]"
proof -
  have "two (digits_nat [a, b]) = [a, b]" "two (digits_nat [c, d]) = [c, d]" "digits_nat [c, d] < 100"
    using assms by (simp_all add: digit_pair)
  moreover have "two (n * 100 + m) = two m" if "m < 100" for n m
  proof -
    have "(n * 100 + m) div 10 = n * 10 + m div 10" "(n * 100 + m) mod 10 = m mod 10"
      by (simp_all add: mod_add_eq [symmetric])
    then show ?thesis by (simp add: two_def digit_def)
  qed
  ultimately show ?thesis unfolding four_def digits_four by simp
qed

lemma two_zero: "two 0 = ''00''"
  by code_simp

lemma twelve:
  assumes "length s = 12"
  obtains a b c d e f g h i j k l where "s = [a, b, c, d, e, f, g, h, i, j, k, l]"
  using assms by (auto simp: numeral_eq_Suc length_Suc_conv)

subsection \<open>Drone tracks\<close>

definition drone_key :: "drone_track \<Rightarrow> (address \<times> u8) option" where
  "drone_key t = (if any_present t then Some (dt_address t, dt_address_type t) else None)"

definition track_ok :: "drone_track \<Rightarrow> bool" where
  "track_ok t \<longleftrightarrow> length (dt_present t) = 3 \<and> length (dt_updated t) = 3"

lemma same_drone_key: "same_drone (fst k) (snd k) t \<longleftrightarrow> drone_key t = Some k"
  by (cases k) (auto simp: same_drone_def drone_key_def)

lemma expire_shape [simp]:
  "length (dt_present (expire now t)) = 3" "dt_updated (expire now t) = dt_updated t"
  "dt_address (expire now t) = dt_address t" "dt_address_type (expire now t) = dt_address_type t"
  by (simp_all add: expire_def)

lemma fragment_cases:
  obtains (basic) "ri_type r = 0" "store_fragment r ms t = t\<lparr>dt_basic := r,
      dt_updated := (dt_updated t)[0 := ms], dt_present := (dt_present t)[0 := True]\<rparr>"
  | (location) "ri_type r = 1" "store_fragment r ms t = t\<lparr>dt_location := r,
      dt_updated := (dt_updated t)[1 := ms], dt_present := (dt_present t)[1 := True]\<rparr>"
  | (system) "ri_type r \<noteq> 0" "ri_type r \<noteq> 1" "store_fragment r ms t = t\<lparr>dt_system := r,
      dt_updated := (dt_updated t)[2 := ms], dt_present := (dt_present t)[2 := True]\<rparr>"
  by (cases "ri_type r = 0"; cases "ri_type r = 1") (simp_all add: store_fragment_def Let_def)

lemma store_fragment_key:
  "length (dt_present t) = 3 \<Longrightarrow> drone_key (store_fragment r ms t) = Some (dt_address t, dt_address_type t)"
  by (cases rule: fragment_cases [of r ms t]) (simp_all add: drone_key_def any_present_def)

lemma update_track_key: "drone_key (update_track k v t) = Some k"
  by (cases k; cases v) (simp add: update_track_def Let_def store_fragment_key)

interpretation drones: bounded_table drone_key drone_put
proof
  fix tracks :: "drone_track list" and k :: "address \<times> u8" and v
  assume ne: "tracks \<noteq> []"
  define i where "i = drone_slot (fst k) (snd k) tracks"
  have i: "i < length tracks"
    using min_index_less [OF ne, of last_update]
    by (auto simp: i_def drone_slot_def layout split: option.split)
  have "drone_key (tracks ! i) = Some k" if "j < length tracks" "drone_key (tracks ! j) = Some k" for j
  proof -
    have "first_index (same_drone (fst k) (snd k)) tracks \<noteq> None"
      using that nth_mem unfolding first_index_None same_drone_key by blast
    then obtain l where l: "first_index (same_drone (fst k) (snd k)) tracks = Some l" by blast
    then have "i = l" by (simp add: i_def drone_slot_def)
    with first_index_holds [OF l] show ?thesis unfolding same_drone_key by simp
  qed
  with i show "\<exists>i e. i < length tracks \<and> drone_put k v tracks = tracks[i := e] \<and> drone_key e = Some k \<and>
      (\<forall>j < length tracks. drone_key (tracks ! j) = Some k \<longrightarrow> drone_key (tracks ! i) = Some k)"
    by (intro exI [of _ i] exI [of _ "update_track k v (tracks ! i)"])
      (simp add: drone_put_def i_def [symmetric] Let_def update_track_key)
qed

section \<open>Properties\<close>

text \<open>
  Property C12.  Manual UTC entry is read back exactly: a time of day accepted by \<open>parse_utc\<close> is
  printed by \<open>format_utc\<close>, into any array of at least 21 characters, with the same digits.
\<close>

theorem utc_roundtrip:
  assumes "parse_utc s = Some t" and "20 < capacity"
  shows "format_utc t capacity =
    Some (take 4 s @ ''-'' @ take 2 (drop 4 s) @ ''-'' @ take 2 (drop 6 s) @ ''T'' @
          take 2 (drop 8 s) @ '':'' @ take 2 (drop 10 s) @ '':00Z'')"
proof -
  have l: "length s = 12" using assms(1) by (simp add: parse_utc_def split: if_splits)
  then obtain a b c d e f g h i j k m where s: "s = [a, b, c, d, e, f, g, h, i, j, k, m]"
    by (rule twelve)
  define year where "year = digits_nat [a, b, c, d]"
  define month where "month = digits_nat [e, f]"
  define day where "day = digits_nat [g, h]"
  define hour where "hour = digits_nat [i, j]"
  define minute where "minute = digits_nat [k, m]"
  define ys where "ys = sum_list (map (\<lambda>y. 365 + leap4 y) [1970..<year])"
  define ms where "ms = sum_list (map (days_in year) [1..<month])"
  note ranges = year_def [symmetric] month_def [symmetric] day_def [symmetric]
    hour_def [symmetric] minute_def [symmetric] ys_def [symmetric] ms_def [symmetric]
  from assms(1) have dig: "\<forall>x \<in> set s. CHR ''0'' \<le> x \<and> x \<le> CHR ''9''"
    and r: "2020 \<le> year" "year \<le> 2099" "1 \<le> month" "month \<le> 12" "hour \<le> 23" "minute \<le> 59"
      "1 \<le> day" "day \<le> days_in year month"
    and t: "t = (ys + ms + day - 1) * 86400 + hour * 3600 + minute * 60"
    by (simp_all add: parse_utc_def s Let_def list_ex_iff not_less ranges del: One_nat_def split: if_splits)
  define yd where "yd = ms + (day - 1)"
  have yd: "yd < 365 + leap4 year"
    unfolding yd_def ms_def using r by (intro month_start) simp_all
  have t': "t = (ys + yd) * 86400 + (hour * 3600 + minute * 60)"
    using t r(7) by (simp add: yd_def)
  have sec: "hour * 3600 + minute * 60 < 86400" using r by simp
  have y: "year_of 1970 (ys + yd) = (year, yd)"
    unfolding ys_def using r yd by (intro year_of_sum) simp_all
  have mo: "month_of 1 (year_months year) yd = (month, day - 1)"
    unfolding yd_def ms_def year_months_def using r by (intro month_of_sum) simp_all
  have tm: "t div 86400 = ys + yd" "t mod 86400 = hour * 3600 + minute * 60"
    unfolding t' using sec by (simp_all only: mod_mult_self3 mod_less) simp
  have m36: "t mod 3600 = minute * 60"
    using r(6) mod_mod_cancel [of 3600 86400 t] unfolding tm by simp
  moreover have "t mod 60 = 0"
    using mod_mod_cancel [of 60 3600 t] unfolding m36 by simp
  ultimately have gm: "gmtime t = \<lparr>tm_year = year, tm_month = month, tm_day = day, tm_hour = hour,
      tm_min = minute, tm_sec = 0\<rparr>"
    using r y mo unfolding gmtime_def tm by (simp add: Let_def)
  have lo: "sum_list (map (\<lambda>y. 365 + leap4 y) [1970..<2020]) = 18262"
    and hi: "sum_list (map (\<lambda>y. 365 + leap4 y) [1970..<2100]) = 47482"
    using days_since_1970 [of 12] days_since_1970 [of 32] by simp_all
  have "18262 \<le> ys" using sum_list_split [of 1970 2020 year "\<lambda>y. 365 + leap4 y"] r(1) lo by (simp add: ys_def)
  moreover have "[year..<2100] = year # [Suc year..<2100]"
    by (rule upt_conv_Cons) (use r(2) in simp)
  then have "ys + yd < 47482"
    using sum_list_split [of 1970 year 2100 "\<lambda>y. 365 + leap4 y"] r(1,2) hi yd
    by (simp add: ys_def)
  ultimately have "18262 * 86400 \<le> (ys + yd) * 86400" "(ys + yd) * 86400 \<le> 47481 * 86400"
    by (intro mult_le_mono1; simp)+
  then have range: "1577836800 \<le> t" "t \<le> 4102444799" using sec unfolding t' by simp_all
  have "utc_text (gmtime t) = take 4 s @ ''-'' @ take 2 (drop 4 s) @ ''-'' @ take 2 (drop 6 s) @ ''T'' @
          take 2 (drop 8 s) @ '':'' @ take 2 (drop 10 s) @ '':00Z''"
    using dig unfolding gm year_def month_def day_def hour_def minute_def
    by (simp add: utc_text_def s four_digits digit_pair two_zero)
  moreover have "length (utc_text v) = 20" for v
    by (simp add: utc_text_def four_def two_def)
  then have "format_utc t capacity = Some (utc_text (gmtime t))"
    using range assms(2) by (simp add: format_utc_def Let_def)
  ultimately show ?thesis by (simp only:)
qed

theorem utc_roundtrip_witness:
  "format_utc 1709208300 24 = Some ''2024-02-29T12:05:00Z''"
proof -
  have "sum_list (map (\<lambda>y. 365 + leap4 y) [1970..<2024]) = 19723"
    using days_since_1970 [of 13] by simp
  moreover have "sum_list (map (days_in 2024) [1..<2]) = 31" "days_in 2024 2 = 29" by code_simp+
  ultimately have "parse_utc ''202402291205'' = Some 1709208300"
    by (simp add: parse_utc_def digits_nat_def Let_def less_char_def del: upt_Suc upt_rec_numeral)
  from utc_roundtrip [OF this, of 24] show ?thesis by simp
qed

text \<open>
  The battery gauge is monotone and stays within 0 to 100 percent, and a calibrated
  reading reproduces the three calibration points exactly.
\<close>

theorem battery_gauge:
  assumes "valid_battery c" and "0 \<le> x" and "x \<le> y"
  shows "0 \<le> battery_percent x \<and> battery_percent x \<le> battery_percent y \<and> battery_percent y \<le> 100 \<and>
    (\<forall>i < 3. battery_mv c (bc_adc c ! i) = bc_millivolts c ! i)"
proof -
  have b: "0 \<le> battery_percent z \<and> battery_percent z \<le> 100" if "0 \<le> z" for z
  proof (cases "z < 3300")
    case True
    with that show ?thesis by (simp add: percent_below)
  next
    case False
    then show ?thesis
      using percent_from_bounds [OF battery_curve, of z] by (simp add: battery_percent_from)
  qed
  have "battery_percent x \<le> battery_percent y"
  proof (cases "x < 3300")
    case True
    with assms b [of y] show ?thesis by (simp add: percent_below)
  next
    case False
    then show ?thesis
      using percent_from_mono [OF battery_curve, of x y] assms by (simp add: battery_percent_from)
  qed
  moreover have "battery_mv c (bc_adc c ! 0) = bc_millivolts c ! 0"
    "battery_mv c (bc_adc c ! 1) = bc_millivolts c ! 1" "battery_mv c (bc_adc c ! 2) = bc_millivolts c ! 2"
    using assms(1)
    by (simp_all add: battery_mv_def valid_battery_def clamp_int_def c_div_nonneg Let_def
        numeral_2_eq_2)
  moreover have "i < 3 \<Longrightarrow> i = 0 \<or> i = 1 \<or> i = 2" for i :: nat by linarith
  ultimately show ?thesis using b assms by (metis order_trans)
qed

definition example_battery :: battery_calibration where
  "example_battery = \<lparr>bc_adc = [1900, 2100, 2400], bc_millivolts = [3300, 3700, 4200], bc_enabled = True\<rparr>"

theorem battery_gauge_witness:
  "0 \<le> battery_percent 3600 \<and> battery_percent 3600 \<le> battery_percent 4000 \<and> battery_percent 4000 \<le> 100 \<and>
    battery_mv example_battery (bc_adc example_battery ! 2) = bc_millivolts example_battery ! 2"
proof -
  have "valid_battery example_battery" by (simp add: example_battery_def valid_battery_def numeral_2_eq_2)
  from battery_gauge [OF this, of 3600 4000]
  have g: "0 \<le> battery_percent 3600" "battery_percent 3600 \<le> battery_percent 4000"
      "battery_percent 4000 \<le> 100"
    and "\<forall>i < 3. battery_mv example_battery (bc_adc example_battery ! i) = bc_millivolts example_battery ! i"
    by simp_all
  from this(4) [THEN spec, of 2] g show ?thesis by simp
qed

text \<open>A fragment of a track that is present and the time rule of presence.\<close>

definition has_fragment :: "remote_id \<Rightarrow> drone_track \<Rightarrow> bool" where
  "has_fragment r t \<longleftrightarrow>
     (if ri_type r = 0 then dt_present t ! 0 \<and> dt_basic t = r
      else if ri_type r = 1 then dt_present t ! 1 \<and> dt_location t = r
      else dt_present t ! 2 \<and> dt_system t = r)"

definition fresh_track :: "u64 \<Rightarrow> drone_track \<Rightarrow> bool" where
  "fresh_track now t \<longleftrightarrow>
     (\<forall>i < 3. dt_present t ! i \<longrightarrow> dt_updated t ! i \<le> now \<and> now - dt_updated t ! i \<le> 60000)"

definition drones_ok :: "drone_track list \<Rightarrow> bool" where
  "drones_ok tracks \<longleftrightarrow> length tracks = 8 \<and> list_all track_ok tracks \<and> drones.keys_unique tracks"

datatype drone_event = Drone_Ingest observation | Drone_Find address u8 u64

primrec drone_step :: "drone_track list \<Rightarrow> drone_event \<Rightarrow> drone_track list" where
  "drone_step tracks (Drone_Ingest ob) = drone_ingest ob tracks"
| "drone_step tracks (Drone_Find a type now) = fst (drone_find a type now tracks)"

lemma expire_nth: "i < 3 \<Longrightarrow> dt_present (expire now t) ! i \<longleftrightarrow>
    dt_present t ! i \<and> dt_updated t ! i \<le> now \<and> now - dt_updated t ! i \<le> 60000"
  by (simp add: expire_def not_less)

lemma list_all_update: "list_all P xs \<Longrightarrow> P x \<Longrightarrow> list_all P (xs[i := x])"
  using set_update_subset_insert [of xs i x] by (auto simp: list_all_iff)

lemma expire_fresh: "fresh_track now (expire now t)"
  by (simp add: fresh_track_def expire_nth)

lemma expire_key: "drone_key (expire now t) = drone_key t \<or> drone_key (expire now t) = None"
  by (auto simp: drone_key_def any_present_def expire_nth)

lemma expire_ok: "track_ok t \<Longrightarrow> track_ok (expire now t)"
  by (simp add: track_ok_def)

lemma update_track_ok: "track_ok t \<Longrightarrow> track_ok (update_track k (ms, r) t)"
proof -
  have "track_ok (store_fragment r ms t)" if "track_ok t" for t
    using that by (cases rule: fragment_cases [of r ms t]) (simp_all add: track_ok_def)
  moreover have "track_ok drone_track0" by (simp add: track_ok_def drone_track0_def)
  moreover have "track_ok (t\<lparr>dt_address := a, dt_address_type := type\<rparr>) = track_ok t" for t a type
    by (simp add: track_ok_def)
  ultimately show "track_ok t \<Longrightarrow> track_ok (update_track k (ms, r) t)"
    by (cases k) (simp add: update_track_def Let_def expire_ok)
qed

lemma update_track_fragment:
  assumes "track_ok t" and "ms \<le> now" and "now - ms \<le> 60000"
  shows "has_fragment r (expire now (update_track k (ms, r) t))"
proof -
  have "has_fragment r (expire now (store_fragment r ms t))" if "track_ok t" for t
    using that assms(2,3)
    by (cases rule: fragment_cases [of r ms t])
      (simp_all add: has_fragment_def expire_nth track_ok_def, simp_all add: expire_def)
  moreover have "track_ok drone_track0" by (simp add: track_ok_def drone_track0_def)
  moreover have "track_ok (t\<lparr>dt_address := a, dt_address_type := type\<rparr>) = track_ok t" for t a type
    by (simp add: track_ok_def)
  ultimately show ?thesis
    using assms(1) by (cases k) (simp add: update_track_def Let_def expire_ok)
qed

lemma update_keys_unique:
  assumes "drones.keys_unique tracks" and "drone_key t = drone_key (tracks ! i) \<or> drone_key t = None"
  shows "drones.keys_unique (tracks[i := t])"
  unfolding drones.keys_unique_def
proof (intro allI impI)
  fix a b
  assume a: "a < length (tracks[i := t])" and b: "b < length (tracks[i := t])"
    and n: "drone_key (tracks[i := t] ! a) \<noteq> None"
    and e: "drone_key (tracks[i := t] ! a) = drone_key (tracks[i := t] ! b)"
  have k: "drone_key (tracks[i := t] ! j) = drone_key (tracks ! j)"
    if "j < length (tracks[i := t])" "drone_key (tracks[i := t] ! j) \<noteq> None" for j
    using that assms(2) by (cases "j = i") auto
  show "a = b"
    using assms(1) a b n e k [OF a] k [OF b] unfolding drones.keys_unique_def by simp
qed

interpretation drone_cache: invariant_machine drone_step drones_ok "\<lambda>_. True"
proof
  fix tracks e assume ok: "drones_ok tracks"
  have put: "drones_ok (drone_put k v tracks)" for k v
  proof -
    have ne: "tracks \<noteq> []" using ok by (auto simp: drones_ok_def)
    moreover have "list_all track_ok (drone_put k v tracks)"
    proof -
      define i where "i = drone_slot (fst k) (snd k) tracks"
      have "track_ok (tracks ! i)" if "i < length tracks"
        using ok that by (simp add: drones_ok_def list_all_length)
      then show ?thesis
        using ok by (cases v; cases "i < length tracks")
          (simp_all add: drone_put_def i_def [symmetric] Let_def drones_ok_def list_all_update
            update_track_ok list_update_beyond)
    qed
    ultimately show ?thesis
      using ok drones.put_unique [of tracks k v] drones.put_length [of tracks k v]
      by (simp add: drones_ok_def)
  qed
  show "drones_ok (drone_step tracks e)"
  proof (cases e)
    case (Drone_Ingest ob)
    with ok put show ?thesis by (auto simp: drone_ingest_def split: option.split)
  next
    case (Drone_Find a type now)
    show ?thesis
    proof (cases "first_index (same_drone a type) tracks")
      case None
      with ok Drone_Find show ?thesis by (simp add: drone_find_def)
    next
      case (Some i)
      have "track_ok (expire now (tracks ! i))"
        using ok first_index_less [OF Some] by (simp add: drones_ok_def list_all_length expire_ok)
      then show ?thesis
        using ok Some Drone_Find expire_key update_keys_unique [of tracks "expire now (tracks ! i)" i]
        by (simp add: drone_find_def Let_def drones_ok_def list_all_update)
    qed
  qed
qed

lemma drones_ok_start: "drones_ok drone_cache0"
  by (simp add: drones_ok_def drone_cache0_def track_ok_def drone_track0_def drones.keys_unique_def
      drone_key_def any_present_def list_all_length)

lemma drone_find_put:
  assumes ok: "drones_ok tracks" and t: "ms \<le> now" "now - ms \<le> 60000"
  shows "\<exists>t. snd (drone_find a type now (drone_put (a, type) (ms, r) tracks)) = Some t \<and>
    dt_address t = a \<and> dt_address_type t = type \<and> has_fragment r t \<and> fresh_track now t"
proof -
  define k where "k = (a, type)"
  define i where "i = drone_slot a type tracks"
  define u where "u = update_track k (ms, r) (tracks ! i)"
  have l: "length tracks = 8" "tracks \<noteq> []" using ok by (auto simp: drones_ok_def)
  have i: "i < 8"
    using l min_index_less [OF l(2), of last_update]
    by (auto simp: i_def drone_slot_def dest: first_index_less split: option.split)
  have p: "drone_put k (ms, r) tracks = tracks[i := u]"
    by (simp add: drone_put_def k_def i_def u_def Let_def)
  have "drones.keys_unique (tracks[i := u])"
    using drones.put_unique [OF l(2), of k "(ms, r)"] ok by (simp add: p drones_ok_def)
  moreover have uk: "drone_key u = Some k" by (simp add: u_def update_track_key)
  ultimately have only: "j = i" if "j < 8" "drone_key (tracks[i := u] ! j) = Some k" for j
    using that i l unfolding drones.keys_unique_def
    by (metis length_list_update nth_list_update_eq option.discI)
  have "\<not> same_drone a type (tracks[i := u] ! j)" if "j < i" for j
    using only [of j] same_drone_key [of k "tracks[i := u] ! j"] that i by (auto simp: k_def)
  moreover have "same_drone a type (tracks[i := u] ! i)"
    using uk same_drone_key [of k u] i l by (simp add: k_def)
  ultimately have "first_index (same_drone a type) (tracks[i := u]) = Some i"
    unfolding first_index_Some using i l by simp
  moreover have "has_fragment r (expire now u)"
    unfolding u_def using ok i t by (intro update_track_fragment) (simp_all add: drones_ok_def list_all_length)
  moreover from this have "any_present (expire now u)"
    by (auto simp: has_fragment_def any_present_def split: if_splits)
  moreover have "dt_address u = a \<and> dt_address_type u = type"
    using uk by (auto simp: drone_key_def k_def split: if_splits)
  ultimately show ?thesis
    using i l by (simp add: drone_find_def Let_def p [unfolded k_def] expire_fresh)
qed

text \<open>
  Property C13.  Remote ID assembly: after any history of advertisements and look-ups, a valid
  message is found again under its transmitter for a minute, and every fragment that a look-up
  reports as present is at most a minute old.
\<close>

theorem drone_lookup:
  assumes "o_radio ob = Ble" and "parse_remote_id (take (o_service_len ob) (o_service ob)) = Some r"
    and "o_ms ob \<le> now" and "now - o_ms ob \<le> 60000"
  shows "\<exists>t. snd (drone_find (o_address ob) (o_address_type ob) now
        (drone_ingest ob (foldl drone_step drone_cache0 es))) = Some t \<and>
    dt_address t = o_address ob \<and> dt_address_type t = o_address_type ob \<and>
    has_fragment r t \<and> fresh_track now t"
proof -
  have "drones_ok (foldl drone_step drone_cache0 es)"
    by (rule drone_cache.run_inv [OF drones_ok_start]) (simp add: list_all_iff)
  from drone_find_put [OF this assms(3,4)] show ?thesis
    using assms(1,2) by (simp add: drone_ingest_def)
qed

definition example_drone :: observation where
  "example_drone = observation0\<lparr>o_radio := Ble, o_ms := 5000, o_service_len := 29,
     o_service := example_remote @ [0, 0]\<rparr>"

theorem drone_lookup_witness:
  "\<exists>r t. snd (drone_find (o_address example_drone) (o_address_type example_drone) 6000
        (drone_ingest example_drone (foldl drone_step drone_cache0 []))) = Some t \<and>
    dt_address t = o_address example_drone \<and> dt_address_type t = o_address_type example_drone \<and>
    has_fragment r t \<and> fresh_track 6000 t"
proof -
  have "parse_remote_id example_remote \<noteq> None" "length example_remote = 29" by code_simp+
  then obtain r where "parse_remote_id (take 29 (example_remote @ [0, 0])) = Some r" by auto
  then show ?thesis
    using drone_lookup [of example_drone r 6000 "[]"] by (simp add: example_drone_def) blast
qed

text \<open>
  Save pacing: after an attempt that the storage worker refused, the next one is due
  exactly one second later; after an accepted save, exactly one minute later, and an accepted
  save clears the request for a backup.
\<close>

theorem save_pacing:
  "(save_due now (save_result t False s) \<longleftrightarrow> unat t + 1000 \<le> unat now) \<and>
   (save_due now (save_result t True s) \<longleftrightarrow> unat t + 60000 \<le> unat now) \<and>
   \<not> sr_backup_requested (save_result t True s) \<and>
   sr_backup_requested (save_result t False s) = sr_backup_requested s"
proof -
  have "t \<le> now \<and> k \<le> now - t \<longleftrightarrow> unat t + unat k \<le> unat now" for k :: u64
    by (auto simp: word_le_nat_alt unat_sub unat_diff_le)
  from this [of 1000] this [of 60000] show ?thesis
    by (simp add: save_due_def save_result_def Let_def)
qed

end
