(* ===== verification/Tracking.thy ===== *)
theory Tracking
  imports Core_Types
begin

text \<open>
  Following one scent (\<open>follow.hpp\<close>) and the travel watch over tags that stay near
  (\<open>tag_watch.hpp\<close>).  Properties: the sample history of a followed scent and what a trend is
  computed from; a travel-watch warning is sound (it rests on a trace of qualifying sightings)
  and complete for an undisturbed identity.
\<close>

section \<open>Following a scent\<close>

datatype scent_signal = Scent_None | Paused | Waiting | Fresh | Stale | Lost

record sample =
  sm_ms :: u64
  sm_rssi :: int

record follow_scent =
  f_address :: address
  f_samsung :: samsung_tag
  f_radio :: radio
  f_address_type :: u8
  f_category :: category
  f_active :: bool
  f_demo :: bool
  f_received :: bool
  f_started :: u64
  f_last_ms :: u64
  f_accept_after :: u64
  f_rssi :: int
  f_history :: "sample list"
  f_count :: nat

definition sample0 :: sample where
  "sample0 = \<lparr>sm_ms = 0, sm_rssi = 0\<rparr>"

definition follow0 :: follow_scent where
  "follow0 = \<lparr>f_address = replicate 6 0, f_samsung = no_samsung, f_radio = Wifi, f_address_type = 0,
     f_category = FLOCK, f_active = False, f_demo = False, f_received = False, f_started = 0,
     f_last_ms = 0, f_accept_after = 0, f_rssi = 0, f_history = replicate 30 sample0, f_count = 0\<rparr>"

definition follow_select :: "detection \<Rightarrow> u64 \<Rightarrow> follow_scent" where
  "follow_select d now =
     (if category_count \<le> category_index (d_category d) then follow0
      else follow0\<lparr>f_active := True, f_demo := d_demo d, f_address := d_address d,
             f_samsung := (if samsung_identity d then d_samsung d else no_samsung),
             f_radio := d_radio d, f_address_type := d_address_type d, f_category := d_category d,
             f_started := now, f_accept_after := now\<rparr>)"

definition follow_restart :: "u64 \<Rightarrow> follow_scent \<Rightarrow> follow_scent" where
  "follow_restart now f = f\<lparr>f_received := False, f_count := 0, f_started := now, f_accept_after := now\<rparr>"

text \<open>Storing a sample: one per second, the oldest of 30 moves out.\<close>

definition push_sample :: "u64 \<Rightarrow> int \<Rightarrow> follow_scent \<Rightarrow> follow_scent" where
  "push_sample ms rssi f =
     (if f_count f \<noteq> 0 \<and> sm_ms (f_history f ! (f_count f - 1)) div 1000 = ms div 1000
      then f\<lparr>f_history := (f_history f)[f_count f - 1 := \<lparr>sm_ms = ms, sm_rssi = rssi\<rparr>]\<rparr>
      else let f = (if f_count f = length (f_history f)
                    then f\<lparr>f_history := tl (f_history f) @ [last (f_history f)], f_count := f_count f - 1\<rparr>
                    else f)
           in f\<lparr>f_history := (f_history f)[f_count f := \<lparr>sm_ms = ms, sm_rssi = rssi\<rparr>],
                f_count := f_count f + 1\<rparr>)"

definition follow_observe :: "observation \<Rightarrow> bool \<Rightarrow> follow_scent \<Rightarrow> follow_scent \<times> bool" where
  "follow_observe ob synthetic f =
     (let same = (if samsung_valid (f_samsung f)
                  then samsung_valid (o_samsung ob) \<and> st_id (f_samsung f) = st_id (o_samsung ob)
                  else o_address ob = f_address f \<and> o_address_type ob = f_address_type f)
      in if \<not> f_active f \<or> synthetic \<noteq> f_demo f \<or> \<not> same \<or> o_radio ob \<noteq> f_radio f \<or>
            o_ms ob \<le> f_accept_after f \<or> (f_received f \<and> o_ms ob < f_last_ms f) \<or>
            0 < o_rssi ob \<or> o_rssi ob < - 126 then (f, False)
         else (push_sample (o_ms ob) (o_rssi ob)
                 (f\<lparr>f_address := o_address ob, f_address_type := o_address_type ob, f_received := True,
                    f_last_ms := o_ms ob, f_rssi := o_rssi ob\<rparr>), True))"

definition follow_state :: "u64 \<Rightarrow> bool \<Rightarrow> follow_scent \<Rightarrow> scent_signal" where
  "follow_state now listening f =
     (if \<not> f_active f then Scent_None
      else if \<not> listening then Paused
      else if \<not> f_received f then
        (if f_started f \<le> now \<and> 15000 \<le> now - f_started f then Lost else Waiting)
      else if now < f_last_ms f \<or> 15000 \<le> now - f_last_ms f then Lost
      else if now - f_last_ms f \<le> 5000 then Fresh else Stale)"

primrec trend_from :: "follow_scent \<Rightarrow> nat \<Rightarrow> int" where
  "trend_from f 0 = 0"
| "trend_from f (Suc j) =
     (if 5000 < sm_ms (f_history f ! Suc j) - sm_ms (f_history f ! j) then 0
      else let age = f_last_ms f - sm_ms (f_history f ! j)
           in if 2000 \<le> age \<and> age \<le> 8000 then f_rssi f - sm_rssi (f_history f ! j)
              else trend_from f j)"

definition follow_trend :: "u64 \<Rightarrow> follow_scent \<Rightarrow> int" where
  "follow_trend now f =
     (if f_count f < 2 \<or> now < f_last_ms f \<or> 5000 < now - f_last_ms f then 0
      else trend_from f (f_count f - 1))"

section \<open>Travel watch\<close>

definition watch_duration :: u64 where
  "watch_duration = 600000"

definition watch_gap :: u64 where
  "watch_gap = 120000"

definition required_minutes :: nat where
  "required_minutes = 8"

record watch_entry =
  te_hash :: u64
  te_first :: u64
  te_last :: u64
  te_minutes :: nat
  te_category :: category
  te_score :: u8
  te_acknowledged :: bool

definition watch_entry0 :: watch_entry where
  "watch_entry0 = \<lparr>te_hash = 0, te_first = 0, te_last = 0, te_minutes = 0, te_category = FLOCK,
     te_score = 0, te_acknowledged = False\<rparr>"

definition watch_fresh :: "u64 \<Rightarrow> watch_entry \<Rightarrow> bool" where
  "watch_fresh now e \<longleftrightarrow> te_hash e \<noteq> 0 \<and> te_last e \<le> now \<and> now - te_last e \<le> watch_gap"

definition watch_ready :: "u64 \<Rightarrow> watch_entry \<Rightarrow> bool" where
  "watch_ready now e \<longleftrightarrow> watch_fresh now e \<and> te_first e \<le> te_last e \<and>
     watch_duration \<le> te_last e - te_first e \<and> required_minutes \<le> te_minutes e"

record tag_watch =
  tw_entries :: "watch_entry list"
  tw_started :: u64
  tw_gap_resets :: u32
  tw_filter_resets :: u32
  tw_clock_skips :: u32
  tw_armed :: bool
  tw_demo :: bool
  tw_flash :: bool

definition tag_watch0 :: tag_watch where
  "tag_watch0 = \<lparr>tw_entries = replicate 16 watch_entry0, tw_started = 0, tw_gap_resets = 0,
     tw_filter_resets = 0, tw_clock_skips = 0, tw_armed = False, tw_demo = False, tw_flash = True\<rparr>"

definition is_tag :: "category \<Rightarrow> bool" where
  "is_tag c \<longleftrightarrow> c = AIRTAG \<or> c = SAMSUNG_TAG \<or> c = TILE \<or> c = GOOGLE_TAG"

definition watch_start :: "u64 \<Rightarrow> bool \<Rightarrow> tag_watch \<Rightarrow> tag_watch" where
  "watch_start now synthetic w = w\<lparr>tw_entries := replicate 16 watch_entry0, tw_started := now,
     tw_demo := synthetic, tw_armed := True, tw_gap_resets := 0, tw_filter_resets := 0,
     tw_clock_skips := 0\<rparr>"

definition watch_clear :: "tag_watch \<Rightarrow> tag_watch" where
  "watch_clear w = w\<lparr>tw_entries := replicate 16 watch_entry0, tw_armed := False\<rparr>"

definition watch_find :: "u64 \<Rightarrow> watch_entry list \<Rightarrow> nat option" where
  "watch_find hash = first_index (\<lambda>e. hash \<noteq> 0 \<and> te_hash e = hash)"

definition saturating_inc :: "u32 \<Rightarrow> u32" where
  "saturating_inc n = (if n \<noteq> - 1 then n + 1 else n)"

definition watch_drop :: "nat \<Rightarrow> bool \<Rightarrow> tag_watch \<Rightarrow> tag_watch" where
  "watch_drop i gap_expired w =
     (if te_hash (tw_entries w ! i) = 0 then w
      else let w = (if gap_expired then w\<lparr>tw_gap_resets := saturating_inc (tw_gap_resets w)\<rparr>
                    else w\<lparr>tw_filter_resets := saturating_inc (tw_filter_resets w)\<rparr>)
           in w\<lparr>tw_entries := (tw_entries w)[i := watch_entry0]\<rparr>)"

definition watch_new :: "u64 \<Rightarrow> detection \<Rightarrow> watch_entry" where
  "watch_new hash d = \<lparr>te_hash = hash, te_first = d_last_ms d, te_last = d_last_ms d, te_minutes = 1,
     te_category = d_category d, te_score = d_score d, te_acknowledged = False\<rparr>"

definition watch_more :: "detection \<Rightarrow> watch_entry \<Rightarrow> watch_entry" where
  "watch_more d e =
     (let e = (if (d_last_ms d - te_first e) div 60000 \<noteq> (te_last e - te_first e) div 60000
               then e\<lparr>te_minutes := min 65535 (te_minutes e + 1)\<rparr> else e)
      in e\<lparr>te_last := d_last_ms d, te_score := d_score d\<rparr>)"

text \<open>The sightings that \<open>observe\<close> looks at, before it consults the table.\<close>

definition watch_eligible :: "u64 \<Rightarrow> detection \<Rightarrow> tag_watch \<Rightarrow> bool" where
  "watch_eligible hash d w \<longleftrightarrow>
     \<not> (\<not> tw_armed w \<or> hash = 0 \<or> \<not> is_tag (d_category d) \<or> d_radio d \<noteq> Ble \<or> d_demo d \<noteq> tw_demo w \<or>
        d_score d < 50 \<or> 100 < d_score d \<or> d_last_ms d < tw_started w)"

definition watch_record :: "u64 \<Rightarrow> detection \<Rightarrow> u64 \<Rightarrow> tag_watch \<Rightarrow> tag_watch" where
  "watch_record hash d now w =
     (case watch_find hash (tw_entries w) of
        Some i \<Rightarrow>
          (if d_last_ms d \<le> te_last (tw_entries w ! i) then w
           else if watch_gap < d_last_ms d - te_last (tw_entries w ! i)
             then let w = watch_drop i True w
                  in w\<lparr>tw_entries := (tw_entries w)[i := watch_new hash d]\<rparr>
           else w\<lparr>tw_entries := (tw_entries w)[i := watch_more d (tw_entries w ! i)]\<rparr>)
      | None \<Rightarrow>
          (case first_index (\<lambda>e. \<not> watch_fresh now e) (tw_entries w) of
             None \<Rightarrow> w
           | Some i \<Rightarrow> w\<lparr>tw_entries := (tw_entries w)[i := watch_new hash d]\<rparr>))"

definition watch_observe :: "u64 \<Rightarrow> detection \<Rightarrow> u64 \<Rightarrow> tag_watch \<Rightarrow> tag_watch" where
  "watch_observe hash d now w =
     (if \<not> watch_eligible hash d w then w
      else if now < d_last_ms d then w\<lparr>tw_clock_skips := saturating_inc (tw_clock_skips w)\<rparr>
      else if watch_gap < now - d_last_ms d then w
      else if samsung_connected d then
        (case watch_find hash (tw_entries w) of
           Some i \<Rightarrow> (if te_last (tw_entries w ! i) \<le> d_last_ms d then watch_drop i False w else w)
         | None \<Rightarrow> w)
      else watch_record hash d now w)"

definition watch_warning :: "u64 \<Rightarrow> tag_watch \<Rightarrow> watch_entry option" where
  "watch_warning now w =
     (if tw_armed w then find (\<lambda>e. watch_ready now e \<and> \<not> te_acknowledged e) (tw_entries w) else None)"

section \<open>The sample history\<close>

definition samples_ok :: "sample list \<Rightarrow> nat \<Rightarrow> bool" where
  "samples_ok h n \<longleftrightarrow> length h = 30 \<and> n \<le> 30 \<and>
     (\<forall>i < n. - 126 \<le> sm_rssi (h ! i) \<and> sm_rssi (h ! i) \<le> 0) \<and>
     (\<forall>i. Suc i < n \<longrightarrow> sm_ms (h ! i) div 1000 < sm_ms (h ! Suc i) div 1000)"

definition follow_ok :: "follow_scent \<Rightarrow> bool" where
  "follow_ok f \<longleftrightarrow> samples_ok (f_history f) (f_count f) \<and> (f_received f \<longleftrightarrow> f_count f \<noteq> 0) \<and>
     (f_received f \<longrightarrow> f_history f ! (f_count f - 1) = \<lparr>sm_ms = f_last_ms f, sm_rssi = f_rssi f\<rparr>)"

lemma follow_ok_blank: "follow_ok follow0"
  by (simp add: follow_ok_def samples_ok_def follow0_def)

lemma samples_replace:
  assumes "samples_ok h (Suc n)" and "sm_ms (h ! n) div 1000 = ms div 1000" and "- 126 \<le> r" and "r \<le> 0"
  shows "samples_ok (h[n := \<lparr>sm_ms = ms, sm_rssi = r\<rparr>]) (Suc n)"
  using assms by (auto simp: samples_ok_def nth_list_update)

lemma samples_append:
  assumes "samples_ok h n" and "n < 30" and "- 126 \<le> r" and "r \<le> 0"
    and "n \<noteq> 0 \<Longrightarrow> sm_ms (h ! (n - 1)) div 1000 < ms div 1000"
  shows "samples_ok (h[n := \<lparr>sm_ms = ms, sm_rssi = r\<rparr>]) (Suc n)"
  using assms by (cases n) (auto simp: samples_ok_def nth_list_update less_Suc_eq)

lemma samples_shift:
  assumes "samples_ok h 30"
  shows "samples_ok (tl h @ [last h]) 29"
  using assms by (auto simp: samples_ok_def nth_append nth_tl)

lemma push_sample_ok:
  assumes "samples_ok (f_history f) (f_count f)" and "- 126 \<le> r" and "r \<le> 0"
    and "f_count f \<noteq> 0 \<Longrightarrow> sm_ms (f_history f ! (f_count f - 1)) \<le> ms"
  shows "samples_ok (f_history (push_sample ms r f)) (f_count (push_sample ms r f)) \<and>
    f_count (push_sample ms r f) \<noteq> 0 \<and>
    f_history (push_sample ms r f) ! (f_count (push_sample ms r f) - 1) = \<lparr>sm_ms = ms, sm_rssi = r\<rparr> \<and>
    f_received (push_sample ms r f) = f_received f \<and> f_last_ms (push_sample ms r f) = f_last_ms f \<and>
    f_rssi (push_sample ms r f) = f_rssi f"
proof -
  have l: "length (f_history f) = 30" "f_count f \<le> 30" using assms(1) by (auto simp: samples_ok_def)
  have later: "sm_ms (f_history f ! (f_count f - 1)) div 1000 < ms div 1000"
    if "f_count f \<noteq> 0" "sm_ms (f_history f ! (f_count f - 1)) div 1000 \<noteq> ms div 1000"
    using assms(4) [OF that(1)] that(2)
    by (metis div_le_mono order_le_imp_less_or_eq unat_div word_le_nat_alt word_unat_eq_iff)
  consider (replace) n where "f_count f = Suc n" "sm_ms (f_history f ! n) div 1000 = ms div 1000"
    | (room) "f_count f < 30" "f_count f \<noteq> 0 \<longrightarrow> sm_ms (f_history f ! (f_count f - 1)) div 1000 \<noteq> ms div 1000"
    | (full) "f_count f = 30" "sm_ms (f_history f ! 29) div 1000 \<noteq> ms div 1000"
    using l(2) by (cases "f_count f") force+
  then show ?thesis
  proof cases
    case replace
    then show ?thesis
      using samples_replace [of "f_history f" n ms r] assms l by (simp add: push_sample_def)
  next
    case room
    then show ?thesis
      using samples_append [of "f_history f" "f_count f" r ms] assms l later
      by (auto simp: push_sample_def)
  next
    case full
    have "samples_ok (tl (f_history f) @ [last (f_history f)]) 29"
      using assms(1) full by (intro samples_shift) simp
    moreover have "(tl (f_history f) @ [last (f_history f)]) ! 28 = f_history f ! 29"
      using l by (simp add: nth_append nth_tl)
    ultimately show ?thesis
      using samples_append [of "tl (f_history f) @ [last (f_history f)]" 29 r ms] assms l later full
      by (simp add: push_sample_def Let_def eval_nat_numeral)
  qed
qed

datatype follow_event = Select detection u64 | Restart u64 | Observe observation bool

primrec follow_step :: "follow_scent \<Rightarrow> follow_event \<Rightarrow> follow_scent" where
  "follow_step f (Select d now) = follow_select d now"
| "follow_step f (Restart now) = follow_restart now f"
| "follow_step f (Observe ob synthetic) = fst (follow_observe ob synthetic f)"

interpretation follow_machine: invariant_machine follow_step follow_ok "\<lambda>_. True"
proof
  fix f e assume f: "follow_ok f"
  show "follow_ok (follow_step f e)"
  proof (cases e)
    case (Select d now)
    then show ?thesis
      using follow_ok_blank by (auto simp: follow_select_def follow_ok_def follow0_def)
  next
    case (Restart now)
    then show ?thesis using f by (simp add: follow_restart_def follow_ok_def samples_ok_def)
  next
    case (Observe ob synthetic)
    show ?thesis
    proof (cases "snd (follow_observe ob synthetic f)")
      case False
      with f Observe show ?thesis by (auto simp: follow_observe_def Let_def split: if_splits)
    next
      case True
      define g where "g = f\<lparr>f_address := o_address ob, f_address_type := o_address_type ob,
        f_received := True, f_last_ms := o_ms ob, f_rssi := o_rssi ob\<rparr>"
      from True have r: "- 126 \<le> o_rssi ob" "o_rssi ob \<le> 0"
        and t: "f_received f \<Longrightarrow> f_last_ms f \<le> o_ms ob"
        and s: "fst (follow_observe ob synthetic f) = push_sample (o_ms ob) (o_rssi ob) g"
        by (auto simp: follow_observe_def g_def Let_def not_less split: if_splits)
      have "f_count g \<noteq> 0 \<Longrightarrow> sm_ms (f_history g ! (f_count g - 1)) \<le> o_ms ob"
        using f t by (auto simp: follow_ok_def g_def)
      from push_sample_ok [OF _ r this] f show ?thesis
        by (simp add: Observe s follow_ok_def g_def)
    qed
  qed
qed

lemma trend_from_spec:
  assumes "trend_from f n \<noteq> 0"
  shows "\<exists>i < n. trend_from f n = f_rssi f - sm_rssi (f_history f ! i) \<and>
    2000 \<le> f_last_ms f - sm_ms (f_history f ! i) \<and> f_last_ms f - sm_ms (f_history f ! i) \<le> 8000 \<and>
    (\<forall>j. i \<le> j \<and> j < n \<longrightarrow> sm_ms (f_history f ! Suc j) - sm_ms (f_history f ! j) \<le> 5000)"
  using assms
proof (induction n)
  case (Suc n)
  show ?case
  proof (cases "2000 \<le> f_last_ms f - sm_ms (f_history f ! n) \<and> f_last_ms f - sm_ms (f_history f ! n) \<le> 8000")
    case True
    with Suc.prems show ?thesis
      by (intro exI [of _ n]) (auto simp: Let_def not_less less_Suc_eq split: if_splits)
  next
    case False
    with Suc.prems have g: "sm_ms (f_history f ! Suc n) - sm_ms (f_history f ! n) \<le> 5000"
      and t: "trend_from f (Suc n) = trend_from f n"
      by (auto simp: Let_def not_less split: if_splits)
    from Suc.IH Suc.prems t obtain i where i: "i < n"
      "trend_from f n = f_rssi f - sm_rssi (f_history f ! i)"
      "2000 \<le> f_last_ms f - sm_ms (f_history f ! i)" "f_last_ms f - sm_ms (f_history f ! i) \<le> 8000"
      "\<forall>j. i \<le> j \<and> j < n \<longrightarrow> sm_ms (f_history f ! Suc j) - sm_ms (f_history f ! j) \<le> 5000"
      by auto
    with g t show ?thesis by (intro exI [of _ i]) (auto simp: less_Suc_eq)
  qed
qed simp

section \<open>Traces of the travel watch\<close>

text \<open>A history of \<open>observe\<close> calls: identity, detection and clock.\<close>

type_synonym watch_history = "(u64 \<times> detection \<times> u64) list"

definition sighting :: "watch_history \<Rightarrow> tag_watch \<Rightarrow> u64 \<Rightarrow> u64 \<Rightarrow> bool" where
  "sighting h w hash t \<longleftrightarrow> (\<exists>d now. (hash, d, now) \<in> set h \<and> d_last_ms d = t \<and>
     watch_eligible hash d w \<and> \<not> samsung_connected d)"

definition minute_bins :: "u64 \<Rightarrow> u64 list \<Rightarrow> nat set" where
  "minute_bins first ts = (\<lambda>t. (unat t - unat first) div 60000) ` set ts"

text \<open>The sightings that an entry stands for, oldest first.\<close>

definition entry_trace :: "watch_entry \<Rightarrow> u64 list \<Rightarrow> bool" where
  "entry_trace e ts \<longleftrightarrow> ts \<noteq> [] \<and> hd ts = te_first e \<and> last ts = te_last e \<and> sorted_wrt (<) ts \<and>
     (\<forall>i. Suc i < length ts \<longrightarrow> ts ! Suc i - ts ! i \<le> watch_gap) \<and>
     te_minutes e = min 65535 (card (minute_bins (te_first e) ts))"

definition watch_inv :: "tag_watch \<Rightarrow> watch_history \<Rightarrow> bool" where
  "watch_inv w h \<longleftrightarrow> length (tw_entries w) = 16 \<and>
     (\<forall>e \<in> set (tw_entries w). te_hash e \<noteq> 0 \<longrightarrow>
        (\<exists>ts. entry_trace e ts \<and> (\<forall>t \<in> set ts. sighting h w (te_hash e) t)))"

lemma sighting_append: "sighting h w hash t \<Longrightarrow> sighting (h @ [x]) w hash t"
  by (auto simp: sighting_def)

lemma sighting_config:
  assumes "tw_armed w' = tw_armed w" and "tw_demo w' = tw_demo w" and "tw_started w' = tw_started w"
  shows "sighting h w' = sighting h w"
  using assms by (intro ext) (simp add: sighting_def watch_eligible_def)

lemma entry_trace_new: "entry_trace (watch_new hash d) [d_last_ms d]"
  by (simp add: entry_trace_def watch_new_def minute_bins_def)

lemma bins_word:
  assumes "first \<le> (t :: u64)"
  shows "unat ((t - first) div 60000) = (unat t - unat first) div 60000"
  using assms by (simp add: unat_div unat_sub)

lemma sorted_le_last:
  "sorted_wrt (<) ts \<Longrightarrow> t \<in> set ts \<Longrightarrow> (t :: 'a::linorder) \<le> last ts"
  by (induction ts rule: rev_induct) (auto simp: sorted_wrt_append intro: less_imp_le)

lemma entry_trace_more:
  assumes tr: "entry_trace e ts" and later: "te_last e < d_last_ms d"
    and gap: "d_last_ms d - te_last e \<le> watch_gap"
  shows "entry_trace (watch_more d e) (ts @ [d_last_ms d])"
proof -
  define bin where "bin t = (unat t - unat (te_first e)) div 60000" for t :: u64
  have ts: "ts \<noteq> []" "hd ts = te_first e" "last ts = te_last e" "sorted_wrt (<) ts"
    "te_minutes e = min 65535 (card (bin ` set ts))"
    and gaps: "\<And>i. Suc i < length ts \<Longrightarrow> ts ! Suc i - ts ! i \<le> watch_gap"
    using tr by (auto simp: entry_trace_def minute_bins_def bin_def)
  have upto: "t \<le> te_last e" if "t \<in> set ts" for t
    using sorted_le_last [OF ts(4) that] ts(3) by simp
  have bins: "bin t \<le> bin (te_last e)" if "t \<in> set ts" for t
    using upto [OF that] by (simp add: bin_def word_le_nat_alt div_le_mono diff_le_mono)
  have step: "bin (te_last e) \<le> bin (d_last_ms d)"
    using later by (simp add: bin_def word_less_nat_alt div_le_mono diff_le_mono)
  have "te_first e \<le> te_last e" using upto [of "te_first e"] ts(1,2) hd_in_set by metis
  then have same: "(d_last_ms d - te_first e) div 60000 = (te_last e - te_first e) div 60000 \<longleftrightarrow>
      bin (d_last_ms d) = bin (te_last e)"
    using later bins_word [of "te_first e" "d_last_ms d"] bins_word [of "te_first e" "te_last e"]
    by (simp add: bin_def word_unat_eq_iff)
  have last_bin: "bin (te_last e) \<in> bin ` set ts" using ts(1,3) last_in_set by (metis imageI)
  have card: "min 65535 (card (bin ` set (ts @ [d_last_ms d]))) =
      (if bin (d_last_ms d) = bin (te_last e) then te_minutes e else min 65535 (te_minutes e + 1))"
  proof (cases "bin (d_last_ms d) = bin (te_last e)")
    case True
    then have "bin ` set (ts @ [d_last_ms d]) = bin ` set ts" using last_bin by auto
    then show ?thesis using True ts(5) by simp
  next
    case False
    then have "bin (d_last_ms d) \<notin> bin ` set ts" using bins step by fastforce
    then show ?thesis using False ts(5) by simp
  qed
  have "(ts @ [d_last_ms d]) ! Suc i - (ts @ [d_last_ms d]) ! i \<le> watch_gap"
    if "Suc i < length (ts @ [d_last_ms d])" for i
  proof (cases "Suc i < length ts")
    case False
    with that have "i = length ts - 1" "Suc i = length ts" by simp_all
    then show ?thesis using gap ts(1,3) by (simp add: nth_append last_conv_nth)
  qed (simp add: nth_append gaps)
  moreover have "sorted_wrt (<) (ts @ [d_last_ms d])"
    using ts(4) upto later by (fastforce simp: sorted_wrt_append)
  moreover have "te_first (watch_more d e) = te_first e" "te_last (watch_more d e) = d_last_ms d"
    "te_minutes (watch_more d e) = min 65535 (card (bin ` set (ts @ [d_last_ms d])))"
    unfolding card using same by (auto simp: watch_more_def Let_def)
  ultimately show ?thesis
    using ts(1,2) by (simp add: entry_trace_def minute_bins_def bin_def)
qed

lemma watch_drop_config [simp]:
  "tw_armed (watch_drop i b w) = tw_armed w" "tw_demo (watch_drop i b w) = tw_demo w"
  "tw_started (watch_drop i b w) = tw_started w"
  by (simp_all add: watch_drop_def Let_def)

lemma watch_drop_entries:
  "tw_entries (watch_drop i b w) = tw_entries w \<or> tw_entries (watch_drop i b w) = (tw_entries w)[i := watch_entry0]"
  by (simp add: watch_drop_def Let_def)

lemma watch_more_hash [simp]: "te_hash (watch_more d e) = te_hash e"
  by (simp add: watch_more_def Let_def)

text \<open>Every call replaces at most one entry, by nothing, a new entry or an extended one.\<close>

lemma watch_observe_cases:
  obtains (same) "tw_entries (watch_observe hash d now w) = tw_entries w"
  | (drop) i where "tw_entries (watch_observe hash d now w) = (tw_entries w)[i := watch_entry0]"
  | (new) i where "tw_entries (watch_observe hash d now w) = (tw_entries w)[i := watch_new hash d]"
      "watch_eligible hash d w" "\<not> samsung_connected d"
  | (more) i where "tw_entries (watch_observe hash d now w) = (tw_entries w)[i := watch_more d (tw_entries w ! i)]"
      "watch_eligible hash d w" "\<not> samsung_connected d"
      "i < length (tw_entries w)" "te_hash (tw_entries w ! i) = hash"
      "te_last (tw_entries w ! i) < d_last_ms d" "d_last_ms d - te_last (tw_entries w ! i) \<le> watch_gap"
proof (cases "watch_eligible hash d w \<and> \<not> now < d_last_ms d \<and> \<not> watch_gap < now - d_last_ms d")
  case False
  then show thesis by (intro same) (auto simp: watch_observe_def)
next
  case ok: True
  show thesis
  proof (cases "samsung_connected d")
    case True
    with ok have o: "watch_observe hash d now w = (case watch_find hash (tw_entries w) of
        Some i \<Rightarrow> (if te_last (tw_entries w ! i) \<le> d_last_ms d then watch_drop i False w else w)
      | None \<Rightarrow> w)"
      by (simp add: watch_observe_def)
    show thesis
    proof (cases "watch_find hash (tw_entries w)")
      case None
      then show thesis by (intro same) (simp add: o)
    next
      case (Some i)
      then have "watch_observe hash d now w = watch_drop i False w \<or> watch_observe hash d now w = w"
        by (simp add: o)
      with watch_drop_entries [of i False w] same drop [of i] show thesis by metis
    qed
  next
    case False
    with ok have r: "watch_observe hash d now w = watch_record hash d now w"
      by (simp add: watch_observe_def)
    show thesis
    proof (cases "watch_find hash (tw_entries w)")
      case None
      then show thesis
        using same new ok False unfolding r
        by (cases "first_index (\<lambda>e. \<not> watch_fresh now e) (tw_entries w)")
          (simp_all add: watch_record_def)
    next
      case (Some i)
      then have i: "i < length (tw_entries w)" "te_hash (tw_entries w ! i) = hash"
        by (auto simp: watch_find_def first_index_Some)
      consider "d_last_ms d \<le> te_last (tw_entries w ! i)"
        | "te_last (tw_entries w ! i) < d_last_ms d" "watch_gap < d_last_ms d - te_last (tw_entries w ! i)"
        | "te_last (tw_entries w ! i) < d_last_ms d" "d_last_ms d - te_last (tw_entries w ! i) \<le> watch_gap"
        by (meson not_less)
      then show thesis
      proof cases
        case 1
        with Some show thesis by (intro same) (simp add: r watch_record_def)
      next
        case 2
        with Some watch_drop_entries [of i True w] show thesis
          by (intro new [of i]) (use ok False in \<open>auto simp: r watch_record_def Let_def\<close>)
      next
        case 3
        then have "\<not> d_last_ms d \<le> te_last (tw_entries w ! i)"
          "\<not> watch_gap < d_last_ms d - te_last (tw_entries w ! i)" by (simp_all add: not_le not_less)
        with Some have "tw_entries (watch_observe hash d now w) =
            (tw_entries w)[i := watch_more d (tw_entries w ! i)]"
          by (simp add: r watch_record_def)
        with 3 i ok False show thesis by (intro more [of i]) simp_all
      qed
    qed
  qed
qed

lemma watch_observe_config [simp]:
  "tw_armed (watch_observe hash d now w) = tw_armed w" "tw_demo (watch_observe hash d now w) = tw_demo w"
  "tw_started (watch_observe hash d now w) = tw_started w"
  by (simp_all add: watch_observe_def watch_record_def Let_def split: option.splits)

lemma watch_observe_inv:
  assumes inv: "watch_inv w h"
  shows "watch_inv (watch_observe hash d now w) (h @ [(hash, d, now)])"
proof -
  define w' where "w' = watch_observe hash d now w"
  define h' where "h' = h @ [(hash, d, now)]"
  have cfg: "sighting h' w' = sighting h' w" by (rule sighting_config) (simp_all add: w'_def)
  have old: "\<exists>ts. entry_trace e ts \<and> (\<forall>t \<in> set ts. sighting h' w' (te_hash e) t)"
    if "e \<in> set (tw_entries w)" "te_hash e \<noteq> 0" for e
  proof -
    have "sighting h' w' (te_hash e) t" if "sighting h w (te_hash e) t" for t
      unfolding cfg unfolding h'_def by (rule sighting_append [OF that])
    with inv that show ?thesis unfolding watch_inv_def by blast
  qed
  have now: "sighting h' w' hash (d_last_ms d)" if "watch_eligible hash d w" "\<not> samsung_connected d"
    using that unfolding cfg by (auto simp: sighting_def h'_def)
  have "\<exists>ts. entry_trace e ts \<and> (\<forall>t \<in> set ts. sighting h' w' (te_hash e) t)"
    if e: "e \<in> set (tw_entries w')" "te_hash e \<noteq> 0" for e
  proof (cases rule: watch_observe_cases [of hash d now w])
    case same
    with e old show ?thesis by (simp add: w'_def)
  next
    case (drop i)
    with e have "e = watch_entry0 \<or> e \<in> set (tw_entries w)"
      using set_update_subset_insert by (fastforce simp: w'_def)
    with e old show ?thesis by (auto simp: watch_entry0_def)
  next
    case (new i)
    with e have "e = watch_new hash d \<or> e \<in> set (tw_entries w)"
      using set_update_subset_insert by (fastforce simp: w'_def)
    then show ?thesis
    proof
      assume "e = watch_new hash d"
      with now [OF new(2,3)] entry_trace_new show ?thesis
        by (intro exI [of _ "[d_last_ms d]"]) (simp add: watch_new_def)
    qed (use e old in blast)
  next
    case (more i)
    with e have "e = watch_more d (tw_entries w ! i) \<or> e \<in> set (tw_entries w)"
      using set_update_subset_insert by (fastforce simp: w'_def)
    then show ?thesis
    proof
      assume em: "e = watch_more d (tw_entries w ! i)"
      with e(2) more(5) have "te_hash (tw_entries w ! i) \<noteq> 0" by simp
      with old [of "tw_entries w ! i"] more(4,5) obtain ts where
        "entry_trace (tw_entries w ! i) ts" "\<forall>t \<in> set ts. sighting h' w' hash t" by auto
      with entry_trace_more [OF _ more(6,7)] now [OF more(2,3)] more(5) show ?thesis
        by (intro exI [of _ "ts @ [d_last_ms d]"]) (auto simp: em)
    qed (use e old in blast)
  qed
  moreover have "length (tw_entries w') = 16"
    using inv by (cases rule: watch_observe_cases [of hash d now w]) (simp_all add: watch_inv_def w'_def)
  ultimately show ?thesis by (simp add: watch_inv_def w'_def h'_def)
qed

definition watch_run :: "tag_watch \<Rightarrow> watch_history \<Rightarrow> tag_watch" where
  "watch_run w h = foldl (\<lambda>w (hash, d, now). watch_observe hash d now w) w h"

lemma watch_run_inv:
  assumes "watch_inv w h0"
  shows "watch_inv (watch_run w h) (h0 @ h) \<and> tw_armed (watch_run w h) = tw_armed w \<and>
    tw_demo (watch_run w h) = tw_demo w \<and> tw_started (watch_run w h) = tw_started w"
  using assms
proof (induction h arbitrary: w h0)
  case (Cons x h)
  obtain hash d now where x: "x = (hash, d, now)" by (cases x)
  have "watch_inv (watch_observe hash d now w) (h0 @ [x])"
    unfolding x by (rule watch_observe_inv [OF Cons.prems])
  from Cons.IH [OF this] show ?case by (simp add: watch_run_def x)
qed (simp add: watch_run_def)

lemma watch_inv_start: "watch_inv (watch_start now b w) []"
  by (auto simp: watch_inv_def watch_start_def watch_entry0_def)

section \<open>An undisturbed identity\<close>

definition steady :: "u64 \<Rightarrow> tag_watch \<Rightarrow> detection list \<Rightarrow> bool" where
  "steady hash w ds \<longleftrightarrow> sorted_wrt (<) (map d_last_ms ds) \<and>
     (\<forall>i. Suc i < length ds \<longrightarrow> d_last_ms (ds ! Suc i) - d_last_ms (ds ! i) \<le> watch_gap) \<and>
     list_all (\<lambda>d. watch_eligible hash d w \<and> \<not> samsung_connected d) ds"

definition promptly :: "u64 \<Rightarrow> detection list \<Rightarrow> watch_history" where
  "promptly hash ds = map (\<lambda>d. (hash, d, d_last_ms d)) ds"

lemma steady_run:
  assumes "steady hash (watch_start t0 b w0) ds" and "ds \<noteq> []"
  shows "\<exists>e. tw_entries (watch_run (watch_start t0 b w0) (promptly hash ds)) =
      (replicate 16 watch_entry0)[0 := e] \<and> entry_trace e (map d_last_ms ds) \<and> te_hash e = hash \<and>
    \<not> te_acknowledged e"
  using assms
proof (induction ds rule: rev_induct)
  case (snoc d ds)
  define w where "w = watch_start t0 b w0"
  define v where "v = watch_run w (promptly hash ds)"
  have el: "watch_eligible hash d w" "\<not> samsung_connected d" using snoc.prems(1) by (simp_all add: steady_def w_def)
  have run: "watch_run w (promptly hash (ds @ [d])) = watch_observe hash d (d_last_ms d) v"
    by (simp add: watch_run_def promptly_def v_def)
  have "watch_inv w []" unfolding w_def by (rule watch_inv_start)
  then have "tw_armed v = tw_armed w \<and> tw_demo v = tw_demo w \<and> tw_started v = tw_started w"
    using watch_run_inv [of w "[]" "promptly hash ds"] by (simp add: v_def)
  then have "watch_eligible hash d v" using el(1) by (simp add: watch_eligible_def)
  then have rec: "watch_observe hash d (d_last_ms d) v = watch_record hash d (d_last_ms d) v"
    and hz: "hash \<noteq> 0"
    using el(2) by (simp_all add: watch_observe_def watch_gap_def watch_eligible_def)
  show ?case
  proof (cases "ds = []")
    case True
    then have e: "tw_entries v = replicate 16 watch_entry0"
      by (simp add: v_def watch_run_def promptly_def w_def watch_start_def)
    have "watch_find hash (tw_entries v) = None"
      using hz by (simp add: e watch_find_def first_index_replicate watch_entry0_def)
    moreover have "first_index (\<lambda>e. \<not> watch_fresh (d_last_ms d) e) (tw_entries v) = Some 0"
      by (simp add: e first_index_replicate_True watch_fresh_def watch_entry0_def)
    ultimately show ?thesis
      using entry_trace_new [of hash d] True unfolding w_def [symmetric] run rec
      by (intro exI [of _ "watch_new hash d"]) (simp add: watch_record_def e, simp add: watch_new_def)
  next
    case False
    have "d_last_ms (ds ! Suc i) - d_last_ms (ds ! i) \<le> watch_gap" if "Suc i < length ds" for i
      using snoc.prems(1) that unfolding steady_def
      by (elim conjE allE [of _ i]) (simp add: nth_append)
    with snoc.prems(1) have s: "steady hash w ds"
      unfolding steady_def w_def by (simp add: sorted_wrt_append)
    with snoc.IH False obtain e where e: "tw_entries v = (replicate 16 watch_entry0)[0 := e]"
      "entry_trace e (map d_last_ms ds)" "te_hash e = hash" "\<not> te_acknowledged e"
      by (auto simp: w_def v_def)
    have z: "watch_find hash (tw_entries v) = Some 0"
      using e(3) hz by (simp add: e(1) watch_find_def first_index_Some)
    have last: "te_last e = d_last_ms (last ds)"
      using e(2) False by (simp add: entry_trace_def last_map)
    have later: "te_last e < d_last_ms d"
      using snoc.prems(1) False unfolding last steady_def by (simp add: sorted_wrt_append)
    have "d_last_ms ((ds @ [d]) ! Suc (length ds - 1)) - d_last_ms ((ds @ [d]) ! (length ds - 1)) \<le> watch_gap"
      using snoc.prems(1) False unfolding steady_def by (elim conjE allE [of _ "length ds - 1"]) simp
    then have gap: "d_last_ms d - te_last e \<le> watch_gap"
      using False by (simp add: nth_append last last_conv_nth)
    have "\<not> d_last_ms d \<le> te_last e" "\<not> watch_gap < d_last_ms d - te_last e"
      using later gap by (simp_all add: not_le not_less)
    then have "tw_entries (watch_record hash d (d_last_ms d) v) = (tw_entries v)[0 := watch_more d e]"
      using z by (simp add: watch_record_def e(1))
    then show ?thesis
      using entry_trace_more [OF e(2) later gap] e(3,4) unfolding w_def [symmetric] run rec
      by (intro exI [of _ "watch_more d e"]) (simp add: e(1), simp add: watch_more_def Let_def)
  qed
qed simp

section \<open>Properties\<close>

text \<open>
  The sample history of a followed scent is well formed after any use: at most 30
  samples, at most one per second and in strictly increasing seconds, of valid signal strengths,
  the newest being the last accepted observation.
\<close>

theorem follow_history_ok:
  "let f = foldl follow_step follow0 es
   in f_count f \<le> 30 \<and> length (f_history f) = 30 \<and>
      (\<forall>i < f_count f. - 126 \<le> sm_rssi (f_history f ! i) \<and> sm_rssi (f_history f ! i) \<le> 0) \<and>
      (\<forall>i. Suc i < f_count f \<longrightarrow> sm_ms (f_history f ! i) div 1000 < sm_ms (f_history f ! Suc i) div 1000) \<and>
      (f_received f \<longleftrightarrow> f_count f \<noteq> 0) \<and>
      (f_received f \<longrightarrow> f_history f ! (f_count f - 1) = \<lparr>sm_ms = f_last_ms f, sm_rssi = f_rssi f\<rparr>)"
proof -
  have "follow_ok (foldl follow_step follow0 es)"
    by (rule follow_machine.run_inv [OF follow_ok_blank]) (simp add: list_all_iff)
  then show ?thesis by (simp add: follow_ok_def samples_ok_def Let_def)
qed

theorem follow_history_ok_witness:
  "f_count (foldl follow_step follow0 [Select (detection0\<lparr>d_radio := Ble\<rparr>) 5, Restart 6]) \<le> 30"
  using follow_history_ok [of "[Select (detection0\<lparr>d_radio := Ble\<rparr>) 5, Restart 6]"]
  unfolding Let_def by (rule conjunct1)

text \<open>
  A trend is a comparison with one recorded sample: when it is not zero, the scent
  was heard within five seconds, and the value is the current signal minus that of a sample two
  to eight seconds old, with no gap of more than five seconds between the samples since.
\<close>

theorem follow_trend_sound:
  assumes "follow_trend now f \<noteq> 0"
  shows "f_last_ms f \<le> now \<and> now - f_last_ms f \<le> 5000 \<and>
    (\<exists>i. Suc i < f_count f \<and> follow_trend now f = f_rssi f - sm_rssi (f_history f ! i) \<and>
       2000 \<le> f_last_ms f - sm_ms (f_history f ! i) \<and> f_last_ms f - sm_ms (f_history f ! i) \<le> 8000 \<and>
       (\<forall>j. i \<le> j \<and> Suc j < f_count f \<longrightarrow>
          sm_ms (f_history f ! Suc j) - sm_ms (f_history f ! j) \<le> 5000))"
proof -
  have n: "2 \<le> f_count f" "f_last_ms f \<le> now" "now - f_last_ms f \<le> 5000"
    and t: "follow_trend now f = trend_from f (f_count f - 1)"
    using assms by (auto simp: follow_trend_def not_less split: if_splits)
  from trend_from_spec [of f "f_count f - 1"] assms t obtain i where i: "i < f_count f - 1"
    "trend_from f (f_count f - 1) = f_rssi f - sm_rssi (f_history f ! i)"
    "2000 \<le> f_last_ms f - sm_ms (f_history f ! i)" "f_last_ms f - sm_ms (f_history f ! i) \<le> 8000"
    "\<forall>j. i \<le> j \<and> j < f_count f - 1 \<longrightarrow> sm_ms (f_history f ! Suc j) - sm_ms (f_history f ! j) \<le> 5000"
    by auto
  with n t show ?thesis by (intro conjI exI [of _ i]) auto
qed

definition example_follow :: follow_scent where
  "example_follow = follow0\<lparr>f_active := True, f_received := True, f_last_ms := 9000, f_rssi := - 50,
     f_count := 2, f_history := (replicate 30 sample0)[0 := \<lparr>sm_ms = 6000, sm_rssi = - 70\<rparr>,
       1 := \<lparr>sm_ms = 9000, sm_rssi = - 50\<rparr>]\<rparr>"

theorem follow_trend_sound_witness:
  "\<exists>i. Suc i < f_count example_follow \<and>
     follow_trend 10000 example_follow = f_rssi example_follow - sm_rssi (f_history example_follow ! i)"
proof -
  have "follow_trend 10000 example_follow = 20"
    by (simp add: follow_trend_def example_follow_def)
  then have "follow_trend 10000 example_follow \<noteq> 0" by simp
  from follow_trend_sound [OF this] show ?thesis by blast
qed

text \<open>
  Property C14.  Soundness of travel-watch warnings: an entry that is reported after a run of
  \<open>observe\<close> calls stands for a strictly increasing trace of qualifying sightings of one identity
  from that run, at most two minutes apart, spanning at least ten minutes and at least eight
  distinct minutes, the last of them at most two minutes ago.  A burst of packets cannot shorten
  this.
\<close>

theorem watch_warning_sound:
  assumes "watch_warning now (watch_run (watch_start t0 b w0) h) = Some e"
  shows "\<exists>ts. ts \<noteq> [] \<and> sorted_wrt (<) ts \<and> (\<forall>i. Suc i < length ts \<longrightarrow> ts ! Suc i - ts ! i \<le> 120000) \<and>
    600000 \<le> last ts - hd ts \<and> 8 \<le> card (minute_bins (hd ts) ts) \<and>
    last ts \<le> now \<and> now - last ts \<le> 120000 \<and>
    (\<forall>t \<in> set ts. sighting h (watch_start t0 b w0) (te_hash e) t)"
proof -
  define w where "w = watch_start t0 b w0"
  define v where "v = watch_run w h"
  have run: "watch_inv v h \<and> tw_armed v = tw_armed w \<and> tw_demo v = tw_demo w \<and>
      tw_started v = tw_started w"
    using watch_run_inv [OF watch_inv_start [of t0 b w0], of h, unfolded append_Nil]
    unfolding v_def w_def .
  then have inv: "watch_inv v h" "sighting h v = sighting h w"
    by (blast, intro sighting_config) blast+
  have "find (\<lambda>e. watch_ready now e \<and> \<not> te_acknowledged e) (tw_entries v) = Some e"
    using assms by (simp add: watch_warning_def v_def w_def split: if_splits)
  then have e: "e \<in> set (tw_entries v)" and r: "watch_ready now e"
    unfolding find_Some_iff by (blast intro: nth_mem)+
  from r have "te_hash e \<noteq> 0" by (simp add: watch_ready_def watch_fresh_def)
  with inv(1) e obtain ts where ts: "entry_trace e ts" "\<forall>t \<in> set ts. sighting h v (te_hash e) t"
    unfolding watch_inv_def by blast
  note ts = ts(1) ts(2) [unfolded inv(2)]
  have "ts \<noteq> []" "sorted_wrt (<) ts" "\<forall>i. Suc i < length ts \<longrightarrow> ts ! Suc i - ts ! i \<le> 120000"
    and ends: "te_first e = hd ts" "te_last e = last ts"
    and bins: "te_minutes e \<le> card (minute_bins (hd ts) ts)"
    using ts(1) unfolding entry_trace_def watch_gap_def by auto
  moreover have "600000 \<le> last ts - hd ts" "last ts \<le> now" "now - last ts \<le> 120000" "8 \<le> te_minutes e"
    using r unfolding watch_ready_def watch_fresh_def watch_gap_def watch_duration_def
      required_minutes_def ends by blast+
  ultimately show ?thesis
    using ts(2) bins unfolding w_def [symmetric] by (meson order_trans)
qed

text \<open>
  Property C15.  Completeness for an undisturbed identity: qualifying sightings in increasing
  order, at most two minutes apart, over at least ten minutes and eight distinct minutes raise a
  warning at the last of them.
\<close>

theorem watch_warning_complete:
  assumes "steady hash (watch_start t0 b w0) ds" and "ds \<noteq> []"
    and "600000 \<le> d_last_ms (last ds) - d_last_ms (hd ds)"
    and "8 \<le> card (minute_bins (d_last_ms (hd ds)) (map d_last_ms ds))"
  shows "\<exists>e. watch_warning (d_last_ms (last ds)) (watch_run (watch_start t0 b w0) (promptly hash ds)) = Some e \<and>
    te_hash e = hash"
proof -
  define v where "v = watch_run (watch_start t0 b w0) (promptly hash ds)"
  from steady_run [OF assms(1,2)] obtain e where e: "tw_entries v = (replicate 16 watch_entry0)[0 := e]"
    "entry_trace e (map d_last_ms ds)" "te_hash e = hash" "\<not> te_acknowledged e"
    by (auto simp: v_def)
  have "hash \<noteq> 0"
    using assms(1,2) by (cases ds) (auto simp: steady_def watch_eligible_def)
  moreover have "hd (map d_last_ms ds) \<le> last (map d_last_ms ds)"
    using assms(1,2) hd_in_set [of "map d_last_ms ds"] unfolding steady_def
    by (intro sorted_le_last) simp_all
  ultimately have "watch_ready (d_last_ms (last ds)) e"
    using e(2,3) assms(2-4)
    by (simp add: watch_ready_def watch_fresh_def entry_trace_def watch_gap_def watch_duration_def
        required_minutes_def hd_map last_map)
  moreover have "tw_armed v"
    using watch_run_inv [OF watch_inv_start [of t0 b w0], of "promptly hash ds"]
    by (simp add: v_def watch_start_def)
  ultimately have "watch_warning (d_last_ms (last ds)) v = Some e"
    using e(1,4) by (simp add: watch_warning_def upt_rec numeral_eq_Suc)
  with e(3) show ?thesis unfolding v_def by blast
qed


section \<open>Witnesses of the travel watch\<close>

definition tag_seen :: "u64 \<Rightarrow> detection" where
  "tag_seen ms = detection0\<lparr>d_category := TILE, d_radio := Ble, d_score := 60, d_seen_count := 1,
     d_last_ms := ms\<rparr>"

definition example_walk :: "detection list" where
  "example_walk = map (\<lambda>i. tag_seen (of_nat (60000 * (i + 1)))) [0..<11]"

lemma example_walk_list: "map d_last_ms example_walk =
    [60000, 120000, 180000, 240000, 300000, 360000, 420000, 480000, 540000, 600000, 660000]"
  by (simp add: example_walk_def tag_seen_def upt_rec)

lemma example_walk_steady: "steady 7 (watch_start 0 False tag_watch0) example_walk"
proof -
  have g: "\<forall>i < 10. map d_last_ms example_walk ! Suc i - map d_last_ms example_walk ! i \<le> watch_gap"
  proof (intro allI impI)
    fix i :: nat assume "i < 10"
    then have "i \<in> {0, 1, 2, 3, 4, 5, 6, 7, 8, 9}" by auto
    then show "map d_last_ms example_walk ! Suc i - map d_last_ms example_walk ! i \<le> watch_gap"
      unfolding example_walk_list watch_gap_def by auto
  qed
  have l: "length example_walk = 11" by (simp add: example_walk_def)
  have "sorted_wrt (<) (map d_last_ms example_walk)" unfolding example_walk_list by simp
  moreover have "\<forall>i. Suc i < length example_walk \<longrightarrow>
      d_last_ms (example_walk ! Suc i) - d_last_ms (example_walk ! i) \<le> watch_gap"
    using g by (simp add: l)
  moreover have "list_all (\<lambda>d. watch_eligible 7 d (watch_start 0 False tag_watch0) \<and>
      \<not> samsung_connected d) example_walk"
    by (simp add: example_walk_def list_all_iff watch_eligible_def watch_start_def tag_watch0_def
        tag_seen_def detection0_def is_tag_def samsung_connected_def samsung_identity_def)
  ultimately show ?thesis by (simp add: steady_def)
qed

theorem watch_warning_complete_witness:
  "\<exists>e. watch_warning 660000 (watch_run (watch_start 0 False tag_watch0) (promptly 7 example_walk)) = Some e \<and>
     te_hash e = 7"
proof -
  have l: "last (map d_last_ms example_walk) = 660000" "hd (map d_last_ms example_walk) = 60000"
    unfolding example_walk_list by simp_all
  have ne: "example_walk \<noteq> []" by (simp add: example_walk_def)
  then have l': "d_last_ms (last example_walk) = 660000" "d_last_ms (hd example_walk) = 60000"
    using l by (simp_all add: last_map hd_map)
  have "minute_bins 60000 (map d_last_ms example_walk) = {0, 1, 2, 3, 4, 5, 6, 7, 8, 9, 10}"
    unfolding minute_bins_def example_walk_list by simp
  then have "8 \<le> card (minute_bins (d_last_ms (hd example_walk)) (map d_last_ms example_walk))"
    by (simp add: l')
  from watch_warning_complete [OF example_walk_steady ne _ this] show ?thesis by (simp add: l')
qed

theorem watch_warning_sound_witness:
  "\<exists>ts. 8 \<le> card (minute_bins (hd ts) ts) \<and> 600000 \<le> last ts - hd ts \<and>
     (\<forall>t \<in> set ts. sighting (promptly 7 example_walk) (watch_start 0 False tag_watch0) 7 t)"
proof -
  have l: "last (map d_last_ms example_walk) = 660000" "hd (map d_last_ms example_walk) = 60000"
    unfolding example_walk_list by simp_all
  obtain e where e: "tw_entries (watch_run (watch_start 0 False tag_watch0) (promptly 7 example_walk)) =
      (replicate 16 watch_entry0)[0 := e]" "entry_trace e (map d_last_ms example_walk)" "te_hash e = 7"
      "\<not> te_acknowledged e"
    using steady_run [OF example_walk_steady] by (auto simp: example_walk_def)
  have "minute_bins 60000 (map d_last_ms example_walk) = {0, 1, 2, 3, 4, 5, 6, 7, 8, 9, 10}"
    unfolding minute_bins_def example_walk_list by simp
  then have "watch_ready 660000 e"
    using e(2,3) l by (auto simp: entry_trace_def watch_ready_def watch_fresh_def watch_gap_def
        watch_duration_def required_minutes_def)
  moreover have "tw_armed (watch_run (watch_start 0 False tag_watch0) (promptly 7 example_walk))"
    using watch_run_inv [OF watch_inv_start [of 0 False tag_watch0], of "promptly 7 example_walk"]
    by (simp add: watch_start_def)
  ultimately have "watch_warning 660000
      (watch_run (watch_start 0 False tag_watch0) (promptly 7 example_walk)) = Some e"
    using e(1,4) by (simp add: watch_warning_def upt_rec numeral_eq_Suc)
  from watch_warning_sound [OF this] show ?thesis unfolding e(3) by blast
qed

end
