(* ===== verification/Companion.thy ===== *)
theory Companion
  imports Core_Types
begin

text \<open>
  The Scent Book, the wardrobe and the ignore list (\<open>companion.hpp\<close>), the look of the display
  (\<open>appearance.hpp\<close>), their validity checks and the migrations from their frozen older layouts.
  The interface \<open>migration\<close> states what every migration owes the storage code.
\<close>

section \<open>Companion\<close>

definition outfit_count :: nat where
  "outfit_count = 6"

definition ignore_capacity :: nat where
  "ignore_capacity = 64"

record scent_entry =
  se_first_utc :: u64
  se_last_utc :: u64
  se_observations :: u32
  se_best_score :: u8
  se_last_score :: u8
  se_strongest :: int

definition scent_entry0 :: scent_entry where
  "scent_entry0 = \<lparr>se_first_utc = 0, se_last_utc = 0, se_observations = 0, se_best_score = 0,
     se_last_score = 0, se_strongest = - 127\<rparr>"

record ignored_scent =
  ig_digest :: "u8 list"
  ig_category :: category

definition ignored_scent0 :: ignored_scent where
  "ignored_scent0 = \<lparr>ig_digest = replicate 8 0, ig_category = FLOCK\<rparr>"

definition ignored_of :: "u64 \<Rightarrow> category \<Rightarrow> ignored_scent" where
  "ignored_of value type =
     \<lparr>ig_digest = map (\<lambda>i. ucast (drop_bit (8 * i) value)) [0..<8], ig_category = type\<rparr>"

definition ig_hash :: "ignored_scent \<Rightarrow> u64" where
  "ig_hash e = fold (\<lambda>i value. value OR push_bit (8 * i) (ucast (ig_digest e ! i))) [0..<8] 0"

definition valid_ignores :: "ignored_scent list \<Rightarrow> bool" where
  "valid_ignores list \<longleftrightarrow> list_all (\<lambda>i.
     category_index (ig_category (list ! i)) < category_count \<and>
     (ig_hash (list ! i) \<noteq> 0 \<longrightarrow> list_all (\<lambda>j. ig_hash (list ! j) \<noteq> ig_hash (list ! i)) [0..<i]))
     [0..<length list]"

record companion_v1 =
  cv_version :: u32
  cv_scents :: "scent_entry list"
  cv_ignored :: "(u64 \<times> category) list"
  cv_equipped :: u8
  cv_unlocked :: u8

record companion =
  co_version :: u32
  co_scents :: "scent_entry list"
  co_ignored :: "ignored_scent list"
  co_equipped :: u8
  co_unlocked :: u8

definition companion0 :: companion where
  "companion0 = \<lparr>co_version = 2, co_scents = replicate category_count scent_entry0,
     co_ignored = replicate ignore_capacity ignored_scent0, co_equipped = 0, co_unlocked = 1\<rparr>"

definition discoveries :: "companion \<Rightarrow> nat" where
  "discoveries c = length (filter (\<lambda>s. se_observations s \<noteq> 0) (co_scents c))"

definition observe_scent :: "detection \<Rightarrow> companion \<Rightarrow> companion" where
  "observe_scent d c =
     (if length (co_scents c) \<le> category_index (d_category d) then c
      else let i = category_index (d_category d); s = co_scents c ! i;
               s = (if se_observations s = 0 then s\<lparr>se_first_utc := d_unix_seconds d\<rparr> else s);
               s = (if se_observations s < - 1 then s\<lparr>se_observations := se_observations s + 1\<rparr> else s);
               s = s\<lparr>se_last_utc := d_unix_seconds d, se_last_score := d_score d,
                     se_best_score := max (se_best_score s) (d_score d),
                     se_strongest := max (se_strongest s) (d_rssi_max d)\<rparr>
           in c\<lparr>co_scents := (co_scents c)[i := s]\<rparr>)"

definition earned_outfits :: "u32 \<Rightarrow> companion \<Rightarrow> u8" where
  "earned_outfits xp c = 1 OR (if 25 \<le> xp then 2 else 0) OR (if 100 \<le> xp then 4 else 0) OR
     (if 5 \<le> discoveries c then 8 else 0) OR (if 300 \<le> xp then 16 else 0) OR
     (if 10 \<le> discoveries c then 32 else 0)"

definition unlock :: "u32 \<Rightarrow> companion \<Rightarrow> companion \<times> u8" where
  "unlock xp c =
     (let earned = earned_outfits xp c; added = earned AND NOT (co_unlocked c)
      in (c\<lparr>co_unlocked := co_unlocked c OR earned\<rparr>, added))"

definition is_ignored :: "u64 \<Rightarrow> companion \<Rightarrow> bool" where
  "is_ignored hash c \<longleftrightarrow> hash \<noteq> 0 \<and> list_ex (\<lambda>e. ig_hash e = hash) (co_ignored c)"

definition ignore :: "u64 \<Rightarrow> category \<Rightarrow> companion \<Rightarrow> companion \<times> bool" where
  "ignore hash cat c =
     (if hash = 0 \<or> category_count \<le> category_index cat then (c, False)
      else if is_ignored hash c then (c, True)
      else case first_index (\<lambda>e. ig_hash e = 0) (co_ignored c) of
             Some i \<Rightarrow> (c\<lparr>co_ignored := (co_ignored c)[i := ignored_of hash cat]\<rparr>, True)
           | None \<Rightarrow> (c, False))"

definition ignored_count :: "companion \<Rightarrow> nat" where
  "ignored_count c = length (filter (\<lambda>e. ig_hash e \<noteq> 0) (co_ignored c))"

definition latest_utc :: u64 where
  "latest_utc = 4102444799"

definition valid_scent :: "scent_entry \<Rightarrow> bool" where
  "valid_scent s \<longleftrightarrow> \<not> (100 < se_best_score s \<or> se_best_score s < se_last_score s \<or>
     latest_utc < se_first_utc s \<or> latest_utc < se_last_utc s)"

definition valid_companion :: "companion \<Rightarrow> bool" where
  "valid_companion c \<longleftrightarrow>
     \<not> (co_version c \<noteq> 2 \<or> outfit_count \<le> unat (co_equipped c) \<or> co_unlocked c AND 1 = 0 \<or>
        drop_bit outfit_count (co_unlocked c) \<noteq> 0 \<or>
        co_unlocked c AND push_bit (unat (co_equipped c)) 1 = 0) \<and>
     list_all valid_scent (co_scents c) \<and> valid_ignores (co_ignored c)"

text \<open>What the screens change directly: wearing an outfit, forgetting an ignored scent, starting over.\<close>

definition equip :: "nat \<Rightarrow> companion \<Rightarrow> companion" where
  "equip index c =
     (if co_unlocked c AND push_bit index 1 \<noteq> 0 then c\<lparr>co_equipped := word_of_nat index\<rparr> else c)"

definition forget :: "nat \<Rightarrow> companion \<Rightarrow> companion" where
  "forget slot c = (if slot < length (co_ignored c)
     then c\<lparr>co_ignored := (co_ignored c)[slot := ignored_scent0]\<rparr> else c)"

definition start_over :: "companion \<Rightarrow> companion" where
  "start_over c = c\<lparr>co_scents := replicate category_count scent_entry0, co_equipped := 0,
     co_unlocked := 1\<rparr>"

definition migrate_companion :: "companion_v1 \<Rightarrow> companion option" where
  "migrate_companion old =
     (if cv_version old \<noteq> 1 then None
      else let next = companion0\<lparr>co_scents := cv_scents old, co_equipped := cv_equipped old,
                 co_unlocked := cv_unlocked old,
                 co_ignored := map (\<lambda>(h, c). ignored_of h c) (cv_ignored old)
                   @ drop (length (cv_ignored old)) (co_ignored companion0)\<rparr>
           in if valid_companion next then Some next else None)"

section \<open>Appearance\<close>

record appearance_v1 =
  av_version :: u32
  av_theme :: u8
  av_scene :: u8
  av_speech :: u8
  av_compact :: u8

record appearance_v2 = appearance_v1 +
  av_inverted :: u8

record appearance =
  ap_version :: u32
  ap_theme :: u8
  ap_scene :: u8
  ap_speech :: u8
  ap_compact :: u8
  ap_inverted :: u8
  ap_dim_minutes :: u8
  ap_saver_minutes :: u8
  ap_off_minutes :: u8

definition appearance0 :: appearance where
  "appearance0 = \<lparr>ap_version = 3, ap_theme = 0, ap_scene = 0, ap_speech = 1, ap_compact = 0,
     ap_inverted = 0, ap_dim_minutes = 2, ap_saver_minutes = 5, ap_off_minutes = 15\<rparr>"

definition idle_timeouts :: "u8 list" where
  "idle_timeouts = [0, 1, 2, 5, 10, 15, 30, 60]"

definition valid_timeout :: "u8 \<Rightarrow> bool" where
  "valid_timeout minutes \<longleftrightarrow> list_ex (\<lambda>v. minutes = v) idle_timeouts"

definition next_timeout :: "u8 \<Rightarrow> u8" where
  "next_timeout minutes = (case first_index (\<lambda>v. v = minutes) idle_timeouts of
     Some i \<Rightarrow> idle_timeouts ! ((i + 1) mod length idle_timeouts) | None \<Rightarrow> 0)"

definition valid_appearance :: "appearance \<Rightarrow> bool" where
  "valid_appearance a \<longleftrightarrow> ap_version a = 3 \<and> ap_theme a < 3 \<and> ap_scene a < 3 \<and> ap_speech a < 3 \<and>
     ap_compact a < 2 \<and> ap_inverted a < 2 \<and> valid_timeout (ap_dim_minutes a) \<and>
     valid_timeout (ap_saver_minutes a) \<and> valid_timeout (ap_off_minutes a)"

definition migrate_appearance_v1 :: "'a appearance_v1_scheme \<Rightarrow> appearance option" where
  "migrate_appearance_v1 old =
     (if av_version old \<noteq> 1 \<or> 3 \<le> av_theme old \<or> 3 \<le> av_scene old \<or> 3 \<le> av_speech old \<or>
         2 \<le> av_compact old then None
      else Some (appearance0\<lparr>ap_theme := av_theme old, ap_scene := av_scene old,
             ap_speech := av_speech old, ap_compact := av_compact old\<rparr>))"

definition migrate_appearance_v2 :: "appearance_v2 \<Rightarrow> appearance option" where
  "migrate_appearance_v2 old =
     (if av_version old \<noteq> 2 \<or> 2 \<le> av_inverted old then None
      else let base = \<lparr>av_version = 1, av_theme = av_theme old, av_scene = av_scene old,
                        av_speech = av_speech old, av_compact = av_compact old\<rparr>
           in case migrate_appearance_v1 base of
                None \<Rightarrow> None
              | Some next \<Rightarrow> Some (next\<lparr>ap_inverted := av_inverted old\<rparr>))"

section \<open>Lemmas\<close>

text \<open>The digest bytes of an ignored identity are its 64-bit hash, least significant first.\<close>

lemma bit_fold_or:
  "bit (fold (\<lambda>i value. value OR f i) is (a :: u64)) n \<longleftrightarrow> bit a n \<or> (\<exists>i \<in> set is. bit (f i) n)"
  by (induction "is" arbitrary: a) (auto simp: bit_or_iff)

lemma bit_digest_byte:
  "bit (push_bit (8 * i) (ucast (ucast (drop_bit (8 * i) (v :: u64)) :: u8) :: u64)) n \<longleftrightarrow>
     8 * i \<le> n \<and> n < 8 * i + 8 \<and> bit v n"
proof (cases "8 * i \<le> n \<and> n < 8 * i + 8 \<and> n < 64")
  case True
  then have "n - 8 * i < 8" and "n - 8 * i < 64" and "8 * i + (n - 8 * i) = n" by linarith+
  with True show ?thesis by (simp add: bit_push_bit_iff bit_ucast_iff bit_drop_bit_eq)
next
  case False
  then consider "n < 8 * i" | "8 \<le> n - 8 * i" | "64 \<le> n" by linarith
  then show ?thesis
  proof cases
    case 1
    then show ?thesis by (simp add: bit_push_bit_iff)
  next
    case 2
    then show ?thesis by (auto simp: bit_push_bit_iff bit_ucast_iff)
  next
    case 3
    then have out: "\<not> bit w n" for w :: u64 using bit_imp_le_length [of w n] by auto
    show ?thesis by (simp only: out simp_thms)
  qed
qed

lemma ig_hash_of [simp]: "ig_hash (ignored_of v c) = v"
proof (rule bit_word_eqI)
  fix n assume n: "n < LENGTH(64)"
  define f where "f i = push_bit (8 * i) (ucast (ig_digest (ignored_of v c) ! i) :: u64)" for i
  have f: "bit (f i) n \<longleftrightarrow> 8 * i \<le> n \<and> n < 8 * i + 8 \<and> bit v n" if "i < 8" for i
    using that by (simp add: f_def ignored_of_def bit_digest_byte)
  have "bit (ig_hash (ignored_of v c)) n \<longleftrightarrow> (\<exists>i < 8. bit (f i) n)"
    by (auto simp: ig_hash_def f_def bit_fold_or)
  also have "\<dots> \<longleftrightarrow> (\<exists>i < 8. 8 * i \<le> n \<and> n < 8 * i + 8) \<and> bit v n"
    using f by auto
  also have "\<dots> \<longleftrightarrow> bit v n"
  proof -
    have "n div 8 < 8 \<and> 8 * (n div 8) \<le> n \<and> n < 8 * (n div 8) + 8" using n by simp presburger
    then show ?thesis by blast
  qed
  finally show "bit (ig_hash (ignored_of v c)) n \<longleftrightarrow> bit v n" by simp
qed

lemma ig_category_of [simp]: "ig_category (ignored_of v c) = c"
  by (simp add: ignored_of_def)

lemma ig_hash_blank [simp]: "ig_hash ignored_scent0 = 0"
proof -
  have "[0..<8] = [0, 1, 2, 3, 4, 5, 6, 7 :: nat]" by code_simp
  then show ?thesis by (simp add: ig_hash_def ignored_scent0_def)
qed

lemma valid_ignores_nth:
  "valid_ignores xs \<longleftrightarrow> (\<forall>i < length xs. category_index (ig_category (xs ! i)) < category_count) \<and>
     (\<forall>i < length xs. ig_hash (xs ! i) \<noteq> 0 \<longrightarrow> (\<forall>j < i. ig_hash (xs ! j) \<noteq> ig_hash (xs ! i)))"
  unfolding valid_ignores_def list_all_iff by auto

lemma earlier_distinct:
  "(\<forall>i < n. p (f i) \<longrightarrow> (\<forall>j < i. f j \<noteq> f i)) \<longleftrightarrow>
     (\<forall>i < n. \<forall>j < n. p (f i) \<longrightarrow> f i = f j \<longrightarrow> i = (j :: nat))"
proof
  assume l: "\<forall>i < n. p (f i) \<longrightarrow> (\<forall>j < i. f j \<noteq> f i)"
  show "\<forall>i < n. \<forall>j < n. p (f i) \<longrightarrow> f i = f j \<longrightarrow> i = j"
  proof (intro allI impI)
    fix i j assume a: "i < n" "j < n" "p (f i)" "f i = f j"
    show "i = j"
    proof (cases i j rule: linorder_cases)
      case less
      have "p (f j)" using a by simp
      then have "f i \<noteq> f j" using l a(2) less by blast
      with a(4) show ?thesis by blast
    next
      case greater
      then have "f j \<noteq> f i" using l a(1,3) by blast
      with a(4) show ?thesis by simp
    qed
  qed
next
  assume r: "\<forall>i < n. \<forall>j < n. p (f i) \<longrightarrow> f i = f j \<longrightarrow> i = j"
  show "\<forall>i < n. p (f i) \<longrightarrow> (\<forall>j < i. f j \<noteq> f i)"
  proof (intro allI impI)
    fix i j assume a: "i < n" "p (f i)" "j < i"
    then have "j < n" by simp
    with r a have "f i = f j \<longrightarrow> i = j" by blast
    with a(3) show "f j \<noteq> f i" by auto
  qed
qed

lemma valid_ignores_iff:
  "valid_ignores xs \<longleftrightarrow> (\<forall>e \<in> set xs. category_index (ig_category e) < category_count) \<and>
     (\<forall>i < length xs. \<forall>j < length xs. ig_hash (xs ! i) \<noteq> 0 \<longrightarrow> ig_hash (xs ! i) = ig_hash (xs ! j) \<longrightarrow> i = j)"
  unfolding valid_ignores_nth earlier_distinct [of "length xs" "\<lambda>h. h \<noteq> 0" "\<lambda>i. ig_hash (xs ! i)"]
  by (simp only: all_set_conv_all_nth)


section \<open>What the stored companion keeps\<close>

definition companion_ok :: "companion \<Rightarrow> bool" where
  "companion_ok c \<longleftrightarrow> valid_companion c \<and> length (co_scents c) = category_count \<and>
     length (co_ignored c) = ignore_capacity"

text \<open>All of it but the dates, which follow the clock of the device and may pass the last valid one.\<close>

definition scored_scent :: "scent_entry \<Rightarrow> bool" where
  "scored_scent s \<longleftrightarrow> se_last_score s \<le> se_best_score s \<and> se_best_score s \<le> 100"

definition scents_dated :: "companion \<Rightarrow> bool" where
  "scents_dated c \<longleftrightarrow> list_all (\<lambda>s. se_first_utc s \<le> latest_utc \<and> se_last_utc s \<le> latest_utc) (co_scents c)"

definition companion_sound :: "companion \<Rightarrow> bool" where
  "companion_sound c \<longleftrightarrow> co_version c = 2 \<and> unat (co_equipped c) < outfit_count \<and> co_unlocked c AND 1 \<noteq> 0 \<and>
     drop_bit outfit_count (co_unlocked c) = 0 \<and> co_unlocked c AND push_bit (unat (co_equipped c)) 1 \<noteq> 0 \<and>
     list_all scored_scent (co_scents c) \<and> valid_ignores (co_ignored c) \<and>
     length (co_scents c) = category_count \<and> length (co_ignored c) = ignore_capacity"

lemma companion_ok_iff: "companion_ok c \<longleftrightarrow> companion_sound c \<and> scents_dated c"
  by (auto simp: companion_ok_def companion_sound_def scents_dated_def valid_companion_def valid_scent_def
      scored_scent_def list_all_iff not_less not_le)

lemma companion_sound_valid: "companion_sound c \<Longrightarrow> valid_companion c \<longleftrightarrow> scents_dated c"
  using companion_ok_iff [of c] by (auto simp: companion_ok_def companion_sound_def)

lemma scents_kept:
  "list_all scored_scent xs \<Longrightarrow> scored_scent s \<Longrightarrow> list_all scored_scent (xs[i := s])"
  by (auto simp: list_all_iff dest!: set_update_subset_insert [THEN subsetD])

lemma observe_scent_ok:
  assumes c: "companion_sound c" and d: "d_score d \<le> 100"
  shows "companion_sound (observe_scent d c)"
proof (cases "length (co_scents c) \<le> category_index (d_category d)")
  case False
  let ?i = "category_index (d_category d)"
  have v: "scored_scent (co_scents c ! ?i)" and all: "list_all scored_scent (co_scents c)"
    using c False by (auto simp: companion_sound_def list_all_length)
  define s where "s = co_scents (observe_scent d c) ! ?i"
  have shape: "observe_scent d c = c\<lparr>co_scents := (co_scents c)[?i := s]\<rparr>"
    using False by (simp add: s_def observe_scent_def Let_def)
  have "scored_scent s"
    using False v d
    by (simp add: s_def observe_scent_def Let_def scored_scent_def le_max_iff_disj)
  then have "list_all scored_scent ((co_scents c)[?i := s])"
    using all by (rule scents_kept [rotated])
  then show ?thesis using c by (simp add: shape companion_sound_def)
qed (use c in \<open>simp add: observe_scent_def\<close>)

lemma earned_low: "drop_bit outfit_count (earned_outfits xp c) = 0"
  by (simp add: earned_outfits_def outfit_count_def drop_bit_or split: if_splits)

lemma unlock_ok: "companion_sound c \<Longrightarrow> companion_sound (fst (unlock xp c))"
proof -
  assume c: "companion_sound c"
  let ?e = "earned_outfits xp c"
  have "drop_bit outfit_count (co_unlocked c OR ?e) = 0"
    using c earned_low [of xp c]
    by (simp add: companion_sound_def drop_bit_or)
  moreover have "m AND b \<noteq> 0 \<Longrightarrow> (m OR ?e) AND b \<noteq> 0" for m b :: u8
    by (auto simp: bit_eq_iff bit_simps)
  ultimately show ?thesis
    using c by (simp add: unlock_def Let_def companion_sound_def)
qed

lemma equip_ok: "companion_sound c \<Longrightarrow> i < outfit_count \<Longrightarrow> companion_sound (equip i c)"
proof -
  assume c: "companion_sound c" and i: "i < outfit_count"
  have "unat (word_of_nat i :: u8) = i"
    using i by (simp add: outfit_count_def unat_of_nat)
  with c i show ?thesis by (simp add: equip_def companion_sound_def)
qed

lemma valid_ignores_update:
  assumes v: "valid_ignores xs" and i: "i < length xs"
    and e: "category_index (ig_category e) < category_count"
    and fresh: "ig_hash e = 0 \<or> (\<forall>x \<in> set xs. ig_hash x \<noteq> ig_hash e)"
  shows "valid_ignores (xs[i := e])"
  unfolding valid_ignores_iff
proof
  have "set (xs[i := e]) \<subseteq> insert e (set xs)" by (rule set_update_subset_insert)
  then show "\<forall>x \<in> set (xs[i := e]). category_index (ig_category x) < category_count"
    using v e unfolding valid_ignores_iff by blast
  have old: "a < length xs \<Longrightarrow> b < length xs \<Longrightarrow> ig_hash (xs ! a) \<noteq> 0 \<Longrightarrow>
      ig_hash (xs ! a) = ig_hash (xs ! b) \<Longrightarrow> a = b" for a b
    using v unfolding valid_ignores_iff by blast
  have new: "ig_hash e = 0 \<or> ig_hash (xs ! a) \<noteq> ig_hash e" if "a < length xs" for a
    using fresh nth_mem [OF that] by blast
  show "\<forall>a < length (xs[i := e]). \<forall>b < length (xs[i := e]). ig_hash (xs[i := e] ! a) \<noteq> 0 \<longrightarrow>
      ig_hash (xs[i := e] ! a) = ig_hash (xs[i := e] ! b) \<longrightarrow> a = b"
  proof (intro allI impI)
    fix a b
    assume a: "a < length (xs[i := e])" "b < length (xs[i := e])" "ig_hash (xs[i := e] ! a) \<noteq> 0"
      "ig_hash (xs[i := e] ! a) = ig_hash (xs[i := e] ! b)"
    show "a = b"
      using a old [of a b] new [of a] new [of b] by (cases "a = i"; cases "b = i") auto
  qed
qed

lemma blank_listed [simp]: "category_index (ig_category ignored_scent0) < category_count"
  by (simp add: ignored_scent0_def category_count_def)

lemma forget_ok: "companion_sound c \<Longrightarrow> companion_sound (forget slot c)"
  using valid_ignores_update [of "co_ignored c" slot ignored_scent0]
  by (simp add: forget_def companion_sound_def)

lemma ignore_ok: "companion_sound c \<Longrightarrow> companion_sound (fst (ignore hash cat c))"
proof -
  assume c: "companion_sound c"
  show ?thesis
  proof (cases "first_index (\<lambda>e. ig_hash e = 0) (co_ignored c)")
    case None
    with c show ?thesis by (simp add: ignore_def)
  next
    case (Some i)
    then have i: "i < length (co_ignored c)" by (rule first_index_less)
    show ?thesis
    proof (cases "hash = 0 \<or> category_count \<le> category_index cat \<or> is_ignored hash c")
      case True
      with c show ?thesis by (auto simp: ignore_def)
    next
      case False
      then have "valid_ignores ((co_ignored c)[i := ignored_of hash cat])"
        using c i by (intro valid_ignores_update)
          (auto simp: companion_sound_def is_ignored_def list_ex_iff)
      with False Some c show ?thesis
        by (simp add: ignore_def companion_sound_def)
    qed
  qed
qed

lemma blank_companion_sound: "companion_sound companion0"
proof -
  have "valid_ignores (co_ignored companion0)"
    by (auto simp: valid_ignores_def companion0_def list_all_iff)
  then show ?thesis
    by (simp add: companion_sound_def companion0_def scored_scent_def
        scent_entry0_def outfit_count_def latest_utc_def list_all_length)
qed

lemma start_over_ok: "companion_sound c \<Longrightarrow> companion_sound (start_over c)"
  using blank_companion_sound
  by (simp add: start_over_def companion_sound_def companion0_def)

text \<open>Everything the screens and the detections do to the companion, as one machine.\<close>

datatype companion_event = Seen detection | Earned u32 | Hushed u64 category | Worn nat
  | Forgotten nat | Restarted

primrec companion_step :: "companion \<Rightarrow> companion_event \<Rightarrow> companion" where
  "companion_step c (Seen d) = observe_scent d c"
| "companion_step c (Earned xp) = fst (unlock xp c)"
| "companion_step c (Hushed h cat) = fst (ignore h cat c)"
| "companion_step c (Worn i) = equip i c"
| "companion_step c (Forgotten slot) = forget slot c"
| "companion_step c Restarted = start_over c"

primrec companion_event_ok :: "companion_event \<Rightarrow> bool" where
  "companion_event_ok (Seen d) \<longleftrightarrow> d_score d \<le> 100"
| "companion_event_ok (Earned xp) \<longleftrightarrow> True"
| "companion_event_ok (Hushed h cat) \<longleftrightarrow> True"
| "companion_event_ok (Worn i) \<longleftrightarrow> i < outfit_count"
| "companion_event_ok (Forgotten slot) \<longleftrightarrow> True"
| "companion_event_ok Restarted \<longleftrightarrow> True"

interpretation companion_life: invariant_machine companion_step companion_sound companion_event_ok
proof unfold_locales
  fix c e
  assume "companion_sound c" and "companion_event_ok e"
  then show "companion_sound (companion_step c e)"
    by (cases e) (simp_all add: observe_scent_ok unlock_ok ignore_ok equip_ok forget_ok start_over_ok)
qed

text \<open>The dates stay valid while every sighting has a valid one.\<close>

primrec companion_event_dated :: "companion_event \<Rightarrow> bool" where
  "companion_event_dated (Seen d) \<longleftrightarrow> d_unix_seconds d \<le> latest_utc"
| "companion_event_dated (Earned xp) \<longleftrightarrow> True"
| "companion_event_dated (Hushed h cat) \<longleftrightarrow> True"
| "companion_event_dated (Worn i) \<longleftrightarrow> True"
| "companion_event_dated (Forgotten slot) \<longleftrightarrow> True"
| "companion_event_dated Restarted \<longleftrightarrow> True"

lemma blank_scents_dated: "scents_dated companion0"
  by (simp add: scents_dated_def companion0_def scent_entry0_def list_all_length)

lemma blank_companion_ok: "companion_ok companion0"
  by (simp add: companion_ok_iff blank_companion_sound blank_scents_dated)

lemma observe_scent_dated:
  assumes c: "scents_dated c" and d: "d_unix_seconds d \<le> latest_utc"
  shows "scents_dated (observe_scent d c)"
  using assms by (cases "length (co_scents c) \<le> category_index (d_category d)")
    (auto simp: scents_dated_def observe_scent_def Let_def list_all_iff dest!: set_update_subset_insert [THEN subsetD])

interpretation companion_dates: invariant_machine companion_step scents_dated companion_event_dated
proof unfold_locales
  fix c e
  assume c: "scents_dated c" and e: "companion_event_dated e"
  have "scents_dated (fst (ignore h cat c))" for h cat
    using c by (simp add: ignore_def scents_dated_def split: option.split)
  with c e blank_scents_dated show "scents_dated (companion_step c e)"
    by (cases e) (simp_all add: observe_scent_dated,
      simp_all add: unlock_def equip_def forget_def start_over_def scents_dated_def Let_def companion0_def)
qed

section \<open>The ignore list as a set of identities\<close>

definition ignored_set :: "companion \<Rightarrow> u64 set" where
  "ignored_set c = ig_hash ` set (co_ignored c) - {0}"

lemma is_ignored_iff: "is_ignored h c \<longleftrightarrow> h \<in> ignored_set c"
  by (auto simp: is_ignored_def ignored_set_def list_ex_iff)

lemma image_set_nth: "h \<in> f ` set xs \<longleftrightarrow> (\<exists>j < length xs. f (xs ! j) = h)"
  by (metis (no_types, lifting) imageE imageI in_set_conv_nth)

lemma set_replace:
  assumes "i < length xs"
  shows "h \<in> f ` set (xs[i := e]) \<longleftrightarrow> h = f e \<or> (\<exists>j < length xs. j \<noteq> i \<and> f (xs ! j) = h)"
  unfolding image_set_nth using assms by (auto simp: nth_list_update)

lemma set_fill:
  assumes "i < length xs" and "ig_hash (xs ! i) = 0"
  shows "ig_hash ` set (xs[i := e]) - {0} = insert (ig_hash e) (ig_hash ` set xs) - {0}"
proof -
  have "h \<in> ig_hash ` set (xs[i := e]) \<longleftrightarrow> h \<in> insert (ig_hash e) (ig_hash ` set xs)" if "h \<noteq> 0" for h
    unfolding set_replace [OF assms(1)] insert_iff
    unfolding image_set_nth using assms(2) that by blast
  then show ?thesis by blast
qed

lemma filter_full: "length (filter P xs) = length xs \<longleftrightarrow> (\<forall>x \<in> set xs. P x)"
proof (induction xs)
  case (Cons x xs)
  show ?case
  proof (cases "P x")
    case False
    then have "length (filter P (x # xs)) \<noteq> length (x # xs)" using length_filter_le [of P xs]
      by (simp del: length_filter_le)
    with False show ?thesis by auto
  qed (simp add: Cons)
qed simp

lemma ignored_count_room:
  "ignored_count c < length (co_ignored c) \<longleftrightarrow> first_index (\<lambda>e. ig_hash e = 0) (co_ignored c) \<noteq> None"
  using filter_full [of "\<lambda>e. ig_hash e \<noteq> 0" "co_ignored c"]
    length_filter_le [of "\<lambda>e. ig_hash e \<noteq> 0" "co_ignored c"]
  unfolding ignored_count_def by (simp add: first_index_None order.strict_iff_order)

lemma ignore_set:
  "snd (ignore h cat c) \<longleftrightarrow> h \<noteq> 0 \<and> category_index cat < category_count \<and>
     (is_ignored h c \<or> ignored_count c < length (co_ignored c))"
  "ignored_set (fst (ignore h cat c)) = (if snd (ignore h cat c) then insert h (ignored_set c) else ignored_set c)"
  "snd (ignore h cat c) \<Longrightarrow> h \<noteq> 0"
proof -
  show "snd (ignore h cat c) \<longleftrightarrow> h \<noteq> 0 \<and> category_index cat < category_count \<and>
     (is_ignored h c \<or> ignored_count c < length (co_ignored c))"
    by (auto simp: ignore_def ignored_count_room not_le split: option.splits)
  then show "snd (ignore h cat c) \<Longrightarrow> h \<noteq> 0" by blast
  show "ignored_set (fst (ignore h cat c)) = (if snd (ignore h cat c) then insert h (ignored_set c) else ignored_set c)"
  proof (cases "h = 0 \<or> category_count \<le> category_index cat \<or> is_ignored h c")
    case True
    then show ?thesis by (auto simp: ignore_def is_ignored_iff)
  next
    case False
    show ?thesis
    proof (cases "first_index (\<lambda>e. ig_hash e = 0) (co_ignored c)")
      case None
      with False show ?thesis by (simp add: ignore_def)
    next
      case (Some i)
      then have "ignored_set (c\<lparr>co_ignored := (co_ignored c)[i := ignored_of h cat]\<rparr>) =
          insert h (ig_hash ` set (co_ignored c)) - {0}"
        using set_fill [of i "co_ignored c" "ignored_of h cat"] Some
          first_index_holds [OF Some] first_index_less [OF Some]
        by (simp add: ignored_set_def)
      with False Some show ?thesis by (auto simp: ignore_def ignored_set_def)
    qed
  qed
qed

lemma forget_set:
  assumes c: "companion_ok c" and s: "slot < length (co_ignored c)"
  shows "ignored_set (forget slot c) = ignored_set c - {ig_hash (co_ignored c ! slot)}"
proof -
  let ?xs = "co_ignored c"
  have only: "j = slot" if "j < length ?xs" "ig_hash (?xs ! j) \<noteq> 0" "ig_hash (?xs ! j) = ig_hash (?xs ! slot)" for j
    using c s that unfolding companion_ok_def valid_companion_def valid_ignores_iff by blast
  have "h \<in> ignored_set (forget slot c) \<longleftrightarrow> h \<in> ignored_set c \<and> h \<noteq> ig_hash (?xs ! slot)" for h
  proof -
    have "h \<in> ignored_set (forget slot c) \<longleftrightarrow> h \<noteq> 0 \<and> (\<exists>j < length ?xs. j \<noteq> slot \<and> ig_hash (?xs ! j) = h)"
      using s set_replace [of slot ?xs h ig_hash ignored_scent0]
      by (auto simp: forget_def ignored_set_def)
    also have "\<dots> \<longleftrightarrow> h \<noteq> 0 \<and> (\<exists>j < length ?xs. ig_hash (?xs ! j) = h) \<and> h \<noteq> ig_hash (?xs ! slot)"
      using only s by metis
    also have "\<dots> \<longleftrightarrow> h \<in> ignored_set c \<and> h \<noteq> ig_hash (?xs ! slot)"
      unfolding ignored_set_def by (simp add: image_set_nth) blast
    finally show ?thesis .
  qed
  then show ?thesis by blast
qed

section \<open>Migrations\<close>

text \<open>
  What the storage code relies on when it reads an older record: the result is valid, and what
  the owner had chosen is kept.  \<open>adopt\<close> is how a loader uses it: the current record if it is
  stored and valid, else the older one, migrated.
\<close>

locale migration =
  fixes migrate :: "'old \<Rightarrow> 'new option"
    and valid :: "'new \<Rightarrow> bool"
    and view_old :: "'old \<Rightarrow> 'v"
    and view_new :: "'new \<Rightarrow> 'v"
  assumes migrate_valid: "migrate old = Some new \<Longrightarrow> valid new"
    and migrate_view: "migrate old = Some new \<Longrightarrow> view_new new = view_old old"
begin

definition adopt :: "'new option \<Rightarrow> 'old option \<Rightarrow> 'new option" where
  "adopt newer older = (case newer of Some n \<Rightarrow> if valid n then Some n else None
     | None \<Rightarrow> Option.bind older migrate)"

lemma adopt_valid: "adopt newer older = Some n \<Longrightarrow> valid n"
  by (auto simp: adopt_def migrate_valid Option.bind_eq_Some_conv split: option.splits if_splits)

lemma adopt_view:
  "adopt newer older = Some n \<Longrightarrow> newer = Some n \<or> (\<exists>old. older = Some old \<and> view_new n = view_old old)"
  by (auto simp: adopt_def migrate_view Option.bind_eq_Some_conv split: option.splits if_splits)

end

definition ignored_v1 :: "companion_v1 \<Rightarrow> u64 set" where
  "ignored_v1 old = fst ` set (cv_ignored old) - {0}"

lemma migrate_ignored:
  "ig_hash ` set (map (\<lambda>(h, c). ignored_of h c) xs @ replicate m ignored_scent0) - {0} =
     fst ` set xs - {0}"
proof -
  have blank: "ig_hash ` set (replicate m ignored_scent0) \<subseteq> {0}" by auto
  have kept: "ig_hash ` (\<lambda>(h, c). ignored_of h c) ` set xs = fst ` set xs"
    by (simp add: image_image case_prod_unfold)
  show ?thesis unfolding set_append set_map image_Un kept using blank by blast
qed

interpretation companion_migration: migration migrate_companion valid_companion
  "\<lambda>old. (cv_scents old, cv_equipped old, cv_unlocked old, ignored_v1 old)"
  "\<lambda>new. (co_scents new, co_equipped new, co_unlocked new, ignored_set new)"
proof unfold_locales
  fix old new
  assume m: "migrate_companion old = Some new"
  then show "valid_companion new" by (auto simp: migrate_companion_def Let_def split: if_splits)
  have "ignored_set new = ignored_v1 old"
    unfolding ignored_set_def ignored_v1_def
    by (subst migrate_ignored [symmetric, of _ "ignore_capacity - length (cv_ignored old)"])
      (use m in \<open>simp add: migrate_companion_def Let_def companion0_def split: if_splits\<close>,
        clarsimp)
  then show "(co_scents new, co_equipped new, co_unlocked new, ignored_set new) =
      (cv_scents old, cv_equipped old, cv_unlocked old, ignored_v1 old)"
    using m by (auto simp: migrate_companion_def Let_def companion0_def split: if_splits)
qed

interpretation appearance_v1_migration: migration migrate_appearance_v1 valid_appearance
  "\<lambda>old. (av_theme old, av_scene old, av_speech old, av_compact old)"
  "\<lambda>new. (ap_theme new, ap_scene new, ap_speech new, ap_compact new)"
  by unfold_locales (auto simp: migrate_appearance_v1_def valid_appearance_def appearance0_def
      valid_timeout_def idle_timeouts_def not_le split: if_splits)

interpretation appearance_v2_migration: migration migrate_appearance_v2 valid_appearance
  "\<lambda>old. (av_theme old, av_scene old, av_speech old, av_compact old, av_inverted old)"
  "\<lambda>new. (ap_theme new, ap_scene new, ap_speech new, ap_compact new, ap_inverted new)"
  by unfold_locales (auto simp: migrate_appearance_v1_def migrate_appearance_v2_def valid_appearance_def
      appearance0_def Let_def valid_timeout_def idle_timeouts_def not_le split: if_splits)

section \<open>Properties\<close>

text \<open>
  Property C17.  The companion stays valid up to its dates: after any sequence of sightings (with scores to 100),
  unlocks, ignored and forgotten scents, outfit changes and resets, from the blank companion, the stored
  companion has the array sizes of the code and is valid exactly when its dates are before 2100 (the worn
  outfit is unlocked, no bits above the outfits are set, the best score bounds the last one, no two used
  ignore slots hold one identity); and its dates are, when every sighting was before 2100.
\<close>

theorem companion_stays_valid:
  assumes "list_all companion_event_ok es"
  shows "let c = foldl companion_step companion0 es
    in length (co_scents c) = category_count \<and> length (co_ignored c) = ignore_capacity \<and>
       (valid_companion c \<longleftrightarrow>
          list_all (\<lambda>s. se_first_utc s \<le> latest_utc \<and> se_last_utc s \<le> latest_utc) (co_scents c)) \<and>
       (list_all companion_event_dated es \<longrightarrow> valid_companion c)"
proof -
  have "companion_sound (foldl companion_step companion0 es)"
    using blank_companion_sound assms by (rule companion_life.run_inv)
  moreover from this have "length (co_scents (foldl companion_step companion0 es)) = category_count"
      "length (co_ignored (foldl companion_step companion0 es)) = ignore_capacity"
    by (simp_all add: companion_sound_def)
  moreover have "scents_dated (foldl companion_step companion0 es)" if "list_all companion_event_dated es"
    using blank_scents_dated that by (rule companion_dates.run_inv)
  ultimately show ?thesis
    by (simp add: Let_def companion_sound_valid scents_dated_def)
qed

definition example_companion_events :: "companion_event list" where
  "example_companion_events = [Seen (detection0\<lparr>d_score := 75\<rparr>), Earned 30, Worn 1, Hushed 99 AXON,
     Forgotten 0, Restarted]"

theorem companion_stays_valid_witness:
  "valid_companion (foldl companion_step companion0 example_companion_events)"
proof -
  have "list_all companion_event_ok example_companion_events"
    by (simp add: example_companion_events_def detection0_def outfit_count_def)
  moreover have "list_all companion_event_dated example_companion_events"
    by (simp add: example_companion_events_def detection0_def latest_utc_def)
  ultimately show ?thesis using companion_stays_valid unfolding Let_def by blast
qed

text \<open>
  Property C18.  The ignore list implements a set: \<open>ignore\<close> succeeds exactly for a nonzero
  identity and a listed category that is ignored already or finds a free slot, it then adds
  that identity and nothing else, and a refused call changes nothing; no identity is ever
  evicted.  Forgetting a slot of a valid list removes exactly that slot's identity.
\<close>

theorem ignore_list_is_set:
  assumes "companion_ok c" and "slot < ignore_capacity"
  shows "(snd (ignore h cat c) \<longleftrightarrow> h \<noteq> 0 \<and> category_index cat < category_count \<and>
      (is_ignored h c \<or> ignored_count c < ignore_capacity)) \<and>
    ignored_set (fst (ignore h cat c)) =
      (if snd (ignore h cat c) then insert h (ignored_set c) else ignored_set c) \<and>
    ignored_set (forget slot c) = ignored_set c - {ig_hash (co_ignored c ! slot)} \<and>
    (is_ignored k c \<longleftrightarrow> k \<in> ignored_set c)"
  using ignore_set(1) [of h cat c] ignore_set(2) [of h cat c] forget_set [of c slot] assms
    is_ignored_iff [of k c]
  by (simp_all add: companion_ok_def)

theorem ignore_list_is_set_witness:
  "ignored_set (fst (ignore 7 AXON companion0)) =
      (if snd (ignore 7 AXON companion0) then insert 7 (ignored_set companion0)
       else ignored_set companion0)"
  using ignore_list_is_set [OF blank_companion_ok, of 0 7 AXON] by (simp add: ignore_capacity_def)

end
