(* ===== verification/Privacy.thy ===== *)
theory Privacy
  imports Core_Types
begin

text \<open>
  Keyed identities (\<open>privacy.cpp\<close>): the HMAC inputs of a detection, the 64-bit hashes under which
  meals, watches and ignored scents are kept, and the 20-letter token written to the log.
  \<open>hmac_sha256\<close> calls the platform's crypto library: it is the parameter \<open>hmac\<close>, which returns
  a digest of 32 bytes or fails.
\<close>

section \<open>Model\<close>

type_synonym keyed_digest = "u8 list \<Rightarrow> u8 list \<Rightarrow> u8 list option"

definition samsung_input :: "detection \<Rightarrow> u8 \<Rightarrow> u8 list" where
  "samsung_input d purpose = [byte_of_char (CHR ''S''), byte_of_char (CHR ''H''), 1, purpose,
     word_of_nat (category_index SAMSUNG_TAG)] @ st_id (d_samsung d)"

definition radio_byte :: "radio \<Rightarrow> u8" where
  "radio_byte r = (case r of Wifi \<Rightarrow> 0 | Ble \<Rightarrow> 1)"

definition digest_hash :: "keyed_digest \<Rightarrow> u8 list \<Rightarrow> u8 list \<Rightarrow> u64" where
  "digest_hash hmac key input =
     (case hmac key input of
        None \<Rightarrow> 0
      | Some digest \<Rightarrow>
          let value = foldl (\<lambda>value b. push_bit 8 value OR ucast b) 0 (take 8 digest)
          in if value \<noteq> 0 then value else 1)"

definition base32 :: string where
  "base32 = ''ABCDEFGHIJKLMNOPQRSTUVWXYZ234567''"

text \<open>One letter: \<open>alphabet[(bits >> available) & 31]\<close>; the inner loop, then one byte of the outer.\<close>

definition base32_letter :: "u32 \<Rightarrow> nat \<Rightarrow> char" where
  "base32_letter bits available = base32 ! unat (drop_bit available bits AND 31)"

fun emit_letters :: "u32 \<Rightarrow> nat \<Rightarrow> string \<Rightarrow> nat \<times> string" where
  "emit_letters bits available out =
     (if 5 \<le> available
      then emit_letters bits (available - 5) (out @ [base32_letter bits (available - 5)])
      else (available, out))"

declare emit_letters.simps [simp del]

definition token_byte :: "u32 \<times> nat \<times> string \<Rightarrow> u8 \<Rightarrow> u32 \<times> nat \<times> string" where
  "token_byte s b = (case s of (bits, available, out) \<Rightarrow>
     let bits = push_bit 8 bits OR ucast b;
         (available, out) = emit_letters bits (available + 8) out
     in (bits, available, out))"

definition token_input :: "detection \<Rightarrow> u8 list" where
  "token_input d = (let input = d_address d @ [radio_byte (d_radio d), d_address_type d]
     in if samsung_identity d then samsung_input d 1 else input)"

definition private_token :: "keyed_digest \<Rightarrow> u8 list \<Rightarrow> detection \<Rightarrow> bool \<times> string" where
  "private_token hmac key d =
     (case hmac key (token_input d) of
        None \<Rightarrow> (False, [])
      | Some digest \<Rightarrow>
          let (bits, available, out) = foldl token_byte (0, 0, []) (take 12 digest)
          in (True, if available \<noteq> 0
               then out @ [base32 ! unat (push_bit (5 - available) bits AND 31)] else out))"

definition address_hash :: "keyed_digest \<Rightarrow> u8 list \<Rightarrow> detection \<Rightarrow> u64" where
  "address_hash hmac key d = digest_hash hmac key
     (d_address d @ [radio_byte (d_radio d), d_address_type d,
        word_of_nat (category_index (d_category d))])"

definition meal_hash :: "keyed_digest \<Rightarrow> u8 list \<Rightarrow> detection \<Rightarrow> u64" where
  "meal_hash hmac key d = (if samsung_identity d then digest_hash hmac key (samsung_input d 2)
     else address_hash hmac key d)"

section \<open>The token as a number in base 32\<close>

definition bytes_number :: "u8 list \<Rightarrow> nat" where
  "bytes_number = foldl (\<lambda>n b. n * 256 + unat b) 0"

definition letters_of :: "nat \<Rightarrow> nat \<Rightarrow> string" where
  "letters_of n value = map (\<lambda>k. base32 ! (value div 32 ^ (n - Suc k) mod 32)) [0..<n]"

lemma letters_of_Suc: "letters_of (Suc n) value = letters_of n (value div 32) @ [base32 ! (value mod 32)]"
proof -
  have "value div 32 ^ (Suc n - Suc k) = value div 32 div 32 ^ (n - Suc k)" if "k < n" for k
  proof -
    have "Suc n - Suc k = Suc (n - Suc k)" using that by simp
    then show ?thesis by (simp add: div_mult2_eq)
  qed
  then show ?thesis by (simp add: letters_of_def)
qed

lemma length_letters [simp]: "length (letters_of n v) = n"
  by (simp add: letters_of_def)

lemma unat_shift_byte:
  "unat (push_bit 8 (w :: u32) OR ucast (b :: u8)) = (unat w * 256 + unat b) mod 2 ^ 32"
proof -
  have "push_bit 8 w AND (ucast b :: u32) = 0"
    by (rule bit_word_eqI)
      (auto simp: bit_and_iff bit_push_bit_iff bit_ucast_iff dest: bit_imp_le_length)
  then have "push_bit 8 w OR ucast b = push_bit 8 w + (ucast b :: u32)"
    by (simp add: disjunctive_add_eq_or)
  also have "\<dots> = of_nat (unat w * 256 + unat b)"
    by (simp add: push_bit_eq_mult)
  finally show ?thesis by (simp only: unat_of_nat) simp
qed

lemma unat_letter:
  assumes "unat (w :: u32) = n mod 2 ^ 32" and "a \<le> 27"
  shows "unat (drop_bit a w AND 31) = n div 2 ^ a mod 32"
proof -
  have "unat (drop_bit a w AND 31) = unat (drop_bit a w) mod 32"
  proof -
    have "drop_bit a w AND 31 = take_bit 5 (drop_bit a w)"
      by (simp add: take_bit_eq_mask mask_eq_exp_minus_1)
    then show ?thesis by (simp only: unsigned_take_bit_eq) (simp add: take_bit_eq_mod)
  qed
  also have "\<dots> = (n mod 2 ^ 32) div 2 ^ a mod 32"
    by (simp only: unat_drop_bit_eq assms(1)) (simp add: drop_bit_eq_div)
  also have "\<dots> = take_bit 5 (drop_bit a (take_bit 32 n))"
    by (simp add: take_bit_eq_mod drop_bit_eq_div)
  also have "\<dots> = take_bit 5 (drop_bit a n)"
    using assms(2) by (auto simp: bit_eq_iff bit_simps)
  also have "\<dots> = n div 2 ^ a mod 32"
    by (simp add: take_bit_eq_mod drop_bit_eq_div)
  finally show ?thesis .
qed

text \<open>
  Reading bytes \<open>bs\<close> leaves the low 32 bits of their number, the letters of its leading
  groups of five bits, and fewer than five bits pending.
\<close>

definition token_state :: "u8 list \<Rightarrow> u32 \<times> nat \<times> string \<Rightarrow> bool" where
  "token_state bs s \<longleftrightarrow> (case s of (bits, available, out) \<Rightarrow>
     unat bits = bytes_number bs mod 2 ^ 32 \<and> available = 8 * length bs mod 5 \<and>
     out = letters_of (8 * length bs div 5) (bytes_number bs div 2 ^ available))"

lemma emit_letters_spec:
  assumes "unat bits = n mod 2 ^ 32" and "available \<le> 27"
  shows "emit_letters bits available (letters_of k (n div 2 ^ available)) =
    (available mod 5, letters_of (k + available div 5) (n div 2 ^ (available mod 5)))"
  using assms(2)
proof (induction available arbitrary: k rule: less_induct)
  case (less a)
  show ?case
  proof (cases "5 \<le> a")
    case True
    have "n div 2 ^ a = n div 2 ^ (a - 5) div 32"
    proof -
      have "(2 :: nat) ^ a = 2 ^ (a - 5) * 32"
        using True power_add [of "2 :: nat" "a - 5" 5] by (simp only: le_add_diff_inverse2) simp
      then show ?thesis by (simp add: div_mult2_eq)
    qed
    then have "letters_of k (n div 2 ^ a) @ [base32_letter bits (a - 5)] =
        letters_of (Suc k) (n div 2 ^ (a - 5))"
      using less.prems unat_letter [OF assms(1), of "a - 5"]
      by (simp add: letters_of_Suc base32_letter_def)
    moreover have "(a - 5) mod 5 = a mod 5" and "a div 5 = Suc ((a - 5) div 5)"
      using True by (simp_all add: le_mod_geq le_div_geq)
    ultimately show ?thesis
      using less.IH [of "a - 5" "Suc k"] less.prems True
      by (subst emit_letters.simps) simp
  next
    case False
    then show ?thesis by (subst emit_letters.simps) simp
  qed
qed

lemma bytes_number_snoc: "bytes_number (bs @ [b]) = bytes_number bs * 256 + unat b"
  by (simp add: bytes_number_def)

lemma five_steps:
  fixes m :: nat
  shows "(m mod 5 + 8) mod 5 = (m + 8) mod 5" and "m div 5 + (m mod 5 + 8) div 5 = (m + 8) div 5"
  by presburger+

lemma token_byte_state:
  assumes "token_state bs s"
  shows "token_state (bs @ [b]) (token_byte s b)"
proof -
  obtain bits a out where s: "s = (bits, a, out)" by (cases s)
  let ?n = "bytes_number bs"
  have bits: "unat bits = ?n mod 2 ^ 32" and a: "a = 8 * length bs mod 5"
    and out: "out = letters_of (8 * length bs div 5) (?n div 2 ^ a)"
    using assms by (auto simp: token_state_def s)
  have lt: "unat b < 256" using unsigned_less [of b, where 'a = nat] by simp
  let ?bits = "push_bit 8 bits OR ucast b"
  have bits': "unat ?bits = bytes_number (bs @ [b]) mod 2 ^ 32"
    unfolding unat_shift_byte bytes_number_snoc bits by (metis mod_add_left_eq mod_mult_left_eq)
  have "bytes_number (bs @ [b]) div 2 ^ (a + 8) = ?n div 2 ^ a"
  proof -
    have "bytes_number (bs @ [b]) div 2 ^ (a + 8) = bytes_number (bs @ [b]) div 256 div 2 ^ a"
      by (simp add: power_add mult.commute [of _ 256] div_mult2_eq)
    also have "bytes_number (bs @ [b]) div 256 = ?n" using lt by (simp add: bytes_number_snoc)
    finally show ?thesis .
  qed
  then have "emit_letters ?bits (a + 8) out = ((a + 8) mod 5,
      letters_of (8 * length bs div 5 + (a + 8) div 5) (bytes_number (bs @ [b]) div 2 ^ ((a + 8) mod 5)))"
    using emit_letters_spec [OF bits', of "a + 8" "8 * length bs div 5"] a by (simp add: out)
  moreover have "(a + 8) mod 5 = 8 * length (bs @ [b]) mod 5"
    and "8 * length bs div 5 + (a + 8) div 5 = 8 * length (bs @ [b]) div 5"
    unfolding a using five_steps [of "8 * length bs"] by (simp_all add: add.commute)
  ultimately show ?thesis
    using bits' by (simp add: token_byte_def token_state_def s Let_def del: unsigned_or_eq)
qed

lemma token_bytes_state: "token_state bs (foldl token_byte (0, 0, []) bs)"
proof (induction bs rule: rev_induct)
  case Nil
  show ?case by (simp add: token_state_def bytes_number_def letters_of_def)
next
  case (snoc b bs)
  then show ?case by (simp add: token_byte_state)
qed

lemma bytes_number_less: "bytes_number bs < 256 ^ length bs"
proof (induction bs rule: rev_induct)
  case (snoc b bs)
  have "unat b < 256" using unsigned_less [of b, where 'a = nat] by simp
  with snoc show ?case by (simp add: bytes_number_snoc)
qed (simp add: bytes_number_def)

lemma digits_equal:
  fixes x y :: nat
  assumes "x < 256" and "y < 256"
  shows "m * 256 + x = n * 256 + y \<longleftrightarrow> m = n \<and> x = y"
proof
  assume eq: "m * 256 + x = n * 256 + y"
  have "(m * 256 + x) div 256 = m" and "(n * 256 + y) div 256 = n" using assms by simp_all
  with eq show "m = n \<and> x = y" by simp
qed simp

lemma bytes_number_inject:
  "length as = length bs \<Longrightarrow> bytes_number as = bytes_number bs \<longleftrightarrow> as = bs"
proof (induction as arbitrary: bs rule: rev_induct)
  case (snoc a as)
  then obtain bs' b where bs: "bs = bs' @ [b]" and len: "length as = length bs'"
    by (cases bs rule: rev_cases) auto
  have byte: "unat a < 256" "unat b < 256"
    using unsigned_less [of a, where 'a = nat] unsigned_less [of b, where 'a = nat] by simp_all
  have "bytes_number as * 256 + unat a = bytes_number bs' * 256 + unat b \<longleftrightarrow>
      bytes_number as = bytes_number bs' \<and> unat a = unat b"
    using byte by (rule digits_equal)
  then show ?case using snoc.IH [OF len] by (simp add: bs bytes_number_snoc word_unat_eq_iff)
qed simp

lemma letters_inject:
  "x < 32 ^ n \<Longrightarrow> y < 32 ^ n \<Longrightarrow> letters_of n x = letters_of n y \<longleftrightarrow> x = y"
proof (induction n arbitrary: x y)
  case (Suc n)
  have d: "distinct base32" and l: "length base32 = 32" by (simp_all add: base32_def)
  have "letters_of (Suc n) x = letters_of (Suc n) y \<longleftrightarrow>
      letters_of n (x div 32) = letters_of n (y div 32) \<and> base32 ! (x mod 32) = base32 ! (y mod 32)"
    by (simp add: letters_of_Suc)
  also have "\<dots> \<longleftrightarrow> x div 32 = y div 32 \<and> x mod 32 = y mod 32"
  proof -
    have "x div 32 < 32 ^ n" and "y div 32 < 32 ^ n" using Suc.prems by (simp_all add: less_mult_imp_div_less)
    then show ?thesis using Suc.IH nth_eq_iff_index_eq [OF d] l by simp
  qed
  also have "\<dots> \<longleftrightarrow> x = y" by (metis div_mult_mod_eq)
  finally show ?case .
qed simp

lemma low_letter: "(n mod 2 ^ 32 * 16) mod 2 ^ 32 mod 32 = 16 * n mod (32 :: nat)"
proof -
  have "(n mod 2 ^ 32 * 16) mod 2 ^ 32 mod 32 = (n mod 2 ^ 32 * 16) mod 32"
    by (rule mod_mod_cancel) simp
  also have "\<dots> = (n mod 2 ^ 32) mod 32 * 16 mod 32" by (simp only: mod_mult_left_eq)
  also have "(n mod 2 ^ 32) mod 32 = n mod 32" by (rule mod_mod_cancel) simp
  also have "n mod 32 * 16 mod 32 = 16 * n mod 32"
    by (simp only: mod_mult_left_eq mult.commute [of n])
  finally show ?thesis .
qed

lemma top_letters: "16 * n div 32 = n div (2 :: nat)"
  by simp

lemma token_letters:
  assumes "hmac key (token_input d) = Some digest" and "12 \<le> length digest"
  shows "private_token hmac key d = (True, letters_of 20 (16 * bytes_number (take 12 digest)))"
proof -
  let ?bs = "take 12 digest"
  obtain bits a out where f: "foldl token_byte (0, 0, []) ?bs = (bits, a, out)"
    by (cases "foldl token_byte (0, 0, []) ?bs")
  have "length ?bs = 12" using assms(2) by simp
  then have a: "a = 1" and out: "out = letters_of 19 (bytes_number ?bs div 2)"
    and bits: "unat bits = bytes_number ?bs mod 2 ^ 32"
    using token_bytes_state [of ?bs] by (auto simp: f token_state_def)
  have "unat (push_bit 4 bits AND 31) = 16 * bytes_number ?bs mod 32"
  proof -
    have "push_bit 4 bits AND 31 = take_bit 5 (push_bit 4 bits)"
      by (simp add: take_bit_eq_mask mask_eq_exp_minus_1)
    then have "unat (push_bit 4 bits AND 31) = unat (push_bit 4 bits) mod 32"
      by (simp only: unsigned_take_bit_eq) (simp add: take_bit_eq_mod)
    also have "unat (push_bit 4 bits) = (unat bits * 16) mod 2 ^ 32"
      by (simp add: push_bit_eq_mult unat_word_ariths)
    also have "(unat bits * 16) mod 2 ^ 32 mod 32 = 16 * bytes_number ?bs mod 32"
      unfolding bits by (rule low_letter)
    finally show ?thesis .
  qed
  then have "out @ [base32 ! unat (push_bit 4 bits AND 31)] = letters_of (Suc 19) (16 * bytes_number ?bs)"
    unfolding out letters_of_Suc top_letters by simp
  then show ?thesis
    using assms(1) by (simp add: private_token_def f a)
qed

section \<open>What the inputs tell apart\<close>

definition meal_input :: "detection \<Rightarrow> u8 list" where
  "meal_input d = (if samsung_identity d then samsung_input d 2
     else d_address d @ [radio_byte (d_radio d), d_address_type d,
       word_of_nat (category_index (d_category d))])"

definition identified :: "detection \<Rightarrow> bool" where
  "identified d \<longleftrightarrow> length (d_address d) = 6 \<and> length (st_id (d_samsung d)) = 8 \<and>
     category_index (d_category d) < category_count"

definition same_source :: "detection \<Rightarrow> detection \<Rightarrow> bool" where
  "same_source d d' \<longleftrightarrow>
     (if samsung_identity d \<or> samsung_identity d'
      then samsung_identity d \<and> samsung_identity d' \<and> st_id (d_samsung d) = st_id (d_samsung d')
      else d_address d = d_address d' \<and> d_radio d = d_radio d' \<and> d_address_type d = d_address_type d')"

lemma radio_byte_inject [simp]: "radio_byte r = radio_byte r' \<longleftrightarrow> r = r'"
  by (cases r; cases r') (simp_all add: radio_byte_def)

lemma category_byte_inject:
  "category_index c < category_count \<Longrightarrow> category_index c' < category_count \<Longrightarrow>
     (word_of_nat (category_index c) :: u8) = word_of_nat (category_index c') \<longleftrightarrow> c = c'"
  by (simp add: word_of_nat_eq_iff take_bit_nat_eq_self category_count_def)

lemma digest_hash_zero: "digest_hash hmac key input = 0 \<longleftrightarrow> hmac key input = None"
  by (auto simp: digest_hash_def Let_def split: option.splits)

lemma meal_hash_input: "meal_hash hmac key d = digest_hash hmac key (meal_input d)"
  by (simp add: meal_hash_def address_hash_def meal_input_def)

lemma input_lengths:
  "identified d \<Longrightarrow> length (meal_input d) = (if samsung_identity d then 13 else 9)"
  "identified d \<Longrightarrow> length (token_input d) = (if samsung_identity d then 13 else 8)"
  by (simp_all add: meal_input_def token_input_def samsung_input_def identified_def Let_def)

lemma input_equal:
  assumes "identified d" and "identified d'"
  shows "token_input d = token_input d' \<longleftrightarrow> same_source d d'"
    and "meal_input d = meal_input d' \<longleftrightarrow> same_source d d' \<and>
      (samsung_identity d \<or> d_category d = d_category d')"
    and "meal_input d \<noteq> token_input d'"
proof -
  note len = input_lengths [OF assms(1)] input_lengths [OF assms(2)]
  note cat = category_byte_inject [of "d_category d" "d_category d'"]
  have six: "length (d_address d) = length (d_address d')"
    using assms by (simp add: identified_def)
  show "token_input d = token_input d' \<longleftrightarrow> same_source d d'"
  proof (cases "samsung_identity d = samsung_identity d'")
    case True
    then show ?thesis using six
      by (auto simp: token_input_def samsung_input_def same_source_def Let_def)
  next
    case False
    then have "length (token_input d) \<noteq> length (token_input d')" using len by auto
    then have "token_input d \<noteq> token_input d'" by metis
    with False show ?thesis by (auto simp: same_source_def)
  qed
  show "meal_input d = meal_input d' \<longleftrightarrow> same_source d d' \<and>
      (samsung_identity d \<or> d_category d = d_category d')"
  proof (cases "samsung_identity d = samsung_identity d'")
    case True
    then show ?thesis using six cat assms
      by (auto simp: meal_input_def samsung_input_def same_source_def identified_def)
  next
    case False
    then have "length (meal_input d) \<noteq> length (meal_input d')" using len by auto
    then have "meal_input d \<noteq> meal_input d'" by metis
    with False show ?thesis by (auto simp: same_source_def)
  qed
  show "meal_input d \<noteq> token_input d'"
  proof (cases "samsung_identity d \<and> samsung_identity d'")
    case True
    then show ?thesis by (simp add: meal_input_def token_input_def samsung_input_def)
  next
    case False
    then have "length (meal_input d) \<noteq> length (token_input d')" using len by auto
    then show ?thesis by metis
  qed
qed

section \<open>Properties\<close>

text \<open>
  Property C19.  The shift-register loop of \<open>private_token\<close> computes the base-32 numeral of the
  first twelve digest bytes (96 bits, padded with four zero bits) in exactly twenty letters, although
  its register keeps only 32 bits; hence two detections carry the same token exactly when those
  twelve digest bytes agree.
\<close>

theorem token_is_base32:
  assumes "hmac key (token_input d) = Some digest" and "length digest = 32"
    and "hmac key (token_input d') = Some digest'" and "length digest' = 32"
  shows "private_token hmac key d = (True, letters_of 20 (16 * bytes_number (take 12 digest))) \<and>
    (private_token hmac key d = private_token hmac key d' \<longleftrightarrow> take 12 digest = take 12 digest')"
proof -
  have t: "private_token hmac key d = (True, letters_of 20 (16 * bytes_number (take 12 digest)))"
    and t': "private_token hmac key d' = (True, letters_of 20 (16 * bytes_number (take 12 digest')))"
    using assms by (auto intro!: token_letters)
  have "16 * bytes_number (take 12 digest) < 32 ^ 20" and "16 * bytes_number (take 12 digest') < 32 ^ 20"
    using bytes_number_less [of "take 12 digest"] bytes_number_less [of "take 12 digest'"] assms by simp_all
  then show ?thesis
    using bytes_number_inject [of "take 12 digest" "take 12 digest'"] assms
    by (simp add: t t' letters_inject)
qed

definition example_hmac :: keyed_digest where
  "example_hmac key input = Some (take 32 (input @ key @ replicate 32 7))"

theorem token_is_base32_witness:
  "private_token example_hmac [1] detection0 = (True, letters_of 20 (16 * bytes_number
     (take 12 (take 32 (token_input detection0 @ [1] @ replicate 32 7)))))"
  using token_is_base32 [of example_hmac "[1]" detection0 _ detection0]
  by (simp add: example_hmac_def)

text \<open>
  Property C20.  Identities are kept apart by the HMAC inputs themselves.  Two detections are hashed
  from the same meal input exactly when they are the same Samsung broadcast, or else the same address,
  radio, address type and category; tokens ignore the category; a meal input never equals a
  token input, so the stored hash and the logged token are digests of different messages; and the
  hash is the digest of that input, zero exactly when the HMAC failed.
\<close>

theorem identities_separate:
  assumes "identified d" and "identified d'"
  shows "(meal_input d = meal_input d' \<longleftrightarrow> same_source d d' \<and>
      (samsung_identity d \<or> d_category d = d_category d')) \<and>
    (token_input d = token_input d' \<longleftrightarrow> same_source d d') \<and>
    meal_input d \<noteq> token_input d' \<and>
    meal_hash hmac key d = digest_hash hmac key (meal_input d) \<and>
    (meal_hash hmac key d = 0 \<longleftrightarrow> hmac key (meal_input d) = None)"
  using input_equal [OF assms] by (simp add: meal_hash_input digest_hash_zero)

theorem identities_separate_witness:
  "meal_input detection0 \<noteq> token_input (detection0\<lparr>d_channel := 3\<rparr>)"
  using identities_separate [of detection0 "detection0\<lparr>d_channel := 3\<rparr>"]
  by (simp add: identified_def detection0_def no_samsung_def category_count_def)

end
