(* ===== verification/Records.thy ===== *)
theory Records
  imports Matching Utilities Privacy
begin

text \<open>
  Log records (\<open>records.cpp\<close>): the bounded writer, JSON escaping, the two record writers, the
  validator of stored lines and the sanitised export of a line.  The identity key and the HMAC are
  parameters, as in \<open>Privacy\<close>.  A writer holds the text written so far; its size is that of the
  text, or 0 once something did not fit.
\<close>

section \<open>Writer\<close>

record writer =
  w_cap :: nat
  w_used :: string
  w_ok :: bool

definition writer0 :: "nat \<Rightarrow> writer" where
  "writer0 capacity = \<lparr>w_cap = capacity, w_used = [], w_ok = True\<rparr>"

definition w_text :: "string \<Rightarrow> writer \<Rightarrow> writer" where
  "w_text s w = (if \<not> w_ok w \<or> w_cap w - length (w_used w) \<le> length s then w\<lparr>w_ok := False\<rparr>
     else w\<lparr>w_used := w_used w @ s\<rparr>)"

definition number_text :: "int \<Rightarrow> string" where
  "number_text n = (if n < 0 then CHR ''-'' # decimal (nat (- n)) else decimal (nat n))"

definition w_number :: "int \<Rightarrow> writer \<Rightarrow> writer" where
  "w_number n w = w_text (number_text n) w"

definition lower_hex :: "nat \<Rightarrow> char" where
  "lower_hex n = char_of (if n < 10 then 48 + n else 87 + n)"

definition escaped :: "char \<Rightarrow> string" where
  "escaped c = (if c = quote then [backslash, quote] else if c = backslash then [backslash, backslash]
     else if (of_char c :: nat) < 32 \<or> 126 < (of_char c :: nat)
       then backslash # ''u00'' @ [lower_hex (of_char c div 16), lower_hex (of_char c mod 16)]
     else [c])"

definition w_string :: "string \<Rightarrow> writer \<Rightarrow> writer" where
  "w_string s w = w_text [quote] (fold (\<lambda>c. w_text (escaped c)) s (w_text [quote] w))"

definition w_size :: "writer \<Rightarrow> nat" where
  "w_size w = (if w_ok w then length (w_used w) else 0)"

definition w_result :: "writer \<Rightarrow> nat \<times> string" where
  "w_result w = (w_size w, w_used w)"

text \<open>\<open>json_escape\<close> and the record writers return the size with the text left in the output.\<close>

definition json_escape :: "string \<Rightarrow> nat \<Rightarrow> nat \<times> string" where
  "json_escape s capacity = (if capacity = 0 then (0, []) else w_result (w_string s (writer0 capacity)))"

definition write_all :: "(writer \<Rightarrow> writer) list \<Rightarrow> writer \<Rightarrow> writer" where
  "write_all ops w = foldl (\<lambda>w f. f w) w ops"

section \<open>Records\<close>

definition firmware_version :: string where
  "firmware_version = ''0.1.0-dev''"

definition signature_pack_version :: string where
  "signature_pack_version = ''v1-303a0ad30896''"

definition head_rule :: "detection \<Rightarrow> rule" where
  "head_rule d = the (d_rules d ! 0)"

definition w_rules :: "detection \<Rightarrow> writer \<Rightarrow> writer" where
  "w_rules d = fold (\<lambda>i w. w_string (r_id (the (d_rules d ! i))) (if i \<noteq> 0 then w_text '','' w else w))
     [0..<d_rule_count d]"

definition unwritable :: "detection \<Rightarrow> nat \<Rightarrow> bool" where
  "unwritable d capacity \<longleftrightarrow> capacity = 0 \<or> d_demo d \<or> d_rule_count d = 0 \<or>
     length (d_rules d) < d_rule_count d \<or> category_count \<le> category_index (d_category d) \<or>
     d_seen_count d = 0"

definition event_id :: "detection \<Rightarrow> string \<Rightarrow> string" where
  "event_id d session = take 95 (c_str session @ ''-'' @ decimal (unat (d_last_ms d)) @ ''-'' @
     decimal (category_index (d_category d)) @ ''-'' @ decimal (unat (d_seen_count d)))"

definition utc_field :: "detection \<Rightarrow> string" where
  "utc_field d = the (format_utc (unat (d_unix_seconds d)) 24)"

definition w_utc :: "detection \<Rightarrow> writer \<Rightarrow> writer" where
  "w_utc d w = (let utc = utc_field d in if utc \<noteq> [] then w_string utc w else w_text ''null'' w)"

definition mac_text :: "address \<Rightarrow> string" where
  "mac_text a = hex_byte (a ! 0) @ '':'' @ hex_byte (a ! 1) @ '':'' @ hex_byte (a ! 2) @ '':'' @
     hex_byte (a ! 3) @ '':'' @ hex_byte (a ! 4) @ '':'' @ hex_byte (a ! 5)"

definition write_record ::
  "detection \<Rightarrow> string \<Rightarrow> string \<Rightarrow> bool \<Rightarrow> nat \<Rightarrow> u8 \<Rightarrow> nat \<times> string" where
  "write_record d session token research capacity region =
     (if unwritable d capacity then (0, [])
      else w_result (write_all ([
        w_text ''{\"schema_version\":1,\"firmware_version\":'', w_string firmware_version,
        w_text '',\"hardware\":\"E32R40T\",\"signature_pack\":'', w_string signature_pack_version,
        w_text '',\"region\":'', w_string (if region = 0 then ''US'' else ''EU''),
        w_text '',\"event_id\":'', w_string (event_id d session),
        w_text '',\"session_id\":'', w_string session,
        w_text '',\"observed_at\":'', w_utc d,
        w_text '',\"time_quality\":'',
        w_string (if utc_field d \<noteq> [] then ''manual'' else ''uptime_only''),
        w_text '',\"uptime_ms\":'', w_number (sint (d_last_ms d)),
        w_text '',\"first_seen_ms\":'', w_number (sint (d_first_ms d)),
        w_text '',\"category\":'', w_string (categories ! category_index (d_category d)),
        w_text '',\"label\":'', w_string (r_label (head_rule d)),
        w_text '',\"confidence\":'', w_string (grade (d_score d)),
        w_text '',\"score\":'', w_number (uint (d_score d)),
        w_text '',\"rule_ids\":['', w_rules d,
        w_text ''],\"reason\":'', w_string (r_reason (head_rule d)),
        w_text '',\"radio\":'', w_string (if d_radio d = Wifi then ''wifi'' else ''ble''),
        w_text '',\"channel\":'', w_number (uint (d_channel d)),
        w_text '',\"rssi_min\":'', w_number (d_rssi_min d),
        w_text '',\"rssi_max\":'', w_number (d_rssi_max d),
        w_text '',\"rssi_avg\":'', w_number (c_div (d_rssi_sum d) (uint (d_seen_count d))),
        w_text '',\"seen_count\":'', w_number (uint (d_seen_count d)),
        w_text '',\"identifier\":'', w_string token,
        w_text '',\"address_type\":'', w_string (if d_address_type d \<noteq> 0 then ''random'' else ''public''),
        w_text '',\"meal_awarded\":'', w_text (if d_meal d then ''true'' else ''false''),
        w_text '',\"privacy_mode\":'', w_string (if research then ''research'' else ''private'')] @
        (if research then [w_text '',\"raw_mac\":'', w_string (mac_text (d_address d))] else []) @
        [w_text (''}'' @ [CHR 0x0A])]) (writer0 capacity)))"

definition write_export_record ::
  "detection \<Rightarrow> string \<Rightarrow> string \<Rightarrow> bool \<Rightarrow> nat \<Rightarrow> u8 \<Rightarrow> nat \<times> string" where
  "write_export_record d session token research capacity region =
     (if unwritable d capacity then (0, [])
      else w_result (write_all [
        w_text ''{\"schema_version\":1,\"firmware_version\":'', w_string firmware_version,
        w_text '',\"hardware\":\"E32R40T\",\"signature_pack\":'', w_string signature_pack_version,
        w_text '',\"session_id\":'', w_string session,
        w_text '',\"identifier\":'', w_string token,
        w_text '',\"category\":'', w_string (categories ! category_index (d_category d)),
        w_text '',\"rule_ids\":['', w_rules d, w_text '']'',
        w_text '',\"first_seen_ms\":'', w_number (sint (d_first_ms d)),
        w_text '',\"last_seen_ms\":'', w_number (sint (d_last_ms d)),
        w_text '',\"seen_count\":'', w_number (uint (d_seen_count d)),
        w_text '',\"score\":'', w_number (uint (d_score d)),
        w_text '',\"confidence\":'', w_string (grade (d_score d)),
        w_text '',\"rssi_min\":'', w_number (d_rssi_min d),
        w_text '',\"rssi_max\":'', w_number (d_rssi_max d),
        w_text '',\"channel\":'', w_number (uint (d_channel d)),
        w_text '',\"radio\":'', w_string (if d_radio d = Wifi then ''wifi'' else ''ble''),
        w_text '',\"region\":'', w_string (if region = 0 then ''US'' else ''EU''),
        w_text '',\"source_privacy_mode\":'', w_string (if research then ''research'' else ''private''),
        w_text '',\"privacy_mode\":\"sanitized\",\"time_quality\":'',
        w_string (if utc_field d \<noteq> [] then ''manual'' else ''uptime_only''),
        w_text '',\"observed_at\":'', w_utc d,
        w_text '','',
        w_text (''\"latitude\":null,\"longitude\":null,\"location_source\":\"none\"}'' @ [CHR 0x0A])]
        (writer0 capacity)))"

section \<open>Validation of stored lines\<close>

text \<open>\<open>str(key, b)\<close> into the 160-character buffer, and \<open>number(key, lo, hi)\<close>.\<close>

definition log_str :: "string \<Rightarrow> token list \<Rightarrow> string \<Rightarrow> string option" where
  "log_str line toks key = read_string 160 line toks (json_member line toks (Some 0) key)"

definition log_int :: "string \<Rightarrow> token list \<Rightarrow> string \<Rightarrow> int option" where
  "log_int line toks key = json_integer line toks (json_member line toks (Some 0) key)"

definition log_number :: "string \<Rightarrow> token list \<Rightarrow> string \<Rightarrow> int \<Rightarrow> int \<Rightarrow> bool" where
  "log_number line toks key lo hi \<longleftrightarrow>
     (case log_int line toks key of Some n \<Rightarrow> lo \<le> n \<and> n \<le> hi | None \<Rightarrow> False)"

definition required_text :: "string list" where
  "required_text = [''event_id'', ''firmware_version'', ''hardware'', ''identifier'', ''label'', ''reason'',
     ''session_id'', ''signature_pack'']"

definition session_ok :: "string \<Rightarrow> bool" where
  "session_ok b \<longleftrightarrow> length b = 32 \<and> list_all (\<lambda>c. c \<in> set ''0123456789abcdef'') b"

definition identifier_ok :: "string \<Rightarrow> bool" where
  "identifier_ok b \<longleftrightarrow> length b = 20 \<and> list_all (\<lambda>c. c \<in> set ''ABCDEFGHIJKLMNOPQRSTUVWXYZ234567'') b"

definition log_choices :: "(string \<times> string list) list" where
  "log_choices = [(''radio'', [''wifi'', ''ble'']), (''region'', [''US'', ''EU'']),
     (''privacy_mode'', [''private'', ''research'']), (''address_type'', [''public'', ''random'']),
     (''time_quality'', [''uptime_only'', ''manual''])]"

definition log_time_ok :: "string \<Rightarrow> token list \<Rightarrow> bool" where
  "log_time_ok line toks =
     (let time = json_member line toks (Some 0) ''observed_at''
      in if log_str line toks ''time_quality'' = Some ''uptime_only''
         then json_raw line toks time = ''null''
         else case read_string 24 line toks time of
                None \<Rightarrow> False
              | Some utc \<Rightarrow>
                  if length utc \<noteq> 20 \<or> utc ! 4 \<noteq> CHR ''-'' \<or> utc ! 7 \<noteq> CHR ''-'' \<or> utc ! 10 \<noteq> CHR ''T'' \<or>
                     utc ! 13 \<noteq> CHR '':'' \<or> utc ! 16 \<noteq> CHR '':'' \<or> utc ! 19 \<noteq> CHR ''Z'' then False
                  else let digits = take 4 utc @ take 2 (drop 5 utc) @ take 2 (drop 8 utc) @
                             take 2 (drop 11 utc) @ take 2 (drop 14 utc)
                       in parse_utc digits \<noteq> None \<and>
                          \<not> (utc ! 17 < CHR ''0'' \<or> CHR ''5'' < utc ! 17 \<or> utc ! 18 < CHR ''0'' \<or>
                             CHR ''9'' < utc ! 18))"

definition rule_id_ok :: "string \<Rightarrow> bool" where
  "rule_id_ok name \<longleftrightarrow> name \<noteq> [] \<and> list_all (\<lambda>c. (CHR ''a'' \<le> c \<and> c \<le> CHR ''z'') \<or>
     (CHR ''0'' \<le> c \<and> c \<le> CHR ''9'') \<or> c = CHR ''_'' \<or> c = CHR ''.'') name"

definition log_rules_ok :: "string \<Rightarrow> token list \<Rightarrow> bool" where
  "log_rules_ok line toks =
     (case json_member line toks (Some 0) ''rule_ids'' of
        None \<Rightarrow> False
      | Some r \<Rightarrow>
          \<not> (t_type (toks ! r) \<noteq> JArray \<or> t_after (toks ! r) - r < 2 \<or> 5 < t_after (toks ! r) - r) \<and>
          list_all (\<lambda>i. case read_string 65 line toks (Some i) of
              Some name \<Rightarrow> rule_id_ok name | None \<Rightarrow> False) [Suc r..<t_after (toks ! r)])"

definition validate_log :: "string \<Rightarrow> token list \<Rightarrow> bool" where
  "validate_log line toks =
     (let str = log_str line toks; number = log_number line toks; int_of = (\<lambda>k. the (log_int line toks k))
      in t_type (toks ! 0) = JObject \<and>
         list_all (\<lambda>key. case str key of Some b \<Rightarrow> b \<noteq> [] | None \<Rightarrow> False) required_text \<and>
         str ''hardware'' = Some ''E32R40T'' \<and>
         session_ok (the (str ''session_id'')) \<and> identifier_ok (the (str ''identifier'')) \<and>
         (case str ''category'' of Some b \<Rightarrow> b \<in> set categories | None \<Rightarrow> False) \<and>
         number ''schema_version'' 1 1 \<and> number ''score'' 1 100 \<and>
         number ''seen_count'' 1 4294967295 \<and> number ''channel'' 0 14 \<and>
         list_all (\<lambda>key. number key 0 9007199254740991) [''first_seen_ms'', ''uptime_ms''] \<and>
         int_of ''first_seen_ms'' \<le> int_of ''uptime_ms'' \<and>
         str ''confidence'' = Some (grade (word_of_int (int_of ''score''))) \<and>
         list_all (\<lambda>key. number key (- 127) 20) [''rssi_min'', ''rssi_max'', ''rssi_avg''] \<and>
         int_of ''rssi_min'' \<le> int_of ''rssi_avg'' \<and> int_of ''rssi_avg'' \<le> int_of ''rssi_max'' \<and>
         list_all (\<lambda>(key, vs). case str key of Some v \<Rightarrow> v \<in> set vs | None \<Rightarrow> False) log_choices \<and>
         log_time_ok line toks \<and>
         (case json_member line toks (Some 0) ''meal_awarded'' of
            None \<Rightarrow> False | Some m \<Rightarrow> t_type (toks ! m) = JBoolean) \<and>
         log_rules_ok line toks)"

definition valid_log_record :: "string \<Rightarrow> bool" where
  "valid_log_record line = (case json_parse line of None \<Rightarrow> False | Some toks \<Rightarrow> validate_log line toks)"

section \<open>Sanitised export\<close>

fun emit_limited :: "u32 \<Rightarrow> nat \<Rightarrow> string \<Rightarrow> nat \<times> string" where
  "emit_limited bits available out =
     (if 5 \<le> available \<and> length out < 20
      then emit_limited bits (available - 5) (out @ [base32_letter bits (available - 5)])
      else (available, out))"

declare emit_limited.simps [simp del]

definition identity_byte :: "u32 \<times> nat \<times> string \<Rightarrow> u8 \<Rightarrow> u32 \<times> nat \<times> string" where
  "identity_byte s b = (case s of (value, bits, out) \<Rightarrow>
     if length out = 20 then s
     else let value = push_bit 8 value OR ucast b; (bits, out) = emit_limited value (bits + 8) out
          in (value, bits, out))"

definition digest_identity :: "u8 list \<Rightarrow> string" where
  "digest_identity digest = snd (snd (foldl identity_byte (0, 0, []) digest))"

definition digest_session :: "u8 list \<Rightarrow> string" where
  "digest_session digest =
     concat (map (\<lambda>b. [lower_hex (unat b div 16), lower_hex (unat b mod 16)]) (take 16 digest))"

definition export_fields :: "string list" where
  "export_fields = [''schema_version'', ''firmware_version'', ''hardware'', ''signature_pack'', ''session_id'',
     ''category'', ''rule_ids'', ''first_seen_ms'', ''seen_count'', ''score'', ''confidence'', ''rssi_min'',
     ''rssi_max'', ''channel'', ''radio'', ''region'', ''time_quality'', ''observed_at'']"

definition log_raw :: "string \<Rightarrow> token list \<Rightarrow> string \<Rightarrow> string" where
  "log_raw line toks key = json_raw line toks (json_member line toks (Some 0) key)"

definition w_field :: "string \<Rightarrow> token list \<Rightarrow> string \<Rightarrow> string \<times> bool \<Rightarrow> writer \<Rightarrow> writer" where
  "w_field line toks session f w = (case f of (field, comma) \<Rightarrow>
     let w = (if comma then w_text '','' w else w); w = w_text '':'' (w_string field w)
     in if field = ''session_id'' then w_string session w else w_text (log_raw line toks field) w)"

definition export_log_record ::
  "keyed_digest \<Rightarrow> string \<Rightarrow> u8 list \<Rightarrow> nat \<Rightarrow> nat \<times> string" where
  "export_log_record hmac line key capacity =
     (case json_parse line of
        None \<Rightarrow> (0, [])
      | Some toks \<Rightarrow>
          if \<not> validate_log line toks \<or> capacity = 0 \<or> length key \<noteq> 32 then (0, [])
          else let session = the (log_str line toks ''session_id'');
                   identity = session @ '':'' @ the (log_str line toks ''identifier'')
               in case hmac key (map byte_of_char identity) of
                    None \<Rightarrow> (0, [])
                  | Some digest \<Rightarrow>
                      case hmac key (map byte_of_char session) of
                        None \<Rightarrow> (0, [])
                      | Some digest' \<Rightarrow>
                          w_result (write_all ([w_text ''{''] @
                            map (w_field line toks (digest_session digest'))
                              (zip export_fields (False # replicate 17 True)) @
                            [w_text '',\"identifier\":'', w_string (digest_identity digest),
                             w_text '',\"last_seen_ms\":'', w_text (log_raw line toks ''uptime_ms''),
                             w_text '',\"source_privacy_mode\":'', w_text (log_raw line toks ''privacy_mode''),
                             w_text ('',\"privacy_mode\":\"sanitized\",\"latitude\":null,\"longitude\":null,\"location_'' @
                               ''source\":\"none\"}'' @ [CHR 0x0A])]) (writer0 capacity)))"

section \<open>The writer appends or refuses\<close>

text \<open>
  \<open>appends f s\<close>: the operation \<open>f\<close> adds exactly \<open>s\<close> when it fits below the capacity, and else
  the writer is no longer good; a bad writer stays bad.
\<close>

definition appends :: "(writer \<Rightarrow> writer) \<Rightarrow> string \<Rightarrow> bool" where
  "appends f s \<longleftrightarrow> (\<forall>w. w_cap (f w) = w_cap w \<and> (\<not> w_ok w \<longrightarrow> \<not> w_ok (f w)) \<and>
     (w_ok w \<longrightarrow> length (w_used w) < w_cap w \<longrightarrow>
       (if length (w_used w @ s) < w_cap w then f w = w\<lparr>w_used := w_used w @ s\<rparr> else \<not> w_ok (f w))))"

lemma appendsI:
  assumes "\<And>w. w_cap (f w) = w_cap w" and "\<And>w. \<not> w_ok w \<Longrightarrow> \<not> w_ok (f w)"
    and "\<And>w. w_ok w \<Longrightarrow> length (w_used w @ s) < w_cap w \<Longrightarrow> f w = w\<lparr>w_used := w_used w @ s\<rparr>"
    and "\<And>w. w_ok w \<Longrightarrow> length (w_used w) < w_cap w \<Longrightarrow> w_cap w \<le> length (w_used w @ s) \<Longrightarrow> \<not> w_ok (f w)"
  shows "appends f s"
  unfolding appends_def using assms by (meson not_le)

lemma appends_cap: "appends f s \<Longrightarrow> w_cap (f w) = w_cap w"
  by (simp add: appends_def)

lemma appends_bad: "appends f s \<Longrightarrow> \<not> w_ok w \<Longrightarrow> \<not> w_ok (f w)"
  by (simp add: appends_def)

lemma appends_fits:
  "appends f s \<Longrightarrow> w_ok w \<Longrightarrow> length (w_used w @ s) < w_cap w \<Longrightarrow> f w = w\<lparr>w_used := w_used w @ s\<rparr>"
  unfolding appends_def by (metis add_lessD1 length_append)

lemma appends_full:
  "appends f s \<Longrightarrow> w_ok w \<Longrightarrow> length (w_used w) < w_cap w \<Longrightarrow> w_cap w \<le> length (w_used w @ s) \<Longrightarrow>
     \<not> w_ok (f w)"
  unfolding appends_def by (metis not_le)

lemma appends_id: "appends (\<lambda>w. w) []"
  by (rule appendsI) simp_all

lemma appends_comp:
  assumes f: "appends f s" and g: "appends g t"
  shows "appends (\<lambda>w. g (f w)) (s @ t)"
proof (rule appendsI)
  fix w
  show "w_cap (g (f w)) = w_cap w" by (simp add: appends_cap [OF f] appends_cap [OF g])
  show "\<not> w_ok w \<Longrightarrow> \<not> w_ok (g (f w))" by (intro appends_bad [OF g] appends_bad [OF f])
  show "g (f w) = w\<lparr>w_used := w_used w @ (s @ t)\<rparr>" if "w_ok w" "length (w_used w @ (s @ t)) < w_cap w"
    using appends_fits [OF f, of w] appends_fits [OF g, of "f w"] that by simp
  show "\<not> w_ok (g (f w))"
    if ok: "w_ok w" "length (w_used w) < w_cap w" "w_cap w \<le> length (w_used w @ (s @ t))"
  proof (cases "length (w_used w @ s) < w_cap w")
    case True
    then show ?thesis
      using appends_fits [OF f, of w] appends_full [OF g, of "f w"] ok by simp
  next
    case False
    then show ?thesis
      using appends_full [OF f, of w] appends_bad [OF g, of "f w"] ok by simp
  qed
qed

lemma appends_text [intro]: "appends (w_text s) s"
  by (rule appendsI) (auto simp: w_text_def)

lemma appends_fold:
  "(\<And>x. appends (f x) (s x)) \<Longrightarrow> appends (fold f xs) (concat (map s xs))"
proof (induction xs)
  case Nil
  then show ?case using appends_id by (simp add: id_def)
next
  case (Cons x xs)
  then show ?case using appends_comp [of "f x" "s x" "fold f xs" "concat (map s xs)"]
    by (simp add: comp_def)
qed

definition quoted :: "string \<Rightarrow> string" where
  "quoted s = quote # concat (map escaped s) @ [quote]"

lemma appends_string [intro]: "appends (w_string s) (quoted s)"
proof -
  have "appends (\<lambda>w. w_text [quote] (fold (\<lambda>c. w_text (escaped c)) s (w_text [quote] w)))
      (([quote] @ concat (map escaped s)) @ [quote])"
    by (intro appends_comp appends_text appends_fold)
  then show ?thesis by (simp add: quoted_def w_string_def [abs_def])
qed

lemma appends_number [intro]: "appends (w_number n) (number_text n)"
  using appends_text [of "number_text n"] by (simp add: w_number_def [abs_def])

lemma appends_utc [intro]: "\<exists>s. appends (w_utc d) s"
proof (cases "utc_field d = []")
  case True
  then show ?thesis using appends_text [of "''null''"] by (auto simp: w_utc_def [abs_def])
next
  case False
  then show ?thesis using appends_string [of "utc_field d"] by (auto simp: w_utc_def [abs_def])
qed

lemma appends_rules [intro]: "\<exists>s. appends (w_rules d) s"
proof -
  have "appends (\<lambda>w. w_string (r_id (the (d_rules d ! i))) (if i \<noteq> 0 then w_text '','' w else w))
      ((if i \<noteq> 0 then '','' else []) @ quoted (r_id (the (d_rules d ! i))))" for i
    by (rule appends_comp [where f = "\<lambda>w. if i \<noteq> 0 then w_text '','' w else w"])
      (auto intro: appends_id)
  then have "appends (w_rules d) (concat (map (\<lambda>i. (if i \<noteq> 0 then '','' else []) @
      quoted (r_id (the (d_rules d ! i)))) [0..<d_rule_count d]))"
    unfolding w_rules_def by (rule appends_fold)
  then show ?thesis by blast
qed

lemma appends_write_all: "list_all (\<lambda>f. \<exists>s. appends f s) fs \<Longrightarrow> \<exists>s. appends (write_all fs) s"
proof (induction fs)
  case Nil
  show ?case using appends_id by (auto simp: write_all_def [abs_def])
next
  case (Cons f fs)
  then obtain s t where "appends f s" and "appends (write_all fs) t" by auto
  then have "appends (\<lambda>w. write_all fs (f w)) (s @ t)" by (rule appends_comp)
  then show ?case by (auto simp: write_all_def [abs_def])
qed

definition fits_or_nothing :: "(nat \<Rightarrow> nat \<times> string) \<Rightarrow> string \<Rightarrow> bool" where
  "fits_or_nothing writer text \<longleftrightarrow> (\<forall>capacity.
     if length text < capacity then writer capacity = (length text, text) else fst (writer capacity) = 0)"

lemma appends_result:
  assumes "appends f s"
  shows "fits_or_nothing (\<lambda>capacity. if capacity = 0 then (0, []) else w_result (f (writer0 capacity))) s"
  unfolding fits_or_nothing_def
proof
  fix capacity
  show "if length s < capacity
    then (if capacity = 0 then (0, []) else w_result (f (writer0 capacity))) = (length s, s)
    else fst (if capacity = 0 then (0, []) else w_result (f (writer0 capacity))) = 0"
    using appends_fits [OF assms, of "writer0 capacity"] appends_full [OF assms, of "writer0 capacity"]
    by (auto simp: writer0_def w_result_def w_size_def)
qed

lemma unwritable_capacity: "unwritable d capacity \<longleftrightarrow> capacity = 0 \<or> unwritable d 1"
  by (auto simp: unwritable_def)

lemma appends_exI: "appends f s \<Longrightarrow> \<exists>s. appends f s"
  by blast

lemmas appends_exists = appends_exI [OF appends_text] appends_exI [OF appends_string]
  appends_exI [OF appends_number] appends_utc appends_rules

lemma all_or_nothing:
  assumes "list_all (\<lambda>f. \<exists>s. appends f s) ops"
  shows "if unwritable d 1 then \<forall>capacity. (if unwritable d capacity then (0, []) else
      w_result (write_all ops (writer0 capacity))) = (0, [])
    else \<exists>text. fits_or_nothing (\<lambda>capacity. if unwritable d capacity then (0, []) else
      w_result (write_all ops (writer0 capacity))) text"
proof (cases "unwritable d 1")
  case True
  then have "unwritable d capacity" for capacity by (subst unwritable_capacity) simp
  with True show ?thesis by simp
next
  case False
  then have cap: "unwritable d capacity = (capacity = 0)" for capacity
    by (subst unwritable_capacity) simp
  obtain s where "appends (write_all ops) s" using appends_write_all [OF assms] by blast
  then have "fits_or_nothing (\<lambda>capacity. if capacity = 0 then (0, []) else
      w_result (write_all ops (writer0 capacity))) s"
    by (rule appends_result)
  then show ?thesis unfolding cap by auto
qed

lemma write_record_whole:
  "if unwritable d 1 then \<forall>n. write_record d session token research n region = (0, [])
    else \<exists>text. fits_or_nothing (\<lambda>n. write_record d session token research n region) text"
  unfolding write_record_def
  by (rule all_or_nothing)
    (cases research; simp only: if_True if_False append.simps list.pred_inject;
      intro conjI TrueI appends_exists)

lemma write_export_record_whole:
  "if unwritable d 1 then \<forall>n. write_export_record d session token research n region = (0, [])
    else \<exists>text. fits_or_nothing (\<lambda>n. write_export_record d session token research n region) text"
  unfolding write_export_record_def
  by (rule all_or_nothing) (simp only: list.pred_inject, intro conjI TrueI appends_exists)


section \<open>Escaping and reading\<close>

lemma lower_hex_code: "n < 16 \<Longrightarrow> (of_char (lower_hex n) :: nat) = (if n < 10 then 48 + n else 87 + n)"
  by (auto simp: lower_hex_def)

lemma lower_hex_letter: "list_all (\<lambda>k. (k OR 32) - 97 + 10 = k - 87) [97..<103 :: nat]"
  by code_simp

lemma lower_hex_nibble:
  "n < 16 \<Longrightarrow> is_hex (lower_hex n)" "n < 16 \<Longrightarrow> hex_digit (lower_hex n) = n"
proof -
  show "n < 16 \<Longrightarrow> is_hex (lower_hex n)"
    by (auto simp: is_hex_def is_digit_def lower_hex_code)
  have "((87 + n) OR 32) - 97 + 10 = n" if "10 \<le> n" "n < 16"
  proof -
    have "87 + n \<in> set [97..<103]" using that unfolding set_upt atLeastLessThan_iff by linarith
    then have "((87 + n) OR 32) - 97 + 10 = 87 + n - 87"
      using lower_hex_letter unfolding list_all_iff by blast
    then show ?thesis by simp
  qed
  then show "n < 16 \<Longrightarrow> hex_digit (lower_hex n) = n"
    by (auto simp: hex_digit_def lower_hex_code)
qed

definition plain :: "char \<Rightarrow> bool" where
  "plain c \<longleftrightarrow> 0 < (of_char c :: nat) \<and> (of_char c :: nat) < 128"

lemma char_nibbles: "(of_char c :: nat) div 16 < 16 \<and> (of_char c :: nat) mod 16 < 16"
  using nat_of_char_less_256 [of c] by (simp add: less_mult_imp_div_less)

lemma escaped_cases:
  obtains (Quote) "c = quote" "escaped c = [backslash, quote]"
  | (Backslash) "c = backslash" "escaped c = [backslash, backslash]"
  | (Hex) "escaped c = [backslash, CHR ''u'', CHR ''0'', CHR ''0'',
      lower_hex (of_char c div 16), lower_hex (of_char c mod 16)]"
  | (Plain) "escaped c = [c]" "c \<noteq> quote" "c \<noteq> backslash" "32 \<le> (of_char c :: nat)" "(of_char c :: nat) \<le> 126"
proof -
  consider "c = quote" | "c = backslash" | "c \<noteq> quote" "c \<noteq> backslash" "(of_char c :: nat) < 32 \<or> 126 < (of_char c :: nat)"
    | "c \<noteq> quote" "c \<noteq> backslash" "32 \<le> (of_char c :: nat)" "(of_char c :: nat) \<le> 126"
    by linarith
  then show ?thesis
    by cases (auto simp: escaped_def intro: that)
qed

lemma scan_escaped: "scan_string (escaped c @ xs) = map_option ((+) (length (escaped c))) (scan_string xs)"
proof (cases c rule: escaped_cases)
  case Hex
  have "is_hex (CHR ''0'')" by (simp add: is_hex_def is_digit_def)
  then have "escape_length (CHR ''u'' # CHR ''0'' # CHR ''0'' # lower_hex (of_char c div 16) #
      lower_hex (of_char c mod 16) # xs) = Some 5"
    using char_nibbles [of c] by (simp add: escape_length_def lower_hex_nibble)
  then have "scan_string (escaped c @ xs) = map_option ((+) 6) (scan_string xs)" by (simp add: Hex)
  moreover have "length (escaped c) = 6" by (simp add: Hex)
  ultimately show ?thesis by simp
next
  case Plain
  have "(+) (Suc 0) = Suc" by (rule ext) simp
  with Plain show ?thesis by simp
qed (simp_all add: escape_length_def option.map_comp comp_def)

lemma scan_quoted: "scan_string (concat (map escaped s) @ [quote]) = Some (Suc (length (concat (map escaped s))))"
  by (induction s) (simp_all add: scan_escaped)

lemma decode_escaped:
  assumes "plain c" and "xs \<noteq> []"
  shows "decode_char (escaped c @ xs) = Some (c, length (escaped c))"
proof (cases c rule: escaped_cases)
  case Hex
  have zero: "hex_digit (CHR ''0'') = 0" by (simp add: hex_digit_def)
  have "of_char c div 16 * 16 + of_char c mod 16 = (of_char c :: nat)" by simp
  then show ?thesis
    using assms char_nibbles [of c] by (simp add: Hex decode_char_def lower_hex_nibble zero plain_def)
next
  case Plain
  then show ?thesis by (simp add: decode_char_def)
qed (simp_all add: decode_char_def unescape_def)

lemma escaped_length: "1 \<le> length (escaped c)"
  by (cases c rule: escaped_cases) simp_all

lemma decode_quoted:
  assumes "list_all plain s" and "j + length s < length out"
  shows "decode_string (concat (map escaped s) @ [quote]) j out =
    (True, take j out @ s @ nul # drop (Suc (j + length s)) out)"
  using assms
proof (induction s arbitrary: j out)
  case Nil
  then show ?case by (subst decode_string.simps) (simp add: upd_conv_take_nth_drop)
next
  case (Cons c s)
  let ?xs = "concat (map escaped s) @ [quote]"
  have c: "plain c" "c \<noteq> nul" using Cons.prems by (auto simp: plain_def)
  have "decode_char (escaped c @ ?xs) = Some (c, length (escaped c))"
    using c by (intro decode_escaped) simp_all
  moreover have "escaped c \<noteq> []" using escaped_length [of c] by auto
  ultimately have "decode_string (escaped c @ ?xs) j out = decode_string ?xs (j + 1) (out[j := c])"
    using c Cons.prems by (subst decode_string.simps) simp
  also have "\<dots> = (True, take (j + 1) (out[j := c]) @ s @ nul # drop (Suc (j + 1 + length s)) (out[j := c]))"
    using Cons.prems by (intro Cons.IH) simp_all
  finally show ?case
    using Cons.prems by (simp add: take_Suc_conv_app_nth)
qed

text \<open>Any other character, the escaped NUL included, and a text too long for the buffer are refused.\<close>

lemma decode_refused:
  assumes "\<not> plain c" and "xs \<noteq> []"
  shows "decode_char (escaped c @ xs) = None"
proof (cases c rule: escaped_cases)
  case Hex
  have zero: "hex_digit (CHR ''0'') = 0" by (simp add: hex_digit_def)
  have "of_char c div 16 * 16 + of_char c mod 16 = (of_char c :: nat)" by simp
  then show ?thesis
    using assms char_nibbles [of c] by (auto simp: Hex decode_char_def lower_hex_nibble zero plain_def Let_def)
qed (use assms(1) in \<open>auto simp: plain_def\<close>)

lemma decode_quoted_refused:
  assumes "\<not> (list_all plain s \<and> j + length s < length out)" and "j < length out"
  shows "\<not> fst (decode_string (concat (map escaped s) @ [quote]) j out)"
  using assms
proof (induction s arbitrary: j out)
  case (Cons c s)
  let ?xs = "concat (map escaped s) @ [quote]"
  have long: "escaped c \<noteq> []" "\<not> length (escaped c @ ?xs) < 2" using escaped_length [of c] by auto
  show ?case
  proof (cases "plain c \<and> j + 1 < length out")
    case True
    have "decode_char (escaped c @ ?xs) = Some (c, length (escaped c))" using True by (intro decode_escaped) simp_all
    moreover have "c \<noteq> nul" using True by (auto simp: plain_def)
    ultimately have "decode_string (escaped c @ ?xs) j out = decode_string ?xs (j + 1) (out[j := c])"
      using True long by (subst decode_string.simps) simp
    moreover have "\<not> fst (decode_string ?xs (j + 1) (out[j := c]))" using Cons.prems True by (intro Cons.IH) auto
    ultimately show ?thesis by simp
  next
    case False
    have "decode_char (escaped c @ ?xs) = (if plain c then Some (c, length (escaped c)) else None)"
      using decode_escaped [of c ?xs] decode_refused [of c ?xs] by simp
    with False long show ?thesis by (subst decode_string.simps) auto
  qed
qed auto

lemma parse_quoted:
  assumes "length (quoted s) \<le> 2048"
  shows "json_parse (quoted s) =
    Some [\<lparr>t_start = 0, t_size = length (quoted s), t_after = 1, t_type = JString\<rparr>]"
proof -
  let ?t = "quoted s"
  have head: "?t ! 0 = quote" and tail: "drop 1 ?t = concat (map escaped s) @ [quote]"
    and len: "length ?t = Suc (Suc (length (concat (map escaped s))))" and ne: "?t \<noteq> []"
    by (simp_all add: quoted_def)
  have start: "skip_space ?t 0 = 0" by (simp add: skip_space_def quoted_def is_space_def)
  have "json_scalar ?t [] 0 = Accept ([\<lparr>t_start = 0, t_size = length ?t, t_after = 1, t_type = JString\<rparr>], length ?t)"
    using scan_quoted [of s]
    by (simp add: json_scalar_def head tail [simplified] len close_token_def open_token_def)
  then have "json_value 9 ?t ([], 0) =
      Accept ([\<lparr>t_start = 0, t_size = length ?t, t_after = 1, t_type = JString\<rparr>], length ?t)"
    using ne by (simp add: eval_nat_numeral start head max_tokens_def)
  moreover have "skip_space ?t (length ?t) = length ?t" by (simp add: skip_space_def)
  ultimately show ?thesis using assms ne by (simp add: json_parse_def)
qed

lemma read_quoted:
  assumes "list_all plain s" and "length s < n"
  shows "read_string n (quoted s)
    [\<lparr>t_start = 0, t_size = length (quoted s), t_after = 1, t_type = JString\<rparr>] (Some 0) = Some s"
proof -
  have nul: "nul \<notin> set s" using assms(1) by (auto simp: list_all_iff plain_def)
  have "tl (quoted s) = concat (map escaped s) @ [quote]" by (simp add: quoted_def)
  then have "decode_string (tl (quoted s)) 0 (replicate n nul) =
      (True, s @ nul # drop (Suc (length s)) (replicate n nul))"
    using decode_quoted [OF assms(1), of 0 "replicate n nul"] assms(2) by simp
  moreover have "replicate n nul \<noteq> []" using assms(2) by simp
  ultimately show ?thesis
    using nul by (simp add: read_string_def json_string_def json_raw_def c_str_append_nul)
qed

lemma read_quoted_refused:
  assumes "\<not> (list_all plain s \<and> length s < n)"
  shows "read_string n (quoted s)
    [\<lparr>t_start = 0, t_size = length (quoted s), t_after = 1, t_type = JString\<rparr>] (Some 0) = None"
proof (cases "n = 0")
  case False
  have "tl (quoted s) = concat (map escaped s) @ [quote]" by (simp add: quoted_def)
  then have "\<not> fst (decode_string (tl (quoted s)) 0 (replicate n nul))"
    using decode_quoted_refused [of s 0 "replicate n nul"] assms False by simp
  then show ?thesis using False by (auto simp: read_string_def json_string_def json_raw_def split: prod.split)
qed (simp add: read_string_def json_string_def)

section \<open>The exported line\<close>

definition field_text :: "string \<Rightarrow> token list \<Rightarrow> string \<Rightarrow> string \<times> bool \<Rightarrow> string" where
  "field_text line toks session f = (case f of (field, comma) \<Rightarrow>
     (if comma then '','' else []) @ quoted field @ '':'' @
     (if field = ''session_id'' then quoted session else log_raw line toks field))"

definition export_text :: "string \<Rightarrow> token list \<Rightarrow> string \<Rightarrow> string \<Rightarrow> string" where
  "export_text line toks session name =
     ''{'' @ concat (map (field_text line toks session) (zip export_fields (False # replicate 17 True))) @
     '',\"identifier\":'' @ quoted name @ '',\"last_seen_ms\":'' @ log_raw line toks ''uptime_ms'' @
     '',\"source_privacy_mode\":'' @ log_raw line toks ''privacy_mode'' @
     ('',\"privacy_mode\":\"sanitized\",\"latitude\":null,\"longitude\":null,\"location_'' @
       ''source\":\"none\"}'' @ [CHR 0x0A])"

lemma appends_field: "appends (w_field line toks session f) (field_text line toks session f)"
proof -
  obtain field comma where f: "f = (field, comma)" by (cases f)
  let ?text = "if field = ''session_id'' then quoted session else log_raw line toks field"
  have "appends (\<lambda>w. if field = ''session_id'' then w_string session w else w_text (log_raw line toks field) w)
      ?text"
    by auto
  moreover have "appends (\<lambda>w. if comma then w_text '','' w else w) (if comma then '','' else [])"
    using appends_id by auto
  ultimately have "appends (\<lambda>w. (\<lambda>w. if field = ''session_id'' then w_string session w
        else w_text (log_raw line toks field) w)
      (w_text '':'' (w_string field ((\<lambda>w. if comma then w_text '','' w else w) w))))
      ((((if comma then '','' else []) @ quoted field) @ '':'') @ ?text)"
    by (intro appends_comp [where g = "\<lambda>w. if field = ''session_id'' then w_string session w
        else w_text (log_raw line toks field) w"] appends_comp [where g = "w_text '':''"]
        appends_comp [where g = "w_string field"] appends_text appends_string)
  then show ?thesis by (simp add: w_field_def [abs_def] field_text_def f Let_def)
qed

lemma appends_list: "list_all2 appends fs ss \<Longrightarrow> appends (write_all fs) (concat ss)"
proof (induction rule: list_all2_induct)
  case Nil
  show ?case using appends_id by (simp add: write_all_def [abs_def])
next
  case (Cons f fs s ss)
  have "appends (\<lambda>w. write_all fs (f w)) (s @ concat ss)" using Cons by (intro appends_comp)
  then show ?case by (simp add: write_all_def [abs_def])
qed

lemma fields_append:
  "list_all2 appends (map (w_field line toks session) fs) (map (field_text line toks session) fs)"
  by (induction fs) (simp_all add: appends_field)

lemma export_appends:
  "appends (write_all ([w_text ''{''] @ map (w_field line toks session) fs @
      [w_text a, w_string name, w_text b, w_text c, w_text e, w_text f, w_text g]))
    (''{'' @ concat (map (field_text line toks session) fs) @ a @ quoted name @ b @ c @ e @ f @ g)"
proof -
  have "list_all2 appends ([w_text ''{''] @ map (w_field line toks session) fs @
      [w_text a, w_string name, w_text b, w_text c, w_text e, w_text f, w_text g])
    ([''{''] @ map (field_text line toks session) fs @ [a, quoted name, b, c, e, f, g])"
    by (intro list_all2_appendI fields_append list.rel_intros appends_text appends_string)
  then show ?thesis
    using appends_list by (fastforce simp only: concat_append concat.simps append_Nil2 append_assoc)
qed

lemma emit_limited_letters:
  "length out + available div 5 \<le> 20 \<Longrightarrow> emit_limited bits available out = emit_letters bits available out"
proof (induction bits available out rule: emit_limited.induct)
  case (1 bits available out)
  show ?case
  proof (cases "5 \<le> available")
    case True
    then have "available div 5 = Suc ((available - 5) div 5)" by (simp add: le_div_geq)
    with True 1 show ?thesis
      by (subst emit_limited.simps, subst emit_letters.simps) simp
  next
    case False
    then show ?thesis by (subst emit_limited.simps, subst emit_letters.simps) simp
  qed
qed

lemma identity_token_byte:
  assumes "token_state bs s" and "length bs < 13"
  shows "identity_byte s b = token_byte s b"
proof -
  obtain v bits out where s: "s = (v, bits, out)" by (cases s)
  have out: "length out = 8 * length bs div 5" and bits: "bits = 8 * length bs mod 5"
    using assms(1) by (auto simp: token_state_def s)
  have "length out < 20" using out assms(2) by linarith
  moreover have "length out + (bits + 8) div 5 \<le> 20"
  proof -
    have "length out + (bits + 8) div 5 = (8 * length bs + 8) div 5"
      unfolding out bits by (rule five_steps)
    also have "\<dots> \<le> 20" using assms(2) by linarith
    finally show ?thesis .
  qed
  ultimately show ?thesis
    by (simp add: identity_byte_def token_byte_def s emit_limited_letters del: unsigned_or_eq)
qed

lemma identity_prefix: "length bs \<le> 13 \<Longrightarrow> foldl identity_byte (0, 0, []) bs = foldl token_byte (0, 0, []) bs"
proof (induction bs rule: rev_induct)
  case (snoc b bs)
  then show ?case using identity_token_byte [OF token_bytes_state, of bs b] by simp
qed simp

lemma identity_full: "length (snd (snd s)) = 20 \<Longrightarrow> foldl identity_byte s bs = s"
  by (induction bs) (auto simp: identity_byte_def split: prod.splits)

lemma digest_identity_letters:
  assumes "13 \<le> length digest"
  shows "digest_identity digest = letters_of 20 (bytes_number (take 13 digest) div 16)"
proof -
  let ?s = "foldl identity_byte (0, 0, []) (take 13 digest)"
  have "length (take 13 digest) = 13" using assms by simp
  then have letters: "snd (snd ?s) = letters_of 20 (bytes_number (take 13 digest) div 16)"
    using token_bytes_state [of "take 13 digest"] identity_prefix [of "take 13 digest"]
    by (auto simp: token_state_def split: prod.splits)
  have "foldl identity_byte (0, 0, []) digest = foldl identity_byte ?s (drop 13 digest)"
    by (metis append_take_drop_id foldl_append)
  also have "\<dots> = ?s" by (rule identity_full) (simp add: letters)
  finally show ?thesis by (simp add: digest_identity_def letters)
qed

definition export_case :: "keyed_digest \<Rightarrow> u8 list \<Rightarrow> string \<Rightarrow> token list \<Rightarrow> string option" where
  "export_case hmac key line toks =
     (let session = the (log_str line toks ''session_id''); name = the (log_str line toks ''identifier'')
      in case (hmac key (map byte_of_char (session @ '':'' @ name)), hmac key (map byte_of_char session)) of
           (Some digest, Some digest') \<Rightarrow>
             Some (export_text line toks (digest_session digest')
               (letters_of 20 (bytes_number (take 13 digest) div 16)))
         | _ \<Rightarrow> None)"

lemma export_record_ops:
  assumes "json_parse line = Some toks" and "validate_log line toks" and "length key = 32"
    and "hmac key (map byte_of_char (the (log_str line toks ''session_id'') @ '':'' @
      the (log_str line toks ''identifier''))) = Some digest"
    and "hmac key (map byte_of_char (the (log_str line toks ''session_id''))) = Some digest'"
  shows "export_log_record hmac line key = (\<lambda>capacity. if capacity = 0 then (0, []) else
    w_result (write_all ([w_text ''{''] @
      map (w_field line toks (digest_session digest')) (zip export_fields (False # replicate 17 True)) @
      [w_text '',\"identifier\":'', w_string (digest_identity digest),
       w_text '',\"last_seen_ms\":'', w_text (log_raw line toks ''uptime_ms''),
       w_text '',\"source_privacy_mode\":'', w_text (log_raw line toks ''privacy_mode''),
       w_text ('',\"privacy_mode\":\"sanitized\",\"latitude\":null,\"longitude\":null,\"location_'' @
         ''source\":\"none\"}'' @ [CHR 0x0A])]) (writer0 capacity)))"
proof
  fix capacity
  show "export_log_record hmac line key capacity = (if capacity = 0 then (0, []) else
    w_result (write_all ([w_text ''{''] @
      map (w_field line toks (digest_session digest')) (zip export_fields (False # replicate 17 True)) @
      [w_text '',\"identifier\":'', w_string (digest_identity digest),
       w_text '',\"last_seen_ms\":'', w_text (log_raw line toks ''uptime_ms''),
       w_text '',\"source_privacy_mode\":'', w_text (log_raw line toks ''privacy_mode''),
       w_text ('',\"privacy_mode\":\"sanitized\",\"latitude\":null,\"longitude\":null,\"location_'' @
         ''source\":\"none\"}'' @ [CHR 0x0A])]) (writer0 capacity)))"
    unfolding export_log_record_def
    by (simp only: assms option.case Let_def simp_thms if_True if_False)
qed

lemma export_record_case:
  assumes "json_parse line = Some toks" and "validate_log line toks" and "length key = 32"
    and sized: "\<forall>input digest. hmac key input = Some digest \<longrightarrow> length digest = 32"
  shows "case export_case hmac key line toks of
      Some text \<Rightarrow> fits_or_nothing (export_log_record hmac line key) text
    | None \<Rightarrow> \<forall>n. export_log_record hmac line key n = (0, [])"
proof -
  let ?session = "the (log_str line toks ''session_id'')" and ?name = "the (log_str line toks ''identifier'')"
  let ?id = "hmac key (map byte_of_char (?session @ '':'' @ ?name))"
  let ?se = "hmac key (map byte_of_char ?session)"
  show ?thesis
  proof (cases "?id = None \<or> ?se = None")
    case True
    then show ?thesis using assms
      by (auto simp: export_case_def export_log_record_def Let_def split: option.splits)
  next
    case False
    then obtain digest digest' where d: "?id = Some digest" "?se = Some digest'" by auto
    have ec: "export_case hmac key line toks =
        Some (export_text line toks (digest_session digest') (digest_identity digest))"
      using digest_identity_letters [of digest] sized d(1)
      by (simp only: export_case_def Let_def d prod.case option.case)
    have "fits_or_nothing (export_log_record hmac line key)
        (export_text line toks (digest_session digest') (digest_identity digest))"
      unfolding export_text_def export_record_ops [where hmac = hmac and key = key, OF assms(1-3) d]
      by (rule appends_result [OF export_appends])
    then show ?thesis by (simp only: ec option.case)
  qed
qed

lemma export_invalid:
  "\<not> (valid_log_record line \<and> length key = 32) \<Longrightarrow> export_log_record hmac line key n = (0, [])"
  by (auto simp: valid_log_record_def export_log_record_def split: option.splits)
section \<open>Properties\<close>

text \<open>
  Property C21.  Records are written whole or not at all, and never past the output.  For each
  detection and set of arguments there is one text: a capacity above its length yields exactly
  that text and its length, every other capacity yields size 0, so that no truncated record is ever
  handed to the storage; detections that must not be logged (demonstrations, without rules or sightings,
  or of a category outside the list) yield nothing at all.  \<open>json_escape\<close> does the same with
  the quoted, escaped string.
\<close>

theorem records_fit_or_nothing:
  "(if unwritable d 1
    then (\<forall>n. write_record d session token research n region = (0, [])) \<and>
      (\<forall>n. write_export_record d session token research n region = (0, []))
    else (\<exists>text. fits_or_nothing (\<lambda>n. write_record d session token research n region) text) \<and>
      (\<exists>text. fits_or_nothing (\<lambda>n. write_export_record d session token research n region) text)) \<and>
   fits_or_nothing (json_escape s) (quoted s)"
proof -
  have "fits_or_nothing (json_escape s) (quoted s)"
    using appends_result [OF appends_string [of s]] by (simp add: json_escape_def [abs_def])
  then show ?thesis
    using write_record_whole [of d session token research region]
      write_export_record_whole [of d session token research region]
    by (cases "unwritable d 1") (simp_all only: if_True if_False simp_thms)
qed

text \<open>
  Property C22.  Escaping and reading, for every text that \<open>json_escape\<close> accepts: the JSON reader takes
  the output, up to its 2,048 characters, as one document and reads exactly that text back into any buffer
  that is long enough, quotes, backslashes and control characters included, as long as the characters are 1 to 127.
  A text with another character, which the writer escapes all the same, or a buffer
  that is too short is refused, and so is an output of more than 2,048 characters.
\<close>

theorem escape_round_trip:
  assumes "json_escape s capacity = (k, text)" and "0 < k"
  shows "if k \<le> 2048
    then \<exists>toks. json_parse text = Some toks \<and> (\<forall>n. read_string n text toks (Some 0) =
           (if list_all (\<lambda>c. 0 < (of_char c :: nat) \<and> (of_char c :: nat) < 128) s \<and> length s < n then Some s else None))
    else json_parse text = None"
proof -
  have "fits_or_nothing (json_escape s) (quoted s)"
    using appends_result [OF appends_string [of s]] by (simp add: json_escape_def [abs_def])
  then have "if length (quoted s) < capacity then (k, text) = (length (quoted s), quoted s) else k = 0"
    using assms(1) unfolding fits_or_nothing_def by (metis fst_conv)
  then have out: "text = quoted s" and size: "k = length (quoted s)" using assms(2) by (auto split: if_splits)
  show ?thesis unfolding out size plain_def [abs_def, symmetric]
    using parse_quoted [of s] read_quoted [of s] read_quoted_refused [of s] by (simp add: json_parse_def)
qed

theorem escape_round_trip_witness:
  "\<exists>toks. json_parse (quoted [CHR ''a'', quote, CHR 0x0A]) = Some toks \<and>
     read_string 8 (quoted [CHR ''a'', quote, CHR 0x0A]) toks (Some 0) = Some [CHR ''a'', quote, CHR 0x0A]"
proof -
  have "json_escape [CHR ''a'', quote, CHR 0x0A] 40 = (11, quoted [CHR ''a'', quote, CHR 0x0A])"
    by (simp add: json_escape_def w_string_def w_text_def writer0_def w_result_def w_size_def
        escaped_def quoted_def lower_hex_def)
  from escape_round_trip [OF this] show ?thesis by auto
qed

text \<open>
  Property C23.  The sanitised export, on every path.  A line that does not validate, or a key that is not
  32 bytes, exports nothing, and so does a failing HMAC.  Otherwise the output is whole or nothing,
  and it is made of the listed fields of the line copied as they stand, with the session replaced by
  the digest of the session and the identifier replaced by the base-32 letters of the first 100 bits of
  the digest of both: no other part of the line (event, label, reason, raw address, the original
  session and identifier) reaches it.
\<close>

theorem export_is_sanitised:
  assumes "\<forall>input digest. hmac key input = Some digest \<longrightarrow> length digest = 32"
  shows "if valid_log_record line \<and> length key = 32
    then \<exists>toks. json_parse line = Some toks \<and>
      (case export_case hmac key line toks of
         None \<Rightarrow> \<forall>n. export_log_record hmac line key n = (0, [])
       | Some text \<Rightarrow> fits_or_nothing (export_log_record hmac line key) text)
    else \<forall>n. export_log_record hmac line key n = (0, [])"
proof (cases "valid_log_record line \<and> length key = 32")
  case True
  then obtain toks where "json_parse line = Some toks" and "validate_log line toks"
    by (auto simp: valid_log_record_def split: option.splits)
  with True show ?thesis using export_record_case [of line toks key hmac] assms by auto
next
  case False
  then show ?thesis using export_invalid by (simp only: if_False) blast
qed

lemma example_hmac_length: "example_hmac key input = Some digest \<Longrightarrow> length digest = 32"
  by (auto simp: example_hmac_def)

theorem export_is_sanitised_witness:
  "export_log_record example_hmac [] (replicate 32 0) 700 = (0, [])"
  using export_is_sanitised [of example_hmac "replicate 32 0" "[]"] example_hmac_length
  by (simp add: valid_log_record_def json_parse_def)
end
