(* ===== verification/View.thy ===== *)
theory View
  imports Companion Privacy Pet Tracking Utilities
begin

text \<open>
  The user interface's state and everything it does outside touch handling (\<open>ui.hpp\<close> and the
  non-rendering half of \<open>ui.cpp\<close>): display idling, alerts and quieting, the travel-watch page,
  detections arriving, and the status machines of export, eject and backup.  Taps are in \<open>Taps\<close>.
  A view is one record whose fields carry the prefix \<open>v_\<close>; counters that are only drawn are
  in \<open>Pictures\<close>.  The HMAC is a parameter, as in \<open>Privacy\<close>.
\<close>

section \<open>State\<close>

datatype screen = Welcome | Calibration | Choose | Name | Privacy_Choice | Home | Log | Detectors
  | Settings | Diagnostics | Details | ResearchWarning | ResetWarning | Alerts | Clock | Battery
  | ClearWarning | SelfTest | ScentBook | ScentCard | Wardrobe | AlertActions | Ignored | Follow
  | Appearance | Display | TagWatch | WatchProgress | IdleDisplay | IgnoreBackup | Coverage

datatype request = Save | Start | Export | Eject | Demo | Calibrate | DiagnosticCopy | Reset | Rotate
  | Pause | ClearLogs | Sleep | Invert | BackupIgnores

fun request_bit :: "request \<Rightarrow> u32" where
  "request_bit Save = 1"
| "request_bit Start = 2"
| "request_bit Export = 4"
| "request_bit Eject = 8"
| "request_bit Demo = 16"
| "request_bit Calibrate = 32"
| "request_bit DiagnosticCopy = 64"
| "request_bit Reset = 128"
| "request_bit Rotate = 256"
| "request_bit Pause = 512"
| "request_bit ClearLogs = 1024"
| "request_bit Sleep = 2048"
| "request_bit Invert = 4096"
| "request_bit BackupIgnores = 8192"

datatype display_mode = Active | Dim | Saver | Display_Off

datatype snack_phase = Snack_None | Turn | Approach | Chew | Happy

datatype export_status = Export_Idle | Export_Checking | Exporting | Export_Complete | Export_NoCard
  | Export_ReadOnly | Export_Failed | Export_QueueFull | Export_Demo

datatype eject_status = Eject_Idle | Ejecting | Eject_Safe | Eject_Failed | Eject_QueueFull
  | Eject_NoCard | Eject_Demo

datatype backup_status = Backup_Waiting | Backup_Checking | Backup_Unavailable | Backup_Saved
  | Backup_NoCard | Backup_Ejected | Backup_ReadOnly | Backup_Failed | Backup_InternalError

record view =
  v_settings :: settings
  v_pet :: pet
  v_screen :: screen
  v_companion :: companion
  v_preview_companion :: companion
  v_identity_key :: "u8 list"
  v_snooze_until :: u64
  v_preview_snooze_until :: u64
  v_unlock_until :: u64
  v_preview_xp :: u32
  v_unlocked_outfit :: nat
  v_book_page :: nat
  v_scent_index :: nat
  v_scent_page :: nat
  v_wardrobe_index :: nat
  v_ignored_page :: nat
  v_coverage_page :: nat
  v_ignore_backup :: backup_status
  v_manual_backup_count :: u32
  v_backup_pending :: bool
  v_sd_checking :: bool
  v_action_detection :: detection
  v_frame_presented :: bool
  v_home_alert_shown :: bool
  v_appearance :: appearance
  v_preview_appearance :: appearance
  v_display_mode :: display_mode
  v_last_activity :: u64
  v_saver_since :: u64
  v_alert_wake_until :: u64
  v_saver_preview :: bool
  v_pets :: u32
  v_preview_fullness :: u8
  v_preview_mood :: u8
  v_preview_decay_ms :: u64
  v_celebration_until :: u64
  v_follow :: follow_scent
  v_tag_watch :: tag_watch
  v_watch_review :: u64
  v_watch_page :: nat
  v_requests :: u32
  v_now :: u64
  v_alert_until :: u64
  v_meal_until :: u64
  v_happy_until :: u64
  v_meal_category :: category
  v_alert_detection :: detection
  v_detail_detection :: detection
  v_detail_drone :: drone_track
  v_detail_valid :: bool
  v_detail_page :: nat
  v_demo :: bool
  v_sd :: bool
  v_sd_error :: bool
  v_scanning :: bool
  v_paused :: bool
  v_sd_read_only :: bool
  v_clock_seconds :: u64
  v_clock_set_ms :: u64
  v_level_until :: u64
  v_battery_cal :: battery_calibration
  v_battery_point :: nat
  v_diagnostic_page :: nat
  v_log_page :: nat
  v_clock_input :: string
  v_known_level :: u32
  v_self_test_taps :: u32
  v_drones :: "drone_track list"
  v_battery_adc :: int
  v_touch :: "int \<times> int"
  v_detector_page :: nat
  v_settings_page :: nat
  v_alert_page :: nat
  v_selected :: nat
  v_recent :: "detection list"
  v_recent_count :: nat
  v_notice :: string
  v_export_status :: export_status
  v_exported_rows :: u32
  v_export_count :: u32
  v_eject_status :: eject_status
  v_low_heap :: bool
  v_save_pending :: bool

text \<open>\<open>View\<close> as constructed, with the member initialisers of the class.\<close>

definition view0 :: view where
  "view0 = \<lparr>v_settings = settings0, v_pet = pet0, v_screen = Welcome, v_companion = companion0,
     v_preview_companion = companion0, v_identity_key = replicate 32 0, v_snooze_until = 0,
     v_preview_snooze_until = 0, v_unlock_until = 0, v_preview_xp = 0, v_unlocked_outfit = 0,
     v_book_page = 0, v_scent_index = 0, v_scent_page = 0, v_wardrobe_index = 0, v_ignored_page = 0,
     v_coverage_page = 0, v_ignore_backup = Backup_Waiting, v_manual_backup_count = 0,
     v_backup_pending = False, v_sd_checking = False, v_action_detection = detection0,
     v_frame_presented = False, v_home_alert_shown = False, v_appearance = appearance0,
     v_preview_appearance = appearance0, v_display_mode = Active, v_last_activity = 0,
     v_saver_since = 0, v_alert_wake_until = 0, v_saver_preview = False, v_pets = 0,
     v_preview_fullness = 70, v_preview_mood = 70, v_preview_decay_ms = 0, v_celebration_until = 0,
     v_follow = follow0, v_tag_watch = tag_watch0, v_watch_review = 0, v_watch_page = 0, v_requests = 0,
     v_now = 0, v_alert_until = 0, v_meal_until = 0, v_happy_until = 0, v_meal_category = FLIPPER,
     v_alert_detection = detection0, v_detail_detection = detection0, v_detail_drone = drone_track0,
     v_detail_valid = False, v_detail_page = 0, v_demo = False, v_sd = False, v_sd_error = False,
     v_scanning = False, v_paused = False, v_sd_read_only = False, v_clock_seconds = 0,
     v_clock_set_ms = 0, v_level_until = 0, v_battery_cal = battery_calibration0, v_battery_point = 0,
     v_diagnostic_page = 0, v_log_page = 0, v_clock_input = [], v_known_level = 1, v_self_test_taps = 0,
     v_drones = drone_cache0, v_battery_adc = - 1, v_touch = (0, 0), v_detector_page = 0,
     v_settings_page = 0, v_alert_page = 0, v_selected = 0, v_recent = replicate 32 detection0,
     v_recent_count = 0, v_notice = [], v_export_status = Export_Idle, v_exported_rows = 0,
     v_export_count = 0, v_eject_status = Eject_Idle, v_low_heap = False, v_save_pending = False\<rparr>"

section \<open>Companion and ignored scents\<close>

definition collection :: "view \<Rightarrow> companion" where
  "collection v = (if v_demo v then v_preview_companion v else v_companion v)"

definition on_collection :: "(companion \<Rightarrow> companion) \<Rightarrow> view \<Rightarrow> view" where
  "on_collection f v = (if v_demo v then v\<lparr>v_preview_companion := f (v_preview_companion v)\<rparr>
     else v\<lparr>v_companion := f (v_companion v)\<rparr>)"

definition snoozed_until :: "view \<Rightarrow> u64" where
  "snoozed_until v = (if v_demo v then v_preview_snooze_until v else v_snooze_until v)"

definition snooze :: "u64 \<Rightarrow> view \<Rightarrow> view" where
  "snooze t v = (if v_demo v then v\<lparr>v_preview_snooze_until := t\<rparr> else v\<lparr>v_snooze_until := t\<rparr>)"

definition look :: "view \<Rightarrow> appearance" where
  "look v = (if v_demo v then v_preview_appearance v else v_appearance v)"

definition on_look :: "(appearance \<Rightarrow> appearance) \<Rightarrow> view \<Rightarrow> view" where
  "on_look f v = (if v_demo v then v\<lparr>v_preview_appearance := f (v_preview_appearance v)\<rparr>
     else v\<lparr>v_appearance := f (v_appearance v)\<rparr>)"

definition ask :: "request \<Rightarrow> view \<Rightarrow> view" where
  "ask r v = v\<lparr>v_requests := v_requests v OR request_bit r\<rparr>"

definition asked :: "request \<Rightarrow> view \<Rightarrow> bool" where
  "asked r v \<longleftrightarrow> v_requests v AND request_bit r \<noteq> 0"

definition ignored_pages :: "view \<Rightarrow> nat" where
  "ignored_pages v = max 1 ((ignored_count (collection v) + 3) div 4)"

fun nth_used :: "nat \<Rightarrow> ignored_scent list \<Rightarrow> nat" where
  "nth_used n [] = 0"
| "nth_used n (e # es) = (if ig_hash e \<noteq> 0 then (if n = 0 then 0 else Suc (nth_used (n - 1) es))
     else Suc (nth_used n es))"

definition ignored_slot :: "nat \<Rightarrow> view \<Rightarrow> nat" where
  "ignored_slot ordinal v = nth_used ordinal (co_ignored (collection v))"

definition ignore_backup_message :: "view \<Rightarrow> string" where
  "ignore_backup_message v =
     (if v_demo v then ''DEMO / NO SD WRITES''
      else case v_ignore_backup v of
          Backup_Checking \<Rightarrow> ''CHECKING SD / BACKUP WILL FOLLOW''
        | Backup_Unavailable \<Rightarrow> ''STORAGE TASK FAILED / RESTART''
        | Backup_Saved \<Rightarrow> ''SD BACKUP SAVED''
        | Backup_NoCard \<Rightarrow> ''NO SD CARD / INTERNAL SAVE KEPT''
        | Backup_Ejected \<Rightarrow> ''SD EJECTED / INTERNAL SAVE KEPT''
        | Backup_ReadOnly \<Rightarrow> ''SD READ ONLY / INTERNAL SAVE KEPT''
        | Backup_Failed \<Rightarrow> ''SD BACKUP FAILED / INTERNAL SAVE KEPT''
        | Backup_InternalError \<Rightarrow> ''INTERNAL SAVE FAILED / RETRY NEEDED''
        | Backup_Waiting \<Rightarrow> ''WAITING FOR BACKUP'')"

definition backup_queued :: "bool \<Rightarrow> view \<Rightarrow> view" where
  "backup_queued accepted v =
     v\<lparr>v_notice := (if accepted then ''BACKUP QUEUED'' else ''BACKUP PENDING / AUTO RETRY'')\<rparr>"

definition backup_progress :: "u32 \<Rightarrow> view \<Rightarrow> view" where
  "backup_progress completed v =
     (let v = (if v_backup_pending v \<and> completed \<noteq> v_manual_backup_count v
               then v\<lparr>v_backup_pending := False, v_notice := ignore_backup_message v\<rparr> else v)
      in v\<lparr>v_manual_backup_count := completed\<rparr>)"

definition identity :: "keyed_digest \<Rightarrow> detection \<Rightarrow> view \<Rightarrow> u64" where
  "identity hmac d v = (if list_all (\<lambda>b. b = 0) (v_identity_key v) then 0
     else meal_hash hmac (v_identity_key v) d)"

definition scent_ignored :: "keyed_digest \<Rightarrow> detection \<Rightarrow> view \<Rightarrow> bool" where
  "scent_ignored hmac d v =
     (let hash = identity hmac d v; c = (if d_demo d then v_preview_companion v else v_companion v)
      in hash \<noteq> 0 \<and> (is_ignored hash c \<or>
           samsung_identity d \<and> is_ignored (address_hash hmac (v_identity_key v) d) c))"

definition alert_allowed :: "keyed_digest \<Rightarrow> detection \<Rightarrow> view \<Rightarrow> bool" where
  "alert_allowed hmac d v \<longleftrightarrow> \<not> v_paused v \<and> should_alert (v_settings v) d \<and>
     (if d_demo d then v_preview_snooze_until v else v_snooze_until v) \<le> v_now v \<and>
     \<not> scent_ignored hmac d v"

definition open_actions :: "detection \<Rightarrow> view \<Rightarrow> view" where
  "open_actions d v = v\<lparr>v_action_detection := d, v_home_alert_shown := False, v_alert_until := 0,
     v_notice := [], v_screen := AlertActions\<rparr>"

definition reset_progress :: "view \<Rightarrow> view" where
  "reset_progress v =
     (let v = on_collection start_over v;
          v = (if v_demo v
               then v\<lparr>v_preview_xp := 0, v_preview_fullness := 70, v_preview_mood := 70,
                      v_preview_decay_ms := v_now v\<rparr>
               else v\<lparr>v_pet := pet0\<lparr>p_decay_ms := v_now v\<rparr>\<rparr>)
      in v\<lparr>v_known_level := pet_level (v_pet v), v_unlock_until := 0, v_level_until := 0,
           v_celebration_until := 0\<rparr>)"

section \<open>Care, listening and following\<close>

definition view_fullness :: "view \<Rightarrow> u8" where
  "view_fullness v = (if v_demo v then v_preview_fullness v else p_fullness (v_pet v))"

definition view_mood :: "view \<Rightarrow> u8" where
  "view_mood v = (if v_demo v then v_preview_mood v else p_mood (v_pet v))"

definition needs_care :: "view \<Rightarrow> bool" where
  "needs_care v \<longleftrightarrow> view_fullness v \<le> low_needs \<or> view_mood v \<le> low_needs"

definition tick_pet :: "view \<Rightarrow> view" where
  "tick_pet v =
     (if v_demo v
      then let (clock, fullness, mood) =
             decay_needs (v_now v) (v_preview_decay_ms v, v_preview_fullness v, v_preview_mood v)
           in v\<lparr>v_preview_decay_ms := clock, v_preview_fullness := fullness, v_preview_mood := mood\<rparr>
      else v\<lparr>v_pet := tick (v_now v) (v_pet v)\<rparr>)"

definition enabled :: "view \<Rightarrow> category \<Rightarrow> bool" where
  "enabled v c = has_category (s_enabled_categories (v_settings v)) c"

definition listening :: "view \<Rightarrow> bool" where
  "listening v \<longleftrightarrow> \<not> v_paused v \<and> (v_demo v \<or> v_scanning v)"

definition view_signal :: "view \<Rightarrow> scent_signal" where
  "view_signal v = follow_state (v_now v) (listening v \<and> enabled v (f_category (v_follow v))) (v_follow v)"

definition follow_detection :: "detection \<Rightarrow> view \<Rightarrow> view" where
  "follow_detection d v =
     v\<lparr>v_follow := follow_select d (v_now v), v_alert_until := 0, v_screen := Follow\<rparr>"

definition view_observe :: "observation \<Rightarrow> bool \<Rightarrow> view \<Rightarrow> view" where
  "view_observe ob synthetic v =
     (if \<not> v_paused v \<and> synthetic = v_demo v \<and> o_ms ob \<le> v_now v \<and> enabled v (f_category (v_follow v))
      then v\<lparr>v_follow := fst (follow_observe ob synthetic (v_follow v))\<rparr> else v)"

section \<open>Travel watch\<close>

definition view_eligible :: "view \<Rightarrow> watch_entry \<Rightarrow> bool" where
  "view_eligible v e \<longleftrightarrow> enabled v (te_category e) \<and>
     has_category (s_alert_categories (v_settings v)) (te_category e) \<and>
     max 50 (s_threshold (v_settings v)) \<le> te_score e \<and> \<not> is_ignored (te_hash e) (collection v)"

definition view_warning :: "view \<Rightarrow> watch_entry option" where
  "view_warning v =
     (let w = v_tag_watch v
      in if \<not> tw_armed w \<or> tw_demo w \<noteq> v_demo v \<or> \<not> listening v \<or> v_now v < snoozed_until v then None
         else find (\<lambda>e. watch_ready (v_now v) e \<and> \<not> te_acknowledged e \<and> view_eligible v e) (tw_entries w))"

definition update_tag_watch :: "view \<Rightarrow> view" where
  "update_tag_watch v =
     (let v = (if tw_demo (v_tag_watch v) \<noteq> v_demo v
               then v\<lparr>v_tag_watch := watch_clear (v_tag_watch v), v_watch_review := 0\<rparr> else v);
          v = v\<lparr>v_tag_watch := fold (\<lambda>i w.
                let e = tw_entries w ! i
                in if te_hash e \<noteq> 0 \<and> (\<not> watch_fresh (v_now v) e \<or> \<not> view_eligible v e \<or> \<not> listening v)
                   then watch_drop i (\<not> watch_fresh (v_now v) e) w else w)
                [0..<length (tw_entries (v_tag_watch v))] (v_tag_watch v)\<rparr>
      in if v_screen v = TagWatch \<and> v_watch_review v = 0
         then (case view_warning v of Some e \<Rightarrow> v\<lparr>v_watch_review := te_hash e\<rparr> | None \<Rightarrow> v)
         else v)"

definition watch_count :: "view \<Rightarrow> nat" where
  "watch_count v = length (filter (\<lambda>e. watch_fresh (v_now v) e \<and> view_eligible v e)
     (tw_entries (v_tag_watch v)))"

text \<open>The first recent tag, no older than 90 seconds, that a filter excludes, and what excludes it.\<close>

fun hint_from :: "view \<Rightarrow> detection list \<Rightarrow> string option" where
  "hint_from v [] = None"
| "hint_from v (d # ds) =
     (if d_demo d \<noteq> v_demo v \<or> \<not> is_tag (d_category d) \<or> v_now v < d_last_ms d \<or>
         90000 < v_now v - d_last_ms d then hint_from v ds
      else if \<not> enabled v (d_category d) then Some ''RECENT TAG DETECTOR IS DISABLED''
      else if \<not> has_category (s_alert_categories (v_settings v)) (d_category d)
        then Some ''RECENT TAG ALERT TYPE IS OFF''
      else if d_score d < 50 then Some ''RECENT TAG EVIDENCE BELOW MEDIUM''
      else hint_from v ds)"

definition watch_hint :: "view \<Rightarrow> string" where
  "watch_hint v =
     (if \<not> tw_armed (v_tag_watch v) then ''WATCH OFF / START IN CONTROLS''
      else if \<not> listening v then ''SNIFFING PAUSED / NO TIMING''
      else if v_now v < snoozed_until v then ''ALERTS SNOOZED / RESUME IN CONTROLS''
      else if watch_count v \<noteq> 0 then ''SEEN = LAST SIGHTING / 2 MIN GAP RESTARTS''
      else if s_threshold (v_settings v) = 80 then ''HIGH FILTER EXCLUDES SAMSUNG / FIND MY''
      else case hint_from v (take (v_recent_count v) (v_recent v)) of
          Some hint \<Rightarrow> hint
        | None \<Rightarrow> if ignored_count (collection v) \<noteq> 0 then ''NO TIMERS / CHECK IGNORED SCENTS''
                  else ''WAITING FOR TAGS / NO MOVEMENT PROOF'')"

definition watch_red :: "view \<Rightarrow> bool" where
  "watch_red v \<longleftrightarrow> s_onboarded (v_settings v) \<and> v_screen v \<noteq> Calibration \<and> v_screen v \<noteq> SelfTest \<and>
     view_warning v \<noteq> None \<and>
     (\<not> tw_flash (v_tag_watch v) \<or> s_reduced_animation (v_settings v) \<or> v_now v mod 2000 < 1000)"

definition open_tag_watch :: "view \<Rightarrow> view" where
  "open_tag_watch v =
     v\<lparr>v_watch_review := (case view_warning v of Some e \<Rightarrow> te_hash e | None \<Rightarrow> 0), v_watch_page := 0,
       v_screen := (if view_warning v \<noteq> None \<or> \<not> tw_armed (v_tag_watch v) then TagWatch else WatchProgress)\<rparr>"

section \<open>Idle display\<close>

definition wake_display :: "bool \<Rightarrow> view \<Rightarrow> view \<times> bool" where
  "wake_display alert v =
     (let was_idle = (v_display_mode v \<noteq> Active); v = (if alert \<and> was_idle then v\<lparr>v_screen := Home\<rparr> else v)
      in (v\<lparr>v_last_activity := v_now v, v_alert_wake_until := 0, v_saver_preview := False,
            v_display_mode := Active\<rparr>, was_idle))"

definition wake_for_alert :: "view \<Rightarrow> view" where
  "wake_for_alert v =
     (if v_alert_wake_until v \<noteq> 0 \<and>
         (v_now v < v_alert_wake_until v \<or> v_now v - v_alert_wake_until v < 25000) then v
      else let v = v\<lparr>v_alert_wake_until := v_now v + 5000\<rparr>;
               v = (if v_display_mode v \<noteq> Active then v\<lparr>v_screen := Home\<rparr> else v)
           in v\<lparr>v_saver_preview := False, v_display_mode := Active\<rparr>)"

definition preview_saver :: "view \<Rightarrow> view" where
  "preview_saver v = (fst (wake_display False v))\<lparr>v_saver_since := v_now v, v_saver_preview := True,
     v_display_mode := Saver\<rparr>"

definition idle_due :: "view \<Rightarrow> u8 \<Rightarrow> bool" where
  "idle_due v minutes \<longleftrightarrow> minutes \<noteq> 0 \<and> ucast minutes * 60000 \<le> v_now v - v_last_activity v"

definition next_mode :: "view \<Rightarrow> display_mode" where
  "next_mode v = (if v_saver_preview v then Saver
     else if idle_due v (ap_off_minutes (look v)) \<and> \<not> tw_armed (v_tag_watch v) then Display_Off
     else if idle_due v (ap_saver_minutes (look v)) then Saver
     else if idle_due v (ap_dim_minutes (look v)) then Dim else Active)"

definition update_display :: "view \<Rightarrow> view" where
  "update_display v =
     (let v = (if v_now v < v_last_activity v then fst (wake_display False v) else v);
          alert = (view_warning v \<noteq> None)
      in if \<not> s_onboarded (v_settings v) \<or> v_screen v = Calibration \<or> v_screen v = SelfTest \<or> alert \<or>
            v_export_status v = Exporting \<or> v_eject_status v = Ejecting then fst (wake_display alert v)
         else if v_now v < v_alert_wake_until v \<and> v_now v < v_alert_until v then v\<lparr>v_display_mode := Active\<rparr>
         else let mode = next_mode v;
                  v = (if mode = Saver \<and> v_display_mode v \<noteq> Saver \<and> \<not> v_saver_preview v
                       then v\<lparr>v_saver_since := v_last_activity v + ucast (ap_saver_minutes (look v)) * 60000\<rparr>
                       else v)
              in v\<lparr>v_display_mode := mode\<rparr>)"

definition display_brightness :: "view \<Rightarrow> nat" where
  "display_brightness v = (case v_display_mode v of Display_Off \<Rightarrow> 0
     | Active \<Rightarrow> unat (s_brightness (v_settings v))
     | _ \<Rightarrow> min (unat (s_brightness (v_settings v))) 15)"

definition view_width :: "view \<Rightarrow> int" where
  "view_width v = panel_width (s_portrait (v_settings v))"

definition view_height :: "view \<Rightarrow> int" where
  "view_height v = panel_height (s_portrait (v_settings v))"

definition bounce :: "u64 \<Rightarrow> int \<Rightarrow> int" where
  "bounce distance limit = (let phase = uint distance mod (2 * limit)
     in (if phase \<le> limit then phase else 2 * limit - phase) + 8)"

definition saver_position :: "view \<Rightarrow> point" where
  "saver_position v =
     (let elapsed = (if v_saver_since v \<le> v_now v then v_now v - v_saver_since v else 0);
          elapsed = (if s_reduced_animation (v_settings v) then elapsed div 15000 * 15000 else elapsed)
      in \<lparr>pt_x = bounce (37 + elapsed div 40) (view_width v - 144),
          pt_y = bounce (23 + elapsed div 55) (view_height v - 144)\<rparr>)"

text \<open>
  What drawing the first strip of a frame records: the alert that the Home screen shows is kept for the tap
  that may follow.
\<close>

definition blanked :: "view \<Rightarrow> bool" where
  "blanked v \<longleftrightarrow> v_display_mode v = Saver \<or> v_display_mode v = Display_Off"

definition alert_visible :: "view \<Rightarrow> bool" where
  "alert_visible v \<longleftrightarrow> v_screen v = Home \<and> view_warning v = None \<and> v_now v < v_alert_until v"

definition begin_frame :: "view \<Rightarrow> view" where
  "begin_frame v =
     (let v = v\<lparr>v_frame_presented := True, v_home_alert_shown := False\<rparr>
      in if \<not> blanked v \<and> alert_visible v then v\<lparr>v_action_detection := v_alert_detection v, v_home_alert_shown := True\<rparr> else v)"

section \<open>Export and eject\<close>

definition sd_gone :: "eject_status \<Rightarrow> bool" where
  "sd_gone e \<longleftrightarrow> e = Ejecting \<or> e = Eject_Safe \<or> e = Eject_Failed"

definition request_eject :: "view \<Rightarrow> view" where
  "request_eject v =
     (if v_demo v then v\<lparr>v_eject_status := Eject_Demo\<rparr>
      else if sd_gone (v_eject_status v) then v
      else if \<not> v_sd v then v\<lparr>v_eject_status := Eject_NoCard\<rparr>
      else ask Eject (v\<lparr>v_eject_status := Ejecting\<rparr>))"

definition eject_queued :: "bool \<Rightarrow> view \<Rightarrow> view" where
  "eject_queued accepted v =
     (if v_eject_status v = Ejecting \<and> \<not> accepted then v\<lparr>v_eject_status := Eject_QueueFull\<rparr> else v)"

definition eject_progress :: "bool \<Rightarrow> bool \<Rightarrow> view \<Rightarrow> view" where
  "eject_progress stopped failed v =
     (if \<not> v_demo v \<and> stopped then v\<lparr>v_eject_status := (if failed then Eject_Failed else Eject_Safe)\<rparr> else v)"

definition eject_message :: "view \<Rightarrow> string" where
  "eject_message v = (case v_eject_status v of
       Ejecting \<Rightarrow> ''EJECTING...''
     | Eject_Safe \<Rightarrow> ''SAFE TO REMOVE''
     | Eject_Failed \<Rightarrow> ''FAILED / POWER OFF''
     | Eject_QueueFull \<Rightarrow> ''BUSY / TAP TO RETRY''
     | Eject_NoCard \<Rightarrow> ''NO MOUNTED CARD''
     | Eject_Demo \<Rightarrow> ''DEMO / NO CARD EJECTED''
     | Eject_Idle \<Rightarrow> [])"

definition request_export :: "view \<Rightarrow> view" where
  "request_export v =
     (if v_export_status v = Exporting then v
      else if v_demo v then v\<lparr>v_export_status := Export_Demo\<rparr>
      else if v_sd_checking v then v\<lparr>v_export_status := Export_Checking\<rparr>
      else if \<not> v_sd v \<or> sd_gone (v_eject_status v) then v\<lparr>v_export_status := Export_NoCard\<rparr>
      else if v_sd_read_only v then v\<lparr>v_export_status := Export_ReadOnly\<rparr>
      else if v_sd_error v then v\<lparr>v_export_status := Export_Failed\<rparr>
      else ask Export (v\<lparr>v_export_status := Exporting\<rparr>))"

definition export_queued :: "bool \<Rightarrow> view \<Rightarrow> view" where
  "export_queued accepted v =
     (if v_export_status v = Exporting \<and> \<not> accepted then v\<lparr>v_export_status := Export_QueueFull\<rparr> else v)"

definition export_progress :: "u32 \<Rightarrow> u32 \<Rightarrow> view \<Rightarrow> view" where
  "export_progress completed rows v =
     (let v = (if v_export_status v = Exporting
               then if completed \<noteq> v_export_count v
                    then v\<lparr>v_exported_rows := rows, v_export_status := Export_Complete\<rparr>
                    else if v_sd_error v then v\<lparr>v_export_status := Export_Failed\<rparr>
                    else if v_sd_read_only v then v\<lparr>v_export_status := Export_ReadOnly\<rparr>
                    else if \<not> v_sd v then v\<lparr>v_export_status := Export_NoCard\<rparr> else v
               else v)
      in v\<lparr>v_export_count := completed\<rparr>)"

definition export_message :: "nat \<Rightarrow> view \<Rightarrow> string" where
  "export_message capacity v = take (capacity - 1) (case v_export_status v of
       Export_Complete \<Rightarrow> ''COMPLETE: '' @ decimal (unat (v_exported_rows v)) @ '' RECORDS''
     | Export_Checking \<Rightarrow> ''CHECKING SD / EXPORT AFTER CHECK''
     | Exporting \<Rightarrow> ''EXPORTING...''
     | Export_NoCard \<Rightarrow> ''INSERT SD / RESTART''
     | Export_ReadOnly \<Rightarrow> ''SD READ ONLY''
     | Export_Failed \<Rightarrow> ''FAILED / CHECK SD''
     | Export_QueueFull \<Rightarrow> ''BUSY / TAP TO RETRY''
     | Export_Demo \<Rightarrow> ''DEMO / NO FILES SAVED''
     | Export_Idle \<Rightarrow> [])"

section \<open>Detections\<close>

text \<open>The travel-watch part of \<open>event\<close>: the older service-only entry is dropped, then the sighting counts.\<close>

definition watch_event :: "keyed_digest \<Rightarrow> detection \<Rightarrow> view \<Rightarrow> view" where
  "watch_event hmac d v =
     (if d_demo d = v_demo v \<and> is_tag (d_category d)
      then let hash = identity hmac d v;
               legacy = (if samsung_identity d
                 then watch_find (address_hash hmac (v_identity_key v) d) (tw_entries (v_tag_watch v)) else None);
               v = (case legacy of
                 Some i \<Rightarrow> v\<lparr>v_tag_watch := watch_drop i False (v_tag_watch v)\<rparr> | None \<Rightarrow> v)
           in if listening v \<and> enabled v (d_category d) \<and> should_alert (v_settings v) d \<and>
                 50 \<le> d_score d \<and> \<not> scent_ignored hmac d v
              then v\<lparr>v_tag_watch := watch_observe hash d (v_now v) (v_tag_watch v)\<rparr>
              else case watch_find hash (tw_entries (v_tag_watch v)) of
                  Some i \<Rightarrow> v\<lparr>v_tag_watch := watch_drop i False (v_tag_watch v)\<rparr>
                | None \<Rightarrow> v
      else v)"

definition on_book :: "bool \<Rightarrow> (companion \<Rightarrow> companion) \<Rightarrow> view \<Rightarrow> view" where
  "on_book demo f v = (if demo then v\<lparr>v_preview_companion := f (v_preview_companion v)\<rparr>
     else v\<lparr>v_companion := f (v_companion v)\<rparr>)"

text \<open>\<open>std::countr_zero\<close>\<close>

definition lowest_bit :: "u8 \<Rightarrow> nat" where
  "lowest_bit w = length (takeWhile (\<lambda>i. \<not> bit w i) [0..<32])"

definition book_event :: "detection \<Rightarrow> view \<Rightarrow> view" where
  "book_event d v =
     (let book = (\<lambda>v. if d_demo d then v_preview_companion v else v_companion v);
          first = (se_observations (co_scents (book v) ! category_index (d_category d)) = 0);
          v = on_book (d_demo d) (observe_scent d) v;
          v = (if d_demo d \<and> d_meal d
               then v\<lparr>v_preview_xp := of_nat (min 4294967295 (unat (v_preview_xp v) + 25))\<rparr> else v);
          (c, unlocked) = unlock (if d_demo d then v_preview_xp v else p_xp (v_pet v)) (book v);
          v = on_book (d_demo d) (\<lambda>_. c) v;
          v = (if unlocked \<noteq> 0
               then v\<lparr>v_unlocked_outfit := lowest_bit unlocked, v_unlock_until := v_now v + 12000\<rparr> else v);
          v = (if \<not> d_demo d \<and> (first \<or> unlocked \<noteq> 0) then ask Save v else v);
          v = (if \<not> d_demo d \<and> v_known_level v < pet_level (v_pet v)
               then v\<lparr>v_level_until := v_now v + 11000\<rparr> else v)
      in v\<lparr>v_known_level := pet_level (v_pet v)\<rparr>)"

definition remember :: "detection \<Rightarrow> view \<Rightarrow> view" where
  "remember d v = v\<lparr>v_recent := d # butlast (v_recent v),
     v_recent_count := min (v_recent_count v + 1) (length (v_recent v))\<rparr>"

definition same_alert :: "detection \<Rightarrow> detection \<Rightarrow> bool" where
  "same_alert d pending =
     (if samsung_identity d \<and> samsung_identity pending
      then st_id (d_samsung d) = st_id (d_samsung pending)
      else d_category d = d_category pending \<and> d_radio d = d_radio pending \<and>
           d_address d = d_address pending \<and> d_address_type d = d_address_type pending)"

definition alert_event :: "keyed_digest \<Rightarrow> detection \<Rightarrow> view \<Rightarrow> view" where
  "alert_event hmac d v =
     (if alert_allowed hmac d v
      then (wake_for_alert v)\<lparr>v_alert_detection := d, v_alert_until := v_now v + 5000\<rparr>
      else if v_alert_until v \<noteq> 0 \<and> d_demo d = d_demo (v_alert_detection v) \<and> same_alert d (v_alert_detection v)
        then v\<lparr>v_alert_until := 0\<rparr> else v)"

definition meal_duration :: u64 where
  "meal_duration = 7000"

definition meal_event :: "detection \<Rightarrow> view \<Rightarrow> view" where
  "meal_event d v =
     (if d_meal d
      then let v = v\<lparr>v_meal_category := d_category d, v_meal_until := v_now v + meal_duration,
                     v_celebration_until := v_now v + meal_duration + 2500\<rparr>
           in if v_demo v \<and> d_demo d
              then let (fullness, mood) = nourish (d_score d) (v_preview_fullness v, v_preview_mood v)
                   in v\<lparr>v_preview_fullness := fullness, v_preview_mood := mood, v_preview_decay_ms := v_now v\<rparr>
              else v
      else v)"

definition event :: "keyed_digest \<Rightarrow> detection \<Rightarrow> view \<Rightarrow> view" where
  "event hmac d v =
     (if v_paused v \<or> category_count \<le> category_index (d_category d) \<or> 100 < d_score d then v
      else meal_event d (alert_event hmac d (remember d (book_event d (watch_event hmac d (update_tag_watch v))))))"

section \<open>Animation, clock and notices\<close>

record snack_pose =
  sp_phase :: snack_phase
  sp_frame :: int
  sp_approach :: int
  sp_bites :: int

definition side_walk :: int where
  "side_walk = 25"

definition side_eat :: int where
  "side_eat = 29"

definition snack_pose_of :: "view \<Rightarrow> snack_pose" where
  "snack_pose_of v =
     (if v_meal_until v \<le> v_now v then \<lparr>sp_phase = Snack_None, sp_frame = 0, sp_approach = 0, sp_bites = 0\<rparr>
      else if s_reduced_animation (v_settings v)
        then \<lparr>sp_phase = Chew, sp_frame = side_eat, sp_approach = 100, sp_bites = 0\<rparr>
      else let elapsed = uint (v_now v - (v_meal_until v - meal_duration))
           in if elapsed < 450
                then \<lparr>sp_phase = Turn, sp_frame = 11 + elapsed div 225, sp_approach = 0, sp_bites = 0\<rparr>
              else if elapsed < 2300
                then \<lparr>sp_phase = Approach, sp_frame = side_walk + (elapsed - 450) div 140 mod 4,
                      sp_approach = (elapsed - 450) * 100 div 1850, sp_bites = 0\<rparr>
              else if elapsed < 5700
                then \<lparr>sp_phase = Chew, sp_frame = side_eat + (elapsed - 2300) div 160 mod 4, sp_approach = 100,
                      sp_bites = min 4 ((elapsed - 2300) div 800)\<rparr>
              else \<lparr>sp_phase = Happy, sp_frame = 22 + (elapsed - 5700) div 180 mod 3, sp_approach = 100,
                    sp_bites = 4\<rparr>)"

definition celebrating :: "view \<Rightarrow> bool" where
  "celebrating v \<longleftrightarrow> \<not> v_paused v \<and> v_now v < v_celebration_until v \<and>
     (v_meal_until v \<le> v_now v \<or> sp_phase (snack_pose_of v) = Happy)"

definition celebration_jump :: "view \<Rightarrow> int" where
  "celebration_jump v =
     (if \<not> celebrating v \<or> s_reduced_animation (v_settings v) then 0
      else let start = v_celebration_until v - 3800; phase = uint ((v_now v - start) mod 900)
           in if phase < 600 then (if phase < 300 then phase else 600 - phase) * 14 div 300 else 0)"

definition speaking :: "view \<Rightarrow> bool" where
  "speaking v \<longleftrightarrow> ap_speech (look v) \<noteq> 0 \<and> (v_now v < v_happy_until v \<or>
     (if ap_speech (look v) = 2 then v_now v mod 12000 < 8000 else v_now v mod 24000 < 5000))"

definition memory_status :: "u32 \<Rightarrow> view \<Rightarrow> view" where
  "memory_status free v = v\<lparr>v_low_heap := (free < 80000)\<rparr>"

definition home_notice :: "view \<Rightarrow> string" where
  "home_notice v = (if v_notice v \<noteq> [] then v_notice v
     else if v_save_pending v then ''SAVE WAITING / RETRYING''
     else if v_low_heap v then ''LOW HEAP - SEE DIAGNOSTICS'' else [])"

definition utc_now :: "view \<Rightarrow> u64" where
  "utc_now v = (if v_clock_seconds v \<noteq> 0 \<and> v_clock_set_ms v \<le> v_now v
     then v_clock_seconds v + (v_now v - v_clock_set_ms v) div 1000 else 0)"

definition rotate_view :: "view \<Rightarrow> view" where
  "rotate_view v =
     (let v = fst (wake_display False v)
      in if v_screen v = Calibration \<or> s_rotation_locked (v_settings v) then v
         else ask Save (ask Rotate (v\<lparr>v_settings := (v_settings v)\<lparr>s_portrait := \<not> s_portrait (v_settings v)\<rparr>\<rparr>)))"

definition next_screen :: "view \<Rightarrow> view" where
  "next_screen v =
     (let (v, was_idle) = wake_display False v
      in if was_idle then v
         else let v = v\<lparr>v_screen := (if v_screen v = Home then Log else if v_screen v = Log then Detectors
                        else if v_screen v = Detectors then Settings else Home)\<rparr>
              in if v_screen v = Settings then v\<lparr>v_settings_page := 0\<rparr> else v)"
end
