(* ===== verification/Taps.thy ===== *)
theory Taps
  imports View
begin

text \<open>
  Touch handling: the layout rectangles and \<open>View::tap\<close> of \<open>ui.cpp\<close>, one definition per screen,
  composed by \<open>tap\<close> in the order of the code.  Successive \<open>if\<close> statements of a handler that do not
  return are successive updates.
\<close>

section \<open>Layout\<close>

record rect =
  rc_x :: int
  rc_y :: int
  rc_w :: int
  rc_h :: int

definition has :: "rect \<Rightarrow> int \<times> int \<Rightarrow> bool" where
  "has r p = (case p of (px, py) \<Rightarrow> rc_x r \<le> px \<and> px < rc_x r + rc_w r \<and> rc_y r \<le> py \<and> py < rc_y r + rc_h r)"

definition mk_rect :: "int \<Rightarrow> int \<Rightarrow> int \<Rightarrow> int \<Rightarrow> rect" where
  "mk_rect x y w h = \<lparr>rc_x = x, rc_y = y, rc_w = w, rc_h = h\<rparr>"

text \<open>\<open>Layout(portrait)\<close> has the panel's width and height; each rectangle is a function of it.\<close>

definition l_book :: "bool \<Rightarrow> nat \<Rightarrow> rect" where
  "l_book p i = (let cols = (if p then 2 else 3); cw = (panel_width p - 24) div cols
     in mk_rect (12 + (int i mod cols) * cw) ((if p then 78 else 68) + (int i div cols) * (if p then 100 else 80))
          (cw - 6) (if p then 94 else 74))"

definition l_book_coverage :: "bool \<Rightarrow> rect" where
  "l_book_coverage p = mk_rect 12 (panel_height p - 40) (panel_width p - 24) 28"

definition l_home_book :: "bool \<Rightarrow> rect" where
  "l_home_book p = (if p then mk_rect 238 32 70 25 else mk_rect 390 32 78 25)"

definition l_home_watch :: "bool \<Rightarrow> rect" where
  "l_home_watch p = (if p then mk_rect 168 32 64 25 else mk_rect 302 32 80 25)"

definition l_home_follow :: "bool \<Rightarrow> rect" where
  "l_home_follow p = (if p then mk_rect 180 264 116 22 else mk_rect 238 32 56 25)"

definition l_quiet :: "bool \<Rightarrow> rect" where
  "l_quiet p = (if p then mk_rect 180 362 118 28 else mk_rect 312 186 146 30)"

definition l_sniff :: "bool \<Rightarrow> rect" where
  "l_sniff p = (if p then mk_rect 16 398 288 32 else mk_rect 306 226 162 30)"

definition l_row :: "bool \<Rightarrow> nat \<Rightarrow> rect" where
  "l_row p i = mk_rect 12 ((if p then 80 else 66) + int i * (if p then 55 else 34)) (panel_width p - 24)
     (if p then 48 else 30)"

definition l_more :: "bool \<Rightarrow> rect" where
  "l_more p = mk_rect 12 (panel_height p - 82) (panel_width p - 24) 32"

definition l_choice :: "bool \<Rightarrow> nat \<Rightarrow> rect" where
  "l_choice p i = (let cols = (if p then 2 else 3); cw = (panel_width p - 24) div cols
     in mk_rect (12 + (int i mod cols) * cw) ((if p then 88 else 70) + (int i div cols) * (if p then 106 else 98))
          (cw - 8) (if p then 98 else 90))"

definition l_key :: "bool \<Rightarrow> nat \<Rightarrow> rect" where
  "l_key p i = (let cols = (if p then 6 else 10); step = (if p then 48 else 44)
     in mk_rect ((if p then 16 else 20) + (int i mod cols) * step)
          ((if p then 128 else 110) + (int i div cols) * (if p then 48 else 42)) (step - 4) (if p then 44 else 38))"

definition l_confirm :: "bool \<Rightarrow> bool \<Rightarrow> rect" where
  "l_confirm p right = mk_rect (if right then panel_width p div 2 + 4 else 12) (panel_height p - 82)
     (panel_width p div 2 - 16) 32"

definition l_detector :: "bool \<Rightarrow> nat \<Rightarrow> rect" where
  "l_detector p i = mk_rect 12 ((if p then 80 else 64) + int i * (if p then 68 else 43)) (panel_width p - 24)
     (if p then 60 else 39)"

definition l_log :: "bool \<Rightarrow> nat \<Rightarrow> rect" where
  "l_log p i = l_detector p i"

section \<open>Handlers\<close>

text \<open>\<open>if (c) { f }\<close> as one of several successive statements.\<close>

definition upon :: "bool \<Rightarrow> ('a \<Rightarrow> 'a) \<Rightarrow> 'a \<Rightarrow> 'a" where
  "upon c f v = (if c then f v else v)"

definition goto :: "screen \<Rightarrow> view \<Rightarrow> view" where
  "goto s v = v\<lparr>v_screen := s\<rparr>"

definition on_settings :: "(settings \<Rightarrow> settings) \<Rightarrow> view \<Rightarrow> view" where
  "on_settings f v = v\<lparr>v_settings := f (v_settings v)\<rparr>"

definition toggle_snooze :: "view \<Rightarrow> view" where
  "toggle_snooze v = snooze (if v_now v < snoozed_until v then 0 else v_now v + 900000) v"

definition recheck_alert :: "keyed_digest \<Rightarrow> view \<Rightarrow> view" where
  "recheck_alert hmac v = upon (\<not> alert_allowed hmac (v_alert_detection v) v) (\<lambda>v. v\<lparr>v_alert_until := 0\<rparr>) v"

definition tap_watch_progress :: "int \<times> int \<Rightarrow> view \<Rightarrow> view" where
  "tap_watch_progress xy v =
     (let p = s_portrait (v_settings v);
          v = upon (has (mk_rect (panel_width p - 108) 32 96 25) xy)
                (\<lambda>v. v\<lparr>v_watch_review := (case view_warning v of Some e \<Rightarrow> te_hash e | None \<Rightarrow> 0),
                       v_screen := TagWatch\<rparr>) v;
          v = upon (has (l_confirm p False) xy) (goto Home) v
      in upon (has (l_confirm p True) xy)
           (\<lambda>v. v\<lparr>v_watch_page := (v_watch_page v + 1) mod max 1 ((watch_count v + 3) div 4)\<rparr>) v)"

definition review_entry :: "view \<Rightarrow> nat option" where
  "review_entry v = (case watch_find (v_watch_review v) (tw_entries (v_tag_watch v)) of
     None \<Rightarrow> None
   | Some i \<Rightarrow> let e = tw_entries (v_tag_watch v) ! i
               in if watch_ready (v_now v) e \<and> view_eligible v e then Some i else None)"

definition acknowledge :: "nat \<Rightarrow> view \<Rightarrow> view" where
  "acknowledge i v = v\<lparr>v_tag_watch := (v_tag_watch v)\<lparr>tw_entries := (tw_entries (v_tag_watch v))
     [i := (tw_entries (v_tag_watch v) ! i)\<lparr>te_acknowledged := True\<rparr>]\<rparr>, v_screen := Home\<rparr>"

definition ignore_watched :: "keyed_digest \<Rightarrow> nat \<Rightarrow> view \<Rightarrow> view" where
  "ignore_watched hmac i v =
     (let e = tw_entries (v_tag_watch v) ! i; (c, ok) = ignore (te_hash e) (te_category e) (collection v)
      in if ok then goto Home (update_tag_watch (recheck_alert hmac (ask Save (on_collection (\<lambda>_. c) v))))
         else (on_collection (\<lambda>_. c) v)\<lparr>v_notice := ''IGNORE LIST FULL / REMOVE AN ENTRY''\<rparr>)"

definition tap_tag_watch :: "keyed_digest \<Rightarrow> int \<times> int \<Rightarrow> view \<Rightarrow> view" where
  "tap_tag_watch hmac xy v =
     (let p = s_portrait (v_settings v)
      in if has (mk_rect (panel_width p - 150) 32 78 25) xy then v\<lparr>v_watch_page := 0, v_screen := WatchProgress\<rparr>
         else
           let v = upon (has (l_row p 0) xy) (\<lambda>v.
                 (if tw_armed (v_tag_watch v) then v\<lparr>v_tag_watch := watch_clear (v_tag_watch v)\<rparr>
                  else v\<lparr>v_tag_watch := watch_start (v_now v) (v_demo v) (v_tag_watch v),
                         v_screen := WatchProgress, v_watch_page := 0\<rparr>)\<lparr>v_watch_review := 0, v_notice := []\<rparr>) v;
               v = upon (has (l_row p 1) xy) (\<lambda>v. v\<lparr>v_tag_watch := (v_tag_watch v)\<lparr>tw_flash :=
                 \<not> tw_flash (v_tag_watch v)\<rparr>\<rparr>) v
           in if review_entry v = None \<and> has (l_row p 2) xy \<and> view_warning v \<noteq> None then open_tag_watch v
              else
                let v = (case review_entry v of
                      None \<Rightarrow> v
                    | Some i \<Rightarrow> upon (has (l_row p 3) xy) (ignore_watched hmac i)
                                  (upon (has (l_row p 2) xy) (acknowledge i) v));
                    v = upon (has (l_row p 4) xy) (goto Home) v
                in upon (has (l_more p) xy)
                     (\<lambda>v. (toggle_snooze v)\<lparr>v_alert_until := 0, v_screen := Home\<rparr>) v)"

definition toggle_sniffing :: "view \<Rightarrow> view" where
  "toggle_sniffing v =
     (let v = v\<lparr>v_paused := \<not> v_paused v, v_follow := follow_restart (v_now v) (v_follow v)\<rparr>;
          v = upon (tw_armed (v_tag_watch v))
                (\<lambda>v. v\<lparr>v_tag_watch := watch_start (v_now v) (v_demo v) (v_tag_watch v)\<rparr>) v;
          v = ask Pause (v\<lparr>v_watch_review := 0\<rparr>)
      in v\<lparr>v_alert_until := 0, v_meal_until := 0, v_happy_until := 0, v_celebration_until := 0,
           v_scanning := \<not> v_paused v, v_notice := []\<rparr>)"

definition open_wardrobe :: "view \<Rightarrow> view" where
  "open_wardrobe v =
     (let v = on_collection (\<lambda>c. fst (unlock (if v_demo v then v_preview_xp v else p_xp (v_pet v)) c)) v
      in v\<lparr>v_wardrobe_index := unat (co_equipped (collection v)), v_screen := Wardrobe\<rparr>)"

definition tap_follow :: "int \<times> int \<Rightarrow> view \<Rightarrow> view" where
  "tap_follow xy v =
     (let p = s_portrait (v_settings v); v = upon (has (l_confirm p False) xy) (goto Home) v
      in upon (has (l_confirm p True) xy) (\<lambda>v. v\<lparr>v_follow := follow0, v_screen := Home\<rparr>) v)"

definition tap_display :: "int \<times> int \<Rightarrow> view \<Rightarrow> view" where
  "tap_display xy v =
     (let p = s_portrait (v_settings v);
          v = upon (has (l_row p 0) xy) (\<lambda>v. ask Save (on_settings (\<lambda>s. s\<lparr>s_brightness :=
                (if 100 \<le> s_brightness s then 20 else s_brightness s + 20)\<rparr>) v)) v;
          v = upon (has (l_row p 1) xy) (\<lambda>v. ask Invert (ask Save
                (on_look (\<lambda>a. a\<lparr>ap_inverted := ap_inverted a XOR 1\<rparr>) v))) v;
          v = upon (has (l_row p 2) xy) (\<lambda>v. ask Save (on_settings (\<lambda>s. s\<lparr>s_reduced_animation :=
                \<not> s_reduced_animation s\<rparr>) v)) v;
          v = upon (has (l_row p 3) xy) (goto SelfTest) v;
          v = upon (has (l_row p 4) xy) (goto IdleDisplay) v
      in upon (has (l_more p) xy) (goto Settings) v)"

definition tap_idle_display :: "int \<times> int \<Rightarrow> view \<Rightarrow> view" where
  "tap_idle_display xy v =
     (let p = s_portrait (v_settings v);
          v = upon (has (l_row p 0) xy) (\<lambda>v. ask Save (on_look (\<lambda>a. a\<lparr>ap_dim_minutes :=
                next_timeout (ap_dim_minutes a)\<rparr>) v)) v;
          v = upon (has (l_row p 1) xy) (\<lambda>v. ask Save (on_look (\<lambda>a. a\<lparr>ap_saver_minutes :=
                next_timeout (ap_saver_minutes a)\<rparr>) v)) v;
          v = upon (has (l_row p 2) xy) (\<lambda>v. ask Save (on_look (\<lambda>a. a\<lparr>ap_off_minutes :=
                next_timeout (ap_off_minutes a)\<rparr>) v)) v;
          v = upon (has (l_row p 3) xy) preview_saver v;
          v = upon (has (l_row p 4) xy) (goto Display) v
      in upon (has (l_more p) xy) (goto Home) v)"

text \<open>\<open>(field + 1) % n\<close> on a byte\<close>

definition cycle :: "int \<Rightarrow> u8 \<Rightarrow> u8" where
  "cycle n b = word_of_int ((uint b + 1) mod n)"

definition tap_appearance :: "int \<times> int \<Rightarrow> view \<Rightarrow> view" where
  "tap_appearance xy v =
     (let p = s_portrait (v_settings v);
          v = upon (has (l_row p 0) xy) (on_look (\<lambda>a. a\<lparr>ap_theme := cycle 3 (ap_theme a)\<rparr>)) v;
          v = upon (has (l_row p 1) xy) (on_look (\<lambda>a. a\<lparr>ap_scene := cycle 3 (ap_scene a)\<rparr>)) v;
          v = upon (has (l_row p 2) xy) (on_look (\<lambda>a. a\<lparr>ap_speech := cycle 3 (ap_speech a)\<rparr>)) v;
          v = upon (has (l_row p 3) xy) (on_look (\<lambda>a. a\<lparr>ap_compact := ap_compact a XOR 1\<rparr>)) v;
          v = upon (has (l_row p 4) xy) (goto Settings) v;
          v = upon (has (l_more p) xy) (goto Home) v
      in ask Save v)"

definition tap_coverage :: "int \<times> int \<Rightarrow> view \<Rightarrow> view" where
  "tap_coverage xy v =
     (let p = s_portrait (v_settings v)
      in if has (l_confirm p False) xy then goto ScentBook v
         else upon (has (l_confirm p True) xy) (\<lambda>v. v\<lparr>v_coverage_page := (v_coverage_page v + 1) mod 5\<rparr>) v)"

definition tap_scent_book :: "int \<times> int \<Rightarrow> view \<Rightarrow> view" where
  "tap_scent_book xy v =
     (let p = s_portrait (v_settings v)
      in if has (l_book_coverage p) xy then v\<lparr>v_coverage_page := 0, v_screen := Coverage\<rparr>
         else if has (l_confirm p False) xy then goto Settings v
         else if has (l_confirm p True) xy then v\<lparr>v_book_page := (v_book_page v + 1) mod 4\<rparr>
         else fold (\<lambda>i v. upon (has (l_book p i) xy \<and> v_book_page v * 6 + i < category_count)
                (\<lambda>v. v\<lparr>v_scent_index := v_book_page v * 6 + i, v_scent_page := 0, v_screen := ScentCard\<rparr>) v)
                [0..<6] v)"

definition tap_scent_card :: "int \<times> int \<Rightarrow> view \<Rightarrow> view" where
  "tap_scent_card xy v =
     (let p = s_portrait (v_settings v); v = upon (has (l_confirm p False) xy) (goto ScentBook) v
      in upon (has (l_confirm p True) xy) (\<lambda>v. v\<lparr>v_scent_page := (v_scent_page v + 1) mod 3\<rparr>) v)"

definition tap_wardrobe :: "int \<times> int \<Rightarrow> view \<Rightarrow> view" where
  "tap_wardrobe xy v =
     (let p = s_portrait (v_settings v);
          v = upon (has (mk_rect 12 68 44 120) xy)
                (\<lambda>v. v\<lparr>v_wardrobe_index := (v_wardrobe_index v + outfit_count - 1) mod outfit_count\<rparr>) v;
          v = upon (has (mk_rect (panel_width p - 56) 68 44 120) xy)
                (\<lambda>v. v\<lparr>v_wardrobe_index := (v_wardrobe_index v + 1) mod outfit_count\<rparr>) v;
          v = upon (has (l_confirm p False) xy) (goto Settings) v
      in upon (has (l_confirm p True) xy \<and> co_unlocked (collection v) AND push_bit (v_wardrobe_index v) 1 \<noteq> 0)
           (\<lambda>v. ask Save (on_collection (equip (v_wardrobe_index v)) v)) v)"

definition ignore_action :: "keyed_digest \<Rightarrow> view \<Rightarrow> view" where
  "ignore_action hmac v =
     (let d = v_action_detection v; c = (if d_demo d then v_preview_companion v else v_companion v);
          (c, ok) = ignore (identity hmac d v) (d_category d) c; v = on_book (d_demo d) (\<lambda>_. c) v
      in if ok then (goto Home (update_tag_watch (recheck_alert hmac (ask Save v))))
           \<lparr>v_notice := ''IGNORED / LOGS AND MEALS KEPT''\<rparr>
         else v\<lparr>v_notice := ''IGNORE UNAVAILABLE OR FULL / REMOVE AN ENTRY''\<rparr>)"

definition snooze_minutes :: "u64 list" where
  "snooze_minutes = [5, 15, 60]"

definition tap_alert_actions :: "keyed_digest \<Rightarrow> int \<times> int \<Rightarrow> view \<Rightarrow> view" where
  "tap_alert_actions hmac xy v =
     (let p = s_portrait (v_settings v)
      in case find (\<lambda>i. has (l_row p i) xy) [0..<3] of
           Some i \<Rightarrow> (snooze (v_now v + snooze_minutes ! i * 60000) v)\<lparr>v_alert_until := 0, v_screen := Home\<rparr>
         | None \<Rightarrow>
             let v = upon (has (l_row p 3) xy) (ignore_action hmac) v;
                 v = upon (has (l_row p 4) xy) (\<lambda>v. goto Home (snooze 0 v)) v
             in upon (has (l_more p) xy) (goto Home) v)"

definition tap_ignore_backup :: "int \<times> int \<Rightarrow> view \<Rightarrow> view" where
  "tap_ignore_backup xy v =
     (let p = s_portrait (v_settings v);
          v = upon (has (l_row p 0) xy) (\<lambda>v.
                if v_demo v then v\<lparr>v_notice := ''DEMO / NO SD WRITES''\<rparr>
                else if \<not> v_backup_pending v
                  then (ask BackupIgnores v)\<lparr>v_backup_pending := True, v_notice := ''BACKUP REQUESTED''\<rparr>
                else v) v
      in upon (has (l_more p) xy) (goto Ignored) v)"

definition clamp_ignored_page :: "view \<Rightarrow> view" where
  "clamp_ignored_page v = v\<lparr>v_ignored_page := min (v_ignored_page v) (ignored_pages v - 1)\<rparr>"

definition tap_ignored :: "int \<times> int \<Rightarrow> view \<Rightarrow> view" where
  "tap_ignored xy v =
     (let p = s_portrait (v_settings v);
          v = clamp_ignored_page v;
          v = upon (has (l_confirm p False) xy) (goto Settings) v;
          v = upon (has (l_confirm p True) xy)
                (\<lambda>v. v\<lparr>v_ignored_page := (v_ignored_page v + 1) mod ignored_pages v\<rparr>) v;
          v = upon (has (mk_rect (panel_width p - 148) (panel_height p - 42) 136 30) xy)
                (\<lambda>v. v\<lparr>v_screen := IgnoreBackup, v_notice := []\<rparr>) v
      in fold (\<lambda>i v. upon (has (l_detector p i) xy) (\<lambda>v.
             let slot = ignored_slot (v_ignored_page v * 4 + i) v
             in upon (slot < length (co_ignored (collection v)))
                  (\<lambda>v. clamp_ignored_page (ask Save (on_collection (forget slot) v))) v) v) [0..<4] v)"

definition l_digit :: "bool \<Rightarrow> nat \<Rightarrow> rect" where
  "l_digit p i = mk_rect (16 + (int i mod 5) * (panel_width p - 32) div 5) (120 + (int i div 5) * 48)
     ((panel_width p - 32) div 5 - 4) 44"

definition tap_clock :: "int \<times> int \<Rightarrow> view \<Rightarrow> view" where
  "tap_clock xy v =
     (let p = s_portrait (v_settings v); n = length (v_clock_input v)
      in case find (\<lambda>i. has (l_digit p i) xy \<and> n < 12) [0..<10] of
           Some i \<Rightarrow> v\<lparr>v_clock_input := v_clock_input v @ [char_of (48 + i)]\<rparr>
         | None \<Rightarrow>
             let v = upon (has (mk_rect 16 80 (panel_width p - 32) 32) xy \<and> n \<noteq> 0)
                       (\<lambda>v. v\<lparr>v_clock_input := butlast (v_clock_input v)\<rparr>) v;
                 v = upon (has (l_confirm p False) xy) (goto Settings) v
             in upon (has (l_confirm p True) xy) (\<lambda>v.
                  case parse_utc (v_clock_input v) of
                    Some seconds \<Rightarrow> v\<lparr>v_clock_seconds := of_nat seconds, v_clock_set_ms := v_now v,
                                      v_screen := Settings, v_notice := []\<rparr>
                  | None \<Rightarrow> v\<lparr>v_notice := ''USE YYYYMMDDHHMM / VALID UTC DATE''\<rparr>) v)"

definition on_battery :: "(battery_calibration \<Rightarrow> battery_calibration) \<Rightarrow> view \<Rightarrow> view" where
  "on_battery f v = ask Save (v\<lparr>v_battery_cal := f (v_battery_cal v)\<rparr>)"

definition tap_battery :: "int \<times> int \<Rightarrow> view \<Rightarrow> view" where
  "tap_battery xy v =
     (let p = s_portrait (v_settings v);
          v = upon (has (l_row p 0) xy) (\<lambda>v. v\<lparr>v_battery_point := (v_battery_point v + 1) mod 3\<rparr>) v;
          v = upon (has (l_row p 1) xy) (\<lambda>v. on_battery (\<lambda>b.
                let delta = (if fst xy < panel_width p div 2 then - 50 else 50); i = v_battery_point v
                in b\<lparr>bc_millivolts := (bc_millivolts b)[i := clamp_int (bc_millivolts b ! i + delta) 2500 4500],
                     bc_enabled := False\<rparr>) v) v;
          v = upon (has (l_row p 2) xy \<and> 0 \<le> v_battery_adc v \<and> v_battery_adc v \<le> 4095) (\<lambda>v. on_battery (\<lambda>b.
                b\<lparr>bc_adc := (bc_adc b)[v_battery_point v := v_battery_adc v], bc_enabled := False\<rparr>) v) v;
          v = upon (has (l_row p 3) xy) (on_battery (\<lambda>b. b\<lparr>bc_enabled := \<not> bc_enabled b \<and> valid_battery b\<rparr>)) v;
          v = upon (has (l_row p 4) xy) (on_battery (\<lambda>_. battery_calibration0)) v
      in upon (has (l_more p) xy) (goto Settings) v)"

definition tap_self_test :: "int \<times> int \<Rightarrow> view \<Rightarrow> view" where
  "tap_self_test xy v =
     (if has (l_more (s_portrait (v_settings v))) xy then goto Settings v
      else v\<lparr>v_self_test_taps := v_self_test_taps v + 1, v_touch := xy\<rparr>)"

definition tap_clear_warning :: "int \<times> int \<Rightarrow> view \<Rightarrow> view" where
  "tap_clear_warning xy v =
     (let p = s_portrait (v_settings v); v = upon (has (l_confirm p False) xy) (goto Settings) v
      in upon (has (l_confirm p True) xy) (\<lambda>v. goto Settings (ask ClearLogs v)) v)"

definition tap_welcome :: "int \<times> int \<Rightarrow> view \<Rightarrow> view" where
  "tap_welcome xy v =
     (let p = s_portrait (v_settings v)
      in upon (has (l_confirm p False) xy \<or> has (l_confirm p True) xy) (\<lambda>v.
           goto Choose (ask Save (on_settings (\<lambda>s. s\<lparr>s_region :=
             (if fst xy < panel_width p div 2 then 0 else 1)\<rparr>) v))) v)"

definition tap_choose :: "int \<times> int \<Rightarrow> view \<Rightarrow> view" where
  "tap_choose xy v = (case find (\<lambda>i. has (l_choice (s_portrait (v_settings v)) i) xy) [0..<6] of
     Some i \<Rightarrow> ask Save (goto Name (on_settings (\<lambda>s. s\<lparr>s_character := of_nat i\<rparr>) v)) | None \<Rightarrow> v)"

definition tap_name :: "int \<times> int \<Rightarrow> view \<Rightarrow> view" where
  "tap_name xy v =
     (let p = s_portrait (v_settings v); n = length (c_str (s_name (v_settings v)))
      in case find (\<lambda>i. has (l_key p i) xy \<and> n < 12) [0..<30] of
           Some i \<Rightarrow> on_settings (\<lambda>s. s\<lparr>s_name := (s_name s)[n := ''ABCDEFGHIJKLMNOPQRSTUVWXYZ0123'' ! i,
                       n + 1 := CHR 0x00]\<rparr>) v
         | None \<Rightarrow>
             let v = upon (has (l_confirm p False) xy \<and> n \<noteq> 0)
                       (on_settings (\<lambda>s. s\<lparr>s_name := (s_name s)[n - 1 := CHR 0x00]\<rparr>)) v
             in upon (has (l_confirm p True) xy \<and> n \<noteq> 0)
                  (\<lambda>v. goto (if s_onboarded (v_settings v) then Home else Privacy_Choice) (ask Save v)) v)"

definition tap_privacy :: "int \<times> int \<Rightarrow> view \<Rightarrow> view" where
  "tap_privacy xy v =
     (let p = s_portrait (v_settings v)
      in if has (l_confirm p False) xy
         then ask Start (ask Save (goto Home (on_settings (\<lambda>s. s\<lparr>s_research := False, s_onboarded := True\<rparr>) v)))
         else upon (has (l_confirm p True) xy) (goto ResearchWarning) v)"

definition tap_warning :: "int \<times> int \<Rightarrow> view \<Rightarrow> view" where
  "tap_warning xy v =
     (let p = s_portrait (v_settings v)
      in if has (l_confirm p False) xy
         then goto (if s_onboarded (v_settings v) then Settings else Privacy_Choice) v
         else if has (l_confirm p True) xy
         then if v_screen v = ResetWarning then goto Settings (ask Reset v)
              else goto Home (ask Start (ask Save
                     (on_settings (\<lambda>s. s\<lparr>s_research := True, s_onboarded := True\<rparr>) v)))
         else v)"

definition detail_shown :: "view \<Rightarrow> detection" where
  "detail_shown v = (if v_detail_valid v then v_detail_detection v else v_recent v ! v_selected v)"

definition detail_ready :: "view \<Rightarrow> bool" where
  "detail_ready v \<longleftrightarrow> v_detail_valid v \<or> v_selected v < v_recent_count v"

definition tap_details :: "int \<times> int \<Rightarrow> view \<Rightarrow> view" where
  "tap_details xy v =
     (let p = s_portrait (v_settings v)
      in if has (mk_rect 12 (panel_height p - 40) (panel_width p - 24) 32) xy \<and> detail_ready v
         then follow_detection (detail_shown v) v
         else
           let v = upon (has (mk_rect (panel_width p - 108) 32 96 30) xy)
                     (\<lambda>v. v\<lparr>v_detail_page := 1 - v_detail_page v\<rparr>) v;
               v = upon (has (l_confirm p False) xy) (goto Log) v
           in upon (has (l_confirm p True) xy \<and> detail_ready v) (\<lambda>v. open_actions (detail_shown v) v) v)"

definition pet_dog :: "view \<Rightarrow> view" where
  "pet_dog v =
     (let v = (if v_pets v \<noteq> - 1 then v\<lparr>v_pets := v_pets v + 1\<rparr> else v);
          v = (if v_demo v
               then v\<lparr>v_preview_mood := word_of_int (min 100 (uint (v_preview_mood v) + 2))\<rparr>
               else v\<lparr>v_pet := stroke (v_pet v)\<rparr>)
      in v\<lparr>v_happy_until := v_now v + 2500\<rparr>)"

definition tap_home :: "int \<times> int \<Rightarrow> view \<Rightarrow> view" where
  "tap_home xy v =
     (let p = s_portrait (v_settings v); (x, y) = xy
      in if v_now v < v_alert_until v then v\<lparr>v_alert_until := 0\<rparr>
         else upon (64 \<le> y \<and> y < (if p then 308 else 254) \<and> (p \<or> x < 300)) pet_dog v)"

definition show_details :: "nat \<Rightarrow> view \<Rightarrow> view" where
  "show_details i v =
     (let d = v_recent v ! i;
          (tracks, found) = drone_find (d_address d) (d_address_type d) (v_now v) (v_drones v)
      in v\<lparr>v_selected := i, v_detail_detection := d, v_drones := tracks,
           v_detail_drone := (case found of Some t \<Rightarrow> t | None \<Rightarrow> drone_track0),
           v_detail_valid := True, v_detail_page := 0, v_screen := Details\<rparr>)"

definition tap_log :: "int \<times> int \<Rightarrow> view \<Rightarrow> view" where
  "tap_log xy v =
     (let p = s_portrait (v_settings v)
      in if has (l_more p) xy
         then v\<lparr>v_log_page := (v_log_page v + 1) mod max 1 ((v_recent_count v + 3) div 4)\<rparr>
         else fold (\<lambda>i v. upon (v_log_page v * 4 + i < v_recent_count v \<and> has (l_log p i) xy)
                (\<lambda>v. show_details (v_log_page v * 4 + i) v) v) [0..<4] v)"

definition toggle_detector :: "nat \<Rightarrow> view \<Rightarrow> view" where
  "toggle_detector index v = upon (index < category_count) (\<lambda>v. ask Save (on_settings (\<lambda>s.
     s\<lparr>s_enabled_categories := s_enabled_categories s XOR push_bit index 1\<rparr>) v)) v"

definition tap_detectors :: "int \<times> int \<Rightarrow> view \<Rightarrow> view" where
  "tap_detectors xy v =
     (let p = s_portrait (v_settings v)
      in if has (l_more p) xy then v\<lparr>v_detector_page := (v_detector_page v + 1) mod 5\<rparr>
         else fold (\<lambda>i v. upon (has (l_detector p i) xy) (toggle_detector (v_detector_page v * 4 + i)) v) [0..<4] v)"

definition toggle_alert :: "nat \<Rightarrow> view \<Rightarrow> view" where
  "toggle_alert index v = upon (index < category_count) (\<lambda>v.
     (let v = on_settings (\<lambda>s. s\<lparr>s_alert_categories := s_alert_categories s XOR push_bit index 1\<rparr>) v;
          v = upon (index = category_index IBEACON) (on_settings (\<lambda>s. s\<lparr>s_ibeacon_alerts :=
                (s_alert_categories s AND push_bit index 1 \<noteq> 0)\<rparr>)) v;
          v = upon (v_now v < v_alert_until v \<and> category_index (d_category (v_alert_detection v)) = index \<and>
                \<not> should_alert (v_settings v) (v_alert_detection v)) (\<lambda>v. v\<lparr>v_alert_until := 0\<rparr>) v
      in ask Save v)) v"

definition tap_alerts :: "int \<times> int \<Rightarrow> view \<Rightarrow> view" where
  "tap_alerts xy v =
     (let p = s_portrait (v_settings v)
      in if has (l_more p) xy then v\<lparr>v_alert_page := (v_alert_page v + 1) mod 5\<rparr>
         else fold (\<lambda>i v. upon (has (l_detector p i) xy) (toggle_alert (v_alert_page v * 4 + i)) v) [0..<4] v)"

definition tap_diagnostics :: "int \<times> int \<Rightarrow> view \<Rightarrow> view" where
  "tap_diagnostics xy v =
     (let p = s_portrait (v_settings v);
          v = upon (has (l_more p) xy) (\<lambda>v. v\<lparr>v_diagnostic_page := (v_diagnostic_page v + 1) mod 3\<rparr>) v
      in upon (has (mk_rect (panel_width p - 90) 35 78 24) xy) (ask DiagnosticCopy) v)"

definition settings_controls :: "nat \<Rightarrow> view \<Rightarrow> view" where
  "settings_controls row v =
     (if row = 0 then open_wardrobe v
      else if row = 1 then goto Appearance v
      else if row = 2 then goto ScentBook v
      else if row = 3 then goto Ignored v
      else if row = 4 then (toggle_snooze v)\<lparr>v_alert_until := 0\<rparr> else v)"

definition settings_screen :: "nat \<Rightarrow> view \<Rightarrow> view" where
  "settings_screen row v =
     (if row = 0 then ask Save (on_settings (\<lambda>s. s\<lparr>s_rotation_locked := \<not> s_rotation_locked s\<rparr>) v)
      else if row = 1 then rotate_view v
      else if row = 2 then goto Display v
      else if row = 3 then ask Save (on_settings (\<lambda>s. s\<lparr>s_reduced_animation := \<not> s_reduced_animation s\<rparr>) v)
      else if row = 4 then goto Alerts v else v)"

definition settings_choices :: "nat \<Rightarrow> view \<Rightarrow> view" where
  "settings_choices row v = ask Save (on_settings (\<lambda>s.
     if row = 0 then s\<lparr>s_sound := \<not> s_sound s\<rparr>
     else if row = 1 then s\<lparr>s_threshold := (if s_threshold s = 80 then 20 else if s_threshold s = 20 then 50 else 80)\<rparr>
     else if row = 2 then s\<lparr>s_region := cycle 2 (s_region s)\<rparr>
     else if row = 3 then s\<lparr>s_low_feeding := \<not> s_low_feeding s\<rparr>
     else if row = 4 then s\<lparr>s_ibeacon_alerts := \<not> s_ibeacon_alerts s,
            s_alert_categories := s_alert_categories s XOR push_bit (category_index IBEACON) 1\<rparr>
     else s) v)"

definition toggle_demo :: "view \<Rightarrow> view" where
  "toggle_demo v =
     (let v = v\<lparr>v_demo := \<not> v_demo v\<rparr>;
          v = upon (v_demo v) (\<lambda>v. v\<lparr>v_preview_appearance := v_appearance v\<rparr>) v;
          v = v\<lparr>v_follow := follow0, v_tag_watch := watch_clear (v_tag_watch v), v_watch_review := 0\<rparr>
      in goto Home (ask Demo v))"

definition settings_logging :: "nat \<Rightarrow> view \<Rightarrow> view" where
  "settings_logging row v =
     (if row = 0
      then (if s_research (v_settings v) then ask Save (on_settings (\<lambda>s. s\<lparr>s_research := False\<rparr>) v)
            else goto ResearchWarning v)
      else if row = 1 then request_export v
      else if row = 2 then request_eject v
      else if row = 3 then toggle_demo v
      else if row = 4 then goto Diagnostics v else v)"

definition settings_tools :: "nat \<Rightarrow> view \<Rightarrow> view" where
  "settings_tools row v =
     (if row = 0 then goto Clock v
      else if row = 1 then goto Battery v
      else if row = 2 then goto ClearWarning v
      else if row = 3 then goto SelfTest v
      else if row = 4 then request_export v else v)"

definition settings_device :: "nat \<Rightarrow> view \<Rightarrow> view" where
  "settings_device row v =
     (if row = 0 then goto Calibration (ask Calibrate v)
      else if row = 1 then goto ResetWarning v
      else if row = 2 then goto Choose v
      else if row = 3 then v\<lparr>v_settings_page := 1\<rparr>
      else if row = 4 then goto Home v else v)"

definition tap_settings :: "int \<times> int \<Rightarrow> view \<Rightarrow> view" where
  "tap_settings xy v =
     (let p = s_portrait (v_settings v)
      in if has (l_more p) xy then v\<lparr>v_settings_page := (v_settings_page v + 1) mod 6\<rparr>
         else case find (\<lambda>i. has (l_row p i) xy) [4, 3, 2, 1, 0] of
             None \<Rightarrow> v
           | Some row \<Rightarrow>
               if v_settings_page v = 0 then settings_controls row v
               else if v_settings_page v = 1 then settings_screen row v
               else if v_settings_page v = 2 then settings_choices row v
               else if v_settings_page v = 3 then settings_logging row v
               else if v_settings_page v = 5 then settings_tools row v
               else settings_device row v)"

section \<open>The whole touch handler\<close>

definition navigate :: "int \<times> int \<Rightarrow> view \<Rightarrow> view" where
  "navigate xy v =
     (let p = s_portrait (v_settings v);
          v = goto ([Home, Log, Detectors, Settings] ! nat (fst xy div (panel_width p div 4))) v
      in upon (v_screen v = Settings) (\<lambda>v. v\<lparr>v_settings_page := 0\<rparr>) v)"

text \<open>The first part: the pages of the travel watch and the targets of the home screen; \<open>None\<close> goes on.\<close>

definition tap_watch :: "keyed_digest \<Rightarrow> int \<times> int \<Rightarrow> view \<Rightarrow> view option" where
  "tap_watch hmac xy v =
     (let p = s_portrait (v_settings v); (x, y) = xy
      in if y < 26 \<and> x < 174 \<and> view_warning v \<noteq> None then Some (open_tag_watch v)
         else if v_screen v = Home \<and> has (l_home_watch p) xy \<or>
                 v_screen v = Settings \<and> v_settings_page v = 0 \<and> has (mk_rect (panel_width p - 170) 32 108 25) xy
           then Some (open_tag_watch v)
         else if v_screen v = WatchProgress then Some (tap_watch_progress xy v)
         else if v_screen v = TagWatch then Some (tap_tag_watch hmac xy v)
         else if y < 26 \<and> panel_width p - 60 \<le> x then Some (rotate_view v)
         else None)"

definition tap_home_targets :: "int \<times> int \<Rightarrow> view \<Rightarrow> view option" where
  "tap_home_targets xy v =
     (let p = s_portrait (v_settings v)
      in if v_screen v \<noteq> Home then None
         else if has (l_home_book p) xy then Some (goto ScentBook v)
         else if has (mk_rect 20 72 (if p then 280 else 264) 21) xy \<and> v_alert_until v \<le> v_now v
           then Some (open_wardrobe v)
         else if has (l_sniff p) xy then Some (toggle_sniffing v)
         else if v_home_alert_shown v \<and> has (l_quiet p) xy then Some (open_actions (v_action_detection v) v)
         else if view_warning v \<noteq> None \<and> has (l_quiet p) xy then Some (open_tag_watch v)
         else if \<not> v_frame_presented v \<and> v_now v < v_alert_until v \<and> has (l_quiet p) xy
           then Some (open_actions (v_alert_detection v) v)
         else if f_active (v_follow v) \<and> has (l_home_follow p) xy then Some (goto Follow v)
         else None)"

text \<open>Screens that handle every tap; the remaining ones share the navigation bar.\<close>

definition tap_screen :: "keyed_digest \<Rightarrow> int \<times> int \<Rightarrow> view \<Rightarrow> view option" where
  "tap_screen hmac xy v = (case v_screen v of
       Follow \<Rightarrow> Some (tap_follow xy v)
     | Display \<Rightarrow> Some (tap_display xy v)
     | IdleDisplay \<Rightarrow> Some (tap_idle_display xy v)
     | Appearance \<Rightarrow> Some (tap_appearance xy v)
     | Coverage \<Rightarrow> Some (tap_coverage xy v)
     | ScentBook \<Rightarrow> Some (tap_scent_book xy v)
     | ScentCard \<Rightarrow> Some (tap_scent_card xy v)
     | Wardrobe \<Rightarrow> Some (tap_wardrobe xy v)
     | AlertActions \<Rightarrow> Some (tap_alert_actions hmac xy v)
     | IgnoreBackup \<Rightarrow> Some (tap_ignore_backup xy v)
     | Ignored \<Rightarrow> Some (tap_ignored xy v)
     | Clock \<Rightarrow> Some (tap_clock xy v)
     | Battery \<Rightarrow> Some (tap_battery xy v)
     | SelfTest \<Rightarrow> Some (tap_self_test xy v)
     | ClearWarning \<Rightarrow> Some (tap_clear_warning xy v)
     | Welcome \<Rightarrow> Some (tap_welcome xy v)
     | Choose \<Rightarrow> Some (tap_choose xy v)
     | Name \<Rightarrow> Some (tap_name xy v)
     | Privacy_Choice \<Rightarrow> Some (tap_privacy xy v)
     | ResearchWarning \<Rightarrow> Some (tap_warning xy v)
     | ResetWarning \<Rightarrow> Some (tap_warning xy v)
     | Details \<Rightarrow> Some (tap_details xy v)
     | _ \<Rightarrow> None)"

definition tap_page :: "int \<times> int \<Rightarrow> view \<Rightarrow> view" where
  "tap_page xy v =
     (if s_onboarded (v_settings v) \<and> panel_height (s_portrait (v_settings v)) - 44 \<le> snd xy then navigate xy v
      else case v_screen v of
          Home \<Rightarrow> tap_home xy v
        | Log \<Rightarrow> tap_log xy v
        | Detectors \<Rightarrow> tap_detectors xy v
        | Alerts \<Rightarrow> tap_alerts xy v
        | Diagnostics \<Rightarrow> tap_diagnostics xy v
        | Settings \<Rightarrow> tap_settings xy v
        | _ \<Rightarrow> v)"

definition tap :: "keyed_digest \<Rightarrow> int \<times> int \<Rightarrow> view \<Rightarrow> view" where
  "tap hmac xy v =
     (let p = s_portrait (v_settings v); (x, y) = xy
      in if x < 0 \<or> y < 0 \<or> panel_width p \<le> x \<or> panel_height p \<le> y \<or> v_screen v = Calibration then v
         else let (v, was_idle) = wake_display False v
              in if was_idle then v
                 else case tap_watch hmac xy v of
                     Some v' \<Rightarrow> v'
                   | None \<Rightarrow>
                       case tap_home_targets xy v of
                         Some v' \<Rightarrow> v'
                       | None \<Rightarrow> case tap_screen hmac xy v of Some v' \<Rightarrow> v' | None \<Rightarrow> tap_page xy v)"

section \<open>What a tap needs a confirmation for\<close>

text \<open>Whether research logging is on, and the two requests that destroy data.\<close>

definition guarded :: "view \<Rightarrow> bool \<times> u32" where
  "guarded v = (s_research (v_settings v), v_requests v AND (request_bit Reset OR request_bit ClearLogs))"

lemma guarded_ask [simp]: "r \<noteq> Reset \<Longrightarrow> r \<noteq> ClearLogs \<Longrightarrow> guarded (ask r v) = guarded v"
  by (cases r) (simp_all add: guarded_def ask_def bit.conj_disj_distrib2)

lemma guarded_upon [simp]: "(\<And>v. guarded (f v) = guarded v) \<Longrightarrow> guarded (upon c f v) = guarded v"
  by (simp add: upon_def)

lemma guarded_fold [simp]: "(\<And>x v. guarded (f x v) = guarded v) \<Longrightarrow> guarded (fold f xs v) = guarded v"
  by (induction xs arbitrary: v) simp_all

lemma guarded_settings [simp]:
  "(\<And>s. s_research (f s) = s_research s) \<Longrightarrow> guarded (on_settings f v) = guarded v"
  by (simp add: guarded_def on_settings_def)

lemma guarded_same: "v_settings v' = v_settings v \<Longrightarrow> v_requests v' = v_requests v \<Longrightarrow> guarded v' = guarded v"
  by (simp add: guarded_def)

text \<open>Everything of \<open>View\<close> that touches neither the settings nor the requests.\<close>

lemma untouched_settings [simp]:
  "v_settings (on_collection f v) = v_settings v" "v_settings (on_look g v) = v_settings v"
  "v_settings (snooze t v) = v_settings v" "v_settings (goto s v) = v_settings v"
  "v_settings (ask r v) = v_settings v" "v_settings (on_book b f v) = v_settings v"
  by (simp_all add: on_collection_def on_look_def snooze_def goto_def ask_def on_book_def)

lemma untouched_requests [simp]:
  "v_requests (on_collection f v) = v_requests v" "v_requests (on_look g v) = v_requests v"
  "v_requests (snooze t v) = v_requests v" "v_requests (goto s v) = v_requests v"
  "v_requests (on_book b f v) = v_requests v"
  by (simp_all add: on_collection_def on_look_def snooze_def goto_def on_book_def)

lemma untouched_watch [simp]:
  "v_settings (update_tag_watch v) = v_settings v" "v_requests (update_tag_watch v) = v_requests v"
  "v_settings (open_tag_watch v) = v_settings v" "v_requests (open_tag_watch v) = v_requests v"
  "v_settings (fst (wake_display b v)) = v_settings v" "v_requests (fst (wake_display b v)) = v_requests v"
  "v_settings (preview_saver v) = v_settings v" "v_requests (preview_saver v) = v_requests v"
  "v_settings (open_actions d v) = v_settings v" "v_requests (open_actions d v) = v_requests v"
  "v_settings (follow_detection d v) = v_settings v" "v_requests (follow_detection d v) = v_requests v"
  by (simp_all add: update_tag_watch_def open_tag_watch_def wake_display_def preview_saver_def
      open_actions_def follow_detection_def Let_def split: option.splits)


lemma guarded_update [simp]:
  "guarded (v\<lparr>v_pet := a0\<rparr>) = guarded v"
  "guarded (v\<lparr>v_screen := a1\<rparr>) = guarded v"
  "guarded (v\<lparr>v_book_page := a2\<rparr>) = guarded v"
  "guarded (v\<lparr>v_scent_index := a3\<rparr>) = guarded v"
  "guarded (v\<lparr>v_scent_page := a4\<rparr>) = guarded v"
  "guarded (v\<lparr>v_wardrobe_index := a5\<rparr>) = guarded v"
  "guarded (v\<lparr>v_ignored_page := a6\<rparr>) = guarded v"
  "guarded (v\<lparr>v_coverage_page := a7\<rparr>) = guarded v"
  "guarded (v\<lparr>v_backup_pending := a8\<rparr>) = guarded v"
  "guarded (v\<lparr>v_preview_appearance := a9\<rparr>) = guarded v"
  "guarded (v\<lparr>v_pets := a10\<rparr>) = guarded v"
  "guarded (v\<lparr>v_preview_mood := a11\<rparr>) = guarded v"
  "guarded (v\<lparr>v_celebration_until := a12\<rparr>) = guarded v"
  "guarded (v\<lparr>v_follow := a13\<rparr>) = guarded v"
  "guarded (v\<lparr>v_tag_watch := a14\<rparr>) = guarded v"
  "guarded (v\<lparr>v_watch_review := a15\<rparr>) = guarded v"
  "guarded (v\<lparr>v_watch_page := a16\<rparr>) = guarded v"
  "guarded (v\<lparr>v_alert_until := a17\<rparr>) = guarded v"
  "guarded (v\<lparr>v_meal_until := a18\<rparr>) = guarded v"
  "guarded (v\<lparr>v_happy_until := a19\<rparr>) = guarded v"
  "guarded (v\<lparr>v_detail_detection := a20\<rparr>) = guarded v"
  "guarded (v\<lparr>v_detail_drone := a21\<rparr>) = guarded v"
  "guarded (v\<lparr>v_detail_valid := a22\<rparr>) = guarded v"
  "guarded (v\<lparr>v_detail_page := a23\<rparr>) = guarded v"
  "guarded (v\<lparr>v_demo := a24\<rparr>) = guarded v"
  "guarded (v\<lparr>v_scanning := a25\<rparr>) = guarded v"
  "guarded (v\<lparr>v_paused := a26\<rparr>) = guarded v"
  "guarded (v\<lparr>v_clock_seconds := a27\<rparr>) = guarded v"
  "guarded (v\<lparr>v_clock_set_ms := a28\<rparr>) = guarded v"
  "guarded (v\<lparr>v_battery_cal := a29\<rparr>) = guarded v"
  "guarded (v\<lparr>v_battery_point := a30\<rparr>) = guarded v"
  "guarded (v\<lparr>v_diagnostic_page := a31\<rparr>) = guarded v"
  "guarded (v\<lparr>v_log_page := a32\<rparr>) = guarded v"
  "guarded (v\<lparr>v_clock_input := a33\<rparr>) = guarded v"
  "guarded (v\<lparr>v_self_test_taps := a34\<rparr>) = guarded v"
  "guarded (v\<lparr>v_drones := a35\<rparr>) = guarded v"
  "guarded (v\<lparr>v_touch := a36\<rparr>) = guarded v"
  "guarded (v\<lparr>v_detector_page := a37\<rparr>) = guarded v"
  "guarded (v\<lparr>v_settings_page := a38\<rparr>) = guarded v"
  "guarded (v\<lparr>v_alert_page := a39\<rparr>) = guarded v"
  "guarded (v\<lparr>v_selected := a40\<rparr>) = guarded v"
  "guarded (v\<lparr>v_notice := a41\<rparr>) = guarded v"
  "guarded (v\<lparr>v_export_status := e\<rparr>) = guarded v" "guarded (v\<lparr>v_eject_status := j\<rparr>) = guarded v"
  by (simp_all add: guarded_def)

lemma guarded_parts [simp]:
  "guarded (goto s v) = guarded v" "guarded (snooze t v) = guarded v" "guarded (on_collection f v) = guarded v"
  "guarded (on_look g v) = guarded v" "guarded (on_book b f v) = guarded v"
  "guarded (update_tag_watch v) = guarded v" "guarded (open_tag_watch v) = guarded v"
  "guarded (fst (wake_display b v)) = guarded v" "guarded (preview_saver v) = guarded v"
  "guarded (open_actions d v) = guarded v" "guarded (follow_detection d v) = guarded v"
  by (rule guarded_same; simp)+

lemma guarded_watch [simp]:
  "guarded (toggle_snooze v) = guarded v" "guarded (recheck_alert hmac v) = guarded v"
  "guarded (acknowledge i v) = guarded v" "guarded (ignore_watched hmac i v) = guarded v"
  "guarded (tap_watch_progress xy v) = guarded v" "guarded (tap_tag_watch hmac xy v) = guarded v"
  by (simp_all add: toggle_snooze_def recheck_alert_def acknowledge_def ignore_watched_def
      tap_watch_progress_def tap_tag_watch_def Let_def split: prod.splits option.splits)

lemma guarded_set [simp]: "s_research s = s_research (v_settings v) \<Longrightarrow> guarded (v\<lparr>v_settings := s\<rparr>) = guarded v"
  by (simp add: guarded_def)

lemma guarded_home [simp]:
  "guarded (toggle_sniffing v) = guarded v" "guarded (open_wardrobe v) = guarded v"
  "guarded (rotate_view v) = guarded v" "guarded (pet_dog v) = guarded v" "guarded (tap_home xy v) = guarded v"
  "guarded (show_details i v) = guarded v" "guarded (navigate xy v) = guarded v"
  by (simp_all add: toggle_sniffing_def open_wardrobe_def rotate_view_def pet_dog_def tap_home_def
      show_details_def navigate_def Let_def split: prod.splits)

lemma guarded_screens [simp]:
  "guarded (tap_follow xy v) = guarded v" "guarded (tap_display xy v) = guarded v"
  "guarded (tap_idle_display xy v) = guarded v" "guarded (tap_appearance xy v) = guarded v"
  "guarded (tap_coverage xy v) = guarded v" "guarded (tap_scent_book xy v) = guarded v"
  "guarded (tap_scent_card xy v) = guarded v" "guarded (tap_wardrobe xy v) = guarded v"
  "guarded (ignore_action hmac v) = guarded v" "guarded (tap_alert_actions hmac xy v) = guarded v"
  "guarded (tap_ignore_backup xy v) = guarded v" "guarded (tap_ignored xy v) = guarded v"
  by (simp_all add: tap_follow_def tap_display_def tap_idle_display_def tap_appearance_def
      tap_coverage_def tap_scent_book_def tap_scent_card_def tap_wardrobe_def ignore_action_def
      tap_alert_actions_def tap_ignore_backup_def tap_ignored_def clamp_ignored_page_def Let_def
      split: prod.splits option.splits)

lemma guarded_forms [simp]:
  "guarded (tap_clock xy v) = guarded v" "guarded (on_battery f v) = guarded v"
  "guarded (tap_battery xy v) = guarded v" "guarded (tap_self_test xy v) = guarded v"
  "guarded (tap_welcome xy v) = guarded v" "guarded (tap_choose xy v) = guarded v"
  "guarded (tap_name xy v) = guarded v" "guarded (tap_details xy v) = guarded v"
  by (simp_all add: tap_clock_def on_battery_def tap_battery_def tap_self_test_def tap_welcome_def
      tap_choose_def tap_name_def tap_details_def Let_def split: prod.splits option.splits)

lemma guarded_pages [simp]:
  "guarded (tap_log xy v) = guarded v" "guarded (toggle_detector i v) = guarded v"
  "guarded (tap_detectors xy v) = guarded v" "guarded (toggle_alert i v) = guarded v"
  "guarded (tap_alerts xy v) = guarded v" "guarded (tap_diagnostics xy v) = guarded v"
  "guarded (settings_controls i v) = guarded v" "guarded (settings_screen i v) = guarded v"
  "guarded (settings_choices i v) = guarded v" "guarded (toggle_demo v) = guarded v"
  "guarded (request_export v) = guarded v" "guarded (request_eject v) = guarded v"
  "guarded (settings_tools i v) = guarded v" "guarded (settings_device i v) = guarded v"
  by (simp_all add: tap_log_def toggle_detector_def tap_detectors_def toggle_alert_def tap_alerts_def
      tap_diagnostics_def settings_controls_def settings_screen_def settings_choices_def toggle_demo_def
      request_export_def request_eject_def settings_tools_def settings_device_def Let_def split: prod.splits)

lemma guarded_watch_targets:
  "tap_watch hmac xy v = Some v' \<Longrightarrow> guarded v' = guarded v"
  "tap_home_targets xy v = Some v' \<Longrightarrow> guarded v' = guarded v"
  by (auto simp: tap_watch_def tap_home_targets_def Let_def split: prod.splits if_splits)

definition agreed :: "view \<Rightarrow> int \<times> int \<Rightarrow> view \<Rightarrow> bool" where
  "agreed v xy v' \<longleftrightarrow> (let yes = has (l_confirm (s_portrait (v_settings v)) True) xy in
     (s_research (v_settings v') \<longrightarrow> s_research (v_settings v) \<or> v_screen v = ResearchWarning \<and> yes) \<and>
     (asked Reset v' \<longrightarrow> asked Reset v \<or> v_screen v = ResetWarning \<and> yes) \<and>
     (asked ClearLogs v' \<longrightarrow> asked ClearLogs v \<or> v_screen v = ClearWarning \<and> yes))"

lemma asked_guarded:
  "asked Reset v \<longleftrightarrow> snd (guarded v) AND request_bit Reset \<noteq> 0"
  "asked ClearLogs v \<longleftrightarrow> snd (guarded v) AND request_bit ClearLogs \<noteq> 0"
  by (simp_all add: asked_def guarded_def and.assoc)

lemma guarded_agreed: "guarded v' = guarded v \<Longrightarrow> agreed v xy v'"
  by (simp add: agreed_def asked_guarded Let_def) (simp add: guarded_def)

lemma agreed_weaken:
  "s_research (v_settings v') \<longrightarrow> s_research (v_settings v) \<Longrightarrow> v_requests v' AND 1152 = v_requests v AND 1152 \<Longrightarrow>
     agreed v xy v'"
  by (simp add: agreed_def asked_guarded Let_def guarded_def)

lemma ask_1152: "r \<noteq> Reset \<Longrightarrow> r \<noteq> ClearLogs \<Longrightarrow> v_requests (ask r v) AND 1152 = v_requests v AND 1152"
  by (cases r) (simp_all add: ask_def bit.conj_disj_distrib2)

lemma agreed_privacy: "agreed v xy (tap_privacy xy v)"
  by (rule agreed_weaken)
    (simp_all add: tap_privacy_def Let_def upon_def ask_1152, simp_all add: on_settings_def)

lemma agreed_logging: "agreed v xy (settings_logging i v)"
proof (cases "i = 0 \<and> s_research (v_settings v)")
  case True
  then show ?thesis
    by (intro agreed_weaken) (simp_all add: settings_logging_def ask_1152, simp add: on_settings_def)
next
  case False
  then show ?thesis by (intro guarded_agreed) (auto simp: settings_logging_def)
qed

lemma agreed_warning:
  "v_screen v = ResearchWarning \<or> v_screen v = ResetWarning \<Longrightarrow> agreed v xy (tap_warning xy v)"
  by (auto simp: agreed_def asked_def tap_warning_def Let_def goto_def ask_def on_settings_def
      bit.conj_disj_distrib2)

lemma agreed_clear: "v_screen v = ClearWarning \<Longrightarrow> agreed v xy (tap_clear_warning xy v)"
  by (auto simp: agreed_def asked_def tap_clear_warning_def upon_def Let_def goto_def ask_def
      bit.conj_disj_distrib2)

lemma agreed_screen: "tap_screen hmac xy v = Some v' \<Longrightarrow> agreed v xy v'"
  using agreed_privacy [of v xy] agreed_warning [of v xy] agreed_clear [of v xy]
  by (cases "v_screen v") (auto simp: tap_screen_def intro: guarded_agreed)

lemma agreed_page: "agreed v xy (tap_page xy v)"
proof (cases "v_screen v = Settings \<and> \<not> (s_onboarded (v_settings v) \<and>
    panel_height (s_portrait (v_settings v)) - 44 \<le> snd xy)")
  case True
  then have "tap_page xy v = tap_settings xy v" by (auto simp: tap_page_def)
  moreover have "agreed v xy (tap_settings xy v)"
    using agreed_logging [of v xy]
    by (auto simp: tap_settings_def Let_def intro: guarded_agreed split: option.splits)
  ultimately show ?thesis by simp
next
  case False
  then have "guarded (tap_page xy v) = guarded v" by (auto simp: tap_page_def split: screen.splits)
  then show ?thesis by (rule guarded_agreed)
qed

lemma agreed_step:
  assumes "guarded v = guarded u" and "v_screen v = v_screen u" and "v_settings v = v_settings u"
    and "agreed v xy v'"
  shows "agreed u xy v'"
  using assms by (simp add: agreed_def asked_guarded)

text \<open>How every property of a tap is shown: part by part, on the woken view.\<close>

lemma tap_cases:
  assumes w: "w = fst (wake_display False v)" and "P v" and "P w"
    and "\<And>w'. tap_watch hmac xy w = Some w' \<Longrightarrow> P w'"
    and "\<And>w'. tap_home_targets xy w = Some w' \<Longrightarrow> P w'"
    and "\<And>w'. tap_screen hmac xy w = Some w' \<Longrightarrow> P w'"
    and "P (tap_page xy w)"
  shows "P (tap hmac xy v)"
proof -
  obtain x y where xy: "xy = (x, y)" by (cases xy)
  obtain idle where d: "wake_display False v = (w, idle)" using w by (cases "wake_display False v") simp
  show ?thesis
  proof (cases "x < 0 \<or> y < 0 \<or> panel_width (s_portrait (v_settings v)) \<le> x \<or>
      panel_height (s_portrait (v_settings v)) \<le> y \<or> v_screen v = Calibration \<or> idle")
    case True
    then have "tap hmac xy v = v \<or> tap hmac xy v = w" by (auto simp: tap_def d xy Let_def)
    with assms show ?thesis by metis
  next
    case False
    then have "tap hmac xy v = (case tap_watch hmac (x, y) w of Some v' \<Rightarrow> v'
      | None \<Rightarrow> case tap_home_targets (x, y) w of Some v' \<Rightarrow> v'
      | None \<Rightarrow> case tap_screen hmac (x, y) w of Some v' \<Rightarrow> v' | None \<Rightarrow> tap_page (x, y) w)"
      by (simp add: tap_def d xy Let_def)
    with assms(4-7) [unfolded xy] show ?thesis by (simp split: option.splits)
  qed
qed

section \<open>Properties\<close>

text \<open>
  Property C16.  Consent and destruction need their warning page: in any state, wherever the screen is
  touched, a tap can switch research logging on, request the reset of all progress or request the
  clearing of the logs only if the page shown is the research, the reset or the clear warning
  respectively and the tap hits its confirming button; no other page, nor the status bar,
  the home targets or the navigation bar, can do it.
\<close>

theorem taps_need_consent:
  "(s_research (v_settings (tap hmac xy v)) \<longrightarrow> s_research (v_settings v) \<or>
      v_screen v = ResearchWarning \<and> has (l_confirm (s_portrait (v_settings v)) True) xy) \<and>
   (asked Reset (tap hmac xy v) \<longrightarrow> asked Reset v \<or>
      v_screen v = ResetWarning \<and> has (l_confirm (s_portrait (v_settings v)) True) xy) \<and>
   (asked ClearLogs (tap hmac xy v) \<longrightarrow> asked ClearLogs v \<or>
      v_screen v = ClearWarning \<and> has (l_confirm (s_portrait (v_settings v)) True) xy)"
proof -
  let ?w = "fst (wake_display False v)"
  have same: "guarded ?w = guarded v" "v_screen ?w = v_screen v" "v_settings ?w = v_settings v"
    by (simp, simp add: wake_display_def Let_def, simp)
  have "agreed v xy (tap hmac xy v)"
  proof (rule tap_cases [where P = "agreed v xy" and w = ?w])
    show "agreed v xy v" and "agreed v xy ?w" by (simp_all add: guarded_agreed)
    show "agreed v xy w'" if "tap_watch hmac xy ?w = Some w'" for w'
      using guarded_watch_targets(1) [OF that] by (simp add: guarded_agreed)
    show "agreed v xy w'" if "tap_home_targets xy ?w = Some w'" for w'
      using guarded_watch_targets(2) [OF that] by (simp add: guarded_agreed)
    show "agreed v xy w'" if "tap_screen hmac xy ?w = Some w'" for w'
      using same agreed_screen [OF that] by (rule agreed_step)
    show "agreed v xy (tap_page xy ?w)" using same agreed_page by (rule agreed_step)
  qed simp
  then show ?thesis by (simp only: agreed_def Let_def)
qed

theorem taps_need_consent_witness:
  "\<not> asked Reset (tap example_hmac (50, 400) view0) \<and>
   \<not> s_research (v_settings (tap example_hmac (50, 400) (view0\<lparr>v_screen := ResearchWarning\<rparr>)))"
  using taps_need_consent [of example_hmac "(50, 400)" view0]
    taps_need_consent [of example_hmac "(50, 400)" "view0\<lparr>v_screen := ResearchWarning\<rparr>"]
  by (simp add: view0_def asked_def settings0_def has_def l_confirm_def mk_rect_def panel_width_def
      panel_height_def)
end
