(* ===== verification/State.thy ===== *)
theory State
  imports Complex_Main Companion Pet Utilities
begin

text \<open>
  The saved state (\<open>state.hpp\<close>): its three layouts, what a valid state is, and the migrations of
  the two frozen layouts.  A \<open>float\<close> of the touch calibration is a rational, or \<open>None\<close> when it
  is not finite.  A HOL truth value has no byte other than 0 and 1, so the bytes of the boolean
  fields, which the validity checks inspect, are kept beside them in \<open>t_raw\<close> (the seven settings,
  the calibration flag, then portrait, rotation lock and battery).
\<close>

section \<open>Layouts\<close>

record calibration =
  ca_coefficients :: "rat option list"
  ca_valid :: bool

definition calibration0 :: calibration where
  "calibration0 = \<lparr>ca_coefficients = replicate 6 (Some 0), ca_valid = False\<rparr>"

record state =
  t_version :: u32
  t_settings :: settings
  t_pet :: pet
  t_calibration :: calibration
  t_recent :: "meal_stamp list"
  t_meal_key :: "u8 list"
  t_boots :: u32
  t_reset_reason :: u32
  t_battery :: battery_calibration
  t_companion :: companion
  t_appearance :: appearance
  t_raw :: "u8 list"

definition state0 :: state where
  "state0 = \<lparr>t_version = 5, t_settings = settings0, t_pet = pet0, t_calibration = calibration0,
     t_recent = replicate 32 no_stamp, t_meal_key = replicate 32 0, t_boots = 0, t_reset_reason = 0,
     t_battery = battery_calibration0, t_companion = companion0, t_appearance = appearance0,
     t_raw = [0, 0, 0, 0, 0, 0, 0, 0, 0, 1, 0]\<rparr>"

text \<open>\<open>StateV2\<close>\<close>

record state_v2 =
  t2_version :: u32
  t2_settings :: settings
  t2_pet :: pet
  t2_calibration :: calibration
  t2_recent :: "meal_stamp list"
  t2_meal_key :: "u8 list"
  t2_boots :: u32
  t2_reset_reason :: u32
  t2_raw :: "u8 list"

record settings_v1 =
  s1_version :: u32
  s1_enabled_categories :: u32
  s1_threshold :: u8
  s1_region :: u8
  s1_brightness :: u8
  s1_character :: u8
  s1_sound :: bool
  s1_low_feeding :: bool
  s1_reduced_animation :: bool
  s1_research :: bool
  s1_raw_ssid :: bool
  s1_onboarded :: bool
  s1_ibeacon_alerts :: bool
  s1_name :: string

record state_v1 =
  t1_version :: u32
  t1_settings :: settings_v1
  t1_pet :: pet
  t1_calibration :: calibration
  t1_recent :: "meal_stamp list"
  t1_meal_key :: "u8 list"
  t1_boots :: u32
  t1_reset_reason :: u32
  t1_raw :: "u8 list"

section \<open>Validity\<close>

definition raw_ok :: "u8 list \<Rightarrow> bool" where
  "raw_ok bytes \<longleftrightarrow> list_all (\<lambda>b. \<not> 1 < b) bytes"

definition calibration_ok :: "calibration \<Rightarrow> bool" where
  "calibration_ok c \<longleftrightarrow> (ca_valid c \<longrightarrow> list_all (\<lambda>f. case f of None \<Rightarrow> False
     | Some x \<Rightarrow> \<not> 100000 < \<bar>x\<bar>) (ca_coefficients c))"

definition stored_name_ok :: "string \<Rightarrow> bool" where
  "stored_name_ok name \<longleftrightarrow> last name = CHR 0x00 \<and>
     list_all (\<lambda>c. \<not> (c \<noteq> CHR 0x00 \<and> ((of_char c :: nat) < 32 \<or> 126 < (of_char c :: nat)))) name"

text \<open>
  The template \<open>valid_state\<close> over the fields it reads; \<open>stored\<close> is the version of the
  structure and \<open>inner\<close> that of its settings.
\<close>

definition valid_fields ::
  "u32 \<Rightarrow> u32 \<Rightarrow> u32 \<Rightarrow> u8 list \<Rightarrow> calibration \<Rightarrow> u8 \<times> u8 \<times> u8 \<times> u8 \<Rightarrow> string \<Rightarrow> u32 \<Rightarrow> pet \<Rightarrow> bool" where
  "valid_fields version stored inner raw cal shape name enabled p =
     (case shape of (character, region, brightness, threshold) \<Rightarrow>
        raw_ok (take 8 raw) \<and> calibration_ok cal \<and>
        \<not> (stored \<noteq> version \<or> inner \<noteq> (if version = 1 then 1 else 2) \<or> 6 \<le> character \<or> 2 \<le> region \<or>
           100 < brightness \<or> brightness < 1 \<or> 100 < p_fullness p \<or> 100 < p_mood p) \<and>
        \<not> (threshold \<noteq> 20 \<and> threshold \<noteq> 50 \<and> threshold \<noteq> 80) \<and>
        drop_bit category_count enabled = 0 \<and> stored_name_ok name)"

definition settings_shape :: "settings \<Rightarrow> u8 \<times> u8 \<times> u8 \<times> u8" where
  "settings_shape v = (s_character v, s_region v, s_brightness v, s_threshold v)"

definition valid_state :: "u32 \<Rightarrow> state \<Rightarrow> bool" where
  "valid_state version s = valid_fields version (t_version s) (s_version (t_settings s)) (t_raw s)
     (t_calibration s) (settings_shape (t_settings s)) (s_name (t_settings s))
     (s_enabled_categories (t_settings s)) (t_pet s)"

definition valid_state_v2 :: "u32 \<Rightarrow> state_v2 \<Rightarrow> bool" where
  "valid_state_v2 version s = valid_fields version (t2_version s) (s_version (t2_settings s)) (t2_raw s)
     (t2_calibration s) (settings_shape (t2_settings s)) (s_name (t2_settings s))
     (s_enabled_categories (t2_settings s)) (t2_pet s)"

definition valid_state_v1 :: "u32 \<Rightarrow> state_v1 \<Rightarrow> bool" where
  "valid_state_v1 version s = (let v = t1_settings s in valid_fields version (t1_version s) (s1_version v)
     (t1_raw s) (t1_calibration s) (s1_character v, s1_region v, s1_brightness v, s1_threshold v)
     (s1_name v) (s1_enabled_categories v) (t1_pet s))"

definition stamps_ok :: "meal_stamp list \<Rightarrow> bool" where
  "stamps_ok stamps \<longleftrightarrow> list_all (\<lambda>s. \<not> 1800000 < ms_remaining_ms s) stamps"

definition valid_current :: "state \<Rightarrow> bool" where
  "valid_current s \<longleftrightarrow> valid_state 5 s \<and> valid_companion (t_companion s) \<and>
     valid_appearance (t_appearance s) \<and> raw_ok (drop 8 (t_raw s)) \<and>
     drop_bit category_count (s_alert_categories (t_settings s)) = 0 \<and>
     \<not> (bc_enabled (t_battery s) \<and> \<not> valid_battery (t_battery s)) \<and> stamps_ok (t_recent s) \<and>
     list_ex (\<lambda>b. b \<noteq> 0) (t_meal_key s)"

section \<open>Migrations\<close>

definition migrate_v2 :: "state_v2 \<Rightarrow> state option" where
  "migrate_v2 old =
     (if \<not> valid_state_v2 2 old then None
      else if \<not> raw_ok (take 2 (drop 8 (t2_raw old))) \<or>
        drop_bit category_count (s_alert_categories (t2_settings old)) \<noteq> 0 then None
      else Some (state0\<lparr>t_settings := t2_settings old, t_pet := t2_pet old,
             t_calibration := t2_calibration old, t_recent := t2_recent old, t_meal_key := t2_meal_key old,
             t_boots := t2_boots old, t_reset_reason := t2_reset_reason old,
             t_raw := take 10 (t2_raw old) @ [0]\<rparr>))"

definition migrate_v1 :: "state_v1 \<Rightarrow> state option" where
  "migrate_v1 old =
     (if \<not> valid_state_v1 1 old then None
      else let v = t1_settings old;
               s = settings0\<lparr>s_enabled_categories := s1_enabled_categories v, s_threshold := s1_threshold v,
                     s_region := s1_region v, s_brightness := s1_brightness v, s_character := s1_character v,
                     s_sound := s1_sound v, s_low_feeding := s1_low_feeding v,
                     s_reduced_animation := s1_reduced_animation v, s_research := s1_research v,
                     s_raw_ssid := s1_raw_ssid v, s_onboarded := s1_onboarded v,
                     s_ibeacon_alerts := s1_ibeacon_alerts v\<rparr>;
               s = (if s1_ibeacon_alerts v
                    then s\<lparr>s_alert_categories := s_alert_categories s OR push_bit (category_index IBEACON) 1\<rparr> else s);
               s = s\<lparr>s_name := s1_name v\<rparr>
           in Some (state0\<lparr>t_settings := s, t_pet := t1_pet old, t_calibration := t1_calibration old,
                t_recent := t1_recent old, t_meal_key := t1_meal_key old, t_boots := t1_boots old,
                t_reset_reason := t1_reset_reason old, t_raw := take 8 (t1_raw old) @ [0, 1, 0]\<rparr>))"

section \<open>What a migration gives\<close>

definition migrated_ok :: "state \<Rightarrow> bool" where
  "migrated_ok s \<longleftrightarrow> valid_state 5 s \<and> valid_companion (t_companion s) \<and> valid_appearance (t_appearance s) \<and>
     raw_ok (t_raw s) \<and> drop_bit category_count (s_alert_categories (t_settings s)) = 0 \<and>
     \<not> bc_enabled (t_battery s)"

lemma raw_ok_append: "raw_ok (xs @ ys) \<longleftrightarrow> raw_ok xs \<and> raw_ok ys"
  by (simp add: raw_ok_def)

lemma raw_ok_take: "raw_ok xs \<Longrightarrow> raw_ok (take n xs)"
  by (auto simp: raw_ok_def list_all_iff dest: in_set_takeD)

lemma raw_ok_drop: "raw_ok xs \<Longrightarrow> raw_ok (drop n xs)"
  by (auto simp: raw_ok_def list_all_iff dest: in_set_dropD)

lemma raw_ok_simps [simp]:
  "raw_ok []" "raw_ok (b # bs) \<longleftrightarrow> \<not> 1 < b \<and> raw_ok bs"
  "raw_ok (take n [0])" "raw_ok (take n [0, 1, 0])"
  using raw_ok_take [of "[0]" n] raw_ok_take [of "[0, 1, 0]" n] by (simp_all add: raw_ok_def)

lemma raw_ok_split: "raw_ok (take m xs) \<Longrightarrow> raw_ok (take n (drop m xs)) \<Longrightarrow> raw_ok (take (m + n) xs)"
  by (simp add: take_add raw_ok_append)

lemma blank_companion_valid: "valid_companion companion0"
  using blank_companion_ok by (simp add: companion_ok_def)

lemma blank_appearance_valid: "valid_appearance appearance0"
  by (simp add: valid_appearance_def appearance0_def valid_timeout_def idle_timeouts_def)

lemma migrated_current:
  assumes "migrated_ok s" "stamps_ok (t_recent s)" "list_ex (\<lambda>b. b \<noteq> 0) (t_meal_key s)"
  shows "valid_current s"
  using assms by (simp add: migrated_ok_def valid_current_def raw_ok_drop)

lemma migrate_v2_ok: "migrate_v2 old = Some new \<Longrightarrow> migrated_ok new"
  using raw_ok_split [of 8 "t2_raw old" 2]
  by (auto simp: migrate_v2_def migrated_ok_def valid_state_def valid_state_v2_def valid_fields_def
      state0_def settings_shape_def blank_companion_valid blank_appearance_valid raw_ok_append raw_ok_take
      battery_calibration0_def split: if_splits)

interpretation state_v2_migration: migration migrate_v2 migrated_ok
  "\<lambda>old. (t2_settings old, t2_pet old, t2_calibration old, t2_recent old, t2_meal_key old, t2_boots old)"
  "\<lambda>new. (t_settings new, t_pet new, t_calibration new, t_recent new, t_meal_key new, t_boots new)"
  by unfold_locales (erule migrate_v2_ok, auto simp: migrate_v2_def split: if_splits)

lemma migrate_v1_ok:
  assumes "migrate_v1 old = Some new" shows "migrated_ok new"
proof -
  define v where "v = t1_settings old"
  have ok: "valid_state_v1 1 old" using assms by (simp add: migrate_v1_def split: if_splits)
  have alerts: "drop_bit category_count (s_alert_categories settings0) = 0"
      "drop_bit category_count (s_alert_categories settings0 OR push_bit (category_index IBEACON) 1) = 0"
    by (simp_all add: settings0_def all_categories_def category_count_def)
  have raw: "raw_ok (take 8 (t1_raw old))" using ok
    by (simp add: valid_state_v1_def valid_fields_def Let_def)
  show ?thesis using assms ok alerts raw
    by (cases "s1_ibeacon_alerts v") (auto simp: migrate_v1_def Let_def valid_state_v1_def migrated_ok_def valid_state_def
        valid_fields_def settings_shape_def state0_def settings0_def blank_companion_valid
        blank_appearance_valid raw_ok_append raw_ok_take battery_calibration0_def
        simp flip: v_def)
qed

text \<open>The first layout kept one switch for iBeacon alerts; it becomes a bit of the alert mask.\<close>

interpretation state_v1_migration: migration migrate_v1 migrated_ok
  "\<lambda>old. (s1_name (t1_settings old), s1_enabled_categories (t1_settings old), t1_pet old, t1_calibration old,
     t1_recent old, t1_meal_key old, t1_boots old, s1_ibeacon_alerts (t1_settings old))"
  "\<lambda>new. (s_name (t_settings new), s_enabled_categories (t_settings new), t_pet new, t_calibration new,
     t_recent new, t_meal_key new, t_boots new, s_ibeacon_alerts (t_settings new))"
  by unfold_locales (erule migrate_v1_ok, auto simp: migrate_v1_def Let_def split: if_splits)

end
