(* ===== verification/State_Store.thy ===== *)
theory State_Store
  imports State
begin

text \<open>
  The saved state on the flash (\<open>state_store.cpp\<close>): five parts, each in one of two slots chosen by
  the parity of its generation and sealed with a generation number and a checksum, and one committed
  generation number that says which slots are current.  The flash library (NVS) is a record of its
  operations over an abstract device, whose documented behaviour is the predicate \<open>nvs_lawful\<close>; the
  in-memory layout of a structure is a \<open>codec\<close>.
\<close>

section \<open>Checksum and envelope\<close>

definition crc_bit :: "u32 \<Rightarrow> u32" where
  "crc_bit crc = drop_bit 1 crc XOR (0xedb88320 AND - (crc AND 1))"

definition crc_byte :: "u32 \<Rightarrow> u8 \<Rightarrow> u32" where
  "crc_byte crc b = (crc_bit ^^ 8) (crc XOR ucast b)"

definition checksum :: "u8 list \<Rightarrow> u32" where
  "checksum bytes = NOT (foldl crc_byte (NOT 0) bytes)"

definition le32 :: "u32 \<Rightarrow> u8 list" where
  "le32 w = map (\<lambda>i. ucast (drop_bit (8 * i) w)) [0..<4]"

definition of_le32 :: "u8 list \<Rightarrow> u32" where
  "of_le32 bytes = foldr (\<lambda>b w. push_bit 8 w OR ucast b) bytes 0"

text \<open>
  How the compiler lays a structure out: its size, the padding before it in an envelope, and its
  bytes.  A field is read and written through these bytes only.
\<close>

record 'a codec =
  k_size :: nat
  k_pad :: nat
  k_bytes :: "'a \<Rightarrow> u8 list"
  k_of :: "u8 list \<Rightarrow> 'a"

definition envelope_size :: "'a codec \<Rightarrow> nat" where
  "envelope_size k = 12 + k_pad k + k_size k"

text \<open>\<open>Envelope<T>\<close>: the envelope version (1), the generation, the checksum and the bytes of the value.\<close>

definition envelope :: "'a codec \<Rightarrow> u32 \<Rightarrow> 'a \<Rightarrow> u8 list" where
  "envelope k gen x = le32 1 @ le32 gen @ le32 (checksum (k_bytes k x)) @ replicate (k_pad k) 0 @ k_bytes k x"

section \<open>The flash library\<close>

datatype 'v nvs_read = Found 'v | Not_Found | Read_Error

text \<open>
  \<open>nv_open\<close> opens a namespace for writing and creates it; \<open>nv_readable\<close> is whether it opens for
  reading.  \<open>nv_get_blob\<close> is given the size of the buffer.  A read depends on the device alone.
\<close>

record 'n nvs =
  nv_init :: "'n \<Rightarrow> bool \<times> 'n"
  nv_readable :: "string \<Rightarrow> 'n \<Rightarrow> bool"
  nv_open :: "string \<Rightarrow> 'n \<Rightarrow> bool \<times> 'n"
  nv_get_blob :: "string \<Rightarrow> string \<Rightarrow> nat \<Rightarrow> 'n \<Rightarrow> u8 list nvs_read"
  nv_set_blob :: "string \<Rightarrow> string \<Rightarrow> u8 list \<Rightarrow> 'n \<Rightarrow> bool \<times> 'n"
  nv_get_u32 :: "string \<Rightarrow> string \<Rightarrow> 'n \<Rightarrow> u32 nvs_read"
  nv_set_u32 :: "string \<Rightarrow> string \<Rightarrow> u32 \<Rightarrow> 'n \<Rightarrow> bool \<times> 'n"
  nv_commit :: "string \<Rightarrow> 'n \<Rightarrow> bool \<times> 'n"

text \<open>Calls joined by \<open>&&\<close>: the first that fails ends the chain.\<close>

fun run_all :: "('n \<Rightarrow> bool \<times> 'n) list \<Rightarrow> 'n \<Rightarrow> bool \<times> 'n" where
  "run_all [] n = (True, n)"
| "run_all (call # calls) n = (let (ok, n) = call n in if ok then run_all calls n else (False, n))"

section \<open>Parts\<close>

definition slot_key :: "u32 \<Rightarrow> string" where
  "slot_key gen = (if gen mod 2 \<noteq> 0 then ''slot1'' else ''slot0'')"

definition write_part :: "'n nvs \<Rightarrow> 'a codec \<Rightarrow> string \<Rightarrow> u32 \<Rightarrow> 'a \<Rightarrow> 'n \<Rightarrow> bool \<times> 'n" where
  "write_part N k space gen x = run_all
     [nv_open N space, nv_set_blob N space (slot_key gen) (envelope k gen x), nv_commit N space]"

text \<open>\<open>read_part\<close>: the value, if its envelope has the size, version, generation and checksum it must have.\<close>

definition open_envelope :: "'a codec \<Rightarrow> u32 \<Rightarrow> u8 list \<Rightarrow> 'a option" where
  "open_envelope k gen blob =
     (let body = drop (12 + k_pad k) blob
      in if length blob = envelope_size k \<and> of_le32 (take 4 blob) = 1 \<and>
           of_le32 (take 4 (drop 4 blob)) = gen \<and> of_le32 (take 4 (drop 8 blob)) = checksum body
         then Some (k_of k body) else None)"

definition read_part :: "'n nvs \<Rightarrow> 'a codec \<Rightarrow> string \<Rightarrow> u32 \<Rightarrow> 'n \<Rightarrow> 'a option" where
  "read_part N k space gen n =
     (if \<not> nv_readable N space n then None
      else case nv_get_blob N space (slot_key gen) (envelope_size k) n of
             Found blob \<Rightarrow> open_envelope k gen blob
           | _ \<Rightarrow> None)"

record config_record =
  cf_settings :: settings
  cf_calibration :: calibration
  cf_battery :: battery_calibration
  cf_raw :: "u8 list"

record pet_record =
  pr_pet :: pet
  pr_recent :: "meal_stamp list"
  pr_key :: "u8 list"

record boot_record_v3 =
  br_boots :: u32
  br_reason :: u32

record boot_record = boot_record_v3 +
  br_version :: u32

record layouts =
  ly_config :: "config_record codec"
  ly_pet :: "pet_record codec"
  ly_boot :: "boot_record codec"
  ly_boot3 :: "boot_record_v3 codec"
  ly_companion :: "companion codec"
  ly_companion1 :: "companion_v1 codec"
  ly_look :: "appearance codec"
  ly_look2 :: "appearance_v2 codec"
  ly_look1 :: "appearance_v1 codec"
  ly_state2 :: "state_v2 codec"
  ly_state1 :: "state_v1 codec"

section \<open>Reading a generation\<close>

definition read_companion :: "'n nvs \<Rightarrow> layouts \<Rightarrow> u32 \<Rightarrow> 'n \<Rightarrow> companion option" where
  "read_companion N L gen n =
     (case read_part N (ly_companion L) ''hound_companion'' gen n of
        Some c \<Rightarrow> Some c
      | None \<Rightarrow> Option.bind (read_part N (ly_companion1 L) ''hound_companion'' gen n) migrate_companion)"

definition read_look :: "'n nvs \<Rightarrow> layouts \<Rightarrow> u32 \<Rightarrow> 'n \<Rightarrow> appearance option" where
  "read_look N L gen n =
     (let current = read_part N (ly_look L) ''hound_look'' gen n;
          v2 = Option.bind (read_part N (ly_look2 L) ''hound_look'' gen n) migrate_appearance_v2;
          v1 = Option.bind (read_part N (ly_look1 L) ''hound_look'' gen n) migrate_appearance_v1
      in if (case current of None \<Rightarrow> True | Some a \<Rightarrow> \<not> valid_appearance a)
         then (if v2 = None then v1 else v2) else current)"

text \<open>The boots, the reset reason, the companion and the look, by the version of the boot record.\<close>

definition read_boot :: "'n nvs \<Rightarrow> layouts \<Rightarrow> u32 \<Rightarrow> pet_record \<Rightarrow> 'n \<Rightarrow> (u32 \<times> u32 \<times> companion \<times> appearance) option" where
  "read_boot N L gen p n =
     (case read_part N (ly_boot L) ''hound_system'' gen n of
        Some b \<Rightarrow>
          if br_version b \<noteq> 4 \<and> br_version b \<noteq> 5 then None
          else (case read_companion N L gen n of
                  None \<Rightarrow> None
                | Some c \<Rightarrow> map_option (\<lambda>a. (br_boots b, br_reason b, c, a))
                    (if br_version b = 5 then read_look N L gen n else Some appearance0))
      | None \<Rightarrow> map_option (\<lambda>b. (br_boots b, br_reason b, fst (unlock (p_xp (pr_pet p)) companion0), appearance0))
          (read_part N (ly_boot3 L) ''hound_system'' gen n))"

definition read_generation :: "'n nvs \<Rightarrow> layouts \<Rightarrow> u32 \<Rightarrow> 'n \<Rightarrow> state option" where
  "read_generation N L gen n =
     (case (read_part N (ly_config L) ''hound_settings'' gen n, read_part N (ly_pet L) ''hound_pet'' gen n) of
        (Some c, Some p) \<Rightarrow>
          (case read_boot N L gen p n of
             None \<Rightarrow> None
           | Some (boots, reason, friend, look) \<Rightarrow>
               let s = state0\<lparr>t_settings := cf_settings c, t_pet := pr_pet p, t_calibration := cf_calibration c,
                     t_recent := pr_recent p, t_meal_key := pr_key p, t_boots := boots, t_reset_reason := reason,
                     t_battery := cf_battery c, t_companion := friend, t_appearance := look, t_raw := cf_raw c\<rparr>
               in if valid_current s then Some s else None)
      | _ \<Rightarrow> None)"

definition read_legacy :: "'n nvs \<Rightarrow> 'a codec \<Rightarrow> ('a \<Rightarrow> state option) \<Rightarrow> string \<Rightarrow> 'n \<Rightarrow> state nvs_read" where
  "read_legacy N k migrate key n =
     (case nv_get_blob N ''system'' key (k_size k) n of
        Found blob \<Rightarrow> if length blob \<noteq> k_size k then Read_Error
          else (case migrate (k_of k blob) of None \<Rightarrow> Read_Error | Some s \<Rightarrow> Found s)
      | Not_Found \<Rightarrow> Not_Found
      | Read_Error \<Rightarrow> Read_Error)"

section \<open>Saving and loading\<close>

definition config_of :: "state \<Rightarrow> config_record" where
  "config_of s = \<lparr>cf_settings = t_settings s, cf_calibration = t_calibration s, cf_battery = t_battery s,
     cf_raw = t_raw s\<rparr>"

definition pet_of :: "state \<Rightarrow> pet_record" where
  "pet_of s = \<lparr>pr_pet = t_pet s, pr_recent = t_recent s, pr_key = t_meal_key s\<rparr>"

definition boot_of :: "state \<Rightarrow> boot_record" where
  "boot_of s = \<lparr>br_boots = t_boots s, br_reason = t_reset_reason s, br_version = 5\<rparr>"

definition write_generation :: "'n nvs \<Rightarrow> layouts \<Rightarrow> u32 \<Rightarrow> state \<Rightarrow> 'n \<Rightarrow> bool \<times> 'n" where
  "write_generation N L gen s = run_all
     [write_part N (ly_config L) ''hound_settings'' gen (config_of s),
      write_part N (ly_pet L) ''hound_pet'' gen (pet_of s),
      write_part N (ly_boot L) ''hound_system'' gen (boot_of s),
      write_part N (ly_companion L) ''hound_companion'' gen (t_companion s),
      write_part N (ly_look L) ''hound_look'' gen (t_appearance s)]"

definition commit_generation :: "'n nvs \<Rightarrow> u32 \<Rightarrow> 'n \<Rightarrow> bool \<times> 'n" where
  "commit_generation N gen = run_all
     [nv_open N ''system'', nv_set_u32 N ''system'' ''generation'' gen, nv_commit N ''system'']"

definition persist :: "'n nvs \<Rightarrow> layouts \<Rightarrow> state \<Rightarrow> u32 \<times> 'n \<Rightarrow> bool \<times> u32 \<times> 'n" where
  "persist N L s = (\<lambda>(gen, n).
     let next = gen + 1
     in if \<not> valid_current s \<or> next = 0 then (False, gen, n)
        else let (ok, n) = run_all [write_generation N L next s, commit_generation N next] n
             in (ok, if ok then next else gen, n))"

definition booted :: "u32 \<Rightarrow> state \<Rightarrow> state" where
  "booted reason s = s\<lparr>t_boots := t_boots s + 1, t_reset_reason := reason\<rparr>"

definition rested :: "state \<Rightarrow> state" where
  "rested s = s\<lparr>t_pet := (t_pet s)\<lparr>p_decay_ms := 0\<rparr>\<rparr>"

text \<open>\<open>load\<close>: \<open>key\<close> is what the random source gives, \<open>reason\<close> the reset reason of this boot.\<close>

definition load :: "'n nvs \<Rightarrow> layouts \<Rightarrow> u8 list \<Rightarrow> u32 \<Rightarrow> state \<Rightarrow> u32 \<times> 'n \<Rightarrow> bool \<times> state \<times> u32 \<times> 'n" where
  "load N L key reason s = (\<lambda>(gen, n).
     let (ok, n) = run_all [nv_init N, nv_open N ''system''] n;
         boot = (\<lambda>s gen. (let s = booted reason s in case persist N L s (gen, n) of (ok, m) \<Rightarrow> (ok, s, m)))
     in if \<not> ok then (False, s, gen, n)
        else case nv_get_u32 N ''system'' ''generation'' n of
          Found gen \<Rightarrow>
            (case read_generation N L gen n of
               None \<Rightarrow> (False, s, gen, n)
             | Some loaded \<Rightarrow> boot (rested loaded) gen)
        | Read_Error \<Rightarrow> (False, s, gen, n)
        | Not_Found \<Rightarrow>
            let rc = (case read_legacy N (ly_state2 L) migrate_v2 ''state_v2'' n of
                        Not_Found \<Rightarrow> read_legacy N (ly_state1 L) migrate_v1 ''state_v1'' n
                      | rc \<Rightarrow> rc)
            in case rc of
                 Found loaded \<Rightarrow> if valid_current loaded then boot (rested loaded) gen else (False, s, gen, n)
               | Not_Found \<Rightarrow> boot (s\<lparr>t_meal_key := key\<rparr>) gen
               | Read_Error \<Rightarrow> (False, s, gen, n))"

section \<open>What the flash library promises\<close>

text \<open>
  \<open>untouched N keys n m\<close>: going from \<open>n\<close> to \<open>m\<close> only the keys in \<open>keys\<close> may read differently, and
  no namespace disappears.
\<close>

definition untouched :: "'n nvs \<Rightarrow> (string \<times> string) set \<Rightarrow> 'n \<Rightarrow> 'n \<Rightarrow> bool" where
  "untouched N keys n m \<longleftrightarrow> (\<forall>space. nv_readable N space n \<longrightarrow> nv_readable N space m) \<and>
     (\<forall>space key. (space, key) \<notin> keys \<longrightarrow>
        (\<forall>size. nv_get_blob N space key size m = nv_get_blob N space key size n) \<and>
        nv_get_u32 N space key m = nv_get_u32 N space key n)"

text \<open>
  Opening changes no stored value, and an opened namespace is readable.  Writing a
  key and committing changes that key only; when both succeed it reads as written, into any buffer
  that is large enough.  A failed write of a blob may leave anything under its key; a number is
  replaced whole, so a failed write leaves the old or the new one.
\<close>

definition opens_lawful :: "'n nvs \<Rightarrow> bool" where
  "opens_lawful N \<longleftrightarrow> (\<forall>space n. untouched N {} n (snd (nv_open N space n)) \<and>
        (fst (nv_open N space n) \<longrightarrow> nv_readable N space (snd (nv_open N space n))))"

definition blobs_lawful :: "'n nvs \<Rightarrow> bool" where
  "blobs_lawful N \<longleftrightarrow> (\<forall>space key v n.
     case nv_set_blob N space key v n of (ok, m) \<Rightarrow> untouched N {(space, key)} n m \<and>
       (ok \<longrightarrow> (case nv_commit N space m of (ok, k) \<Rightarrow> untouched N {(space, key)} n k \<and>
          (ok \<longrightarrow> (\<forall>cap \<ge> length v. nv_get_blob N space key cap k = Found v)))))"

definition numbers_lawful :: "'n nvs \<Rightarrow> bool" where
  "numbers_lawful N \<longleftrightarrow> (\<forall>space key v n.
     case nv_set_u32 N space key v n of (ok, m) \<Rightarrow> untouched N {(space, key)} n m \<and>
       nv_get_u32 N space key m \<in> {nv_get_u32 N space key n, Found v} \<and>
       (ok \<longrightarrow> (case nv_commit N space m of (ok, k) \<Rightarrow> untouched N {(space, key)} n k \<and>
          nv_get_u32 N space key k \<in> {nv_get_u32 N space key n, Found v} \<and>
          (ok \<longrightarrow> nv_get_u32 N space key k = Found v))))"

definition nvs_lawful :: "'n nvs \<Rightarrow> bool" where
  "nvs_lawful N \<longleftrightarrow> opens_lawful N \<and> blobs_lawful N \<and> numbers_lawful N"

text \<open>A layout holds for a value when its bytes have the size of the structure and read back as the value.\<close>

definition lays_out :: "'a codec \<Rightarrow> 'a \<Rightarrow> bool" where
  "lays_out k x \<longleftrightarrow> length (k_bytes k x) = k_size k \<and> k_of k (k_bytes k x) = x"

definition state_lays_out :: "layouts \<Rightarrow> state \<Rightarrow> bool" where
  "state_lays_out L s \<longleftrightarrow> lays_out (ly_config L) (config_of s) \<and> lays_out (ly_pet L) (pet_of s) \<and>
     lays_out (ly_boot L) (boot_of s) \<and> lays_out (ly_companion L) (t_companion s) \<and>
     lays_out (ly_look L) (t_appearance s)"

section \<open>Envelopes\<close>

lemma length_le32 [simp]: "length (le32 w) = 4"
  by (simp add: le32_def)

lemma of_le32_le32 [simp]: "of_le32 (le32 w) = w"
proof -
  have "[0..<4] = [0, 1, 2, 3 :: nat]" by (simp add: upt_rec)
  then show ?thesis unfolding le32_def of_le32_def
    apply (intro bit_word_eqI)
    subgoal for n by (cases "n < 16"; cases "n < 24") (auto simp: bit_simps)
    done
qed

lemma open_envelope: "lays_out k x \<Longrightarrow> open_envelope k gen (envelope k gen x) = Some x"
  by (simp add: open_envelope_def envelope_def envelope_size_def lays_out_def)

lemma length_envelope: "lays_out k x \<Longrightarrow> length (envelope k gen x) = envelope_size k"
  by (simp add: envelope_def envelope_size_def lays_out_def)

section \<open>What a write leaves\<close>

lemma untouched_refl [simp]: "untouched N keys n n"
  by (simp add: untouched_def)

lemma untouched_trans: "untouched N A n m \<Longrightarrow> untouched N B m k \<Longrightarrow> untouched N (A \<union> B) n k"
  by (simp add: untouched_def)

lemma untouched_none: "untouched N {} n m \<Longrightarrow> untouched N keys n m"
  by (simp add: untouched_def)

lemma untouched_mono: "untouched N A n m \<Longrightarrow> A \<subseteq> B \<Longrightarrow> untouched N B n m"
  unfolding untouched_def by blast

lemma lawful_open: "nvs_lawful N \<Longrightarrow> nv_open N space n = (ok, m) \<Longrightarrow> untouched N {} n m"
  unfolding nvs_lawful_def opens_lawful_def by (metis snd_conv)

lemma lawful_opened: "nvs_lawful N \<Longrightarrow> nv_open N space n = (True, m) \<Longrightarrow> nv_readable N space m"
  unfolding nvs_lawful_def opens_lawful_def by (metis fst_conv snd_conv)

lemma lawful_blob: "nvs_lawful N \<Longrightarrow> nv_set_blob N space key v n = (ok, m) \<Longrightarrow> untouched N {(space, key)} n m"
  unfolding nvs_lawful_def blobs_lawful_def by (metis (no_types, lifting) case_prod_conv)

lemma lawful_blob_commit:
  assumes "nvs_lawful N" "nv_set_blob N space key v n = (True, m)" "nv_commit N space m = (ok, k)"
  shows "untouched N {(space, key)} n k \<and>
    (ok \<longrightarrow> (\<forall>cap \<ge> length v. nv_get_blob N space key cap k = Found v))"
proof -
  have "case nv_set_blob N space key v n of (ok, m) \<Rightarrow> untouched N {(space, key)} n m \<and>
       (ok \<longrightarrow> (case nv_commit N space m of (ok, k) \<Rightarrow> untouched N {(space, key)} n k \<and>
          (ok \<longrightarrow> (\<forall>cap \<ge> length v. nv_get_blob N space key cap k = Found v))))"
    using assms(1) by (simp add: nvs_lawful_def blobs_lawful_def)
  with assms(2,3) show ?thesis by simp
qed

lemma lawful_number:
  assumes "nvs_lawful N" "nv_set_u32 N space key v n = (ok, m)"
  shows "untouched N {(space, key)} n m" "nv_get_u32 N space key m \<in> {nv_get_u32 N space key n, Found v}"
    and "ok \<Longrightarrow> nv_commit N space m = (fine, k) \<Longrightarrow> untouched N {(space, key)} n k \<and>
      nv_get_u32 N space key k \<in> {nv_get_u32 N space key n, Found v} \<and>
      (fine \<longrightarrow> nv_get_u32 N space key k = Found v)"
proof -
  have "case nv_set_u32 N space key v n of (ok, m) \<Rightarrow> untouched N {(space, key)} n m \<and>
       nv_get_u32 N space key m \<in> {nv_get_u32 N space key n, Found v} \<and>
       (ok \<longrightarrow> (case nv_commit N space m of (ok, k) \<Rightarrow> untouched N {(space, key)} n k \<and>
          nv_get_u32 N space key k \<in> {nv_get_u32 N space key n, Found v} \<and>
          (ok \<longrightarrow> nv_get_u32 N space key k = Found v)))"
    using assms(1) by (simp add: nvs_lawful_def numbers_lawful_def)
  with assms(2) show "untouched N {(space, key)} n m"
      "nv_get_u32 N space key m \<in> {nv_get_u32 N space key n, Found v}"
      "ok \<Longrightarrow> nv_commit N space m = (fine, k) \<Longrightarrow> untouched N {(space, key)} n k \<and>
        nv_get_u32 N space key k \<in> {nv_get_u32 N space key n, Found v} \<and>
        (fine \<longrightarrow> nv_get_u32 N space key k = Found v)"
    by simp_all
qed

lemma untouched_chain: "untouched N keys n m \<Longrightarrow> untouched N keys m k \<Longrightarrow> untouched N keys n k"
  using untouched_trans [of N keys n m keys k] by simp

lemma untouched_u32: "untouched N keys n m \<Longrightarrow> (space, key) \<notin> keys \<Longrightarrow>
    nv_get_u32 N space key m = nv_get_u32 N space key n"
  by (simp add: untouched_def)

lemma run_all_Cons_E:
  assumes "run_all (call # calls) n = (ok, m)"
  obtains (stopped) "call n = (False, m)" "\<not> ok"
    | (passed) k where "call n = (True, k)" "run_all calls k = (ok, m)"
  using assms by (auto split: prod.splits if_splits)

lemma run_all_untouched:
  assumes "run_all calls n = (ok, m)"
    and "\<And>call n ok m. call \<in> set calls \<Longrightarrow> call n = (ok, m) \<Longrightarrow> untouched N keys n m"
  shows "untouched N keys n m"
  using assms
proof (induction calls arbitrary: n)
  case (Cons call calls)
  from Cons.prems(1) show ?case
  proof (cases rule: run_all_Cons_E)
    case stopped
    with Cons.prems(2) [of call n False m] show ?thesis by simp
  next
    case (passed k)
    have "untouched N keys n k" using Cons.prems(2) [of call n True k] passed(1) by simp
    moreover have "untouched N keys k m" by (rule Cons.IH [OF passed(2)]) (use Cons.prems(2) in auto)
    ultimately show ?thesis by (rule untouched_chain)
  qed
qed simp

lemma read_part_readable: "read_part N k space gen n = Some x \<Longrightarrow> nv_readable N space n"
  by (simp add: read_part_def split: if_splits)

lemma read_part_same:
  assumes "untouched N keys n m" "(space, slot_key gen) \<notin> keys" "nv_readable N space n"
  shows "read_part N k space gen m = read_part N k space gen n"
  using assms by (simp add: read_part_def untouched_def)

lemma read_part_kept:
  assumes "untouched N keys n m" "(space, slot_key gen) \<notin> keys" "read_part N k space gen n = Some x"
  shows "read_part N k space gen m = Some x"
  using assms by (metis read_part_readable read_part_same)

lemma write_part_untouched:
  assumes "nvs_lawful N" "write_part N k space gen x n = (ok, m)"
  shows "untouched N {(space, slot_key gen)} n m"
proof -
  let ?key = "{(space, slot_key gen)}"
  from assms(2) have "run_all [nv_open N space, nv_set_blob N space (slot_key gen) (envelope k gen x),
      nv_commit N space] n = (ok, m)" by (simp add: write_part_def)
  then show ?thesis
  proof (cases rule: run_all_Cons_E)
    case stopped
    with lawful_open [OF assms(1)] have "untouched N {} n m" by blast
    then show ?thesis by (rule untouched_mono) simp
  next
    case (passed n1)
    have opened: "untouched N ?key n n1"
      using lawful_open [OF assms(1) passed(1)] by (rule untouched_mono) simp
    from passed(2) have "untouched N ?key n1 m"
    proof (cases rule: run_all_Cons_E)
      case stopped
      then show ?thesis using lawful_blob [OF assms(1)] by blast
    next
      case (passed n2)
      obtain ok' where "nv_commit N space n2 = (ok', m)"
        using passed(2) by (auto split: prod.splits if_splits)
      with passed(1) show ?thesis using lawful_blob_commit [OF assms(1)] by blast
    qed
    with opened show ?thesis by (rule untouched_chain)
  qed
qed

lemma write_part_reads_back:
  assumes "nvs_lawful N" "lays_out k x" "write_part N k space gen x n = (True, m)"
  shows "read_part N k space gen m = Some x"
proof -
  from assms(3) obtain n1 n2 where calls: "nv_open N space n = (True, n1)"
      "nv_set_blob N space (slot_key gen) (envelope k gen x) n1 = (True, n2)" "nv_commit N space n2 = (True, m)"
    by (auto simp: write_part_def split: prod.splits if_splits)
  note law = lawful_blob_commit [OF assms(1) calls(2,3)]
  have "nv_readable N space m" using law lawful_opened [OF assms(1) calls(1)]
    by (simp add: untouched_def)
  then show ?thesis using law
    by (simp add: read_part_def length_envelope [OF assms(2)] open_envelope [OF assms(2)])
qed

section \<open>What a generation keeps\<close>

lemma read_boot_kept:
  assumes "untouched N keys n m" "\<And>space. (space, slot_key gen) \<notin> keys" "read_boot N L gen p n = Some x"
  shows "read_boot N L gen p m = Some x"
proof -
  note same = read_part_same [OF assms(1,2)]
  have "nv_readable N ''hound_system'' n" using assms(3)
    by (auto simp: read_boot_def split: option.splits dest: read_part_readable)
  then have boot: "read_part N (ly_boot L) ''hound_system'' gen m = read_part N (ly_boot L) ''hound_system'' gen n"
      "read_part N (ly_boot3 L) ''hound_system'' gen m = read_part N (ly_boot3 L) ''hound_system'' gen n"
    by (simp_all add: same)
  have friend: "read_companion N L gen m = read_companion N L gen n" if "read_companion N L gen n \<noteq> None"
  proof -
    have "nv_readable N ''hound_companion'' n" using that
      by (auto simp: read_companion_def bind_eq_Some_conv split: option.splits dest: read_part_readable)
    then show ?thesis by (simp add: read_companion_def same split: option.split)
  qed
  have look: "read_look N L gen m = read_look N L gen n" if "read_look N L gen n \<noteq> None"
  proof -
    have "nv_readable N ''hound_look'' n" using that
      by (auto simp: read_look_def Let_def bind_eq_Some_conv split: option.splits if_splits dest: read_part_readable)
    then show ?thesis by (simp add: read_look_def same)
  qed
  show ?thesis using assms(3) boot friend look
    by (auto simp: read_boot_def split: option.splits if_splits)
qed

lemma read_generation_kept:
  assumes "untouched N keys n m" "\<And>space. (space, slot_key gen) \<notin> keys" "read_generation N L gen n = Some s"
  shows "read_generation N L gen m = Some s"
proof -
  note kept = read_part_kept [OF assms(1,2)]
  obtain c p b where reads: "read_part N (ly_config L) ''hound_settings'' gen n = Some c"
      "read_part N (ly_pet L) ''hound_pet'' gen n = Some p" "read_boot N L gen p n = Some b"
    using assms(3) by (auto simp: read_generation_def split: option.splits)
  show ?thesis using assms(3)
    by (simp add: read_generation_def reads kept [OF reads(1)] kept [OF reads(2)]
        read_boot_kept [OF assms(1,2) reads(3)])
qed

definition slots :: "u32 \<Rightarrow> (string \<times> string) set" where
  "slots gen = {''hound_settings'', ''hound_pet'', ''hound_system'', ''hound_companion'', ''hound_look''} \<times> {slot_key gen}"

lemma slot_key_next: "slot_key (gen + 1) \<noteq> slot_key gen"
proof -
  have "even (gen + 1) \<longleftrightarrow> odd gen" by simp
  then show ?thesis by (auto simp: slot_key_def mod2_eq_if)
qed

lemma write_generation_untouched:
  assumes "nvs_lawful N" "write_generation N L gen s n = (ok, m)"
  shows "untouched N (slots gen) n m"
  using assms(2) unfolding write_generation_def
  by (rule run_all_untouched)
    (auto simp: slots_def dest!: write_part_untouched [OF assms(1)] elim!: untouched_mono)

lemma write_generation_reads_back:
  assumes law: "nvs_lawful N" and lay: "state_lays_out L s" and valid: "valid_current s"
    and fine: "write_generation N L gen s n = (True, m)"
  shows "read_generation N L gen m = Some s"
proof -
  from fine obtain n1 n2 n3 n4 where calls:
      "write_part N (ly_config L) ''hound_settings'' gen (config_of s) n = (True, n1)"
      "write_part N (ly_pet L) ''hound_pet'' gen (pet_of s) n1 = (True, n2)"
      "write_part N (ly_boot L) ''hound_system'' gen (boot_of s) n2 = (True, n3)"
      "write_part N (ly_companion L) ''hound_companion'' gen (t_companion s) n3 = (True, n4)"
      "write_part N (ly_look L) ''hound_look'' gen (t_appearance s) n4 = (True, m)"
    by (auto simp: write_generation_def split: prod.splits if_splits)
  note kept = calls(2-5) [THEN write_part_untouched [OF law]]
  note sealed = write_part_reads_back [OF law]
  have parts: "read_part N (ly_config L) ''hound_settings'' gen m = Some (config_of s)"
      "read_part N (ly_pet L) ''hound_pet'' gen m = Some (pet_of s)"
      "read_part N (ly_boot L) ''hound_system'' gen m = Some (boot_of s)"
      "read_part N (ly_companion L) ''hound_companion'' gen m = Some (t_companion s)"
      "read_part N (ly_look L) ''hound_look'' gen m = Some (t_appearance s)"
    using lay by (simp_all add: state_lays_out_def sealed [OF _ calls(1)] sealed [OF _ calls(2)]
        sealed [OF _ calls(3)] sealed [OF _ calls(4)] sealed [OF _ calls(5)]
        kept [THEN read_part_kept])
  have "t_version s = 5" using valid by (simp add: valid_current_def valid_state_def valid_fields_def split: prod.splits)
  moreover have "valid_appearance (t_appearance s)" using valid by (simp add: valid_current_def)
  ultimately show ?thesis using parts valid
    by (cases s) (simp add: Let_def read_generation_def read_boot_def read_companion_def read_look_def config_of_def pet_of_def
        boot_of_def state0_def)
qed

lemma commit_generation_ends:
  assumes "nvs_lawful N" "commit_generation N gen n = (ok, m)"
  shows "untouched N {(''system'', ''generation'')} n m"
    and "nv_get_u32 N ''system'' ''generation'' m \<in> {nv_get_u32 N ''system'' ''generation'' n, Found gen}"
    and "ok \<Longrightarrow> nv_get_u32 N ''system'' ''generation'' m = Found gen"
proof -
  let ?stored = "nv_get_u32 N ''system'' ''generation''"
  let ?key = "{(''system'', ''generation'')}"
  from assms(2) have "run_all [nv_open N ''system'', nv_set_u32 N ''system'' ''generation'' gen,
      nv_commit N ''system''] n = (ok, m)" by (simp add: commit_generation_def)
  then have "untouched N ?key n m \<and> ?stored m \<in> {?stored n, Found gen} \<and> (ok \<longrightarrow> ?stored m = Found gen)"
  proof (cases rule: run_all_Cons_E)
    case stopped
    from lawful_open [OF assms(1) stopped(1)] stopped(2) show ?thesis
      by (simp add: untouched_none untouched_u32 [of N "{}"])
  next
    case (passed n1)
    from lawful_open [OF assms(1) passed(1)]
    have opened: "untouched N ?key n n1" "?stored n1 = ?stored n"
      by (simp_all add: untouched_none untouched_u32 [of N "{}"])
    from passed(2) have "untouched N ?key n1 m \<and> ?stored m \<in> {?stored n1, Found gen} \<and>
        (ok \<longrightarrow> ?stored m = Found gen)"
    proof (cases rule: run_all_Cons_E)
      case stopped
      from lawful_number(1,2) [OF assms(1) stopped(1)] stopped(2) show ?thesis by simp
    next
      case (passed n2)
      obtain ok' where "nv_commit N ''system'' n2 = (ok', m)" "ok \<longrightarrow> ok'"
        using passed(2) by (auto split: prod.splits if_splits)
      with lawful_number(3) [OF assms(1) passed(1) TrueI this(1)] show ?thesis by simp
    qed
    with opened untouched_chain [OF opened(1)] show ?thesis by simp
  qed
  then show "untouched N {(''system'', ''generation'')} n m" "?stored m \<in> {?stored n, Found gen}"
      "ok \<Longrightarrow> ?stored m = Found gen" by blast+
qed


section \<open>The saved state\<close>

text \<open>
  What the flash holds: a readable state, nothing at all, or something that must not be overwritten.
\<close>

definition saved_state :: "'n nvs \<Rightarrow> layouts \<Rightarrow> 'n \<Rightarrow> state nvs_read" where
  "saved_state N L n =
     (case nv_get_u32 N ''system'' ''generation'' n of
        Found gen \<Rightarrow> (case read_generation N L gen n of None \<Rightarrow> Read_Error | Some s \<Rightarrow> Found s)
      | Read_Error \<Rightarrow> Read_Error
      | Not_Found \<Rightarrow>
          (case (case read_legacy N (ly_state2 L) migrate_v2 ''state_v2'' n of
                   Not_Found \<Rightarrow> read_legacy N (ly_state1 L) migrate_v1 ''state_v1'' n
                 | rc \<Rightarrow> rc) of
             Found s \<Rightarrow> if valid_current s then Found s else Read_Error
           | rc \<Rightarrow> rc))"

lemma slots_apart: "slot_key gen' \<noteq> slot_key gen \<Longrightarrow> (space, slot_key gen) \<notin> slots gen'"
  "(space, ''generation'') \<notin> slots gen" "(space, ''state_v2'') \<notin> slots gen" "(space, ''state_v1'') \<notin> slots gen"
  "slot_key gen \<noteq> ''generation''"
  by (auto simp: slots_def slot_key_def split: if_splits)

lemma read_legacy_kept:
  "untouched N keys n m \<Longrightarrow> (''system'', key) \<notin> keys \<Longrightarrow> read_legacy N k f key m = read_legacy N k f key n"
  by (simp add: read_legacy_def untouched_def)

lemma saved_state_kept:
  assumes "untouched N keys n m" "nv_get_u32 N ''system'' ''generation'' m = nv_get_u32 N ''system'' ''generation'' n"
    and "(''system'', ''state_v2'') \<notin> keys" "(''system'', ''state_v1'') \<notin> keys"
    and "\<And>gen space. nv_get_u32 N ''system'' ''generation'' n = Found gen \<Longrightarrow> (space, slot_key gen) \<notin> keys"
    and "saved_state N L n = Found s"
  shows "saved_state N L m = Found s"
proof (cases "nv_get_u32 N ''system'' ''generation'' n")
  case (Found gen)
  with assms(6) have "read_generation N L gen n = Some s"
    by (simp add: saved_state_def split: option.splits)
  from read_generation_kept [OF assms(1) assms(5) [OF Found] this] show ?thesis
    by (simp add: saved_state_def assms(2) Found)
next
  case Not_Found
  with assms(6) show ?thesis
    unfolding saved_state_def assms(2) read_legacy_kept [OF assms(1,3)] read_legacy_kept [OF assms(1,4)]
    by simp
next
  case Read_Error
  with assms(6) show ?thesis by (simp add: saved_state_def)
qed

lemma persist_saved:
  assumes law: "nvs_lawful N" and lay: "state_lays_out L s" and old: "saved_state N L n = Found old"
    and gen: "\<And>g. nv_get_u32 N ''system'' ''generation'' n = Found g \<Longrightarrow> g = gen"
    and run: "persist N L s (gen, n) = (ok, gen', m)"
  shows "saved_state N L m = Found s \<or> \<not> ok \<and> saved_state N L m = Found old"
    and "ok \<Longrightarrow> gen' = gen + 1 \<and> nv_get_u32 N ''system'' ''generation'' m = Found gen'"
proof -
  let ?stored = "nv_get_u32 N ''system'' ''generation''"
  have "(saved_state N L m = Found s \<or> \<not> ok \<and> saved_state N L m = Found old) \<and>
      (ok \<longrightarrow> gen' = gen + 1 \<and> ?stored m = Found gen')"
  proof (cases "valid_current s \<and> gen + 1 \<noteq> 0")
    case False
    with run old show ?thesis by (auto simp: persist_def)
  next
    case True
    with run have chain: "run_all [write_generation N L (gen + 1) s, commit_generation N (gen + 1)] n = (ok, m)"
        "gen' = (if ok then gen + 1 else gen)"
      by (auto simp: persist_def Let_def simp del: run_all.simps split: prod.splits)
    have kept: "saved_state N L k = Found old" "?stored k = ?stored n"
      if "untouched N (slots (gen + 1)) n k" for k
    proof -
      show "?stored k = ?stored n" using that by (simp add: untouched_u32 slots_apart)
      with that show "saved_state N L k = Found old"
        by (rule saved_state_kept) (use gen slot_key_next in \<open>auto simp: slots_apart old\<close>)
    qed
    from chain(1) show ?thesis
    proof (cases rule: run_all_Cons_E)
      case stopped
      with kept(1) [OF write_generation_untouched [OF law stopped(1)]] show ?thesis by simp
    next
      case (passed k)
      note kept_k = kept [OF write_generation_untouched [OF law passed(1)]]
      have written: "read_generation N L (gen + 1) k = Some s"
        using law lay True passed(1) by (simp add: write_generation_reads_back)
      obtain ok' where commit: "commit_generation N (gen + 1) k = (ok', m)" "ok = ok'"
        using passed(2) by (auto split: prod.splits if_splits)
      note ends = commit_generation_ends [OF law commit(1)]
      show ?thesis
      proof (cases "?stored m = Found (gen + 1)")
        case True
        have "read_generation N L (gen + 1) m = Some s"
          by (rule read_generation_kept [OF ends(1) _ written]) (simp add: slots_apart)
        with True chain(2) show ?thesis by (simp add: saved_state_def)
      next
        case False
        with ends(2,3) commit(2) have "?stored m = ?stored k" "\<not> ok" by auto
        moreover from this have "saved_state N L m = Found old"
          by (intro saved_state_kept [OF ends(1) _ _ _ _ kept_k(1)]) (simp_all add: slots_apart)
        ultimately show ?thesis by simp
      qed
    qed
  qed
  then show "saved_state N L m = Found s \<or> \<not> ok \<and> saved_state N L m = Found old"
      "ok \<Longrightarrow> gen' = gen + 1 \<and> ?stored m = Found gen'" by blast+
qed

lemma valid_current_booted: "valid_current (booted reason (rested s)) \<longleftrightarrow> valid_current s"
  by (simp add: valid_current_def valid_state_def valid_fields_def booted_def rested_def settings_shape_def)

section \<open>Properties\<close>

text \<open>
  Property C24.  Saving never loses the saved state: whichever of the calls into the flash library
  fails, and wherever the sequence stops, the flash afterwards holds a readable state, either the
  old one, complete, or the new one, complete; when \<open>persist\<close> reports success it is the new one and
  the generation in memory is the one that is stored.
\<close>

theorem persist_keeps_a_readable_state:
  assumes "nvs_lawful N" "state_lays_out L s" "saved_state N L n = Found old"
    and "nv_get_u32 N ''system'' ''generation'' n = Found gen"
    and "persist N L s (gen, n) = (ok, gen', m)"
  shows "(saved_state N L m = Found s \<or> \<not> ok \<and> saved_state N L m = Found old) \<and>
    (ok \<longrightarrow> gen' = gen + 1 \<and> nv_get_u32 N ''system'' ''generation'' m = Found gen')"
  using persist_saved [OF assms(1-3) _ assms(5)] assms(4) by simp

text \<open>
  A saved state that cannot be read is never overwritten: when the flash does not
  start, or holds a state whose parts, checksums, versions or values are wrong, \<open>load\<close> reports
  failure and gives back the state it was called with and the device as it was opened.
\<close>

theorem load_refuses:
  assumes "run_all [nv_init N, nv_open N ''system''] n = (ready, opened)"
    and "\<not> ready \<or> saved_state N L opened = Read_Error"
  shows "\<exists>gen'. load N L key reason s (gen, n) = (False, s, gen', opened)"
  using assms by (cases ready) (auto simp: load_def Let_def saved_state_def simp del: run_all.simps
      split: nvs_read.splits option.splits if_splits)

text \<open>
  Property C25.  Starting up brings the saved state back: from a flash that holds a readable state,
  of any of the stored versions, \<open>load\<close> gives that state with one more boot and its hunger clock
  at zero; afterwards the flash holds that state or, only if \<open>load\<close> reports failure, still the old one.
\<close>

theorem load_brings_back:
  assumes law: "nvs_lawful N" and ready: "run_all [nv_init N, nv_open N ''system''] n = (True, opened)"
    and old: "saved_state N L opened = Found old"
    and lay: "state_lays_out L (booted reason (rested old))"
    and run: "load N L key reason s (gen, n) = (ok, now, gen', m)"
  shows "now = booted reason (rested old) \<and>
    (saved_state N L m = Found now \<or> \<not> ok \<and> saved_state N L m = Found old)"
proof -
  obtain g where boot: "now = booted reason (rested old)" "persist N L now (g, opened) = (ok, gen', m)"
      "\<And>h. nv_get_u32 N ''system'' ''generation'' opened = Found h \<Longrightarrow> h = g"
    using ready old run by (auto simp: load_def Let_def saved_state_def simp del: run_all.simps
        split: nvs_read.splits option.splits if_splits prod.splits)
  from persist_saved(1) [OF law lay [folded boot(1)] old boot(3) boot(2)] boot(1) show ?thesis by simp
qed

section \<open>A concrete flash\<close>

text \<open>
  A flash whose power fails after a number of writes: the write in which it fails spoils a blob and
  leaves a number as it was.  Every namespace opens.
\<close>

datatype stored_entry = Blob "u8 list" | Number u32

record flash =
  fl_power :: nat
  fl_entries :: "string \<times> string \<Rightarrow> stored_entry option"

definition spend :: "string \<times> string \<Rightarrow> stored_entry \<Rightarrow> (string \<times> string \<Rightarrow> stored_entry option) \<Rightarrow> flash \<Rightarrow> bool \<times> flash" where
  "spend key e spoiled f = (case fl_power f of
     0 \<Rightarrow> (False, f\<lparr>fl_entries := spoiled\<rparr>)
   | Suc charge \<Rightarrow> (True, \<lparr>fl_power = charge, fl_entries = (fl_entries f)(key \<mapsto> e)\<rparr>))"

definition example_nvs :: "flash nvs" where
  "example_nvs = \<lparr>nv_init = (\<lambda>f. (True, f)), nv_readable = (\<lambda>space f. True), nv_open = (\<lambda>space f. (True, f)),
     nv_get_blob = (\<lambda>space key cap f. case fl_entries f (space, key) of
        Some (Blob v) \<Rightarrow> if length v \<le> cap then Found v else Read_Error | _ \<Rightarrow> Not_Found),
     nv_set_blob = (\<lambda>space key v f. spend (space, key) (Blob v) ((fl_entries f)((space, key) \<mapsto> Blob [])) f),
     nv_get_u32 = (\<lambda>space key f. case fl_entries f (space, key) of Some (Number v) \<Rightarrow> Found v | _ \<Rightarrow> Not_Found),
     nv_set_u32 = (\<lambda>space key v f. spend (space, key) (Number v) (fl_entries f) f),
     nv_commit = (\<lambda>space f. (True, f))\<rparr>"

lemma example_nvs_lawful: "nvs_lawful example_nvs"
  by (simp add: nvs_lawful_def opens_lawful_def blobs_lawful_def numbers_lawful_def untouched_def
      example_nvs_def spend_def split: nat.split)

text \<open>A layout for the boot record, and layouts that know one value for the parts that do not change here.\<close>

definition only :: "'a \<Rightarrow> 'a codec" where
  "only x = \<lparr>k_size = 1, k_pad = 0, k_bytes = (\<lambda>y. [0]), k_of = (\<lambda>bytes. x)\<rparr>"

definition boot_codec :: "boot_record codec" where
  "boot_codec = \<lparr>k_size = 12, k_pad = 0,
     k_bytes = (\<lambda>b. le32 (br_boots b) @ le32 (br_reason b) @ le32 (br_version b)),
     k_of = (\<lambda>bytes. \<lparr>br_boots = of_le32 (take 4 bytes), br_reason = of_le32 (take 4 (drop 4 bytes)),
       br_version = of_le32 (take 4 (drop 8 bytes))\<rparr>)\<rparr>"

definition boot3_codec :: "boot_record_v3 codec" where
  "boot3_codec = \<lparr>k_size = 8, k_pad = 0, k_bytes = (\<lambda>b. le32 (br_boots b) @ le32 (br_reason b)),
     k_of = (\<lambda>bytes. \<lparr>br_boots = of_le32 (take 4 bytes), br_reason = of_le32 (take 4 (drop 4 bytes))\<rparr>)\<rparr>"

definition example_state :: state where
  "example_state = state0\<lparr>t_meal_key := replicate 32 1, t_boots := 6\<rparr>"

definition example_state_v2 :: state_v2 where
  "example_state_v2 = \<lparr>t2_version = 2, t2_settings = settings0, t2_pet = pet0, t2_calibration = calibration0,
     t2_recent = replicate 32 no_stamp, t2_meal_key = replicate 32 1, t2_boots = 6, t2_reset_reason = 0,
     t2_raw = [0, 0, 0, 0, 0, 0, 0, 0, 0, 1]\<rparr>"

definition example_state_v1 :: state_v1 where
  "example_state_v1 = \<lparr>t1_version = 1, t1_settings = \<lparr>s1_version = 1, s1_enabled_categories = all_categories,
       s1_threshold = 50, s1_region = 0, s1_brightness = 70, s1_character = 0, s1_sound = False,
       s1_low_feeding = False, s1_reduced_animation = False, s1_research = False, s1_raw_ssid = False,
       s1_onboarded = False, s1_ibeacon_alerts = False, s1_name = ''SCOUT'' @ replicate 8 (CHR 0x00)\<rparr>,
     t1_pet = pet0, t1_calibration = calibration0, t1_recent = replicate 32 no_stamp,
     t1_meal_key = replicate 32 1, t1_boots = 6, t1_reset_reason = 0, t1_raw = [0, 0, 0, 0, 0, 0, 0, 0]\<rparr>"

definition example_look :: appearance_v2 where
  "example_look = \<lparr>av_version = 2, av_theme = 0, av_scene = 0, av_speech = 0, av_compact = 0, av_inverted = 0\<rparr>"

definition example_layouts :: layouts where
  "example_layouts = \<lparr>ly_config = only (config_of example_state), ly_pet = only (pet_of example_state),
     ly_boot = boot_codec, ly_boot3 = boot3_codec, ly_companion = only companion0,
     ly_companion1 = only \<lparr>cv_version = 1, cv_scents = [], cv_ignored = [], cv_equipped = 0, cv_unlocked = 0\<rparr>,
     ly_look = only appearance0, ly_look2 = only example_look, ly_look1 = only (appearance_v1.truncate example_look),
     ly_state2 = only example_state_v2, ly_state1 = only example_state_v1\<rparr>"

text \<open>A flash with nothing but a state of the second layout, and power for \<open>charge\<close> writes.\<close>

definition old_flash :: "nat \<Rightarrow> flash" where
  "old_flash charge = \<lparr>fl_power = charge, fl_entries = [(''system'', ''state_v2'') \<mapsto> Blob [0]]\<rparr>"

lemma example_valid: "valid_current example_state"
  by (simp add: example_state_def valid_current_def valid_state_def valid_fields_def state0_def settings_shape_def
      settings0_def blank_companion_valid blank_appearance_valid calibration_ok_def calibration0_def pet0_def
      stored_name_ok_def battery_calibration0_def stamps_ok_def no_stamp_def all_categories_def category_count_def
      list_all_iff list_ex_iff)

lemma example_migrates: "migrate_v2 example_state_v2 = Some example_state"
  using example_valid
  by (simp add: migrate_v2_def example_state_v2_def valid_state_v2_def example_state_def valid_current_def
      valid_state_def valid_fields_def state0_def settings_shape_def)

lemma example_saved: "saved_state example_nvs example_layouts (old_flash charge) = Found example_state"
  by (simp add: saved_state_def read_legacy_def example_nvs_def old_flash_def example_layouts_def only_def
      example_migrates example_valid)

lemma example_lays_out:
  assumes "config_of s = config_of example_state" "pet_of s = pet_of example_state"
    and "t_companion s = companion0" "t_appearance s = appearance0"
  shows "state_lays_out example_layouts s"
  using assms by (simp add: state_lays_out_def lays_out_def example_layouts_def only_def boot_codec_def boot_of_def)


lemma example_boot_lays_out: "state_lays_out example_layouts (booted reason example_state)"
  by (rule example_lays_out)
    (simp_all add: booted_def config_of_def pet_of_def example_state_def state0_def)

lemma example_state_lays_out: "state_lays_out example_layouts example_state"
  by (rule example_lays_out) (simp_all add: example_state_def state0_def)

lemma example_rested: "rested example_state = example_state"
  by (simp add: rested_def example_state_def state0_def pet0_def)

text \<open>The state saved with power for eight writes, then again: the power fails in the third write.\<close>

definition full_flash :: flash where
  "full_flash = snd (snd (persist example_nvs example_layouts example_state (0, old_flash 8)))"

definition torn :: "bool \<times> u32 \<times> flash" where
  "torn = persist example_nvs example_layouts (booted 1 example_state) (1, full_flash)"

lemma example_persists: "persist example_nvs example_layouts example_state (0, old_flash 8) = (True, 1, full_flash)"
  by (simp add: full_flash_def persist_def example_valid write_generation_def write_part_def
      commit_generation_def example_nvs_def spend_def old_flash_def eval_nat_numeral)

lemma full_flash_saved:
  "saved_state example_nvs example_layouts full_flash = Found example_state"
  "nv_get_u32 example_nvs ''system'' ''generation'' full_flash = Found 1"
  using persist_saved [OF example_nvs_lawful example_state_lays_out example_saved _ example_persists]
  by (auto simp: old_flash_def example_nvs_def)

lemma full_flash_power: "fl_power full_flash = 2"
  by (simp add: full_flash_def persist_def example_valid write_generation_def write_part_def
      commit_generation_def example_nvs_def spend_def old_flash_def eval_nat_numeral)

lemma torn_fails: "fst torn = False"
  by (simp add: torn_def persist_def valid_current_booted [of _ example_state, unfolded example_rested] example_valid
      write_generation_def write_part_def commit_generation_def example_nvs_def spend_def full_flash_power
      eval_nat_numeral)

lemma persist_keeps_a_readable_state_witness:
  "fst torn = False \<and> saved_state example_nvs example_layouts (snd (snd torn)) \<in>
     {Found example_state, Found (booted 1 example_state)}"
  using persist_keeps_a_readable_state [OF example_nvs_lawful example_boot_lays_out full_flash_saved,
      of 1 "fst torn" "fst (snd torn)" "snd (snd torn)"] torn_fails
  by (auto simp: torn_def)

text \<open>A flash whose stored generation has no parts is refused.\<close>

definition bare_flash :: flash where
  "bare_flash = \<lparr>fl_power = 9, fl_entries = [(''system'', ''generation'') \<mapsto> Number 3]\<rparr>"

lemma load_refuses_witness:
  "\<exists>gen'. load example_nvs example_layouts [] 1 state0 (0, bare_flash) = (False, state0, gen', bare_flash)"
  by (rule load_refuses [where ready = True])
    (simp_all add: example_nvs_def bare_flash_def saved_state_def read_generation_def read_part_def slot_key_def)

lemma load_brings_back_witness:
  "t_boots (fst (snd (load example_nvs example_layouts [] 1 state0 (0, old_flash 8)))) = 7"
proof -
  obtain ok now gen' m where run:
      "load example_nvs example_layouts [] 1 state0 (0, old_flash 8) = (ok, now, gen', m)"
    by (metis surj_pair)
  have opened: "run_all [nv_init example_nvs, nv_open example_nvs ''system''] (old_flash 8) = (True, old_flash 8)"
    by (simp add: example_nvs_def)
  have "now = booted 1 (rested example_state)"
    using load_brings_back [OF example_nvs_lawful opened example_saved _ run]
    by (simp add: example_rested example_boot_lays_out)
  then show ?thesis by (simp add: run booted_def rested_def example_state_def)
qed

end
