(* ===== verification/Card_Files.thy ===== *)
theory Card_Files
  imports Prelude
begin

text \<open>
  The files of the card and the calls of the C library the storage code makes on them.  The card is
  an association list of paths and contents, its directories, and the outcomes of the calls to come:
  any call may fail, after doing a part of its work.  A stream writes through to the card, so what a
  failed flush leaves behind is only reported.
\<close>

datatype outcome = Works | Fails nat

record volume =
  vo_files :: "(string \<times> string) list"
  vo_dirs :: "string list"
  vo_faults :: "outcome list"

definition newline :: char where
  "newline = CHR 0x0A"

definition file_text :: "string \<Rightarrow> volume \<Rightarrow> string option" where
  "file_text path v = map_of (vo_files v) path"

fun put :: "string \<Rightarrow> string \<Rightarrow> (string \<times> string) list \<Rightarrow> (string \<times> string) list" where
  "put path text [] = [(path, text)]"
| "put path text ((p, t) # files) = (if p = path then (p, text) # files else (p, t) # put path text files)"

definition put_file :: "string \<Rightarrow> string \<Rightarrow> volume \<Rightarrow> volume" where
  "put_file path text v = v\<lparr>vo_files := put path text (vo_files v)\<rparr>"

definition next_outcome :: "volume \<Rightarrow> outcome \<times> volume" where
  "next_outcome v = (case vo_faults v of [] \<Rightarrow> (Works, v) | f # fs \<Rightarrow> (f, v\<lparr>vo_faults := fs\<rparr>))"

text \<open>A call whose only effect is its report: \<open>fflush\<close>, \<open>fsync\<close>, \<open>fclose\<close>, \<open>closedir\<close>, \<open>fseek\<close>.\<close>

definition lib_call :: "volume \<Rightarrow> bool \<times> volume" where
  "lib_call v = (case next_outcome v of (Works, v) \<Rightarrow> (True, v) | (Fails _, v) \<Rightarrow> (False, v))"

section \<open>Directories\<close>

definition entries :: "string \<Rightarrow> volume \<Rightarrow> string list" where
  "entries root v = filter (\<lambda>name. CHR ''/'' \<notin> set name) (map (drop (length root + 1))
     (filter (\<lambda>p. take (length root + 1) p = root @ ''/'') (map fst (vo_files v) @ vo_dirs v)))"

definition opendir :: "string \<Rightarrow> volume \<Rightarrow> string list option \<times> volume" where
  "opendir root v = (case lib_call v of (ok, v) \<Rightarrow>
     (if ok \<and> root \<in> set (vo_dirs v) then Some (entries root v) else None, v))"

datatype dir_read = Dir_Entry string "string list" | Dir_End | Dir_Failed

definition readdir :: "string list \<Rightarrow> volume \<Rightarrow> dir_read \<times> volume" where
  "readdir names v = (case lib_call v of (ok, v) \<Rightarrow>
     (if \<not> ok then Dir_Failed else case names of [] \<Rightarrow> Dir_End | n # ns \<Rightarrow> Dir_Entry n ns, v))"

definition mkdir :: "string \<Rightarrow> volume \<Rightarrow> bool \<times> volume" where
  "mkdir path v = (case lib_call v of (ok, v) \<Rightarrow>
     if \<not> ok \<or> path \<in> set (vo_dirs v) then (False, v) else (True, v\<lparr>vo_dirs := vo_dirs v @ [path]\<rparr>))"

definition unlink :: "string \<Rightarrow> volume \<Rightarrow> bool \<times> volume" where
  "unlink path v = (case lib_call v of (ok, v) \<Rightarrow>
     if \<not> ok \<or> file_text path v = None then (False, v)
     else (True, v\<lparr>vo_files := filter (\<lambda>(p, t). p \<noteq> path) (vo_files v)\<rparr>))"

section \<open>Streams\<close>

record stream =
  st_path :: string
  st_pos :: nat
  st_eof :: bool
  st_err :: bool

text \<open>\<open>"rb"\<close> and \<open>"rb+"\<close> need the file; \<open>"wx"\<close> creates it and fails if it exists; \<open>"w"\<close> empties it.\<close>

definition fopen :: "string \<Rightarrow> volume \<Rightarrow> stream option \<times> volume" where
  "fopen path v = (case lib_call v of (ok, v) \<Rightarrow>
     (if ok \<and> file_text path v \<noteq> None then Some \<lparr>st_path = path, st_pos = 0, st_eof = False, st_err = False\<rparr> else None, v))"

definition fopen_new :: "string \<Rightarrow> volume \<Rightarrow> string option \<times> volume" where
  "fopen_new path v = (case lib_call v of (ok, v) \<Rightarrow>
     if ok \<and> file_text path v = None then (Some path, put_file path [] v) else (None, v))"

definition fopen_empty :: "string \<Rightarrow> volume \<Rightarrow> string option \<times> volume" where
  "fopen_empty path v = (case lib_call v of (ok, v) \<Rightarrow>
     if ok then (Some path, put_file path [] v) else (None, v))"

fun line_of :: "nat \<Rightarrow> string \<Rightarrow> string" where
  "line_of (Suc n) (c # cs) = c # (if c = newline then [] else line_of n cs)"
| "line_of _ _ = []"

definition fgets :: "nat \<Rightarrow> stream \<Rightarrow> volume \<Rightarrow> (string option \<times> stream) \<times> volume" where
  "fgets cap st v = (case lib_call v of (ok, v) \<Rightarrow>
     let rest = drop (st_pos st) (case file_text (st_path st) v of None \<Rightarrow> [] | Some t \<Rightarrow> t);
         line = line_of (cap - 1) rest
     in (if \<not> ok then (None, st\<lparr>st_err := True\<rparr>)
         else if rest = [] then (None, st\<lparr>st_eof := True\<rparr>)
         else (Some line, st\<lparr>st_pos := st_pos st + length line,
            st_eof := st_eof st \<or> newline \<notin> set line \<and> length line < cap - 1\<rparr>), v))"

definition ftell :: "stream \<Rightarrow> volume \<Rightarrow> int \<times> volume" where
  "ftell st v = (case lib_call v of (ok, v) \<Rightarrow> (if ok then int (st_pos st) else - 1, v))"

definition ftruncate :: "string \<Rightarrow> nat \<Rightarrow> volume \<Rightarrow> bool \<times> volume" where
  "ftruncate path n v = (case next_outcome v of
     (Fails 0, v) \<Rightarrow> (False, v)
   | (f, v) \<Rightarrow> (f = Works, put_file path (take n (the (file_text path v))) v))"

definition fwrite :: "string \<Rightarrow> string \<Rightarrow> volume \<Rightarrow> bool \<times> volume" where
  "fwrite path text v = (case next_outcome v of
     (f, v) \<Rightarrow> (f = Works, put_file path (the (file_text path v) @
        (case f of Works \<Rightarrow> text | Fails k \<Rightarrow> take k text)) v))"

definition strlen :: "string \<Rightarrow> nat" where
  "strlen s = length (takeWhile (\<lambda>c. c \<noteq> CHR 0x00) s)"

definition ends_with :: "string \<Rightarrow> string \<Rightarrow> bool" where
  "ends_with name suffix \<longleftrightarrow> length suffix \<le> length name \<and> drop (length name - length suffix) name = suffix"

definition is_log :: "string \<Rightarrow> bool" where
  "is_log name \<longleftrightarrow> ends_with name ''.JSONL'' \<and> CHR ''/'' \<notin> set name"

section \<open>What the calls keep\<close>

lemma put_keys: "map fst (put path text files) = map fst files @ (if path \<in> fst ` set files then [] else [path])"
  by (induction path "text" files rule: put.induct) auto

lemma map_of_put [simp]: "map_of (put path text files) = (map_of files)(path \<mapsto> text)"
  by (induction path "text" files rule: put.induct) (auto simp: fun_upd_twist)

lemma file_text_put [simp]: "file_text p (put_file path text v) = (if p = path then Some text else file_text p v)"
  by (simp add: file_text_def put_file_def)

lemma put_file_dirs [simp]: "vo_dirs (put_file path text v) = vo_dirs v"
  by (simp add: put_file_def)

text \<open>\<open>same_files\<close>: only outcomes were consumed.\<close>

definition same_files :: "volume \<Rightarrow> volume \<Rightarrow> bool" where
  "same_files v v' \<longleftrightarrow> vo_files v' = vo_files v \<and> vo_dirs v' = vo_dirs v"

lemma same_files_refl [simp]: "same_files v v"
  by (simp add: same_files_def)

lemma same_files_trans [trans]: "same_files a b \<Longrightarrow> same_files b c \<Longrightarrow> same_files a c"
  by (simp add: same_files_def)

lemma same_text: "same_files v v' \<Longrightarrow> file_text p v' = file_text p v"
  by (simp add: same_files_def file_text_def)

lemma same_entries: "same_files v v' \<Longrightarrow> entries p v' = entries p v"
  by (simp add: same_files_def entries_def)

lemma next_outcome_same: "next_outcome v = (x, v') \<Longrightarrow> same_files v v'"
  by (auto simp: next_outcome_def same_files_def split: list.splits)

lemma lib_call_same: "lib_call v = (x, v') \<Longrightarrow> same_files v v'"
  by (auto simp: lib_call_def dest: next_outcome_same split: prod.splits outcome.splits)

lemma no_fault: "vo_faults v = [] \<Longrightarrow> lib_call v = (True, v)"
  by (simp add: lib_call_def next_outcome_def)

lemma opendir_same: "opendir root v = (x, v') \<Longrightarrow> same_files v v' \<and> (\<forall>names. x = Some names \<longrightarrow> names = entries root v)"
  by (auto simp: opendir_def same_entries dest: lib_call_same split: prod.splits if_splits)

lemma readdir_same: "readdir names v = (x, v') \<Longrightarrow> same_files v v' \<and>
    (case x of Dir_Entry n ns \<Rightarrow> names = n # ns | Dir_End \<Rightarrow> names = [] | Dir_Failed \<Rightarrow> True)"
  by (auto simp: readdir_def dest: lib_call_same split: prod.splits list.splits if_splits)

lemma fopen_same: "fopen path v = (x, v') \<Longrightarrow> same_files v v' \<and>
    (\<forall>st. x = Some st \<longrightarrow> st = \<lparr>st_path = path, st_pos = 0, st_eof = False, st_err = False\<rparr> \<and> file_text path v \<noteq> None)"
  by (auto simp: fopen_def same_text dest: lib_call_same split: prod.splits if_splits)

lemma ftell_same: "ftell st v = (x, v') \<Longrightarrow> same_files v v' \<and> (x = int (st_pos st) \<or> x = - 1)"
  by (auto simp: ftell_def dest: lib_call_same split: prod.splits if_splits)

lemma ftruncate_effect:
  assumes "ftruncate path n v = (ok, v')"
  shows "same_files v v' \<and> \<not> ok \<or> same_files (put_file path (take n (the (file_text path v))) v) v'"
  using assms
  by (auto simp: ftruncate_def next_outcome_def same_files_def file_text_def put_file_def
      split: prod.splits list.splits outcome.splits nat.splits)

text \<open>\<open>spends\<close>: the outcomes of some calls were used up.\<close>

definition spends :: "volume \<Rightarrow> volume \<Rightarrow> bool" where
  "spends v v' \<longleftrightarrow> (\<exists>used. vo_faults v = used @ vo_faults v')"

lemma spends_refl [simp, intro]: "spends v v"
  by (simp add: spends_def)

lemma spends_trans: "spends u v \<Longrightarrow> spends v w \<Longrightarrow> spends u w"
  unfolding spends_def by (metis append_assoc)

lemma spends_put [simp]: "spends u (put_file path text v) \<longleftrightarrow> spends u v"
  by (simp add: spends_def put_file_def)

lemma spends_dirs [simp]: "spends u (v\<lparr>vo_dirs := ds\<rparr>) \<longleftrightarrow> spends u v" "spends u (v\<lparr>vo_files := fs\<rparr>) \<longleftrightarrow> spends u v"
  by (simp_all add: spends_def)

lemma spends_outcome [intro!]: "spends u v \<Longrightarrow> spends u (snd (next_outcome v))"
  by (rule spends_trans) (auto simp: next_outcome_def spends_def split: list.split)

lemma lib_call_snd: "snd (lib_call v) = snd (next_outcome v)"
  by (cases "fst (next_outcome v)") (simp_all add: lib_call_def case_prod_unfold)

lemma spends_call [intro!]:
  assumes "spends u v"
  shows "spends u (snd (lib_call v))" "spends u (snd (opendir path v))" "spends u (snd (readdir names v))"
    "spends u (snd (mkdir path v))" "spends u (snd (unlink path v))" "spends u (snd (fopen path v))"
    "spends u (snd (fopen_new path v))" "spends u (snd (fgets n st v))" "spends u (snd (fwrite path text v))"
  using assms
  by (auto simp: lib_call_snd opendir_def readdir_def mkdir_def unlink_def fopen_def fopen_new_def fgets_def
      fwrite_def Let_def case_prod_unfold)

section \<open>Rows\<close>

text \<open>A complete row ends with its only newline.\<close>

definition row :: "string \<Rightarrow> bool" where
  "row r \<longleftrightarrow> r \<noteq> [] \<and> last r = newline \<and> newline \<notin> set (butlast r)"

lemma line_of_prefix: "line_of n text = take (length (line_of n text)) text"
  by (induction n "text" rule: line_of.induct) auto

lemma line_of_length: "length (line_of n text) \<le> length text"
  by (induction n "text" rule: line_of.induct) auto

lemma line_of_row: "newline \<in> set (line_of n text) \<Longrightarrow> row (line_of n text)"
  by (induction n "text" rule: line_of.induct) (auto simp: row_def split: if_splits)

lemma line_of_rest: "newline \<notin> set (line_of n text) \<Longrightarrow> length (line_of n text) < n \<Longrightarrow> line_of n text = text"
  by (induction n "text" rule: line_of.induct) (auto split: if_splits)

lemma line_of_Nil: "line_of n text = [] \<longleftrightarrow> n = 0 \<or> text = []"
  by (cases "(n, text)" rule: line_of.cases) auto

lemma strlen_row:
  assumes "newline \<in> set r \<Longrightarrow> row r" and "strlen r \<noteq> 0" and "r ! (strlen r - 1) = newline"
  shows "row r \<and> strlen r = length r"
proof -
  have le: "strlen r \<le> length r" by (simp add: strlen_def length_takeWhile_le)
  then have i: "strlen r - 1 < length r" using assms(2) by simp
  have "newline \<in> set r" using assms(3) i by (metis nth_mem)
  with assms(1) have row: "row r" .
  have "\<not> strlen r - 1 < length (butlast r)"
    using row assms(3) by (metis nth_butlast nth_mem row_def)
  with le i assms(2) row show ?thesis by simp
qed

lemma fgets_cases:
  assumes "fgets cap st v = ((x, st'), v')" and "file_text (st_path st) v = Some text"
  obtains (fault) "x = None" "st' = st\<lparr>st_err := True\<rparr>" "same_files v v'"
    | (eof) "x = None" "st' = st\<lparr>st_eof := True\<rparr>" "length text \<le> st_pos st" "same_files v v'"
    | (line) line where "x = Some line" "line = line_of (cap - 1) (drop (st_pos st) text)" "st_pos st < length text"
        "st' = st\<lparr>st_pos := st_pos st + length line,
            st_eof := st_eof st \<or> newline \<notin> set line \<and> length line < cap - 1\<rparr>" "same_files v v'"
proof -
  obtain ok u where call: "lib_call v = (ok, u)" by fastforce
  note same = lib_call_same [OF call]
  have there: "file_text (st_path st) u = Some text" using assms(2) same by (simp add: same_text)
  show thesis using assms(1) same there call fault eof line
    by (auto simp: fgets_def Let_def split: if_splits)
qed

end
