(* ===== verification/Recovery.thy ===== *)
theory Recovery
  imports Card_Files Records
begin

text \<open>
  The check of the saved history at start (\<open>history_recovery.cpp\<close>): every log file of the directory
  is read row by row, a few at a time; an incomplete last row is cut off, anything else that is wrong
  makes the card read-only.
\<close>

section \<open>The scan\<close>

record recovery =
  rc_card :: volume
  rc_root :: string
  rc_directory :: "string list option"
  rc_input :: "stream option"
  rc_path :: string
  rc_good :: int
  rc_read_only :: bool
  rc_close_failed :: bool
  rc_files :: u32
  rc_rows :: u32
  rc_errors :: u32

definition recovery0 :: "volume \<Rightarrow> recovery" where
  "recovery0 v = \<lparr>rc_card = v, rc_root = [], rc_directory = None, rc_input = None, rc_path = [], rc_good = 0,
     rc_read_only = False, rc_close_failed = False, rc_files = 0, rc_rows = 0, rc_errors = 0\<rparr>"

definition on_card :: "(volume \<Rightarrow> 'a \<times> volume) \<Rightarrow> recovery \<Rightarrow> 'a \<times> recovery" where
  "on_card f r = (case f (rc_card r) of (x, v) \<Rightarrow> (x, r\<lparr>rc_card := v\<rparr>))"

definition active :: "recovery \<Rightarrow> bool" where
  "active r \<longleftrightarrow> rc_directory r \<noteq> None"

definition rc_error :: "recovery \<Rightarrow> recovery" where
  "rc_error r = r\<lparr>rc_read_only := True, rc_errors := rc_errors r + 1\<rparr>"

definition begin_recovery :: "string \<Rightarrow> recovery \<Rightarrow> bool \<times> recovery" where
  "begin_recovery directory r =
     (if active r \<or> rc_input r \<noteq> None then (False, r)
      else let r = r\<lparr>rc_root := directory\<rparr>; (names, r) = on_card (opendir (rc_root r)) r;
               r = r\<lparr>rc_directory := names\<rparr>; r = (if names = None then rc_error r else r)
           in (names \<noteq> None, r))"

definition close_failed :: "recovery \<Rightarrow> recovery" where
  "close_failed r = rc_error (r\<lparr>rc_close_failed := True\<rparr>)"

definition close_input :: "recovery \<Rightarrow> bool \<times> recovery" where
  "close_input r =
     (let r = (case rc_input r of None \<Rightarrow> r
        | Some st \<Rightarrow> let (ok, r) = on_card lib_call r; r = (if ok then r else close_failed r) in r\<lparr>rc_input := None\<rparr>)
      in (\<not> rc_close_failed r, r))"

definition cancel :: "recovery \<Rightarrow> bool \<times> recovery" where
  "cancel r =
     (let r = snd (close_input r);
          r = (case rc_directory r of None \<Rightarrow> r
            | Some names \<Rightarrow> let (ok, r) = on_card lib_call r; r = (if ok then r else close_failed r) in r\<lparr>rc_directory := None\<rparr>)
      in (\<not> rc_close_failed r, r))"

definition finish_file :: "bool \<Rightarrow> recovery \<Rightarrow> recovery" where
  "finish_file partial r =
     (let r = (if st_err (the (rc_input r)) then rc_error r else r); r = snd (close_input r)
      in if \<not> partial \<or> rc_read_only r then r
         else case on_card (fopen (rc_path r)) r of
             (None, r) \<Rightarrow> rc_error r
           | (Some st, r) \<Rightarrow>
               let r = r\<lparr>rc_input := Some st\<rparr>;
                   (cut, r) = on_card (ftruncate (st_path st) (nat (rc_good r))) r;
                   (synced, r) = (if cut then on_card lib_call r else (False, r));
                   r = (if synced then r else close_failed r)
               in snd (close_input r))"

definition next_entry :: "recovery \<Rightarrow> recovery" where
  "next_entry r =
     (case on_card (readdir (the (rc_directory r))) r of
        (Dir_Failed, r) \<Rightarrow> snd (cancel (rc_error r))
      | (Dir_End, r) \<Rightarrow> snd (cancel r)
      | (Dir_Entry name names, r) \<Rightarrow>
          let r = r\<lparr>rc_directory := Some names\<rparr>
          in if \<not> is_log name then r
             else let r = r\<lparr>rc_files := rc_files r + 1\<rparr>
             in if 4096 < rc_files r then snd (cancel (rc_error r))
             else let path = rc_root r @ ''/'' @ name; r = r\<lparr>rc_path := take 299 path\<rparr>
             in if 300 \<le> length path then rc_error r
             else case on_card (fopen (rc_path r)) r of
                 (None, r) \<Rightarrow> rc_error r
               | (Some st, r) \<Rightarrow> r\<lparr>rc_input := Some st, rc_good := 0\<rparr>)"

definition next_row :: "stream \<Rightarrow> recovery \<Rightarrow> recovery" where
  "next_row st r =
     (case on_card (fgets 2048 st) r of
        ((None, st), r) \<Rightarrow> finish_file False (r\<lparr>rc_input := Some st\<rparr>)
      | ((Some line, st), r) \<Rightarrow>
          let r = r\<lparr>rc_input := Some st\<rparr>; n = strlen line
          in if n = 0 \<or> line ! (n - 1) \<noteq> newline
             then finish_file (st_eof st) (if st_eof st then r else rc_error r)
             else if \<not> valid_log_record (take n line) then finish_file False (rc_error r)
             else let (pos, r) = on_card (ftell st) r; r = r\<lparr>rc_good := pos\<rparr>
                  in if pos < 0 then finish_file False (rc_error r) else r\<lparr>rc_rows := rc_rows r + 1\<rparr>)"

definition scan_one :: "recovery \<Rightarrow> recovery" where
  "scan_one r = (case rc_input r of None \<Rightarrow> next_entry r | Some st \<Rightarrow> next_row st r)"

text \<open>\<open>step\<close>: the loop body while the scan is active and the budget lasts.\<close>

fun recovery_step :: "nat \<Rightarrow> recovery \<Rightarrow> recovery" where
  "recovery_step 0 r = r"
| "recovery_step (Suc budget) r = (if active r then recovery_step budget (scan_one r) else r)"

section \<open>What may happen to a file\<close>

definition valid_rows :: "string list \<Rightarrow> bool" where
  "valid_rows rs \<longleftrightarrow> list_all (\<lambda>r. row r \<and> valid_log_record r) rs"

definition clean :: "string option \<Rightarrow> bool" where
  "clean content \<longleftrightarrow> (\<exists>rs. valid_rows rs \<and> content = Some (concat rs))"

definition trimmed :: "string \<Rightarrow> string \<Rightarrow> bool" where
  "trimmed old new \<longleftrightarrow> (\<exists>rs tail. valid_rows rs \<and> newline \<notin> set tail \<and> old = concat rs @ tail \<and> new = concat rs)"

definition kept :: "volume \<Rightarrow> volume \<Rightarrow> bool" where
  "kept v v' \<longleftrightarrow> vo_dirs v' = vo_dirs v \<and> map fst (vo_files v') = map fst (vo_files v) \<and>
     (\<forall>p. file_text p v' = file_text p v \<or>
       (\<exists>old new. file_text p v = Some old \<and> file_text p v' = Some new \<and> trimmed old new))"

lemma valid_rows_simps [simp]:
  "valid_rows []" "valid_rows (rs @ rs') \<longleftrightarrow> valid_rows rs \<and> valid_rows rs'"
  "valid_rows [r] \<longleftrightarrow> row r \<and> valid_log_record r"
  by (simp_all add: valid_rows_def)

lemma rows_last: "valid_rows rs \<Longrightarrow> concat rs = xs @ tail \<Longrightarrow> newline \<notin> set tail \<Longrightarrow> tail = []"
proof (induction rs rule: rev_induct)
  case (snoc r rs)
  then have "r \<noteq> []" "last r = newline" by (simp_all add: row_def)
  then have "last (concat (rs @ [r])) = newline" by simp
  with snoc show ?case by (metis last_appendR last_in_set)
qed simp

lemma trimmed_clean: "trimmed old new \<Longrightarrow> clean (Some new)"
  by (auto simp: trimmed_def clean_def)

lemma clean_trimmed: "clean (Some old) \<Longrightarrow> trimmed old new \<Longrightarrow> new = old"
  by (auto simp: trimmed_def clean_def) (metis append.right_neutral rows_last)

lemma same_kept: "same_files v v' \<Longrightarrow> kept v v'"
  by (simp add: same_files_def kept_def file_text_def)

lemma kept_trans [trans]:
  assumes "kept a b" "kept b c" shows "kept a c"
proof -
  have "file_text p c = file_text p a \<or>
      (\<exists>old new. file_text p a = Some old \<and> file_text p c = Some new \<and> trimmed old new)" for p
  proof -
    consider "file_text p b = file_text p a"
      | old mid where "file_text p a = Some old" "file_text p b = Some mid" "trimmed old mid"
      using assms(1) unfolding kept_def by blast
    then show ?thesis
    proof cases
      case 1
      then show ?thesis using assms(2) unfolding kept_def by metis
    next
      case 2
      moreover have "file_text p c = Some mid"
        using assms(2) 2(2) clean_trimmed [OF trimmed_clean [OF 2(3)]] unfolding kept_def
        by (metis option.inject)
      ultimately show ?thesis by blast
    qed
  qed
  with assms show ?thesis by (simp add: kept_def)
qed

lemma kept_clean: "kept v v' \<Longrightarrow> clean (file_text p v) \<Longrightarrow> clean (file_text p v')"
  unfolding kept_def by (metis trimmed_clean)

lemma put_keeps:
  assumes "file_text p v = Some old" "trimmed old new" shows "kept v (put_file p new v)"
proof -
  have "p \<in> fst ` set (vo_files v)" using assms(1) unfolding file_text_def by (force dest: map_of_SomeD)
  then have "map fst (vo_files (put_file p new v)) = map fst (vo_files v)" by (simp add: put_file_def put_keys)
  with assms show ?thesis by (auto simp: kept_def)
qed

section \<open>The closing calls\<close>

definition settled :: "recovery \<Rightarrow> recovery \<Rightarrow> bool" where
  "settled r r' \<longleftrightarrow> same_files (rc_card r) (rc_card r') \<and> rc_input r' = None \<and> rc_root r' = rc_root r \<and>
     rc_path r' = rc_path r \<and> rc_good r' = rc_good r \<and> (rc_read_only r \<longrightarrow> rc_read_only r')"

lemma on_card_lib [elim]: "on_card lib_call r = (x, r') \<Longrightarrow> \<exists>v. same_files (rc_card r) v \<and> r' = r\<lparr>rc_card := v\<rparr>"
  by (auto simp: on_card_def dest: lib_call_same split: prod.splits)

lemma close_input_settled: "settled r (snd (close_input r)) \<and> rc_directory (snd (close_input r)) = rc_directory r"
  by (auto simp: close_input_def settled_def close_failed_def rc_error_def Let_def
      dest!: on_card_lib split: option.splits prod.splits)

lemma cancel_settled: "settled r (snd (cancel r)) \<and> rc_directory (snd (cancel r)) = None"
proof -
  define q where "q = snd (close_input r)"
  have "settled r q" using close_input_settled by (simp add: q_def)
  then show ?thesis
    by (auto simp: cancel_def q_def [symmetric] settled_def close_failed_def rc_error_def Let_def same_files_def
        dest!: on_card_lib split: option.splits prod.splits)
qed


section \<open>One step\<close>

definition input_ok :: "recovery \<Rightarrow> bool" where
  "input_ok r \<longleftrightarrow> (case rc_input r of None \<Rightarrow> True
     | Some st \<Rightarrow> st_path st = rc_path r \<and> \<not> st_err st \<and> \<not> st_eof st \<and> rc_good r = int (st_pos st) \<and>
         (\<exists>text rs. file_text (rc_path r) (rc_card r) = Some text \<and> valid_rows rs \<and>
            take (st_pos st) text = concat rs \<and> st_pos st \<le> length text))"

text \<open>
  A file has been dealt with: the card keeps what it must, and if nothing was reported the file at
  \<open>rc_path\<close> is clean.
\<close>

definition dealt :: "recovery \<Rightarrow> recovery \<Rightarrow> bool" where
  "dealt r r' \<longleftrightarrow> kept (rc_card r) (rc_card r') \<and> rc_input r' = None \<and> rc_root r' = rc_root r \<and> rc_path r' = rc_path r \<and>
     rc_directory r' = rc_directory r \<and> (rc_read_only r \<longrightarrow> rc_read_only r') \<and>
     (\<not> rc_read_only r' \<longrightarrow> clean (file_text (rc_path r') (rc_card r')))"

lemma settled_kept: "settled r r' \<Longrightarrow> kept (rc_card r) (rc_card r')"
  by (simp add: settled_def same_kept)

lemma rc_error_simps [simp]:
  "rc_card (rc_error r) = rc_card r" "rc_read_only (rc_error r)" "rc_input (rc_error r) = rc_input r"
  "rc_root (rc_error r) = rc_root r" "rc_path (rc_error r) = rc_path r" "rc_directory (rc_error r) = rc_directory r"
  "rc_good (rc_error r) = rc_good r"
  by (simp_all add: rc_error_def)

lemma close_failed_simps [simp]:
  "rc_card (close_failed r) = rc_card r" "rc_read_only (close_failed r)" "rc_input (close_failed r) = rc_input r"
  "rc_root (close_failed r) = rc_root r" "rc_path (close_failed r) = rc_path r" "rc_directory (close_failed r) = rc_directory r"
  "rc_good (close_failed r) = rc_good r"
  by (simp_all add: close_failed_def)

lemma finish_file_whole:
  assumes "rc_read_only r \<or> clean (file_text (rc_path r) (rc_card r)) \<or> st_err (the (rc_input r))"
  shows "dealt r (finish_file False r)"
proof -
  define a where "a = (if st_err (the (rc_input r)) then rc_error r else r)"
  define b where "b = snd (close_input a)"
  have ab: "settled a b" "rc_directory b = rc_directory a" using close_input_settled by (simp_all add: b_def)
  have "finish_file False r = b" by (simp add: finish_file_def Let_def a_def b_def)
  moreover have "kept (rc_card r) (rc_card b)" using settled_kept [OF ab(1)] by (simp add: a_def split: if_splits)
  ultimately show ?thesis using ab assms
    by (auto simp: dealt_def settled_def a_def same_text split: if_splits)
qed

lemma cut_off:
  assumes there: "file_text (rc_path r) (rc_card r) = Some text" and "rc_input r = None" and good: "nat (rc_good r) \<le> length text"
    and rows: "valid_rows rs" "take (nat (rc_good r)) text = concat rs" "newline \<notin> set (drop (nat (rc_good r)) text)"
  shows "dealt r (case on_card (fopen (rc_path r)) r of
       (None, r) \<Rightarrow> rc_error r
     | (Some st, r) \<Rightarrow>
         let r = r\<lparr>rc_input := Some st\<rparr>;
             (cut, r) = on_card (ftruncate (st_path st) (nat (rc_good r))) r;
             (synced, r) = (if cut then on_card lib_call r else (False, r));
             r = (if synced then r else close_failed r)
         in snd (close_input r))"
proof -
  obtain x v where open_it: "fopen (rc_path r) (rc_card r) = (x, v)" by fastforce
  note opened = fopen_same [OF open_it]
  have text': "file_text (rc_path r) v = Some text" using same_text [OF conjunct1 [OF opened]] there by simp
  obtain cut w where cut: "ftruncate (rc_path r) (nat (rc_good r)) v = (cut, w)" by fastforce
  obtain ok u where call: "lib_call w = (ok, u)" by fastforce
  note synced = lib_call_same [OF call]
  have trim: "trimmed text (take (nat (rc_good r)) text)"
    using rows unfolding trimmed_def by (metis append_take_drop_id)
  have kept: "kept v (put_file (rc_path r) (take (nat (rc_good r)) text) v)" by (rule put_keeps [OF text' trim])
  note effect = ftruncate_effect [OF cut, unfolded text', simplified]
  have kept_w: "kept (rc_card r) w"
    using effect kept opened by (meson kept_trans same_kept)
  have clean_w: "cut \<Longrightarrow> clean (file_text (rc_path r) w)"
    using effect trimmed_clean [OF trim] by (auto simp: same_text)
  show ?thesis
  proof (cases x)
    case None
    then show ?thesis using open_it opened assms(2) by (simp add: on_card_def dealt_def same_kept)
  next
    case (Some st)
    define s where "s = (let r = r\<lparr>rc_input := Some st, rc_card := w\<rparr>; (synced, r) = (if cut then on_card lib_call r else (False, r))
        in (if synced then r else close_failed r))"
    have s: "kept (rc_card r) (rc_card s)" "rc_path s = rc_path r" "rc_root s = rc_root r" "rc_directory s = rc_directory r"
        "rc_read_only r \<longrightarrow> rc_read_only s" "\<not> rc_read_only s \<longrightarrow> clean (file_text (rc_path r) (rc_card s))"
      using kept_w clean_w synced kept_trans [OF kept_w same_kept [of w u]]
      by (auto simp: s_def on_card_def call same_text Let_def split: if_splits)
    have "settled s (snd (close_input s))" "rc_directory (snd (close_input s)) = rc_directory s"
      using close_input_settled by auto
    then have "dealt r (snd (close_input s))"
      using s kept_trans [OF s(1) settled_kept] by (auto simp: dealt_def settled_def same_text)
    then show ?thesis using Some open_it opened cut call
      by (cases cut; cases ok) (simp_all add: on_card_def s_def Let_def)
  qed
qed


lemma finish_file_partial:
  assumes "rc_input r = Some st" "file_text (rc_path r) (rc_card r) = Some text" "nat (rc_good r) \<le> length text"
    and rows: "valid_rows rs" "take (nat (rc_good r)) text = concat rs" "newline \<notin> set (drop (nat (rc_good r)) text)"
  shows "dealt r (finish_file True r)"
proof -
  define a where "a = (if st_err st then rc_error r else r)"
  define b where "b = snd (close_input a)"
  have b: "settled a b" "rc_directory b = rc_directory a" using close_input_settled by (simp_all add: b_def)
  have same: "same_files (rc_card r) (rc_card b)" "rc_path b = rc_path r" "rc_good b = rc_good r" "rc_input b = None"
      "rc_root b = rc_root r" "rc_directory b = rc_directory r" "rc_read_only r \<longrightarrow> rc_read_only b"
    using b by (auto simp: settled_def a_def split: if_splits)
  show ?thesis
  proof (cases "rc_read_only b")
    case True
    then show ?thesis using same assms(1)
      by (simp add: finish_file_def Let_def a_def [symmetric] b_def [symmetric] dealt_def same_kept)
  next
    case False
    have "dealt b (finish_file True r)"
      using cut_off [of b, OF _ same(4) _ rows(1)] False assms same same_text [OF same(1)]
      by (simp add: finish_file_def Let_def a_def [symmetric] b_def [symmetric])
    then show ?thesis using same kept_trans [OF same_kept [OF same(1)]] by (auto simp: dealt_def)
  qed
qed

lemma next_row_cases:
  assumes ok: "input_ok r" "rc_input r = Some st"
  shows "dealt r (next_row st r) \<or>
    (same_files (rc_card r) (rc_card (next_row st r)) \<and> input_ok (next_row st r) \<and> rc_input (next_row st r) \<noteq> None \<and>
     rc_root (next_row st r) = rc_root r \<and> rc_path (next_row st r) = rc_path r \<and>
     rc_directory (next_row st r) = rc_directory r \<and> rc_read_only (next_row st r) = rc_read_only r \<and>
     rc_good r < rc_good (next_row st r))"
proof -
  obtain old rs where there: "file_text (rc_path r) (rc_card r) = Some old" and rs: "valid_rows rs"
      "take (st_pos st) old = concat rs" "st_pos st \<le> length old" and st: "st_path st = rc_path r" "\<not> st_err st"
      "\<not> st_eof st" "rc_good r = int (st_pos st)"
    using ok by (auto simp: input_ok_def)
  obtain x st' v where get: "fgets 2048 st (rc_card r) = ((x, st'), v)" by (metis surj_pair)
  have there': "file_text (st_path st) (rc_card r) = Some old" using there st by simp
  note next_simps = next_row_def on_card_def get prod.case
  from get there' show ?thesis
  proof (cases rule: fgets_cases)
    case fault
    define q where "q = r\<lparr>rc_card := v, rc_input := Some st'\<rparr>"
    have "dealt q (finish_file False q)" by (rule finish_file_whole) (simp add: q_def fault)
    then have "dealt r (finish_file False q)"
      using kept_trans [OF same_kept [OF fault(3)]] by (auto simp: dealt_def q_def)
    then show ?thesis using fault(1) by (simp add: next_simps q_def)
  next
    case eof
    define q where "q = r\<lparr>rc_card := v, rc_input := Some st'\<rparr>"
    have "clean (file_text (rc_path q) (rc_card q))"
      using rs eof there same_text [OF eof(4)] unfolding clean_def q_def by auto
    then have "dealt q (finish_file False q)" by (rule finish_file_whole [OF disjI2 [OF disjI1]])
    then have "dealt r (finish_file False q)"
      using kept_trans [OF same_kept [OF eof(4)]] by (auto simp: dealt_def q_def)
    then show ?thesis using eof(1) by (simp add: next_simps q_def)
  next
    case (line line)
    define q where "q = r\<lparr>rc_card := v, rc_input := Some st'\<rparr>"
    have whole: "dealt r (finish_file False (rc_error p))" if "same_files (rc_card r) (rc_card p)" "rc_root p = rc_root r"
        "rc_path p = rc_path r" "rc_directory p = rc_directory r" for p
    proof -
      have "dealt (rc_error p) (finish_file False (rc_error p))" by (rule finish_file_whole) simp
      then show ?thesis using kept_trans [OF same_kept [OF that(1)]] that by (auto simp: dealt_def)
    qed
    note same = same_text [OF line(5)]
    have split: "take (st_pos st) old @ drop (st_pos st) old = old" by simp
    show ?thesis
    proof (cases "strlen line = 0 \<or> line ! (strlen line - 1) \<noteq> newline")
      case True
      then show ?thesis
      proof (cases "st_eof st'")
        case True
        then have no_row: "newline \<notin> set line" and "length line < 2047" using line(4) st(3) by simp_all
        then have "line = drop (st_pos st) old" using no_row line(2) line_of_rest by simp
        then have "dealt q (finish_file True q)" using rs st(4) no_row there same
          by (intro finish_file_partial [of q st' old rs]) (simp_all add: q_def)
        then have "dealt r (finish_file True q)"
          using kept_trans [OF same_kept [OF line(5)]] by (auto simp: dealt_def q_def)
        then show ?thesis using line(1) True \<open>strlen line = 0 \<or> _\<close> by (simp add: next_simps q_def)
      next
        case False
        then show ?thesis using whole [of q] line(1,5) \<open>strlen line = 0 \<or> _\<close>
          by (simp add: next_simps q_def)
      qed
    next
      case False
      then have row: "row line" "strlen line = length line"
        using strlen_row [of line] line_of_row [of 2047 "drop (st_pos st) old"] line(2) by auto
      show ?thesis
      proof (cases "valid_log_record line")
        case False
        then show ?thesis using whole [of q] line(1,5) row \<open>\<not> (strlen line = 0 \<or> _)\<close>
          by (simp add: next_simps q_def)
      next
        case valid: True
        obtain pos w where tell: "ftell st' v = (pos, w)" by fastforce
        note told = ftell_same [OF tell]
        have v_w: "same_files (rc_card r) w" using line(5) told same_files_trans by blast
        show ?thesis
        proof (cases "pos < 0")
          case True
          then show ?thesis using whole [of "q\<lparr>rc_card := w, rc_good := pos\<rparr>"] line(1) v_w row valid tell \<open>\<not> (strlen line = 0 \<or> _)\<close>
            by (simp add: next_simps q_def)
        next
          case False
          define r2 where "r2 = q\<lparr>rc_card := w, rc_good := pos, rc_rows := rc_rows r + 1\<rparr>"
          have step: "next_row st r = r2" using line(1) row valid tell False \<open>\<not> (strlen line = 0 \<or> _)\<close>
            by (simp add: next_simps q_def r2_def)
          have "take (st_pos st') old = concat (rs @ [line])"
            using rs(2) line(2,4) line_of_prefix [of 2047 "drop (st_pos st) old"] by (simp add: take_add)
          moreover have "st_pos st' \<le> length old"
            using line(2,3,4) line_of_length [of 2047 "drop (st_pos st) old"] by simp
          moreover have "newline \<in> set line" using row(1) unfolding row_def by (metis last_in_set)
          ultimately have "input_ok r2"
            using rs(1) row valid st line(4) told False same_text [OF v_w] there
            unfolding input_ok_def r2_def q_def by (auto intro!: exI [of _ "rs @ [line]"])
          moreover have "line \<noteq> []" using row(1) by (simp add: row_def)
          ultimately show ?thesis unfolding step using v_w st(4) line(4) told False by (simp add: r2_def q_def)
        qed
      qed
    qed
  qed
qed


text \<open>One more entry of the directory.\<close>

definition log_path :: "recovery \<Rightarrow> string \<Rightarrow> string" where
  "log_path r name = rc_root r @ ''/'' @ name"

definition opened :: "recovery \<Rightarrow> recovery \<Rightarrow> string \<Rightarrow> bool" where
  "opened r r' name \<longleftrightarrow> same_files (rc_card r) (rc_card r') \<and> input_ok r' \<and> rc_root r' = rc_root r \<and>
     rc_read_only r' = rc_read_only r \<and> rc_input r' \<noteq> None \<and> rc_path r' = log_path r name"

lemma on_card_simps [simp]:
  "on_card f r = (x, r') \<longleftrightarrow> (\<exists>v. f (rc_card r) = (x, v) \<and> r' = r\<lparr>rc_card := v\<rparr>)"
  by (auto simp: on_card_def split: prod.splits)

lemma next_entry_cases:
  assumes "rc_directory r = Some names" "rc_input r = None"
  obtains (closed) "settled r (next_entry r)" "rc_directory (next_entry r) = None" "names = [] \<or> rc_read_only (next_entry r)"
    | (skipped) name rest where "names = name # rest" "settled (r\<lparr>rc_path := rc_path (next_entry r)\<rparr>) (next_entry r)"
        "rc_directory (next_entry r) = Some rest" "\<not> is_log name \<or> rc_read_only (next_entry r)"
    | (opened) name rest where "names = name # rest" "opened r (next_entry r) name" "rc_directory (next_entry r) = Some rest"
proof -
  obtain x v where read: "readdir names (rc_card r) = (x, v)" by fastforce
  note same = readdir_same [OF read]
  have step: "next_entry r = (case (x, r\<lparr>rc_card := v\<rparr>) of
        (Dir_Failed, r) \<Rightarrow> snd (cancel (rc_error r))
      | (Dir_End, r) \<Rightarrow> snd (cancel r)
      | (Dir_Entry name names, r) \<Rightarrow>
          let r = r\<lparr>rc_directory := Some names\<rparr>
          in if \<not> is_log name then r
             else let r = r\<lparr>rc_files := rc_files r + 1\<rparr>
             in if 4096 < rc_files r then snd (cancel (rc_error r))
             else let path = rc_root r @ ''/'' @ name; r = r\<lparr>rc_path := take 299 path\<rparr>
             in if 300 \<le> length path then rc_error r
             else case on_card (fopen (rc_path r)) r of
                 (None, r) \<Rightarrow> rc_error r
               | (Some st, r) \<Rightarrow> r\<lparr>rc_input := Some st, rc_good := 0\<rparr>)"
    using read assms(1) by (simp add: next_entry_def on_card_def)
  have cancelled: "settled r (snd (cancel q))" "rc_directory (snd (cancel q)) = None" "rc_read_only q \<Longrightarrow> rc_read_only (snd (cancel q))"
    if "same_files (rc_card r) (rc_card q)" "rc_root q = rc_root r" "rc_path q = rc_path r" "rc_good q = rc_good r"
      "rc_read_only r \<longrightarrow> rc_read_only q" for q
    using cancel_settled [of q] that same_files_trans by (auto simp: settled_def)
  show thesis
  proof (cases x)
    case Dir_Failed
    then show thesis using closed cancelled [of "rc_error (r\<lparr>rc_card := v\<rparr>)"] same by (simp add: step)
  next
    case Dir_End
    then show thesis using closed cancelled [of "r\<lparr>rc_card := v\<rparr>"] same by (simp add: step)
  next
    case (Dir_Entry name rest)
    note skip = skipped [of name rest] and op = opened [of name rest]
    define a where "a = r\<lparr>rc_card := v, rc_directory := Some rest, rc_files := rc_files r + 1\<rparr>"
    define path where "path = rc_root r @ ''/'' @ name"
    define b where "b = a\<lparr>rc_path := take 299 path\<rparr>"
    obtain y w where op_it: "fopen (rc_path b) v = (y, w)" by fastforce
    note opn = fopen_same [OF op_it]
    consider "\<not> is_log name" | "is_log name" "4096 < rc_files a" | "is_log name" "\<not> 4096 < rc_files a" "300 \<le> length path"
      | "is_log name" "\<not> 4096 < rc_files a" "\<not> 300 \<le> length path" "y = None"
      | st where "is_log name" "\<not> 4096 < rc_files a" "\<not> 300 \<le> length path" "y = Some st" by fastforce
    then show thesis
    proof cases
      case 1
      then have "next_entry r = r\<lparr>rc_card := v, rc_directory := Some rest\<rparr>" by (simp add: step Dir_Entry)
      then show thesis using skip 1 same assms(2) by (simp add: Dir_Entry settled_def)
    next
      case 2
      then have "next_entry r = snd (cancel (rc_error a))" by (simp add: step Dir_Entry a_def Let_def)
      then show thesis using closed cancelled [of "rc_error a"] same by (simp add: a_def)
    next
      case 3
      then have "next_entry r = rc_error b" by (simp add: step Dir_Entry a_def b_def path_def Let_def)
      then show thesis using skip same assms(2) by (simp add: Dir_Entry settled_def a_def b_def)
    next
      case 4
      then have "next_entry r = rc_error (b\<lparr>rc_card := w\<rparr>)"
        using op_it by (simp add: step Dir_Entry a_def b_def path_def Let_def on_card_def)
      then show thesis using skip same assms(2) same_files_trans [of "rc_card r" v w] opn
        by (simp add: Dir_Entry settled_def a_def b_def)
    next
      case (5 st)
      then have next_r: "next_entry r = b\<lparr>rc_card := w, rc_input := Some st, rc_good := 0\<rparr>"
        using op_it by (simp add: step Dir_Entry a_def b_def path_def Let_def on_card_def)
      have "rc_path b = path" using 5 by (simp add: b_def)
      with opn 5 have st: "st = \<lparr>st_path = path, st_pos = 0, st_eof = False, st_err = False\<rparr>"
          "file_text path w \<noteq> None" "same_files v w" by (auto simp: same_text)
      then have "opened r (next_entry r) name" using same same_files_trans [of "rc_card r" v w] 5
        by (auto simp: opened_def next_r a_def b_def log_path_def path_def input_ok_def intro!: exI [of _ "[]"])
      then show thesis using op same by (simp add: next_r Dir_Entry a_def b_def)
    qed
  qed
qed


section \<open>The whole scan\<close>

definition pending_name :: "recovery \<Rightarrow> string \<Rightarrow> bool" where
  "pending_name r name \<longleftrightarrow> (\<exists>names. rc_directory r = Some names \<and> name \<in> set names) \<or>
     rc_input r \<noteq> None \<and> rc_path r = log_path r name"

definition scan_inv :: "volume \<Rightarrow> string list \<Rightarrow> recovery \<Rightarrow> bool" where
  "scan_inv v names r \<longleftrightarrow> kept v (rc_card r) \<and> input_ok r \<and> (\<not> active r \<longrightarrow> rc_input r = None) \<and>
     (rc_read_only r \<or> (\<forall>name \<in> set names. is_log name \<longrightarrow>
        pending_name r name \<or> clean (file_text (log_path r name) (rc_card r))))"

lemma settled_input_ok: "rc_input r = None \<Longrightarrow> input_ok r"
  by (simp add: input_ok_def)

lemma scan_inv_step:
  assumes kept: "kept (rc_card r) (rc_card r')" and ok: "input_ok r'" "\<not> active r' \<longrightarrow> rc_input r' = None"
    and same: "rc_root r' = rc_root r" "rc_read_only r \<longrightarrow> rc_read_only r'"
    and left: "\<And>name. is_log name \<Longrightarrow> pending_name r name \<Longrightarrow> \<not> rc_read_only r' \<Longrightarrow>
      pending_name r' name \<or> clean (file_text (log_path r name) (rc_card r'))"
    and inv: "scan_inv v names r"
  shows "scan_inv v names r'"
proof -
  have path: "log_path r' name = log_path r name" for name using same by (simp add: log_path_def)
  have "kept v (rc_card r')" using inv kept kept_trans unfolding scan_inv_def by blast
  moreover have "pending_name r' name \<or> clean (file_text (log_path r' name) (rc_card r'))"
    if "name \<in> set names" "is_log name" "\<not> rc_read_only r'" for name
    using inv that same(2) left [of name] kept_clean [OF kept] unfolding scan_inv_def path by blast
  ultimately show ?thesis using ok by (auto simp: scan_inv_def)
qed

definition unread :: "recovery \<Rightarrow> nat" where
  "unread r = nat (int (length (the (file_text (rc_path r) (rc_card r)))) - rc_good r)"

definition scan_measure :: "recovery \<Rightarrow> nat \<times> nat" where
  "scan_measure r = (2 * length (the (rc_directory r)) + (if rc_input r = None then 0 else 1), unread r)"

lemma scan_one_inv:
  assumes inv: "scan_inv v names r" and act: "active r"
  shows "scan_inv v names (scan_one r)"
    and "active (scan_one r) \<Longrightarrow> (scan_measure (scan_one r), scan_measure r) \<in> less_than <*lex*> less_than"
proof -
  obtain ns where dir: "rc_directory r = Some ns" using act by (auto simp: active_def)
  have ok: "input_ok r" using inv by (simp add: scan_inv_def)
  have "scan_inv v names (scan_one r) \<and>
    (active (scan_one r) \<longrightarrow> (scan_measure (scan_one r), scan_measure r) \<in> less_than <*lex*> less_than)"
  proof (cases "rc_input r")
    case None
    note one = scan_one_def [of r, unfolded None option.case]
    from dir None show ?thesis
    proof (cases rule: next_entry_cases)
      case closed
      have "scan_inv v names (next_entry r)"
        by (rule scan_inv_step [OF settled_kept [OF closed(1)] settled_input_ok _ _ _ _ inv])
          (use closed dir None in \<open>auto simp: settled_def pending_name_def\<close>)
      then show ?thesis unfolding one using closed(2) by (simp add: active_def)
    next
      case (skipped name rest)
      have "kept (rc_card r) (rc_card (next_entry r))" using settled_kept [OF skipped(2)] by simp
      then have "scan_inv v names (next_entry r)"
        by (rule scan_inv_step [OF _ settled_input_ok _ _ _ _ inv])
          (use skipped dir None in \<open>auto simp: settled_def pending_name_def\<close>)
      then show ?thesis unfolding one using skipped dir None by (simp add: scan_measure_def settled_def)
    next
      case (opened name rest)
      have o: "same_files (rc_card r) (rc_card (next_entry r))" "input_ok (next_entry r)" "rc_input (next_entry r) \<noteq> None"
          "rc_root (next_entry r) = rc_root r" "rc_path (next_entry r) = log_path r name"
        using opened(2) by (simp_all add: opened_def)
      have "scan_inv v names (next_entry r)"
        by (rule scan_inv_step [OF same_kept [OF o(1)] o(2) _ o(4) _ _ inv])
          (use opened o dir None in \<open>auto simp: opened_def pending_name_def active_def log_path_def\<close>)
      then show ?thesis unfolding one using opened(1,3) o(3) dir None by (simp add: scan_measure_def)
    qed
  next
    case (Some st)
    note one = scan_one_def [of r, unfolded Some option.case]
    from next_row_cases [OF ok Some] show ?thesis
    proof
      assume d: "dealt r (next_row st r)"
      have "scan_inv v names (next_row st r)"
        by (rule scan_inv_step [OF _ settled_input_ok _ _ _ _ inv])
          (use d in \<open>auto simp: dealt_def pending_name_def log_path_def\<close>)
      then show ?thesis unfolding one using d dir Some by (simp add: scan_measure_def dealt_def)
    next
      assume s: "same_files (rc_card r) (rc_card (next_row st r)) \<and> input_ok (next_row st r) \<and> rc_input (next_row st r) \<noteq> None \<and>
       rc_root (next_row st r) = rc_root r \<and> rc_path (next_row st r) = rc_path r \<and>
       rc_directory (next_row st r) = rc_directory r \<and> rc_read_only (next_row st r) = rc_read_only r \<and>
       rc_good r < rc_good (next_row st r)"
      have "scan_inv v names (next_row st r)"
        by (rule scan_inv_step [OF same_kept _ _ _ _ _ inv])
          (use s dir in \<open>auto simp: pending_name_def log_path_def active_def\<close>)
      moreover have "unread (next_row st r) < unread r"
      proof -
        have "rc_good (next_row st r) \<le> int (length (the (file_text (rc_path r) (rc_card (next_row st r)))))"
          using s by (auto simp: input_ok_def)
        then show ?thesis using s same_text [of "rc_card r" "rc_card (next_row st r)"] by (simp add: unread_def)
      qed
      ultimately show ?thesis unfolding one using s Some by (simp add: scan_measure_def)
    qed
  qed
  then show "scan_inv v names (scan_one r)"
    "active (scan_one r) \<Longrightarrow> (scan_measure (scan_one r), scan_measure r) \<in> less_than <*lex*> less_than" by blast+
qed

lemma recovery_step_inv: "scan_inv v names r \<Longrightarrow> scan_inv v names (recovery_step n r)"
  by (induction n arbitrary: r) (simp_all add: scan_one_inv)

lemma recovery_step_more: "recovery_step (m + n) r = recovery_step n (recovery_step m r)"
proof (induction m arbitrary: r)
  case 0
  show ?case by simp
next
  case (Suc m)
  have "\<not> active r \<Longrightarrow> recovery_step n r = r" by (cases n) simp_all
  with Suc show ?case by simp
qed

lemma recovery_ends: "scan_inv v names r \<Longrightarrow> \<exists>n. \<not> active (recovery_step n r)"
proof (induction r rule: wf_induct [OF wf_inv_image [OF wf_lex_prod [OF wf_less_than wf_less_than], of scan_measure]])
  case (1 r)
  show ?case
  proof (cases "active r \<and> active (scan_one r)")
    case True
    with 1 scan_one_inv [of v names r] obtain n where "\<not> active (recovery_step n (scan_one r))" by auto
    with True have "\<not> active (recovery_step (Suc n) r)" by simp
    then show ?thesis ..
  next
    case False
    have "\<not> active (recovery_step 1 r)" using False by simp
    then show ?thesis ..
  qed
qed

lemma begin_recovery_inv:
  assumes "begin_recovery root (recovery0 v) = (True, r)"
  shows "scan_inv v (entries root v) r" and "rc_root r = root"
proof -
  obtain x w where op: "opendir root v = (x, w)" by fastforce
  have began: "begin_recovery root (recovery0 v) = (x \<noteq> None, let r = (recovery0 v)\<lparr>rc_root := root, rc_card := w, rc_directory := x\<rparr>
      in if x = None then rc_error r else r)"
    by (simp add: begin_recovery_def recovery0_def active_def Let_def on_card_def op)
  with assms opendir_same [OF op] have r: "r = (recovery0 v)\<lparr>rc_root := root, rc_card := w, rc_directory := Some (entries root v)\<rparr>"
    and same: "same_files v w" by (auto simp: Let_def split: if_splits)
  show "rc_root r = root" by (simp add: r)
  show "scan_inv v (entries root v) r"
    by (simp add: scan_inv_def r same_kept [OF same] settled_input_ok recovery0_def active_def pending_name_def)
qed

lemma scan_done:
  assumes "scan_inv v names r" "\<not> active r" "\<not> rc_read_only r" "name \<in> set names" "is_log name"
  shows "clean (file_text (log_path r name) (rc_card r))"
  using assms by (auto simp: scan_inv_def pending_name_def active_def)

lemma scan_root: "scan_inv v names r \<Longrightarrow> rc_root (recovery_step n r) = rc_root r"
proof (induction n arbitrary: r)
  case (Suc n)
  show ?case
  proof (cases "active r")
    case True
    have "rc_root (scan_one r) = rc_root r"
    proof (cases "rc_input r")
      case None
      obtain ns where "rc_directory r = Some ns" using True by (auto simp: active_def)
      from next_entry_cases [OF this None] show ?thesis
        by cases (auto simp: scan_one_def None settled_def opened_def)
    next
      case (Some st)
      with Suc.prems next_row_cases [of r st] show ?thesis by (auto simp: scan_one_def scan_inv_def dealt_def)
    qed
    with Suc scan_one_inv(1) [OF Suc.prems True] True show ?thesis by simp
  qed simp
qed simp

section \<open>Properties\<close>

text \<open>A card with one interrupted log.\<close>

definition example_card :: volume where
  "example_card = \<lparr>vo_files = [(''L/A.JSONL'', ''{''), (''L/B.TXT'', ''x'')], vo_dirs = [''L''], vo_faults = []\<rparr>"

definition example_scan :: recovery where
  "example_scan = snd (begin_recovery ''L'' (recovery0 example_card))"

lemma example_begun: "begin_recovery ''L'' (recovery0 example_card) = (True, example_scan)"
  by code_simp

text \<open>
  Property C29.  The check of the history never loses a row: whatever calls of the file library
  fail and wherever it is stopped, every file of the card is as before, or was cut after its last
  complete row when all its complete rows are valid.
\<close>

theorem recovery_loses_no_row:
  assumes "begin_recovery root (recovery0 v) = (True, r)"
  shows "kept v (rc_card (recovery_step n r)) \<and> kept v (rc_card (snd (cancel (recovery_step n r))))"
proof -
  have "kept v (rc_card (recovery_step n r))"
    using recovery_step_inv [OF begin_recovery_inv(1) [OF assms]] by (simp add: scan_inv_def)
  with kept_trans [OF this settled_kept] cancel_settled show ?thesis by blast
qed

lemma recovery_loses_no_row_witness:
  "kept example_card (rc_card (recovery_step 4 example_scan)) \<and>
     vo_files (rc_card (recovery_step 4 example_scan)) = [(''L/A.JSONL'', []), (''L/B.TXT'', ''x'')]"
proof -
  have "vo_files (rc_card (recovery_step 4 example_scan)) = [(''L/A.JSONL'', []), (''L/B.TXT'', ''x'')]"
    by code_simp
  with recovery_loses_no_row [OF example_begun, of 4] show ?thesis by simp
qed

text \<open>
  Property C30.  The check always ends, and when it ends without declaring the card read-only,
  every log file of the directory consists of complete valid rows.
\<close>

theorem recovery_certifies:
  assumes "begin_recovery root (recovery0 v) = (True, r)"
  shows "\<exists>n. \<not> active (recovery_step n r) \<and> (rc_read_only (recovery_step n r) \<or>
    (\<forall>name \<in> set (entries root v). is_log name \<longrightarrow>
       clean (file_text (root @ ''/'' @ name) (rc_card (recovery_step n r)))))"
proof -
  note inv = begin_recovery_inv [OF assms]
  obtain n where n: "\<not> active (recovery_step n r)" using recovery_ends [OF inv(1)] ..
  have "clean (file_text (root @ ''/'' @ name) (rc_card (recovery_step n r)))"
    if "\<not> rc_read_only (recovery_step n r)" "name \<in> set (entries root v)" "is_log name" for name
    using scan_done [OF recovery_step_inv [OF inv(1)] n that] scan_root [OF inv(1)] inv(2) by (simp add: log_path_def)
  with n show ?thesis by blast
qed

lemma recovery_certifies_witness:
  "entries ''L'' example_card = [''A.JSONL'', ''B.TXT''] \<and> (\<exists>n. \<not> active (recovery_step n example_scan) \<and>
     (rc_read_only (recovery_step n example_scan) \<or> clean (file_text ''L/A.JSONL'' (rc_card (recovery_step n example_scan)))))"
proof -
  have names: "entries ''L'' example_card = [''A.JSONL'', ''B.TXT'']" "is_log ''A.JSONL''" by code_simp+
  with recovery_certifies [OF example_begun] show ?thesis by auto
qed

end
