(* ===== verification/Export.thy ===== *)
theory Export
  imports Recovery
begin

text \<open>
  The export of the whole history (\<open>history_export.cpp\<close>): every row of every log is sanitised into
  one file of a new directory, and a manifest with the hashes of the files is written last.  A loop
  that reads a file it is writing would not end, so the export is a partial function: \<open>None\<close> means
  that it does not return.
\<close>

section \<open>Writing\<close>

definition write_text :: "string option \<Rightarrow> string \<Rightarrow> volume \<Rightarrow> bool \<times> volume" where
  "write_text f text v = (case f of None \<Rightarrow> (False, v) | Some path \<Rightarrow> fwrite path text v)"

text \<open>\<open>finish\<close>: flush, sync and close, each whether or not the one before succeeded.\<close>

definition finish :: "volume \<Rightarrow> bool \<times> volume" where
  "finish v = (let (flushed, v) = lib_call v; (synced, v) = lib_call v; (closed, v) = lib_call v
     in (closed \<and> synced \<and> flushed, v))"

definition finish_if :: "string option \<Rightarrow> bool \<Rightarrow> volume \<Rightarrow> bool \<times> volume" where
  "finish_if f ok v = (if f = None then (ok, v) else let (done_it, v) = finish v in (done_it \<and> ok, v))"

definition close_log :: "string option \<Rightarrow> volume \<Rightarrow> bool \<times> volume" where
  "close_log writer v = finish_if writer True v"

text \<open>\<open>hash_file\<close> of the storage task; the hash function is a parameter.\<close>

definition hash_file :: "(string \<Rightarrow> u8 list option) \<Rightarrow> string \<Rightarrow> volume \<Rightarrow> string option \<times> volume" where
  "hash_file sha path v =
     (case fopen path v of
        (None, v) \<Rightarrow> (None, v)
      | (Some st, v) \<Rightarrow>
          let (readable, v) = lib_call v; (closed, v) = lib_call v
          in (if \<not> readable then None
              else case sha (the (file_text path v)) of
                  None \<Rightarrow> None
                | Some digest \<Rightarrow> if length digest = 32
                    then Some (concat (map (\<lambda>b. [lower_hex (unat b div 16), lower_hex (unat b mod 16)]) digest)) else None, v))"

section \<open>The rows of a log\<close>

partial_function (option) export_rows ::
  "keyed_digest \<Rightarrow> u8 list \<Rightarrow> string \<Rightarrow> stream \<Rightarrow> u32 \<Rightarrow> volume \<Rightarrow> (bool \<times> stream \<times> u32 \<times> volume) option" where
  "export_rows hmac key out st rows v =
     (case fgets 2048 st v of
        ((line, st), v) \<Rightarrow>
          (case line of
             None \<Rightarrow> Some (True, st, rows, v)
           | Some line \<Rightarrow>
               if strlen line = 0 \<or> line ! (strlen line - 1) \<noteq> newline then Some (False, st, rows, v)
               else case export_log_record hmac (take (strlen line) line) key 2048 of
                   (n, text) \<Rightarrow>
                     if n = 0 then Some (False, st, rows, v)
                     else case fwrite out (take n text) v of
                         (ok, v) \<Rightarrow> if ok then export_rows hmac key out st (rows + 1) v
                                    else Some (False, st, rows, v)))"

fun export_logs ::
  "keyed_digest \<Rightarrow> u8 list \<Rightarrow> string \<Rightarrow> string \<Rightarrow> string list \<Rightarrow> nat \<Rightarrow> u32 \<Rightarrow> volume \<Rightarrow> (bool \<times> u32 \<times> volume) option" where
  "export_logs hmac key logs out [] files rows v =
     (case readdir [] v of (entry, v) \<Rightarrow> Some (entry \<noteq> Dir_Failed, rows, v))"
| "export_logs hmac key logs out (name # names) files rows v =
     (case readdir (name # names) v of (entry, v) \<Rightarrow>
        if entry = Dir_Failed then Some (False, rows, v)
        else if \<not> is_log name then export_logs hmac key logs out names files rows v
        else if 4096 < files + 1 then Some (False, rows, v)
        else case fopen (take 299 (logs @ ''/'' @ name)) v of
            (None, v) \<Rightarrow> Some (False, rows, v)
          | (Some st, v) \<Rightarrow>
              (case export_rows hmac key out st rows v of
                 None \<Rightarrow> None
               | Some (ok, st, rows, v) \<Rightarrow>
                   let (closed, v) = lib_call v
                   in if closed \<and> ok \<and> \<not> st_err st
                      then export_logs hmac key logs out names (files + 1) rows v
                      else Some (False, rows, v)))"

section \<open>The directory\<close>

definition readme_text :: string where
  "readme_text =
     ''Surveillance Hound complete historical event export. Repeated updates are retained.'' @ [newline] @
     ''No location is collected; not map-ready. No raw MAC, SSID, payload, or drone serial.'' @ [newline] @
     ''Identifiers are rekeyed per export. Host export tool can aggregate events.'' @ [newline] @
     ''Radio clues may be spoofed. Confidence is evidence strength, not proof of surveillance.'' @ [newline]"

definition summary_text :: "u32 \<Rightarrow> string" where
  "summary_text rows =
     ''{\"schema_version\":1,\"scope\":\"full_history_events\",\"file_limit\":4096,\"rows\":'' @ decimal (unat rows) @
     '',\"firmware_version\":\"'' @ firmware_version @ ''\",\"hardware\":\"E32R40T\",\"signature_pack\":\"'' @
     signature_pack_version @ ''\"}'' @ [newline]"

definition in_dir :: "string \<Rightarrow> string \<Rightarrow> string" where
  "in_dir dir name = take 219 (dir @ ''/'' @ name)"

definition write_file :: "string \<Rightarrow> string \<Rightarrow> bool \<Rightarrow> volume \<Rightarrow> bool \<times> volume" where
  "write_file path text ok v =
     (let (out, v) = fopen_new path v; (written, v) = write_text out text v
      in finish_if out (written \<and> ok) v)"

fun manifest_rows :: "(string \<Rightarrow> u8 list option) \<Rightarrow> string \<Rightarrow> string \<Rightarrow> string list \<Rightarrow> volume \<Rightarrow> bool \<times> volume" where
  "manifest_rows sha dir manifest [] v = (True, v)"
| "manifest_rows sha dir manifest (name # names) v =
     (case hash_file sha (in_dir dir name) v of
        (None, v) \<Rightarrow> (False, v)
      | (Some digest, v) \<Rightarrow>
          (case fwrite manifest (digest @ ''  '' @ name @ [newline]) v of
             (ok, v) \<Rightarrow> if ok then manifest_rows sha dir manifest names v else (False, v)))"

definition export_names :: "string list" where
  "export_names = [''SIGHTINGS.JSONL'', ''SUMMARY.JSON'', ''README.TXT'']"

definition write_manifest :: "(string \<Rightarrow> u8 list option) \<Rightarrow> string \<Rightarrow> bool \<Rightarrow> volume \<Rightarrow> bool \<times> volume" where
  "write_manifest sha dir ok v =
     (let (manifest, v) = (if ok then fopen_new (in_dir dir ''MANIFEST.SHA256'') v else (None, v))
      in case manifest of
           None \<Rightarrow> (False, v)
         | Some path \<Rightarrow> let (ok, v) = manifest_rows sha dir path export_names v in finish_if manifest ok v)"

definition write_export ::
  "keyed_digest \<Rightarrow> (string \<Rightarrow> u8 list option) \<Rightarrow> u8 list \<Rightarrow> string \<Rightarrow> string \<Rightarrow> volume \<Rightarrow> (bool \<times> u32 \<times> volume) option" where
  "write_export hmac sha key logs dir v =
     (let (out, v) = fopen_new (in_dir dir ''SIGHTINGS.JSONL'') v; (names, v) = opendir logs v
      in case (case (out, names) of
                 (Some path, Some names) \<Rightarrow> export_logs hmac key logs path names 0 0 v
               | _ \<Rightarrow> Some (False, 0, v)) of
           None \<Rightarrow> None
         | Some (ok, rows, v) \<Rightarrow>
             let (closed, v) = (if names = None then (True, v) else lib_call v);
                 (ok, v) = finish_if out (closed \<and> ok) v;
                 (ok, v) = write_file (in_dir dir ''README.TXT'') readme_text ok v;
                 (ok, v) = write_file (in_dir dir ''SUMMARY.JSON'') (summary_text rows) ok v;
                 (ok, v) = write_manifest sha dir ok v
             in Some (ok, rows, v))"

text \<open>The log is closed during the export and opened again after it, never created.\<close>

definition reopen :: "string \<Rightarrow> volume \<Rightarrow> string option \<times> volume" where
  "reopen path v =
     (case fopen path v of
        (None, v) \<Rightarrow> (None, v)
      | (Some st, v) \<Rightarrow> let (at_end, v) = lib_call v
          in if at_end then (Some path, v) else (None, snd (lib_call v)))"

definition export_history_files ::
  "keyed_digest \<Rightarrow> (string \<Rightarrow> u8 list option) \<Rightarrow> u8 list \<Rightarrow> string option \<Rightarrow> string \<Rightarrow> string \<Rightarrow> string \<Rightarrow> volume \<Rightarrow>
     (bool \<times> string option \<times> u32 \<times> volume) option" where
  "export_history_files hmac sha key writer writer_path logs dir v =
     (if writer = None then Some (False, None, 0, v)
      else let (closed, v) = close_log writer v
      in if \<not> closed then Some (False, None, 0, v)
      else let (created, v) = mkdir dir v
      in case (if created then write_export hmac sha key logs dir v else Some (False, 0, v)) of
           None \<Rightarrow> None
         | Some (ok, rows, v) \<Rightarrow>
             let (writer, v) = reopen writer_path v; ok = (writer \<noteq> None \<and> ok);
                 v = (if \<not> ok \<and> created then snd (unlink (in_dir dir ''MANIFEST.SHA256'') v) else v)
             in Some (ok, writer, rows, v))"


section \<open>What an export spends\<close>

lemma spends_finish [intro!]: "spends u v \<Longrightarrow> spends u (snd (finish v))"
  by (auto simp: finish_def Let_def case_prod_unfold)

lemma spends_finish_if [intro!]: "spends u v \<Longrightarrow> spends u (snd (finish_if f ok v))"
  by (auto simp: finish_if_def Let_def case_prod_unfold)

lemma spends_write [intro!]:
  assumes "spends u v"
  shows "spends u (snd (write_text f text v))" "spends u (snd (close_log f v))" "spends u (snd (hash_file sha path v))"
    "spends u (snd (write_file path text ok v))" "spends u (snd (reopen path v))"
  using assms
  by (auto simp: write_text_def close_log_def hash_file_def write_file_def reopen_def Let_def case_prod_unfold
      split: option.split)

lemma spends_manifest_rows [intro!]: "spends u v \<Longrightarrow> spends u (snd (manifest_rows sha dir path names v))"
proof (induction names arbitrary: v)
  case (Cons name names)
  have "spends u (snd (manifest_rows sha dir path names (snd (fwrite path text (snd (hash_file sha p v))))))" for "text" p
    by (rule Cons.IH) (use Cons.prems in blast)
  with Cons.prems show ?case by (auto simp: case_prod_unfold split: option.split)
qed simp

lemma spends_manifest [intro!]: "spends u v \<Longrightarrow> spends u (snd (write_manifest sha dir ok v))"
  by (auto simp: write_manifest_def Let_def case_prod_unfold split: option.split)

lemma spends_rows_step:
  "export_rows hmac key out st rows v = Some r \<Longrightarrow> spends u v \<longrightarrow> spends u (snd (snd (snd r)))"
proof (rule export_rows.raw_induct [where P = "\<lambda>hmac key out st rows v r. spends u v \<longrightarrow> spends u (snd (snd (snd r)))"])
  fix rec :: "keyed_digest \<Rightarrow> u8 list \<Rightarrow> string \<Rightarrow> stream \<Rightarrow> u32 \<Rightarrow> volume \<Rightarrow> (bool \<times> stream \<times> u32 \<times> volume) option"
    and hmac key out st rows v r
  assume IH: "\<And>hmac key out st rows v r. rec hmac key out st rows v = Some r \<Longrightarrow> spends u v \<longrightarrow> spends u (snd (snd (snd r)))"
    and step: "(case fgets 2048 st v of ((line, st), v) \<Rightarrow> (case line of
             None \<Rightarrow> Some (True, st, rows, v)
           | Some line \<Rightarrow>
               if strlen line = 0 \<or> line ! (strlen line - 1) \<noteq> newline then Some (False, st, rows, v)
               else case export_log_record hmac (take (strlen line) line) key 2048 of
                   (n, text) \<Rightarrow>
                     if n = 0 then Some (False, st, rows, v)
                     else case fwrite out (take n text) v of
                         (ok, v) \<Rightarrow> if ok then rec hmac key out st (rows + 1) v else Some (False, st, rows, v))) = Some r"
  show "spends u v \<longrightarrow> spends u (snd (snd (snd r)))"
    using step by (auto simp: case_prod_unfold dest!: IH split: option.splits if_splits)
qed simp

lemma spends_rows: "export_rows hmac key out st rows v = Some (ok, st', rows', v') \<Longrightarrow> spends u v \<Longrightarrow> spends u v'"
  using spends_rows_step [of hmac key out st rows v "(ok, st', rows', v')" u] by simp

lemma spends_logs: "export_logs hmac key logs out names files rows v = Some (ok, rows', v') \<Longrightarrow> spends u v \<Longrightarrow> spends u v'"
proof (induction names arbitrary: files rows v)
  case (Cons name names)
  show ?case using Cons.prems
    by (auto simp: Let_def case_prod_unfold dest!: spends_rows [of _ _ _ _ _ _ _ _ _ _ u]
        split: if_splits option.splits) (rule Cons.IH, assumption, blast)+
qed (auto simp: case_prod_unfold)

lemma spends_export:
  assumes "write_export hmac sha key logs dir v = Some (ok, rows, v')" and "spends u v" shows "spends u v'"
proof -
  let ?out = "fopen_new (in_dir dir ''SIGHTINGS.JSONL'') v"
  let ?names = "opendir logs (snd ?out)"
  have start: "spends u (snd ?names)" using assms(2) by blast
  obtain ok1 rows1 v1 where body: "(case (fst ?out, fst ?names) of
      (Some path, Some names) \<Rightarrow> export_logs hmac key logs path names 0 0 (snd ?names)
    | _ \<Rightarrow> Some (False, 0, snd ?names)) = Some (ok1, rows1, v1)" (is "?body = _")
    using assms(1) by (cases ?body) (auto simp: write_export_def Let_def case_prod_unfold)
  then have "spends u v1" using start by (auto split: option.splits elim: spends_logs)
  then show ?thesis using assms(1) body
    by (auto simp: write_export_def Let_def case_prod_unfold)
qed

section \<open>What an export writes\<close>

definition exportable :: "keyed_digest \<Rightarrow> u8 list \<Rightarrow> string \<Rightarrow> bool" where
  "exportable hmac key r \<longleftrightarrow> row r \<and> fst (export_log_record hmac r key 2048) \<noteq> 0"

definition exported :: "keyed_digest \<Rightarrow> u8 list \<Rightarrow> string \<Rightarrow> string" where
  "exported hmac key r = (case export_log_record hmac r key 2048 of (n, text) \<Rightarrow> take n text)"

text \<open>Nothing but the files \<open>P\<close> was written, and none of them was lost.\<close>

definition writes_only :: "string set \<Rightarrow> volume \<Rightarrow> volume \<Rightarrow> bool" where
  "writes_only P v v' \<longleftrightarrow> vo_dirs v' = vo_dirs v \<and> (\<forall>p. p \<notin> P \<longrightarrow> file_text p v' = file_text p v) \<and>
     (\<forall>p. file_text p v \<noteq> None \<longrightarrow> file_text p v' \<noteq> None)"

lemma same_writes: "same_files v v' \<Longrightarrow> writes_only P v v'"
  by (simp add: writes_only_def same_files_def file_text_def)

lemma writes_trans: "writes_only P a b \<Longrightarrow> writes_only Q b c \<Longrightarrow> P \<subseteq> R \<Longrightarrow> Q \<subseteq> R \<Longrightarrow> writes_only R a c"
  unfolding writes_only_def by (metis subsetD)

lemma lib_writes: "lib_call v = (x, v') \<Longrightarrow> writes_only P v v'"
  by (rule same_writes [OF lib_call_same])

lemma fwrite_writes:
  assumes "fwrite path text v = (ok, v')" and "file_text path v = Some old"
  shows "writes_only {path} v v'" and "ok \<Longrightarrow> file_text path v' = Some (old @ text)"
proof -
  obtain f u where f: "next_outcome v = (f, u)" by fastforce
  note same = next_outcome_same [OF f]
  show "writes_only {path} v v'" "ok \<Longrightarrow> file_text path v' = Some (old @ text)"
    using assms f same_writes [OF same] same_text [OF same]
    by (auto simp: fwrite_def writes_only_def split: outcome.splits)
qed

lemma fopen_new_writes:
  assumes "fopen_new path v = (x, v')"
  shows "writes_only {path} v v'" and "x = None \<Longrightarrow> same_files v v'"
    and "x = Some p \<Longrightarrow> p = path \<and> file_text path v = None \<and> file_text path v' = Some []"
proof -
  obtain ok u where u: "lib_call v = (ok, u)" by fastforce
  note same = lib_call_same [OF u]
  show "writes_only {path} v v'" "x = None \<Longrightarrow> same_files v v'"
    "x = Some p \<Longrightarrow> p = path \<and> file_text path v = None \<and> file_text path v' = Some []"
    using assms u same same_writes [OF same] same_text [OF same]
    by (auto simp: fopen_new_def writes_only_def split: if_splits)
qed

text \<open>
  The loop over the rows of an open log ends when it does not write to the log itself, and when it
  succeeds the rest of the log is complete rows, each exported.
\<close>

lemma export_rows_effect:
  assumes "file_text (st_path st) v = Some old" "out \<noteq> st_path st" "st_pos st \<le> length old"
    "\<not> st_eof st" "\<not> st_err st" "file_text out v = Some sofar"
  shows "\<exists>ok st' rows' v' rs. export_rows hmac key out st rows v = Some (ok, st', rows', v') \<and>
    writes_only {out} v v' \<and>
    (ok \<and> \<not> st_err st' \<longrightarrow> drop (st_pos st) old = concat rs \<and> list_all (exportable hmac key) rs \<and>
       file_text out v' = Some (sofar @ concat (map (exported hmac key) rs)) \<and> rows' = rows + of_nat (length rs))"
  using assms
proof (induction "length old - st_pos st" arbitrary: st v rows sofar rule: less_induct)
  case less
  obtain x st1 v1 where get: "fgets 2048 st v = ((x, st1), v1)" by (metis surj_pair)
  note simps = export_rows.simps [of hmac key out st rows v] get
  from get less.prems(1) show ?case
  proof (cases rule: fgets_cases)
    case fault
    then show ?thesis by (auto simp add: simps same_writes)
  next
    case eof
    then show ?thesis using less.prems by (intro exI [of _ True] exI [of _ st1] exI [of _ rows] exI [of _ v1] exI [of _ "[]"])
      (simp add: simps same_writes same_text)
  next
    case (line line)
    note same = same_text [OF line(5)] same_writes [OF line(5), of "{out}"]
    show ?thesis
    proof (cases "strlen line = 0 \<or> line ! (strlen line - 1) \<noteq> newline")
      case True
      then show ?thesis using line(1) same
        by (intro exI [of _ False] exI [of _ st1] exI [of _ rows] exI [of _ v1] exI [of _ "[]"]) (simp add: simps)
    next
      case False
      then have row: "row line" "strlen line = length line"
        using strlen_row [of line] line_of_row [of 2047 "drop (st_pos st) old"] line(2) by auto
      then have good: "line \<noteq> []" "newline \<in> set line" unfolding row_def by (simp, metis last_in_set)
      obtain n body where ex: "export_log_record hmac line key 2048 = (n, body)" by fastforce
      obtain ok v2 where wr: "fwrite out (take n body) v1 = (ok, v2)" by fastforce
      have "file_text out v1 = Some sofar" using same less.prems by simp
      note wrote = fwrite_writes [OF wr this]
      have w2: "writes_only {out} v v2" using same(2) wrote(1) by (rule writes_trans) simp_all
      have step: "export_rows hmac key out st rows v = (if n = 0 then Some (False, st1, rows, v1)
          else if ok then export_rows hmac key out st1 (rows + 1) v2 else Some (False, st1, rows, v2))"
        using line(1) row False ex wr by (simp add: simps)
      consider "n = 0" | "n \<noteq> 0" "\<not> ok" | "n \<noteq> 0" ok by blast
      then show ?thesis
      proof cases
        case 1
        then show ?thesis using step same
          by (intro exI [of _ False] exI [of _ st1] exI [of _ rows] exI [of _ v1] exI [of _ "[]"]) simp
      next
        case 2
        then show ?thesis using step w2
          by (intro exI [of _ False] exI [of _ st1] exI [of _ rows] exI [of _ v2] exI [of _ "[]"]) simp
      next
        case 3
        have pos: "st_pos st1 = st_pos st + length line" "st_path st1 = st_path st" "\<not> st_eof st1" "\<not> st_err st1"
          using line(4) good less.prems by simp_all
        have le: "st_pos st1 \<le> length old"
          using line(2,3) pos(1) line_of_length [of 2047 "drop (st_pos st) old"] by simp
        have less_left: "length old - st_pos st1 < length old - st_pos st" using pos(1) le length_greater_0_conv [THEN iffD2, OF good(1)] by linarith
        have there: "file_text (st_path st1) v2 = Some old"
          using w2 less.prems(1,2) pos(2) by (simp add: writes_only_def)
        have apart: "out \<noteq> st_path st1" using less.prems(2) pos(2) by simp
        obtain ok' st' rows' v' rs where rest: "export_rows hmac key out st1 (rows + 1) v2 = Some (ok', st', rows', v')"
          "writes_only {out} v2 v'" "ok' \<and> \<not> st_err st' \<longrightarrow> drop (st_pos st1) old = concat rs \<and>
            list_all (exportable hmac key) rs \<and>
            file_text out v' = Some ((sofar @ take n body) @ concat (map (exported hmac key) rs)) \<and>
            rows' = rows + 1 + of_nat (length rs)"
          using less.hyps [OF less_left there apart le pos(3,4) wrote(2) [OF 3(2)], of "rows + 1"] by (elim exE conjE) (rule that)
        have "line = take (length line) (drop (st_pos st) old)"
          using line(2) line_of_prefix [of 2047 "drop (st_pos st) old"] by simp
        then have "drop (st_pos st) old = line @ drop (length line) (drop (st_pos st) old)"
          by (metis append_take_drop_id)
        then have "drop (st_pos st) old = line @ drop (st_pos st1) old" by (simp add: pos(1) add.commute)
        moreover have "exportable hmac key line" "exported hmac key line = take n body"
          using row(1) ex 3 by (simp_all add: exportable_def exported_def)
        ultimately show ?thesis using step 3 rest writes_trans [OF w2 rest(2)]
          by (intro exI [of _ ok'] exI [of _ st'] exI [of _ rows'] exI [of _ v'] exI [of _ "line # rs"]) simp
      qed
    qed
  qed
qed


text \<open>The path of a log is built in a buffer of 300 characters.\<close>

definition transcribed :: "keyed_digest \<Rightarrow> u8 list \<Rightarrow> string \<Rightarrow> volume \<Rightarrow> string list \<Rightarrow> string list list \<Rightarrow> bool" where
  "transcribed hmac key logs v names rss \<longleftrightarrow> list_all2 (\<lambda>name rs.
     file_text (take 299 (logs @ ''/'' @ name)) v = Some (concat rs) \<and> list_all (exportable hmac key) rs) (filter is_log names) rss"

lemma transcribed_frame:
  assumes "transcribed hmac key logs v' names rss" "writes_only P v v'" "\<And>name. name \<in> set names \<Longrightarrow> take 299 (logs @ ''/'' @ name) \<notin> P"
  shows "transcribed hmac key logs v names rss"
  using assms(1) unfolding transcribed_def
  by (rule list.rel_mono_strong) (use assms(2,3) in \<open>auto simp: writes_only_def\<close>)

lemma export_logs_effect:
  assumes "\<forall>name \<in> set names. take 299 (logs @ ''/'' @ name) \<noteq> out"
    and "file_text out v = Some sofar"
  shows "\<exists>ok rows' v' rss. export_logs hmac key logs out names files rows v = Some (ok, rows', v') \<and>
    writes_only {out} v v' \<and> (ok \<longrightarrow> transcribed hmac key logs v names rss \<and>
      file_text out v' = Some (sofar @ concat (map (exported hmac key) (concat rss))) \<and>
      rows' = rows + of_nat (length (concat rss)))"
  using assms
proof (induction names arbitrary: files rows v sofar)
  case Nil
  obtain x v1 where read: "readdir [] v = (x, v1)" by fastforce
  note same = conjunct1 [OF readdir_same [OF read]]
  show ?case using Nil.prems read same_writes [OF same] same_text [OF same]
    by (intro exI [of _ "x \<noteq> Dir_Failed"] exI [of _ rows] exI [of _ v1] exI [of _ "[]"]) (simp add: transcribed_def)
next
  case (Cons name names)
  obtain x v1 where read: "readdir (name # names) v = (x, v1)" by fastforce
  note same1 = conjunct1 [OF readdir_same [OF read]]
  note w1 = same_writes [OF same1, of "{out}"] and t1 = same_text [OF same1]
  define path where "path = take 299 (logs @ ''/'' @ name)"
  have path: "path \<noteq> out" using Cons.prems(1) by (simp add: path_def)
  obtain f v2 where op: "fopen path v1 = (f, v2)" by fastforce
  note opened = fopen_same [OF op]
  have w2: "writes_only {out} v v2" using w1 same_writes [OF conjunct1 [OF opened], of "{out}"] by (rule writes_trans) simp_all
  have t2: "file_text p v2 = file_text p v" for p using same_text [OF conjunct1 [OF opened]] t1 by simp
  have prems: "\<forall>n \<in> set names. take 299 (logs @ ''/'' @ n) \<noteq> out"
    using Cons.prems(1) by simp
  have failing: "\<exists>ok rows' v' rss. Some (False, q, u) = Some (ok, rows', v') \<and> writes_only {out} v v' \<and>
      (ok \<longrightarrow> transcribed hmac key logs v (name # names) rss \<and>
      file_text out v' = Some (sofar @ concat (map (exported hmac key) (concat rss))) \<and>
      rows' = rows + of_nat (length (concat rss)))" if "writes_only {out} v u" for q u
    using that by (intro exI [of _ False] exI [of _ q] exI [of _ u] exI [of _ "[]"]) simp
  consider "x = Dir_Failed" | "x \<noteq> Dir_Failed" "\<not> is_log name" | "x \<noteq> Dir_Failed" "is_log name" "4096 < files + 1"
    | "x \<noteq> Dir_Failed" "is_log name" "\<not> 4096 < files + 1" "f = None"
    | st where "x \<noteq> Dir_Failed" "is_log name" "\<not> 4096 < files + 1" "f = Some st" by fastforce
  then show ?case
  proof cases
    case 1
    then have "export_logs hmac key logs out (name # names) files rows v = Some (False, rows, v1)" using read by simp
    then show ?thesis using failing [OF w1, of rows] by (simp only: )
  next
    case 2
    obtain ok rows' v' rss where rest: "export_logs hmac key logs out names files rows v1 = Some (ok, rows', v')"
      "writes_only {out} v1 v'" "ok \<longrightarrow> transcribed hmac key logs v1 names rss \<and>
      file_text out v' = Some (sofar @ concat (map (exported hmac key) (concat rss))) \<and>
      rows' = rows + of_nat (length (concat rss))"
      using Cons.IH [OF prems t1 [of out, unfolded Cons.prems(2)], of files rows] by (elim exE conjE) (rule that)
    show ?thesis
      using rest 2 read writes_trans [OF w1 rest(2)] t1
      by (intro exI [of _ ok] exI [of _ rows'] exI [of _ v'] exI [of _ rss]) (simp add: transcribed_def)
  next
    case 3
    then have "export_logs hmac key logs out (name # names) files rows v = Some (False, rows, v1)" using read by simp
    then show ?thesis using failing [OF w1, of rows] by (simp only: )
  next
    case 4
    then have "export_logs hmac key logs out (name # names) files rows v = Some (False, rows, v2)"
      using read op path by (simp add: path_def)
    then show ?thesis using failing [OF w2, of rows] by (simp only: )
  next
    case (5 st)
    with opened obtain old where st: "st = \<lparr>st_path = path, st_pos = 0, st_eof = False, st_err = False\<rparr>"
      and old: "file_text path v = Some old" using t1 by auto
    have ends: "file_text (st_path st) v2 = Some old" "out \<noteq> st_path st" "st_pos st \<le> length old" "\<not> st_eof st" "\<not> st_err st"
      "file_text out v2 = Some sofar" using st old path t2 Cons.prems(2) by simp_all
    obtain okr st' rows1 v3 rs where loop: "export_rows hmac key out st rows v2 = Some (okr, st', rows1, v3)"
      "writes_only {out} v2 v3" "okr \<and> \<not> st_err st' \<longrightarrow> drop (st_pos st) old = concat rs \<and> list_all (exportable hmac key) rs \<and>
       file_text out v3 = Some (sofar @ concat (map (exported hmac key) rs)) \<and> rows1 = rows + of_nat (length rs)"
      using export_rows_effect [OF ends, of hmac key rows] by (elim exE conjE) (rule that)
    obtain closed v4 where call: "lib_call v3 = (closed, v4)" by fastforce
    note same4 = lib_call_same [OF call]
    have w3: "writes_only {out} v v3" using w2 loop(2) by (rule writes_trans) simp_all
    have w4: "writes_only {out} v v4" using w3 same_writes [OF same4, of "{out}"] by (rule writes_trans) simp_all
    have step: "export_logs hmac key logs out (name # names) files rows v =
        (if closed \<and> okr \<and> \<not> st_err st' then export_logs hmac key logs out names (files + 1) rows1 v4 else Some (False, rows1, v4))"
      using 5 read op path loop(1) call by (simp add: path_def)
    show ?thesis
    proof (cases "closed \<and> okr \<and> \<not> st_err st'")
      case False
      then show ?thesis unfolding step using failing [OF w4, of rows1] by (simp only: if_False)
    next
      case True
      with loop(3) st have whole: "old = concat rs" "list_all (exportable hmac key) rs" "rows1 = rows + of_nat (length rs)"
        "file_text out v4 = Some (sofar @ concat (map (exported hmac key) rs))" using same_text [OF same4] by simp_all
      obtain ok rows' v' rss where rest: "export_logs hmac key logs out names (files + 1) rows1 v4 = Some (ok, rows', v')"
        "writes_only {out} v4 v'" "ok \<longrightarrow> transcribed hmac key logs v4 names rss \<and>
        file_text out v' = Some ((sofar @ concat (map (exported hmac key) rs)) @ concat (map (exported hmac key) (concat rss))) \<and>
        rows' = rows1 + of_nat (length (concat rss))"
        using Cons.IH [OF prems whole(4), of "files + 1" rows1] by (elim exE conjE) (rule that)
      have "transcribed hmac key logs v names rss" if ok
        using transcribed_frame [OF _ w4] rest(3) that prems by blast
      then show ?thesis unfolding step
        using True rest whole old [unfolded path_def] 5 writes_trans [OF w4 rest(2)]
        by (intro exI [of _ ok] exI [of _ rows'] exI [of _ v'] exI [of _ "rs # rss"])
          (simp add: transcribed_def del: length_concat)
    qed
  qed
qed


section \<open>The whole export\<close>

lemma finish_effect: "finish v = (ok, v') \<Longrightarrow> same_files v v'"
  by (auto simp: finish_def Let_def split: prod.splits dest!: lib_call_same intro: same_files_trans)

lemma finish_if_effect: "finish_if f ok v = (ok', v') \<Longrightarrow> same_files v v' \<and> (ok' \<longrightarrow> ok)"
  by (auto simp: finish_if_def Let_def split: prod.splits if_splits dest: finish_effect)

lemma write_file_effect:
  assumes "write_file path text ok v = (ok', v')"
  shows "writes_only {path} v v' \<and> (ok' \<longrightarrow> ok \<and> file_text path v' = Some text)"
proof -
  obtain out v1 where new: "fopen_new path v = (out, v1)" by fastforce
  obtain wrote v2 where wr: "write_text out text v1 = (wrote, v2)" by fastforce
  have fin: "finish_if out (wrote \<and> ok) v2 = (ok', v')" using assms new wr by (simp add: write_file_def)
  note same = conjunct1 [OF finish_if_effect [OF fin]]
  show ?thesis
  proof (cases out)
    case None
    then show ?thesis using new wr fin fopen_new_writes(2) [OF new] same_writes [of v v1 "{path}"]
      by (auto simp: write_text_def finish_if_def)
  next
    case (Some p)
    with fopen_new_writes(3) [OF new] have p: "p = path" "file_text path v1 = Some []" by blast+
    with Some wr have fw: "fwrite path text v1 = (wrote, v2)" by (simp add: write_text_def)
    note effect = fwrite_writes [OF fw p(2)]
    have "writes_only {path} v v2" using fopen_new_writes(1) [OF new] effect(1) by (rule writes_trans) simp_all
    then have "writes_only {path} v v'" using same_writes [OF same, of "{path}"] by (rule writes_trans) simp_all
    then show ?thesis using effect(2) same_text [OF same] finish_if_effect [OF fin] by simp
  qed
qed

definition manifest_line :: "(string \<Rightarrow> u8 list option) \<Rightarrow> string \<Rightarrow> volume \<Rightarrow> string \<Rightarrow> string" where
  "manifest_line sha dir v name =
     concat (map (\<lambda>b. [lower_hex (unat b div 16), lower_hex (unat b mod 16)])
       (the (sha (the (file_text (in_dir dir name) v))))) @ ''  '' @ name @ [newline]"

lemma hash_file_effect:
  assumes "hash_file sha path v = (x, v')"
  shows "same_files v v' \<and> (\<forall>digest. x = Some digest \<longrightarrow> digest =
    concat (map (\<lambda>b. [lower_hex (unat b div 16), lower_hex (unat b mod 16)]) (the (sha (the (file_text path v))))))"
proof -
  obtain f v1 where op: "fopen path v = (f, v1)" by fastforce
  note s1 = conjunct1 [OF fopen_same [OF op]]
  obtain a v2 where c2: "lib_call v1 = (a, v2)" by fastforce
  obtain b v3 where c3: "lib_call v2 = (b, v3)" by fastforce
  note same = same_files_trans [OF same_files_trans [OF s1 lib_call_same [OF c2]] lib_call_same [OF c3]]
  show ?thesis using assms op c2 c3 s1 same same_text [OF same]
    by (auto simp: hash_file_def split: option.splits if_splits)
qed

lemma manifest_line_frame:
  "file_text (in_dir dir name) v' = file_text (in_dir dir name) v \<Longrightarrow> manifest_line sha dir v' name = manifest_line sha dir v name"
  by (simp add: manifest_line_def)

lemma manifest_rows_effect:
  assumes "manifest_rows sha dir m names v = (ok, v')" "file_text m v = Some sofar" "\<forall>name \<in> set names. in_dir dir name \<noteq> m"
  shows "writes_only {m} v v' \<and> (ok \<longrightarrow> file_text m v' = Some (sofar @ concat (map (manifest_line sha dir v) names)))"
  using assms
proof (induction names arbitrary: v sofar)
  case Nil
  then show ?case by (simp add: same_writes)
next
  case (Cons name names)
  obtain x v1 where hash: "hash_file sha (in_dir dir name) v = (x, v1)" by fastforce
  note h = hash_file_effect [OF hash]
  note s1 = conjunct1 [OF h]
  have w1: "writes_only {m} v v1" using s1 by (rule same_writes)
  show ?case
  proof (cases x)
    case None
    then show ?thesis using Cons.prems(1) hash w1 by simp
  next
    case (Some digest)
    obtain wrote v2 where fw: "fwrite m (digest @ ''  '' @ name @ [newline]) v1 = (wrote, v2)" by fastforce
    have m1: "file_text m v1 = Some sofar" using Cons.prems(2) same_text [OF s1] by simp
    note effect = fwrite_writes [OF fw m1]
    have w2: "writes_only {m} v v2" using w1 effect(1) by (rule writes_trans) simp_all
    have line: "digest @ ''  '' @ name @ [newline] = manifest_line sha dir v name"
      using h Some by (simp add: manifest_line_def)
    show ?thesis
    proof (cases wrote)
      case False
      then show ?thesis using Cons.prems(1) hash Some fw w2 by simp
    next
      case True
      with Cons.prems(1) hash Some fw have "manifest_rows sha dir m names v2 = (ok, v')" by simp
      with Cons.IH effect(2) [OF True] Cons.prems(3) have rest: "writes_only {m} v2 v'"
        "ok \<longrightarrow> file_text m v' = Some ((sofar @ digest @ ''  '' @ name @ [newline]) @ concat (map (manifest_line sha dir v2) names))"
        by auto
      have lines: "map (manifest_line sha dir v2) names = map (manifest_line sha dir v) names"
        using w2 Cons.prems(3) by (auto simp: writes_only_def intro!: manifest_line_frame)
      show ?thesis using rest(2) writes_trans [OF w2 rest(1)] unfolding line lines by simp
    qed
  qed
qed

lemma in_dir_short: "length dir < 160 \<Longrightarrow> length name < 50 \<Longrightarrow> in_dir dir name = dir @ ''/'' @ name"
  by (simp add: in_dir_def)

definition outside :: "string \<Rightarrow> string \<Rightarrow> bool" where
  "outside logs dir \<longleftrightarrow> take (length logs + 1) (dir @ ''/'') \<noteq> logs @ ''/''"

lemma outside_file:
  assumes "outside logs dir" "CHR ''/'' \<notin> set name"
  shows "take (length logs + 1) (dir @ ''/'' @ name) \<noteq> logs @ ''/''"
proof
  assume eq: "take (length logs + 1) (dir @ ''/'' @ name) = logs @ ''/''"
  show False
  proof (cases "length logs \<le> length dir")
    case True
    then have "take (length logs + 1) (dir @ ''/'' @ name) = take (length logs + 1) (dir @ ''/'')"
      by (cases "length logs = length dir") simp_all
    with eq assms(1) show False by (simp add: outside_def)
  next
    case False
    have len: "length logs < length (dir @ ''/'' @ name)"
      using arg_cong [OF eq, of length] by simp
    have "take (length logs + 1) (dir @ ''/'' @ name) ! length logs = (dir @ ''/'' @ name) ! length logs"
      by (rule nth_take) simp
    then have "(dir @ ''/'' @ name) ! length logs = CHR ''/''" by (simp only: eq nth_append_length)
    moreover have "(dir @ ''/'' @ name) ! length logs = name ! (length logs - length dir - 1)"
      using False by (simp add: nth_append nth_Cons')
    moreover have "length logs - length dir - 1 < length name" using len False by simp
    ultimately show False using assms(2) by (metis nth_mem)
  qed
qed

lemma entries_put:
  assumes "take (length logs + 1) p \<noteq> logs @ ''/''"
  shows "entries logs (put_file p text v) = entries logs v"
  using assms by (simp add: entries_def put_file_def put_keys)

lemma entries_mkdir:
  assumes "take (length logs + 1) dir \<noteq> logs @ ''/''"
  shows "entries logs (v\<lparr>vo_dirs := vo_dirs v @ [dir]\<rparr>) = entries logs v"
  using assms by (simp add: entries_def)

lemma outside_dir: "outside logs dir \<Longrightarrow> take (length logs + 1) dir \<noteq> logs @ ''/''"
  by (auto simp: outside_def)


text \<open>
  What a successful export leaves: every log is complete rows that can be exported, the rows are in
  the new directory in their sanitised form and in order, and the manifest has the hashes of the
  files as they are on the card.
\<close>

definition export_done ::
  "keyed_digest \<Rightarrow> (string \<Rightarrow> u8 list option) \<Rightarrow> u8 list \<Rightarrow> string \<Rightarrow> string \<Rightarrow> u32 \<Rightarrow> volume \<Rightarrow> volume \<Rightarrow> bool" where
  "export_done hmac sha key logs dir rows v v' \<longleftrightarrow> (\<exists>rss. transcribed hmac key logs v (entries logs v) rss \<and>
     file_text (dir @ ''/SIGHTINGS.JSONL'') v' = Some (concat (map (exported hmac key) (concat rss))) \<and>
     rows = of_nat (length (concat rss)) \<and>
     file_text (dir @ ''/SUMMARY.JSON'') v' = Some (summary_text rows) \<and>
     file_text (dir @ ''/README.TXT'') v' = Some readme_text \<and>
     file_text (dir @ ''/MANIFEST.SHA256'') v' = Some (concat (map (manifest_line sha dir v') export_names)))"

definition export_paths :: "string \<Rightarrow> string set" where
  "export_paths dir = {dir @ ''/SIGHTINGS.JSONL'', dir @ ''/SUMMARY.JSON'', dir @ ''/README.TXT'', dir @ ''/MANIFEST.SHA256''}"

lemma export_done_same: "same_files v' v'' \<Longrightarrow> export_done hmac sha key logs dir rows v v' \<Longrightarrow> export_done hmac sha key logs dir rows v v''"
proof -
  assume same: "same_files v' v''"
  have "manifest_line sha dir v'' = manifest_line sha dir v'"
    by (rule ext) (simp add: manifest_line_def same_text [OF same])
  then show "export_done hmac sha key logs dir rows v v' \<Longrightarrow> export_done hmac sha key logs dir rows v v''"
    by (simp add: export_done_def same_text [OF same])
qed

lemma write_manifest_effect:
  assumes "write_manifest sha dir ok v = (ok', v')" "length dir < 160"
  shows "writes_only {dir @ ''/MANIFEST.SHA256''} v v' \<and> (ok' \<longrightarrow> ok \<and>
    file_text (dir @ ''/MANIFEST.SHA256'') v' = Some (concat (map (manifest_line sha dir v') export_names)))"
proof -
  define m where "m = dir @ ''/MANIFEST.SHA256''"
  have m: "in_dir dir ''MANIFEST.SHA256'' = m" using assms(2) by (simp add: in_dir_short m_def)
  have others: "\<forall>name \<in> set export_names. in_dir dir name \<noteq> m"
    using assms(2) by (simp add: export_names_def in_dir_short m_def)
  obtain f v1 where new: "(if ok then fopen_new m v else (None, v)) = (f, v1)" by fastforce
  have "writes_only {m} v v' \<and> (ok' \<longrightarrow> ok \<and> file_text m v' = Some (concat (map (manifest_line sha dir v') export_names)))"
  proof (cases f)
    case None
    then have "(ok', v') = (False, v1)" using assms(1) unfolding write_manifest_def m new by simp
    moreover have "same_files v v1" using new None fopen_new_writes(2) by (auto split: if_splits)
    ultimately show ?thesis by (simp add: same_writes)
  next
    case (Some p)
    with new have ok: ok and fresh: "fopen_new m v = (Some p, v1)" by (auto split: if_splits)
    note p = fopen_new_writes(3) [OF fresh refl]
    obtain wrote v2 where rows: "manifest_rows sha dir m export_names v1 = (wrote, v2)" by fastforce
    have fin: "finish_if (Some m) wrote v2 = (ok', v')"
      using assms(1) Some p rows unfolding write_manifest_def m new by simp
    note same = conjunct1 [OF finish_if_effect [OF fin]]
    have r: "writes_only {m} v1 v2" "wrote \<longrightarrow> file_text m v2 = Some (concat (map (manifest_line sha dir v1) export_names))"
      using manifest_rows_effect [OF rows _ others, of "[]"] p by auto
    have "writes_only {m} v v2" using fopen_new_writes(1) [OF fresh] r(1) by (rule writes_trans) simp_all
    then have w: "writes_only {m} v v'" using same_writes [OF same, of "{m}"] by (rule writes_trans) simp_all
    have lines: "map (manifest_line sha dir v1) export_names = map (manifest_line sha dir v') export_names"
      using r(1) others same_text [OF same] by (auto simp: writes_only_def manifest_line_def)
    show ?thesis using w ok r(2) finish_if_effect [OF fin] same_text [OF same] unfolding lines by simp
  qed
  then show ?thesis by (simp add: m_def)
qed


lemma log_path_prefix: "length logs < 299 \<Longrightarrow> take (length logs + 1) (take 299 (logs @ ''/'' @ name)) = logs @ ''/''"
  by (simp add: take_Cons')

lemma transcribed_names:
  "length logs < 299 \<Longrightarrow> transcribed hmac key logs v' names rss \<Longrightarrow> (\<And>p. take (length logs + 1) p = logs @ ''/'' \<Longrightarrow> file_text p v' = file_text p v) \<Longrightarrow>
     transcribed hmac key logs v names rss"
  unfolding transcribed_def by (erule list.rel_mono_strong) (metis log_path_prefix)

lemma write_export_effect:
  assumes out: "outside logs dir" and len: "length dir < 160"
    and short: "length logs < 299"
  shows "\<exists>ok rows v'. write_export hmac sha key logs dir v = Some (ok, rows, v') \<and> (ok \<longrightarrow> export_done hmac sha key logs dir rows v v')"
proof -
  define s m r f where paths: "s = dir @ ''/SIGHTINGS.JSONL''" "m = dir @ ''/SUMMARY.JSON''" "r = dir @ ''/README.TXT''"
    "f = dir @ ''/MANIFEST.SHA256''"
  have in_dirs: "in_dir dir ''SIGHTINGS.JSONL'' = s" "in_dir dir ''SUMMARY.JSON'' = m" "in_dir dir ''README.TXT'' = r"
    using len by (simp_all add: in_dir_short paths)
  have differ: "s \<noteq> m" "s \<noteq> r" "s \<noteq> f" "m \<noteq> r" "m \<noteq> f" "r \<noteq> f" by (simp_all add: paths)
  have s_out: "take (length logs + 1) s \<noteq> logs @ ''/''"
    using outside_file [OF out, of "''SIGHTINGS.JSONL''"] by (simp add: paths)
  obtain g v1 where new: "fopen_new s v = (g, v1)" by fastforce
  obtain ns v2 where op: "opendir logs v1 = (ns, v2)" by fastforce
  note opened = opendir_same [OF op]
  note same2 = conjunct1 [OF opened]
  have names: "entries logs v1 = entries logs v"
  proof -
    obtain c u where call: "lib_call v = (c, u)" by fastforce
    have "entries logs u = entries logs v" by (rule same_entries [OF lib_call_same [OF call]])
    then show ?thesis using new call entries_put [OF s_out, of "[]" u] by (auto simp: fopen_new_def split: if_splits)
  qed
  have s_only: "file_text p v2 = file_text p v" if "p \<noteq> s" for p
    using fopen_new_writes(1) [OF new] same_text [OF same2] that by (simp add: writes_only_def)
  obtain ok3 rows v3 where body: "(case (g, ns) of (Some path, Some names) \<Rightarrow> export_logs hmac key logs path names 0 0 v2
      | _ \<Rightarrow> Some (False, 0, v2)) = Some (ok3, rows, v3)"
    and three: "ok3 \<longrightarrow> g = Some s \<and> (\<exists>rss. transcribed hmac key logs v (entries logs v) rss \<and>
      file_text s v3 = Some (concat (map (exported hmac key) (concat rss))) \<and> rows = of_nat (length (concat rss)))"
  proof (cases "g = None \<or> ns = None")
    case True
    then have "(case (g, ns) of (Some path, Some names) \<Rightarrow> export_logs hmac key logs path names 0 0 v2
      | _ \<Rightarrow> Some (False, 0, v2)) = Some (False, 0, v2)" by (auto split: option.splits)
    then show thesis using that by blast
  next
    case False
    then obtain p where g: "g = Some p" and ns: "ns = Some (entries logs v)" using opened names by auto
    with fopen_new_writes(3) [OF new] have p: "p = s" "file_text s v2 = Some []" using same_text [OF same2] by auto
    have "\<forall>name \<in> set (entries logs v). take 299 (logs @ ''/'' @ name) \<noteq> s"
      using s_out log_path_prefix [OF short] by metis
    from export_logs_effect [OF this p(2), of hmac key 0 0] obtain ok3 rows v3 rss where
      e: "export_logs hmac key logs s (entries logs v) 0 0 v2 = Some (ok3, rows, v3)"
      "ok3 \<longrightarrow> transcribed hmac key logs v2 (entries logs v) rss \<and>
        file_text s v3 = Some ([] @ concat (map (exported hmac key) (concat rss))) \<and> rows = 0 + of_nat (length (concat rss))"
      by (elim exE conjE) (rule that)
    have "transcribed hmac key logs v (entries logs v) rss" if ok3
      using transcribed_names [OF short, of hmac key v2 "entries logs v" rss v] e(2) that s_only s_out by metis
    then show thesis using that [of ok3 rows v3] e g ns p(1) by auto
  qed
  obtain c v4 where close: "(if ns = None then (True, v3) else lib_call v3) = (c, v4)" by fastforce
  obtain ok5 v5 where fin: "finish_if g (c \<and> ok3) v4 = (ok5, v5)" by fastforce
  obtain ok6 v6 where readme: "write_file r readme_text ok5 v5 = (ok6, v6)" by fastforce
  obtain ok7 v7 where summary: "write_file m (summary_text rows) ok6 v6 = (ok7, v7)" by fastforce
  obtain ok8 v8 where manifest: "write_manifest sha dir ok7 v7 = (ok8, v8)" by fastforce
  have run: "write_export hmac sha key logs dir v = Some (ok8, rows, v8)"
    by (simp only: write_export_def in_dirs new op Let_def prod.case body [unfolded prod.case] option.case close fin
        readme summary manifest)
  have "same_files v3 v4" using close by (auto split: if_splits dest: lib_call_same)
  note same5 = same_files_trans [OF this conjunct1 [OF finish_if_effect [OF fin]]]
  note w6 = write_file_effect [OF readme] and w7 = write_file_effect [OF summary]
    and w8 = write_manifest_effect [OF manifest len, folded paths]
  have "export_done hmac sha key logs dir rows v v8" if ok8
  proof -
    have oks: ok7 ok6 ok5 ok3 using that w8 w7 w6 conjunct2 [OF finish_if_effect [OF fin]] by blast+
    have "file_text s v8 = file_text s v3"
      using w6 w7 w8 same_text [OF same5] differ by (simp add: writes_only_def)
    moreover have "file_text r v8 = Some readme_text" "file_text m v8 = Some (summary_text rows)"
      using oks that w6 w7 w8 differ by (simp_all add: writes_only_def)
    ultimately show ?thesis using three oks that w8 unfolding export_done_def paths [symmetric] by auto
  qed
  with run show ?thesis by blast
qed


lemma reopen_same: "reopen path v = (x, v') \<Longrightarrow> same_files v v'"
  by (auto simp: reopen_def Let_def split: prod.splits option.splits if_splits dest!: lib_call_same
      dest: fopen_same same_files_trans)
    (metis fopen_same lib_call_same prod.collapse same_files_trans)+

lemma mkdir_effect:
  "mkdir dir v = (x, v') \<Longrightarrow> if x then (\<exists>u. same_files v u \<and> v' = u\<lparr>vo_dirs := vo_dirs u @ [dir]\<rparr>) else same_files v v'"
  by (auto simp: mkdir_def split: prod.splits if_splits dest: lib_call_same)

lemma mkdir_text: "mkdir dir v = (x, v') \<Longrightarrow> file_text p v' = file_text p v"
  using mkdir_effect [of dir v x v'] by (auto simp: file_text_def same_files_def split: if_splits)

lemma mkdir_entries:
  assumes "mkdir dir v = (x, v')" "take (length logs + 1) dir \<noteq> logs @ ''/''"
  shows "entries logs v' = entries logs v"
  using mkdir_effect [OF assms(1)] entries_mkdir [OF assms(2)] same_entries by (auto split: if_splits)

lemma lib_call_fails:
  assumes "lib_call v = (False, v')" shows "\<exists>n. vo_faults v = Fails n # vo_faults v'"
proof (cases "vo_faults v")
  case (Cons f fs)
  with assms show ?thesis by (cases f) (auto simp: lib_call_def next_outcome_def)
qed (use assms in \<open>simp add: no_fault\<close>)

lemma unlink_spends:
  assumes "unlink p v = (x, v')"
  shows "file_text p v' = None \<or> (\<exists>n. vo_faults v = Fails n # vo_faults v')"
proof -
  obtain ok u where u: "lib_call v = (ok, u)" by fastforce
  show ?thesis using assms u lib_call_fails [of v u]
    by (cases ok) (auto simp: unlink_def file_text_def map_of_eq_None_iff split: if_splits)
qed

lemma export_result:
  assumes "outside logs dir" and "length dir < 160"
    and "length logs < 299"
  shows "\<exists>ok writer' rows v'. export_history_files hmac sha key writer path logs dir v = Some (ok, writer', rows, v') \<and>
    (ok \<longrightarrow> writer' = Some path \<and> export_done hmac sha key logs dir rows v v')"
proof -
  obtain closed v1 where close: "close_log writer v = (closed, v1)" by fastforce
  have same1: "same_files v v1" using close finish_if_effect unfolding close_log_def by blast
  obtain created v2 where make: "mkdir dir v1 = (created, v2)" by fastforce
  have same2: "file_text p v2 = file_text p v" "entries logs v2 = entries logs v" for p
    using mkdir_text [OF make] mkdir_entries [OF make outside_dir [OF assms(1)]] same_text [OF same1] same_entries [OF same1] by simp_all
  show ?thesis
  proof (cases "writer = None \<or> \<not> closed \<or> \<not> created")
    case True
    obtain w v3 where "reopen path v2 = (w, v3)" by fastforce
    with True show ?thesis using close make by (auto simp: export_history_files_def)
  next
    case False
    obtain ok3 rows v3 where body: "write_export hmac sha key logs dir v2 = Some (ok3, rows, v3)"
      and three: "ok3 \<longrightarrow> export_done hmac sha key logs dir rows v2 v3"
      using write_export_effect [OF assms, of hmac sha key v2] by blast
    obtain w v4 where re: "reopen path v3 = (w, v4)" by fastforce
    have "w \<noteq> None \<Longrightarrow> w = Some path"
      using re by (auto simp: reopen_def Let_def split: prod.splits option.splits if_splits)
    moreover have "export_done hmac sha key logs dir rows v v4" if ok3
      using export_done_same [OF reopen_same [OF re] three [rule_format, OF that]] same2
      by (auto simp: export_done_def transcribed_def)
    ultimately show ?thesis using False close make body re
      by (auto simp: export_history_files_def Let_def)
  qed
qed

lemma export_history_returns:
  assumes "outside logs dir" "length dir < 160" "length logs < 299"
  shows "export_history_files hmac sha key writer path logs dir v \<noteq> None"
  using export_result [OF assms, of hmac sha key writer path v] by auto

section \<open>Properties\<close>

text \<open>
  Property C31.  An export of the history always ends, and when it reports success every log was
  complete exportable rows, the new directory holds all of them sanitised and in order, the row count
  and the read-me text, and the manifest lists the hashes of the three files as they are on the card.
\<close>

theorem export_complete:
  assumes "outside logs dir" and "length dir < 160"
    and "length logs < 299"
  shows "\<exists>ok writer' rows v'. export_history_files hmac sha key writer path logs dir v = Some (ok, writer', rows, v') \<and>
    (ok \<longrightarrow> writer' = Some path \<and> export_done hmac sha key logs dir rows v v')"
  by (rule export_result [OF assms])

lemma export_complete_witness:
  "\<exists>ok writer' rows v'. export_history_files example_hmac (\<lambda>text. None) (replicate 32 1) (Some ''L/A.JSONL'') ''L/A.JSONL''
     ''L'' ''E'' example_card = Some (ok, writer', rows, v')"
proof -
  show ?thesis
    using export_complete [of "''L''" "''E''" example_hmac "\<lambda>text. None" "replicate 32 1" "Some ''L/A.JSONL''" "''L/A.JSONL''" example_card]
    by (auto simp: outside_def)
qed

text \<open>
  Property C32.  A failed export never carries a completion manifest: afterwards there is none in the new directory,
  unless the last library call the export made, the one that removes it, failed.
\<close>

theorem failed_export_has_no_manifest:
  assumes "export_history_files hmac sha key writer path logs dir v = Some (False, writer', rows, v')"
    and "file_text (in_dir dir ''MANIFEST.SHA256'') v = None"
  shows "file_text (in_dir dir ''MANIFEST.SHA256'') v' = None \<or>
    (\<exists>made n. vo_faults v = made @ Fails n # vo_faults v')"
proof -
  obtain closed v1 where close: "close_log writer v = (closed, v1)" by fastforce
  have same1: "same_files v v1" using close finish_if_effect unfolding close_log_def by blast
  obtain created v2 where make: "mkdir dir v1 = (created, v2)" by fastforce
  have none2: "file_text (in_dir dir ''MANIFEST.SHA256'') v1 = None" "file_text (in_dir dir ''MANIFEST.SHA256'') v2 = None"
    using assms(2) mkdir_text [OF make] same_text [OF same1] by simp_all
  show ?thesis
  proof (cases "writer = None \<or> \<not> closed \<or> \<not> created")
    case True
    obtain w v3 where re: "reopen path v2 = (w, v3)" by fastforce
    have "file_text (in_dir dir ''MANIFEST.SHA256'') v3 = None" using none2 same_text [OF reopen_same [OF re]] by simp
    with True show ?thesis using close make re assms none2
      by (auto simp: export_history_files_def Let_def split: if_splits)
  next
    case False
    then obtain ok3 n v3 where body: "write_export hmac sha key logs dir v2 = Some (ok3, n, v3)"
      using assms(1) close make by (auto simp: export_history_files_def split: option.splits)
    obtain w v4 where re: "reopen path v3 = (w, v4)" by fastforce
    obtain x v5 where un: "unlink (in_dir dir ''MANIFEST.SHA256'') v4 = (x, v5)" by fastforce
    have "v2 = snd (mkdir dir (snd (close_log writer v)))" "v4 = snd (reopen path v3)" using close make re by simp_all
    then have "spends v v4" using spends_export [OF body, of v] by blast
    moreover have "v' = v5" using False close make body re un assms(1)
      by (auto simp: export_history_files_def Let_def split: if_splits)
    ultimately show ?thesis using unlink_spends [OF un] by (auto simp: spends_def)
  qed
qed

lemma failed_export_has_no_manifest_witness:
  "export_history_files example_hmac (\<lambda>text. None) (replicate 32 1) (Some ''L/A.JSONL'') ''L/A.JSONL'' ''L'' ''L'' example_card =
     Some (False, Some ''L/A.JSONL'', 0, example_card) \<and> file_text ''L/MANIFEST.SHA256'' example_card = None"
proof -
  have run: "export_history_files example_hmac (\<lambda>text. None) (replicate 32 1) (Some ''L/A.JSONL'') ''L/A.JSONL'' ''L'' ''L'' example_card =
     Some (False, Some ''L/A.JSONL'', 0, example_card)"
    by (simp add: export_history_files_def close_log_def finish_if_def finish_def no_fault mkdir_def reopen_def fopen_def
        example_card_def file_text_def Let_def)
  have path: "in_dir ''L'' ''MANIFEST.SHA256'' = ''L/MANIFEST.SHA256''" by (simp add: in_dir_def)
  have "file_text ''L/MANIFEST.SHA256'' example_card = None" by (simp add: file_text_def example_card_def)
  with failed_export_has_no_manifest [OF run, unfolded path] run show ?thesis by blast
qed

end
