(* ===== verification/Ignore_Backup.thy ===== *)
theory Ignore_Backup
  imports Companion Privacy Utilities
begin

text \<open>
  The copy of the ignore list on the card (\<open>ignore_backup.cpp\<close>): an authenticated file of fixed
  size in one of two alternating slots.  The file system and the HMAC are parameters; what the
  standard library promises of a file is the predicate \<open>files_lawful\<close>.
\<close>

section \<open>Format\<close>

definition backup_magic :: "u8 list" where
  "backup_magic = map byte_of_char ''HNDIGN02''"

definition signed_size :: nat where
  "signed_size = 16 + ignore_capacity * 9"

definition backup_bytes :: nat where
  "backup_bytes = signed_size + 32"

definition key_ok :: "u8 list \<Rightarrow> bool" where
  "key_ok key \<longleftrightarrow> list_ex (\<lambda>b. b \<noteq> 0) key"

definition le64 :: "u64 \<Rightarrow> u8 list" where
  "le64 w = map (\<lambda>i. ucast (drop_bit (8 * i) w)) [0..<8]"

definition of_le64 :: "u8 list \<Rightarrow> u64" where
  "of_le64 bytes = fold (\<lambda>i gen. gen OR push_bit (8 * i) (ucast (bytes ! i))) [0..<8] 0"

definition entry_bytes :: "ignored_scent \<Rightarrow> u8 list" where
  "entry_bytes e = ig_digest e @ [word_of_nat (category_index (ig_category e))]"

definition signed_part :: "u64 \<Rightarrow> ignored_scent list \<Rightarrow> u8 list" where
  "signed_part gen list = backup_magic @ le64 gen @ concat (map entry_bytes list)"

definition encode :: "keyed_digest \<Rightarrow> u8 list \<Rightarrow> u64 \<Rightarrow> ignored_scent list \<Rightarrow> u8 list option" where
  "encode hmac key gen list =
     map_option (\<lambda>mac. signed_part gen list @ mac) (hmac key (signed_part gen list))"

definition entry_at :: "u8 list \<Rightarrow> nat \<Rightarrow> ignored_scent" where
  "entry_at bytes i = \<lparr>ig_digest = take 8 (drop (16 + i * 9) bytes),
     ig_category = category_of_byte (bytes ! (24 + i * 9))\<rparr>"

definition decode :: "keyed_digest \<Rightarrow> u8 list \<Rightarrow> u8 list \<Rightarrow> (ignored_scent list \<times> u64) option" where
  "decode hmac key bytes =
     (if \<not> key_ok key \<or> take 8 bytes \<noteq> backup_magic then None
      else case hmac key (take signed_size bytes) of
          None \<Rightarrow> None
        | Some mac \<Rightarrow>
            if foldl (\<lambda>difference i. difference OR (mac ! i XOR bytes ! (signed_size + i))) 0 [0..<32] \<noteq> 0 then None
            else let gen = of_le64 (take 8 (drop 8 bytes)); list = map (entry_at bytes) [0..<ignore_capacity]
                 in if gen = 0 \<or> \<not> valid_ignores list then None else Some (list, gen))"

section \<open>Files\<close>

datatype file_read = Absent | Unreadable | Content "u8 list"

text \<open>
  \<open>fo_read\<close> opens, reads to the end and closes; \<open>fo_write\<close> truncates, writes, flushes, syncs and
  closes, and reports whether all of it succeeded.
\<close>

record 'f files =
  fo_read :: "string \<Rightarrow> 'f \<Rightarrow> file_read"
  fo_write :: "string \<Rightarrow> u8 list \<Rightarrow> 'f \<Rightarrow> bool \<times> 'f"

definition slot_path :: "string \<Rightarrow> nat \<Rightarrow> string option" where
  "slot_path base slot = (let name = base @ ''-'' @ decimal slot @ ''.BIN''
     in if length name < 192 then Some name else None)"

datatype slot_read = Slot_Missing | Slot_Invalid | Slot_Error | Slot_Valid "ignored_scent list" u64

definition read_slot :: "keyed_digest \<Rightarrow> 'f files \<Rightarrow> string \<Rightarrow> u8 list \<Rightarrow> 'f \<Rightarrow> nat \<Rightarrow> slot_read" where
  "read_slot hmac F base key fs slot =
     (case slot_path base slot of
        None \<Rightarrow> Slot_Error
      | Some name \<Rightarrow>
          (case fo_read F name fs of
             Absent \<Rightarrow> Slot_Missing
           | Unreadable \<Rightarrow> Slot_Error
           | Content bytes \<Rightarrow>
               if length bytes = backup_bytes
               then (case decode hmac key bytes of None \<Rightarrow> Slot_Invalid | Some (list, gen) \<Rightarrow> Slot_Valid list gen)
               else Slot_Invalid))"

record latest_backup =
  la_slot :: "nat option"
  la_generation :: u64
  la_existing :: bool
  la_error :: bool
  la_list :: "ignored_scent list"

definition latest_step :: "slot_read \<Rightarrow> nat \<Rightarrow> latest_backup \<Rightarrow> latest_backup" where
  "latest_step status slot l =
     (let l = l\<lparr>la_existing := la_existing l \<or> status \<noteq> Slot_Missing, la_error := la_error l \<or> status = Slot_Error\<rparr>
      in case status of
           Slot_Valid list gen \<Rightarrow> if la_generation l < gen
             then l\<lparr>la_slot := Some slot, la_generation := gen, la_list := list\<rparr> else l
         | _ \<Rightarrow> l)"

definition latest :: "keyed_digest \<Rightarrow> 'f files \<Rightarrow> string \<Rightarrow> u8 list \<Rightarrow> 'f \<Rightarrow> latest_backup" where
  "latest hmac F base key fs = fold (\<lambda>slot. latest_step (read_slot hmac F base key fs slot) slot) [0..<2]
     \<lparr>la_slot = None, la_generation = 0, la_existing = False, la_error = False,
      la_list = replicate ignore_capacity ignored_scent0\<rparr>"

definition read_ignore_backup :: "keyed_digest \<Rightarrow> 'f files \<Rightarrow> string \<Rightarrow> u8 list \<Rightarrow> 'f \<Rightarrow> (ignored_scent list \<times> u64) option" where
  "read_ignore_backup hmac F base key fs =
     (let found = latest hmac F base key fs
      in if la_error found \<or> la_slot found = None then None else Some (la_list found, la_generation found))"

datatype backup_result = Backup_Refused | Backup_Unchanged | Backup_Written

definition backup_ignores :: "keyed_digest \<Rightarrow> 'f files \<Rightarrow> string \<Rightarrow> u8 list \<Rightarrow> ignored_scent list \<Rightarrow> 'f \<Rightarrow> backup_result \<times> 'f" where
  "backup_ignores hmac F base key list fs =
     (if \<not> key_ok key \<or> \<not> valid_ignores list then (Backup_Refused, fs)
      else let found = latest hmac F base key fs
           in if la_error found \<or> la_slot found = None \<and> la_existing found \<or> la_generation found = - 1
              then (Backup_Refused, fs)
              else if la_slot found \<noteq> None \<and> la_list found = list then (Backup_Unchanged, fs)
              else case encode hmac key (la_generation found + 1) list of
                  None \<Rightarrow> (Backup_Refused, fs)
                | Some bytes \<Rightarrow>
                    (case slot_path base (if la_slot found = Some 0 then 1 else 0) of
                       None \<Rightarrow> (Backup_Refused, fs)
                     | Some name \<Rightarrow>
                         let (ok, fs) = fo_write F name bytes fs
                         in (if ok then Backup_Written else Backup_Refused, fs)))"

definition id_domain :: "u8 list" where
  "id_domain = map byte_of_char ''HOUND-IGNORE-ID''"

definition ignore_backup_id :: "keyed_digest \<Rightarrow> u8 list \<Rightarrow> string option" where
  "ignore_backup_id hmac key =
     (if \<not> key_ok key then None
      else map_option (\<lambda>mac. concat (map (\<lambda>i. [''0123456789ABCDEF'' ! unat (drop_bit 4 (mac ! i)),
             ''0123456789ABCDEF'' ! unat (mac ! i AND 15)]) [0..<8])) (hmac key id_domain))"

section \<open>The format\<close>

lemma of_le64_le64 [simp]: "of_le64 (le64 w) = w"
proof -
  have "of_le64 (le64 w) = ig_hash (ignored_of w FLOCK)"
    by (simp add: of_le64_def ig_hash_def ignored_of_def le64_def)
  then show ?thesis by simp
qed

lemma length_le64 [simp]: "length (le64 w) = 8"
  by (simp add: le64_def)

lemma le64_of_le64:
  assumes "length bs = 8" shows "le64 (of_le64 bs) = bs"
proof (rule nth_equalityI)
  fix i assume "i < length (le64 (of_le64 bs))"
  then have i: "i < 8" by simp
  have "bit (ucast (drop_bit (8 * i) (of_le64 bs)) :: u8) k \<longleftrightarrow> bit (bs ! i) k" if k: "k < 8" for k
  proof -
    have one: "8 * j \<le> 8 * i + k \<and> 8 * i + k - 8 * j < 8 \<longleftrightarrow> j = i" for j using k by linarith
    have n: "8 * i + k < 64" using i k by linarith
    have "bit (of_le64 bs) (8 * i + k) \<longleftrightarrow>
        (\<exists>j \<in> {0..<8}. bit (push_bit (8 * j) (ucast (bs ! j)) :: u64) (8 * i + k))"
      by (simp add: of_le64_def bit_fold_or)
    also have "\<dots> \<longleftrightarrow> (\<exists>j \<in> {0..<8}. j = i \<and> bit (bs ! i) k)"
    proof (rule bex_cong [OF refl])
      fix j :: nat assume "j \<in> {0..<8}"
      have "bit (push_bit (8 * j) (ucast (bs ! j)) :: u64) (8 * i + k) \<longleftrightarrow>
          8 * j \<le> 8 * i + k \<and> 8 * i + k - 8 * j < 8 \<and> bit (bs ! j) (8 * i + k - 8 * j)"
        using n by (auto simp: bit_push_bit_iff bit_ucast_iff dest: bit_imp_le_length)
      then show "bit (push_bit (8 * j) (ucast (bs ! j)) :: u64) (8 * i + k) \<longleftrightarrow> j = i \<and> bit (bs ! i) k"
        using one [of j] by auto
    qed
    also have "\<dots> \<longleftrightarrow> bit (bs ! i) k" using i by auto
    finally show ?thesis using k n by (simp add: bit_ucast_iff bit_drop_bit_eq)
  qed
  then have "ucast (drop_bit (8 * i) (of_le64 bs)) = bs ! i" by (intro bit_word_eqI) simp
  then show "le64 (of_le64 bs) ! i = bs ! i" using i by (simp add: le64_def)
qed (simp add: assms)

text \<open>Blocks of equal length.\<close>

lemma drop_blocks: "(\<And>x. x \<in> set xs \<Longrightarrow> length (f x) = n) \<Longrightarrow> drop (i * n) (concat (map f xs)) = concat (map f (drop i xs))"
proof (induction i arbitrary: xs)
  case (Suc i)
  then show ?case by (cases xs) (simp_all add: add.commute [of n])
qed simp

lemma blocks_of: "concat (map (\<lambda>i. take n (drop (i * n) xs)) [0..<m]) = take (m * n) xs"
  by (induction m) (simp_all add: take_add [of _ n] add.commute [of n])

lemma length_blocks: "(\<And>x. x \<in> set xs \<Longrightarrow> length (f x) = n) \<Longrightarrow> length (concat (map f xs)) = length xs * n"
  by (induction xs) simp_all

definition list_shaped :: "ignored_scent list \<Rightarrow> bool" where
  "list_shaped list \<longleftrightarrow> length list = ignore_capacity \<and> list_all (\<lambda>e. length (ig_digest e) = 8) list"

lemma length_entry_bytes: "list_shaped list \<Longrightarrow> e \<in> set list \<Longrightarrow> length (entry_bytes e) = 9"
  by (simp add: list_shaped_def list_all_iff entry_bytes_def)

lemma length_signed: "list_shaped list \<Longrightarrow> length (signed_part gen list) = signed_size"
  using length_blocks [of list entry_bytes 9, OF length_entry_bytes]
  by (simp add: signed_part_def signed_size_def backup_magic_def list_shaped_def)

lemma category_byte: "category_index c < category_count \<Longrightarrow> category_of_byte (word_of_nat (category_index c)) = c"
  by (cases c) (simp_all add: category_of_byte_def listed_categories_def category_count_def)

lemma drop_header: "drop (16 + k) (signed_part gen list @ mac) = drop k (concat (map entry_bytes list) @ mac)"
proof -
  have "drop 16 (signed_part gen list @ mac) = concat (map entry_bytes list) @ mac"
    by (simp add: signed_part_def backup_magic_def)
  then show ?thesis by (metis add.commute drop_drop)
qed

lemma entry_at_signed:
  assumes list: "list_shaped list" "valid_ignores list" and i: "i < ignore_capacity"
  shows "entry_at (signed_part gen list @ mac) i = list ! i"
proof -
  let ?bytes = "signed_part gen list @ mac"
  have len: "i < length list" using assms by (simp add: list_shaped_def)
  then have mem: "list ! i \<in> set list" by (rule nth_mem)
  have "i * 9 \<le> length (concat (map entry_bytes list))"
    using len length_blocks [of list entry_bytes 9, OF length_entry_bytes [OF list(1)]] by simp
  then have "drop (16 + i * 9) ?bytes = concat (map entry_bytes (drop i list)) @ mac"
    unfolding drop_header by (simp add: drop_blocks [OF length_entry_bytes [OF list(1)]])
  also have "drop i list = list ! i # drop (Suc i) list" using len by (rule Cons_nth_drop_Suc [symmetric])
  finally obtain rest where rest: "drop (16 + i * 9) ?bytes = entry_bytes (list ! i) @ rest" by simp
  have digest: "length (ig_digest (list ! i)) = 8" using list(1) mem by (simp add: list_shaped_def list_all_iff)
  have "16 + i * 9 \<le> length ?bytes" using len list(1)
    by (simp add: length_signed signed_size_def list_shaped_def)
  then have "drop (16 + i * 9) ?bytes ! 8 = ?bytes ! (16 + i * 9 + 8)" by (rule nth_drop)
  moreover have "16 + i * 9 + 8 = 24 + i * 9" by simp
  ultimately have "?bytes ! (24 + i * 9) = (entry_bytes (list ! i) @ rest) ! 8" by (simp only: rest)
  then have "?bytes ! (24 + i * 9) = word_of_nat (category_index (ig_category (list ! i)))"
    using digest by (simp add: entry_bytes_def nth_append del: nth_append_left nth_append_right)
  moreover have "category_index (ig_category (list ! i)) < category_count"
    using list(2) mem unfolding valid_ignores_iff by blast
  ultimately show ?thesis using digest unfolding entry_at_def rest
    by (simp add: entry_bytes_def category_byte)
qed

lemma entries_signed:
  assumes "list_shaped list" "valid_ignores list"
  shows "map (entry_at (signed_part gen list @ mac)) [0..<ignore_capacity] = list"
  using assms entry_at_signed [OF assms] by (intro nth_equalityI) (simp_all add: list_shaped_def)

lemma difference_zero: "foldl (\<lambda>difference i. difference OR f i) d is = 0 \<longleftrightarrow> d = 0 \<and> (\<forall>i \<in> set is. f i = (0 :: u8))"
  by (induction "is" arbitrary: d) (auto simp: or_eq_0_iff)

lemma xor_zero: "a XOR b = 0 \<longleftrightarrow> a = (b :: u8)"
proof
  assume zero: "a XOR b = 0"
  show "a = b"
  proof (rule bit_word_eqI)
    fix i
    have "\<not> bit (a XOR b) i" by (simp add: zero)
    then show "bit a i \<longleftrightarrow> bit b i" by (auto simp: bit_xor_iff)
  qed
qed simp

lemma mac_equal:
  assumes "length mac = 32" "length rest = 32" "length bytes = n"
  shows "foldl (\<lambda>difference i. difference OR (mac ! i XOR (bytes @ rest) ! (n + i))) 0 [0..<32] = (0 :: u8) \<longleftrightarrow> mac = rest"
proof -
  have "(mac ! i XOR (bytes @ rest) ! (n + i) = 0) \<longleftrightarrow> mac ! i = rest ! i" for i
    using assms(3) by (simp add: nth_append xor_zero)
  then show ?thesis using assms(1,2)
    by (auto simp: difference_zero list_eq_iff_nth_eq)
qed

definition digests_32 :: "keyed_digest \<Rightarrow> bool" where
  "digests_32 hmac \<longleftrightarrow> (\<forall>key input mac. hmac key input = Some mac \<longrightarrow> length mac = 32)"

lemma decode_encode:
  assumes hmac: "digests_32 hmac" and list: "list_shaped list" "valid_ignores list"
    and key: "key_ok key" and gen: "gen \<noteq> 0" and enc: "encode hmac key gen list = Some bytes"
  shows "decode hmac key bytes = Some (list, gen)" and "length bytes = backup_bytes"
proof -
  obtain mac where mac: "hmac key (signed_part gen list) = Some mac" "bytes = signed_part gen list @ mac" "length mac = 32"
    using enc hmac by (auto simp: encode_def digests_32_def)
  have len: "length (signed_part gen list) = signed_size" using list(1) by (rule length_signed)
  have head: "take 8 bytes = backup_magic" "take 8 (drop 8 bytes) = le64 gen"
    by (simp_all add: mac(2) signed_part_def backup_magic_def)
  show "length bytes = backup_bytes" using len mac(2,3) by (simp add: backup_bytes_def)
  have "foldl (\<lambda>difference i. difference OR (mac ! i XOR bytes ! (signed_size + i))) 0 [0..<32] = 0"
    using mac_equal [OF mac(3,3) len] by (simp add: mac(2))
  moreover have "take signed_size bytes = signed_part gen list" using len by (simp add: mac(2))
  moreover have "map (entry_at bytes) [0..<ignore_capacity] = list" using entries_signed [OF list] by (simp add: mac(2))
  ultimately show "decode hmac key bytes = Some (list, gen)"
    using key gen list(2) by (simp add: decode_def Let_def head mac(1))
qed

lemma concat_cong_blocks: "(\<And>i. i < m \<Longrightarrow> f i = g i) \<Longrightarrow> concat (map f [0..<m]) = concat (map g [0..<m])"
  by (rule arg_cong [where f = concat]) simp

lemma entry_bytes_at:
  assumes "25 + i * 9 \<le> length bytes"
  shows "entry_bytes (entry_at bytes i) = take 9 (drop (16 + i * 9) bytes)"
proof -
  let ?d = "drop (16 + i * 9) bytes"
  have "take 9 ?d = take 8 ?d @ [?d ! 8]" using assms take_Suc_conv_app_nth [of 8 ?d] by simp
  moreover have "?d ! 8 = bytes ! (24 + i * 9)" using assms by (simp add: add.commute)
  ultimately show ?thesis by (simp add: entry_bytes_def entry_at_def category_index_of_byte)
qed

lemma signed_part_at:
  assumes "length bytes = backup_bytes" "take 8 bytes = backup_magic"
  shows "signed_part (of_le64 (take 8 (drop 8 bytes))) (map (entry_at bytes) [0..<ignore_capacity]) = take signed_size bytes"
proof -
  have long: "length bytes = 624" "signed_size = 592" "ignore_capacity = 64"
    using assms(1) by (simp_all add: backup_bytes_def signed_size_def ignore_capacity_def)
  have "concat (map (\<lambda>i. entry_bytes (entry_at bytes i)) [0..<ignore_capacity]) =
      concat (map (\<lambda>i. take 9 (drop (i * 9) (drop 16 bytes))) [0..<ignore_capacity])"
  proof (rule concat_cong_blocks)
    fix i assume "i < ignore_capacity"
    then have "25 + i * 9 \<le> length bytes" using long by simp
    then show "entry_bytes (entry_at bytes i) = take 9 (drop (i * 9) (drop 16 bytes))"
      by (simp add: entry_bytes_at add.commute)
  qed
  also have "\<dots> = take 576 (drop 16 bytes)" unfolding blocks_of long by simp
  finally have entries: "concat (map entry_bytes (map (entry_at bytes) [0..<ignore_capacity])) = take 576 (drop 16 bytes)"
    by (simp add: comp_def)
  have "le64 (of_le64 (take 8 (drop 8 bytes))) = take 8 (drop 8 bytes)" using long by (intro le64_of_le64) simp
  moreover have "take 592 bytes = take 8 bytes @ take 8 (drop 8 bytes) @ take 576 (drop 16 bytes)"
    using take_add [of 8 584 bytes] take_add [of 8 576 "drop 8 bytes"] by simp
  ultimately show ?thesis using entries assms(2) long by (simp add: signed_part_def)
qed

lemma encode_decode:
  assumes hmac: "digests_32 hmac" and len: "length bytes = backup_bytes" and dec: "decode hmac key bytes = Some (list, gen)"
  shows "key_ok key" "gen \<noteq> 0" "valid_ignores list" "list_shaped list" "encode hmac key gen list = Some bytes"
proof -
  from dec have ok: "key_ok key" "take 8 bytes = backup_magic" "gen = of_le64 (take 8 (drop 8 bytes))" "gen \<noteq> 0"
      "list = map (entry_at bytes) [0..<ignore_capacity]" "valid_ignores list"
    by (auto simp: decode_def Let_def split: if_splits option.splits)
  from dec ok(1,2) obtain mac where mac: "hmac key (take signed_size bytes) = Some mac"
      "foldl (\<lambda>difference i. difference OR (mac ! i XOR bytes ! (signed_size + i))) 0 [0..<32] = 0"
    by (auto simp: decode_def split: if_splits option.splits)
  have "length mac = 32" using mac(1) hmac by (simp add: digests_32_def)
  then have "mac = drop signed_size bytes"
    using mac_equal [of mac "drop signed_size bytes" "take signed_size bytes" signed_size] mac(2) len
    by (simp add: backup_bytes_def)
  moreover have "signed_part gen list = take signed_size bytes"
    using signed_part_at [OF len ok(2)] by (simp add: ok(3,5))
  ultimately show "encode hmac key gen list = Some bytes" using mac(1) by (simp add: encode_def)
  show "list_shaped list" using len
    by (auto simp: list_shaped_def ok(5) list_all_iff entry_at_def backup_bytes_def signed_size_def ignore_capacity_def)
  show "key_ok key" "gen \<noteq> 0" "valid_ignores list" using ok by simp_all
qed

section \<open>Two slots\<close>

definition files_lawful :: "'f files \<Rightarrow> bool" where
  "files_lawful F \<longleftrightarrow> (\<forall>name bytes fs. case fo_write F name bytes fs of (ok, fs') \<Rightarrow>
     (\<forall>other. other \<noteq> name \<longrightarrow> fo_read F other fs' = fo_read F other fs) \<and>
     (if ok then fo_read F name fs' = Content bytes
      else fo_read F name fs' = fo_read F name fs \<or> (\<exists>n. fo_read F name fs' = Content (take n bytes))))"

lemma write_ends:
  assumes "files_lawful F" "fo_write F name bytes fs = (ok, fs')"
  shows "other \<noteq> name \<Longrightarrow> fo_read F other fs' = fo_read F other fs"
    and "fo_read F name fs' = Content bytes \<or>
      \<not> ok \<and> (fo_read F name fs' = fo_read F name fs \<or> (\<exists>n. fo_read F name fs' = Content (take n bytes)))"
proof -
  have "case fo_write F name bytes fs of (ok, fs') \<Rightarrow>
     (\<forall>other. other \<noteq> name \<longrightarrow> fo_read F other fs' = fo_read F other fs) \<and>
     (if ok then fo_read F name fs' = Content bytes
      else fo_read F name fs' = fo_read F name fs \<or> (\<exists>n. fo_read F name fs' = Content (take n bytes)))"
    using assms(1) by (simp only: files_lawful_def)
  then have ends: "(\<forall>other. other \<noteq> name \<longrightarrow> fo_read F other fs' = fo_read F other fs) \<and>
     (if ok then fo_read F name fs' = Content bytes
      else fo_read F name fs' = fo_read F name fs \<or> (\<exists>n. fo_read F name fs' = Content (take n bytes)))"
    by (simp only: assms(2) prod.case)
  show "other \<noteq> name \<Longrightarrow> fo_read F other fs' = fo_read F other fs" using ends by blast
  show "fo_read F name fs' = Content bytes \<or>
      \<not> ok \<and> (fo_read F name fs' = fo_read F name fs \<or> (\<exists>n. fo_read F name fs' = Content (take n bytes)))"
    using ends by (cases ok) simp_all
qed

lemma slot_paths_differ:
  assumes "slot_path base 0 = Some a" "slot_path base 1 = Some b" shows "a \<noteq> b"
proof -
  have "decimal 0 = ''0''" "decimal 1 = ''1''" by code_simp+
  with assms show ?thesis by (auto simp: slot_path_def Let_def split: if_splits)
qed

text \<open>What the two slots hold: the higher generation, unless one of them cannot be read.\<close>

fun slot_generation :: "slot_read \<Rightarrow> u64" where
  "slot_generation (Slot_Valid list gen) = gen"
| "slot_generation _ = 0"

fun slot_list :: "slot_read \<Rightarrow> ignored_scent list" where
  "slot_list (Slot_Valid list gen) = list"
| "slot_list _ = []"

definition newest :: "slot_read \<Rightarrow> slot_read \<Rightarrow> (ignored_scent list \<times> u64) option" where
  "newest a b =
     (if a = Slot_Error \<or> b = Slot_Error then None
      else if slot_generation a < slot_generation b then Some (slot_list b, slot_generation b)
      else if slot_generation a \<noteq> 0 then Some (slot_list a, slot_generation a) else None)"

lemma read_slot_generation:
  "read_slot hmac F base key fs slot = Slot_Valid list gen \<Longrightarrow> gen \<noteq> 0"
  by (auto simp: read_slot_def decode_def Let_def split: option.splits file_read.splits if_splits)

lemma latest_two:
  fixes hmac F base key fs
  defines "a \<equiv> read_slot hmac F base key fs 0" and "b \<equiv> read_slot hmac F base key fs 1"
  defines "found \<equiv> latest hmac F base key fs"
  shows "la_error found \<longleftrightarrow> a = Slot_Error \<or> b = Slot_Error"
    and "la_existing found \<longleftrightarrow> a \<noteq> Slot_Missing \<or> b \<noteq> Slot_Missing"
    and "la_slot found = (if slot_generation a < slot_generation b then Some 1
           else if slot_generation a \<noteq> 0 then Some 0 else None)"
    and "la_generation found = max (slot_generation a) (slot_generation b)"
    and "la_slot found = Some 0 \<Longrightarrow> la_list found = slot_list a"
    and "la_slot found = Some 1 \<Longrightarrow> la_list found = slot_list b"
proof -
  have "[0..<2] = [0, 1 :: nat]" by (simp add: upt_rec)
  then have two: "found = latest_step b 1 (latest_step a 0 \<lparr>la_slot = None, la_generation = 0, la_existing = False,
      la_error = False, la_list = replicate ignore_capacity ignored_scent0\<rparr>)"
    by (simp add: found_def latest_def a_def b_def)
  have pos: "slot_generation a \<noteq> 0 \<longleftrightarrow> (\<exists>l g. a = Slot_Valid l g)" "slot_generation b \<noteq> 0 \<longleftrightarrow> (\<exists>l g. b = Slot_Valid l g)"
    using read_slot_generation unfolding a_def b_def by (metis slot_generation.elims slot_generation.simps(1))+
  show "la_error found \<longleftrightarrow> a = Slot_Error \<or> b = Slot_Error"
      "la_existing found \<longleftrightarrow> a \<noteq> Slot_Missing \<or> b \<noteq> Slot_Missing"
      "la_slot found = (if slot_generation a < slot_generation b then Some 1
         else if slot_generation a \<noteq> 0 then Some 0 else None)"
      "la_generation found = max (slot_generation a) (slot_generation b)"
      "la_slot found = Some 0 \<Longrightarrow> la_list found = slot_list a"
      "la_slot found = Some 1 \<Longrightarrow> la_list found = slot_list b"
    using pos by (cases a; cases b; auto simp: two latest_step_def Let_def max_def word_gt_0 split: if_splits)+
qed

lemma read_newest:
  "read_ignore_backup hmac F base key fs = newest (read_slot hmac F base key fs 0) (read_slot hmac F base key fs 1)"
proof -
  note two = latest_two [of hmac F base key fs]
  show ?thesis unfolding read_ignore_backup_def Let_def newest_def
    using two by (auto simp: max_def)
qed

lemma next_generation: "g \<noteq> - 1 \<Longrightarrow> (g :: u64) < g + 1"
proof -
  assume "g \<noteq> - 1"
  then have "g + 1 \<noteq> 0" by (simp add: add_eq_0_iff2)
  then have "unat (g + 1) \<noteq> 0" by (simp add: unat_eq_0)
  moreover have "unat (g + 1) = (unat g + 1) mod 2 ^ 64" by (simp add: unat_word_ariths)
  moreover have "unat g + 1 \<le> 2 ^ 64" using unsigned_less [of g, where 'a = nat] by simp
  ultimately have "unat (g + 1) = unat g + 1" by (cases "unat g + 1 = 2 ^ 64") simp_all
  then show ?thesis by (simp add: word_less_nat_alt)
qed

lemma written_slot:
  assumes hmac: "digests_32 hmac" and list: "list_shaped list" "valid_ignores list" and key: "key_ok key"
    and gen: "gen \<noteq> 0" and enc: "encode hmac key gen list = Some bytes" and name: "slot_path base slot = Some name"
  shows "fo_read F name fs = Content bytes \<Longrightarrow> read_slot hmac F base key fs slot = Slot_Valid list gen"
    and "fo_read F name fs = Content (take n bytes) \<Longrightarrow>
      read_slot hmac F base key fs slot \<in> {Slot_Valid list gen, Slot_Invalid}"
  using decode_encode [OF hmac list key gen enc] name
  by (auto simp: read_slot_def min_def split: if_splits option.splits)

text \<open>The one write of a backup goes to the slot that does not hold the newest list.\<close>

lemma newest_after_write:
  assumes "a \<noteq> Slot_Error" "b \<noteq> Slot_Error" "g = max (slot_generation a) (slot_generation b)" "g \<noteq> - 1"
  shows "slot_generation b \<le> slot_generation a \<Longrightarrow> slot_generation a \<noteq> 0 \<Longrightarrow>
      newest a (Slot_Valid list (g + 1)) = Some (list, g + 1) \<and> newest a Slot_Invalid = newest a b"
    and "slot_generation a < slot_generation b \<Longrightarrow>
      newest (Slot_Valid list (g + 1)) b = Some (list, g + 1) \<and> newest Slot_Invalid b = newest a b"
  using next_generation [OF assms(4)] assms
  by (auto simp: newest_def max_def not_less word_gt_0 split: if_splits)

lemma backup_cases:
  assumes "backup_ignores hmac F base key list fs = (result, fs')"
  obtains (refused) "result = Backup_Refused" "fs' = fs"
    | (unchanged) "result = Backup_Unchanged" "fs' = fs" "\<not> la_error (latest hmac F base key fs)"
        "la_slot (latest hmac F base key fs) \<noteq> None" "la_list (latest hmac F base key fs) = list"
    | (wrote) found bytes name ok where "found = latest hmac F base key fs" "key_ok key" "valid_ignores list"
        "\<not> la_error found" "la_slot found = None \<Longrightarrow> \<not> la_existing found" "la_generation found \<noteq> - 1"
        "encode hmac key (la_generation found + 1) list = Some bytes"
        "slot_path base (if la_slot found = Some 0 then 1 else 0) = Some name"
        "fo_write F name bytes fs = (ok, fs')" "result = (if ok then Backup_Written else Backup_Refused)"
  using assms unfolding backup_ignores_def Let_def
  by (auto split: if_splits option.splits prod.splits)

lemma written_newest:
  assumes law: "files_lawful F" and hmac: "digests_32 hmac" and shape: "list_shaped list"
    and found: "found = latest hmac F base key fs" "key_ok key" "valid_ignores list" "\<not> la_error found"
      "la_slot found = None \<Longrightarrow> \<not> la_existing found" "la_generation found \<noteq> - 1"
    and enc: "encode hmac key (la_generation found + 1) list = Some bytes"
    and name: "slot_path base (if la_slot found = Some 0 then 1 else 0) = Some name"
    and run: "fo_write F name bytes fs = (ok, fs')"
  shows "read_ignore_backup hmac F base key fs' = Some (list, la_generation found + 1) \<or>
    \<not> ok \<and> read_ignore_backup hmac F base key fs' = read_ignore_backup hmac F base key fs"
proof -
  define a b where ab: "a = read_slot hmac F base key fs 0" "b = read_slot hmac F base key fs 1"
  define a' b' where ab': "a' = read_slot hmac F base key fs' 0" "b' = read_slot hmac F base key fs' 1"
  define g where "g = la_generation found"
  note two = latest_two [of hmac F base key fs, folded found(1) ab]
  have g: "g = max (slot_generation a) (slot_generation b)" "g \<noteq> - 1" "g + 1 \<noteq> 0"
    using two(4) found(6) by (simp_all add: g_def add_eq_0_iff2)
  have clean: "a \<noteq> Slot_Error" "b \<noteq> Slot_Error" using two(1) found(4) by simp_all
  note ends = write_ends [OF law run]
  note new = written_slot [OF hmac shape found(3,2) g(3) enc [folded g_def] name, of F fs']
  have kept: "read_slot hmac F base key fs' s = read_slot hmac F base key fs s"
    if "\<And>path. slot_path base s = Some path \<Longrightarrow> path \<noteq> name" for s
    using ends(1) that by (simp add: read_slot_def split: option.split)
  have own: "read_slot hmac F base key fs' t = Slot_Valid list (g + 1) \<or>
      \<not> ok \<and> read_slot hmac F base key fs' t \<in> {read_slot hmac F base key fs t, Slot_Invalid}"
    if "t = (if la_slot found = Some 0 then 1 else 0)" for t
  proof -
    have same: "read_slot hmac F base key fs' t = read_slot hmac F base key fs t" if "fo_read F name fs' = fo_read F name fs"
      using that name \<open>t = _\<close> by (simp add: read_slot_def)
    from ends(2) same new [folded that] show ?thesis by blast
  qed
  show ?thesis
  proof (cases "la_slot found = Some 0")
    case True
    then have "slot_generation b \<le> slot_generation a" "slot_generation a \<noteq> 0"
      using two(3) by (auto split: if_splits)
    note after = newest_after_write(1) [OF clean g(1,2) this, of list]
    have "a' = a" using kept [of 0] slot_paths_differ [of base _ name] name True by (simp add: ab ab')
    moreover have "b' = Slot_Valid list (g + 1) \<or> \<not> ok \<and> b' \<in> {b, Slot_Invalid}" using own [of 1] True by (simp add: ab ab')
    ultimately show ?thesis unfolding read_newest ab [symmetric] ab' [symmetric] g_def [symmetric] using after by auto
  next
    case False
    have "b' = b" using kept [of 1] slot_paths_differ [of base name] name False by (metis ab ab')
    moreover have "a' = Slot_Valid list (g + 1) \<or> \<not> ok \<and> a' \<in> {a, Slot_Invalid}" using own [of 0] False by (simp add: ab ab')
    moreover have "newest (Slot_Valid list (g + 1)) b = Some (list, g + 1) \<and> newest Slot_Invalid b = newest a b"
    proof (cases "slot_generation a < slot_generation b")
      case True
      then show ?thesis using newest_after_write(2) [OF clean g(1,2)] by blast
    next
      case none: False
      with False two(3) have "la_slot found = None" "slot_generation a = 0" by (auto split: if_splits)
      with found(5) two(2) have "a = Slot_Missing" "b = Slot_Missing" by simp_all
      then show ?thesis using g(1,3) by (simp add: newest_def)
    qed
    ultimately show ?thesis unfolding read_newest ab [symmetric] ab' [symmetric] g_def [symmetric] by auto
  qed
qed

section \<open>Properties\<close>

text \<open>
  Property C27.  The card's copy of the ignore list is exactly what was signed: a file of the right
  size is accepted with a list and a generation if and only if it is, byte for byte, the encoding of
  that list (valid, of 64 entries) and that generation (not zero) under the same usable key.
\<close>

theorem backup_format_exact:
  assumes "digests_32 hmac" and "length bytes = backup_bytes"
  shows "decode hmac key bytes = Some (list, gen) \<longleftrightarrow>
    key_ok key \<and> gen \<noteq> 0 \<and> valid_ignores list \<and> list_shaped list \<and> encode hmac key gen list = Some bytes"
  using encode_decode [OF assms] decode_encode(1) [OF assms(1)] by blast

text \<open>
  Property C28.  A backup never loses the list on the card: when it reports a written file, the new
  list is read back; when it reports an unchanged one, nothing was written and the list is there;
  otherwise what is read back is what was there before, or the new list in full, however far the
  write came.  A slot that exists while nothing valid can be read is never overwritten.
\<close>

theorem backup_keeps_the_list:
  assumes law: "files_lawful F" and hmac: "digests_32 hmac" and shape: "list_shaped list"
    and run: "backup_ignores hmac F base key list fs = (result, fs')"
  shows "(case result of
      Backup_Written \<Rightarrow> \<exists>gen. read_ignore_backup hmac F base key fs' = Some (list, gen)
    | Backup_Unchanged \<Rightarrow> fs' = fs \<and> (\<exists>gen. read_ignore_backup hmac F base key fs = Some (list, gen))
    | Backup_Refused \<Rightarrow> read_ignore_backup hmac F base key fs' = read_ignore_backup hmac F base key fs \<or>
        (\<exists>gen. read_ignore_backup hmac F base key fs' = Some (list, gen))) \<and>
    (read_ignore_backup hmac F base key fs = None \<and>
       (read_slot hmac F base key fs 0 \<noteq> Slot_Missing \<or> read_slot hmac F base key fs 1 \<noteq> Slot_Missing) \<longrightarrow> fs' = fs)"
  using run
proof (cases rule: backup_cases)
  case refused
  then show ?thesis by simp
next
  case unchanged
  then show ?thesis by (auto simp: read_ignore_backup_def Let_def)
next
  case (wrote found bytes name ok)
  note newest = written_newest [OF law hmac shape wrote(1-9)]
  have "fs' = fs" if none: "read_ignore_backup hmac F base key fs = None" and
      some: "read_slot hmac F base key fs 0 \<noteq> Slot_Missing \<or> read_slot hmac F base key fs 1 \<noteq> Slot_Missing"
  proof -
    have "la_slot found = None" using none wrote(1,4) by (simp add: read_ignore_backup_def Let_def split: if_splits)
    with wrote(5) latest_two(2) [of hmac F base key fs] some wrote(1) show ?thesis by simp
  qed
  with newest wrote(10) show ?thesis by auto
qed

section \<open>A concrete card\<close>

text \<open>A card that takes a number of writes; the one after them stops after 100 bytes.\<close>

record card =
  cd_writes :: nat
  cd_files :: "string \<Rightarrow> u8 list option"

definition example_files :: "card files" where
  "example_files = \<lparr>fo_read = (\<lambda>name c. case cd_files c name of None \<Rightarrow> Absent | Some bytes \<Rightarrow> Content bytes),
     fo_write = (\<lambda>name bytes c. case cd_writes c of
         0 \<Rightarrow> (False, c\<lparr>cd_files := (cd_files c)(name \<mapsto> take 100 bytes)\<rparr>)
       | Suc n \<Rightarrow> (True, \<lparr>cd_writes = n, cd_files = (cd_files c)(name \<mapsto> bytes)\<rparr>))\<rparr>"

lemma example_files_lawful: "files_lawful example_files"
  by (auto simp: files_lawful_def example_files_def split: nat.split)

definition example_list :: "ignored_scent list" where
  "example_list = replicate ignore_capacity ignored_scent0"

lemma example_list_ok: "list_shaped example_list" "valid_ignores example_list"
proof -
  show "list_shaped example_list" by (simp add: list_shaped_def example_list_def ignored_scent0_def list_all_iff)
  show "valid_ignores example_list" by (simp add: valid_ignores_iff example_list_def)
qed

lemma example_digests: "digests_32 example_hmac"
  by (auto simp: digests_32_def example_hmac_def)

lemma backup_format_exact_witness:
  "decode example_hmac [1] (the (encode example_hmac [1] 7 example_list)) = Some (example_list, 7)"
proof -
  have enc: "encode example_hmac [1] 7 example_list = Some (the (encode example_hmac [1] 7 example_list))"
    by (simp add: encode_def example_hmac_def)
  have "length (the (encode example_hmac [1] 7 example_list)) = backup_bytes"
    by (rule decode_encode(2) [OF example_digests example_list_ok _ _ enc]) (simp_all add: key_ok_def)
  from backup_format_exact [OF example_digests this, of "[1]" example_list 7] enc show ?thesis
    by (simp add: key_ok_def example_list_ok)
qed

definition empty_card :: card where
  "empty_card = \<lparr>cd_writes = 1, cd_files = (\<lambda>name. None)\<rparr>"

lemma empty_card_written:
  "fst (backup_ignores example_hmac example_files ''B'' [1] example_list empty_card) = Backup_Written"
proof -
  have missing: "read_slot example_hmac example_files ''B'' [1] empty_card slot = Slot_Missing" if "slot < 2" for slot
  proof -
    have "decimal 0 = ''0''" "decimal 1 = ''1''" by code_simp+
    with that show ?thesis
      by (auto simp: read_slot_def slot_path_def example_files_def empty_card_def less_2_cases_iff)
  qed
  note two = latest_two [of example_hmac example_files "''B''" "[1]" empty_card]
  have found: "\<not> la_error (latest example_hmac example_files ''B'' [1] empty_card)"
      "\<not> la_existing (latest example_hmac example_files ''B'' [1] empty_card)"
      "la_slot (latest example_hmac example_files ''B'' [1] empty_card) = None"
      "la_generation (latest example_hmac example_files ''B'' [1] empty_card) = 0"
    using two(1-4) missing by simp_all
  have "slot_path ''B'' 0 \<noteq> None" "encode example_hmac [1] 1 example_list \<noteq> None"
    by (simp_all add: slot_path_def encode_def example_hmac_def) code_simp
  with found show ?thesis
    by (auto simp: backup_ignores_def Let_def key_ok_def example_list_ok example_files_def empty_card_def)
qed

lemma backup_keeps_the_list_witness:
  "\<exists>gen. read_ignore_backup example_hmac example_files ''B'' [1]
     (snd (backup_ignores example_hmac example_files ''B'' [1] example_list empty_card)) = Some (example_list, gen)"
  using backup_keeps_the_list [OF example_files_lawful example_digests example_list_ok(1),
      of "''B''" "[1]" empty_card Backup_Written "snd (backup_ignores example_hmac example_files ''B'' [1] example_list empty_card)"]
    empty_card_written by (simp add: prod_eq_iff)
end
