(* ===== verification/Worker.thy ===== *)
theory Worker
  imports Export Ignore_Backup State_Store View
begin

text \<open>
  The storage task (\<open>storage.cpp\<close>, \<open>storage_message.hpp\<close>): a queue of eight messages between the
  other tasks and the one that owns the flash and the card, and two snapshots of the state that the
  messages refer to.  The calls of the other tasks and the iterations of the storage task are the
  events of a run, in any order.
\<close>

section \<open>State\<close>

datatype message = M_Record detection string bool u8 | M_Save nat | M_Export | M_Eject
  | M_Diagnostics string | M_Sound nat | M_Clear | M_Sleep nat | M_Backup nat

datatype worker_effect = Sound_Played nat | Power_Off

text \<open>The counters of \<open>storage::Health\<close> that are read by the program; the free space is not modelled.\<close>

record worker_health =
  sh_mounted :: bool
  sh_failed :: bool
  sh_ejected :: bool
  sh_read_only :: bool
  sh_sleep_failed :: bool
  sh_eject_failed :: bool
  sh_checking :: bool
  sh_checked_rows :: u32
  sh_checked_files :: u32
  sh_manual_backups :: u32
  sh_ignore_backup :: backup_status
  sh_ignore_count :: nat
  sh_dropped :: u32
  sh_writes :: u32
  sh_errors :: u32
  sh_exports :: u32
  sh_saves :: u32
  sh_save_errors :: u32
  sh_export_rows :: u32
  sh_clears :: u32

record ('n, 'f) worker =
  wk_started :: bool
  wk_queue :: "message list"
  wk_snapshots :: "(bool \<times> state) list"
  wk_deferred :: "nat option"
  wk_manual :: bool
  wk_recovery :: recovery
  wk_initialized :: bool
  wk_seen_errors :: u32
  wk_session :: string
  wk_file :: "string option"
  wk_filename :: string
  wk_rotation :: nat
  wk_size :: nat
  wk_pending :: nat
  wk_last_flush :: u64
  wk_flash :: "u32 \<times> 'n"
  wk_ignores :: 'f
  wk_digest :: "u8 list option"
  wk_health :: worker_health
  wk_effects :: "worker_effect list"

text \<open>What the task calls: the flash, the layouts, the files of the ignore list, HMAC and hashes.\<close>

record ('n, 'f) devices =
  de_nvs :: "'n nvs"
  de_layouts :: layouts
  de_files :: "'f files"
  de_hmac :: keyed_digest
  de_sha :: "string \<Rightarrow> u8 list option"
  de_list_digest :: "ignored_scent list \<Rightarrow> u8 list option"

text \<open>The clock and the random numbers of one iteration.\<close>

record moment =
  ti_now :: u64
  ti_random :: u32
  ti_key :: "u8 list"

definition at_card :: "(volume \<Rightarrow> 'a \<times> volume) \<Rightarrow> ('n, 'f) worker \<Rightarrow> 'a \<times> ('n, 'f) worker" where
  "at_card f w = (case on_card f (wk_recovery w) of (x, r) \<Rightarrow> (x, w\<lparr>wk_recovery := r\<rparr>))"

definition on_health :: "(worker_health \<Rightarrow> worker_health) \<Rightarrow> ('n, 'f) worker \<Rightarrow> ('n, 'f) worker" where
  "on_health f w = w\<lparr>wk_health := f (wk_health w)\<rparr>"

definition card_failed :: "('n, 'f) worker \<Rightarrow> ('n, 'f) worker" where
  "card_failed = on_health (\<lambda>h. h\<lparr>sh_failed := True, sh_errors := sh_errors h + 1\<rparr>)"

definition backup_is :: "backup_status \<Rightarrow> ('n, 'f) worker \<Rightarrow> ('n, 'f) worker" where
  "backup_is s = on_health (\<lambda>h. h\<lparr>sh_ignore_backup := s\<rparr>)"

section \<open>Snapshots\<close>

definition claim :: "state \<Rightarrow> ('n, 'f) worker \<Rightarrow> nat option \<times> ('n, 'f) worker" where
  "claim s w = (case first_index (\<lambda>(busy, t). \<not> busy) (wk_snapshots w) of
     None \<Rightarrow> (None, w)
   | Some i \<Rightarrow> (Some i, w\<lparr>wk_snapshots := (wk_snapshots w)[i := (True, s)]\<rparr>))"

definition snapshot_of :: "('n, 'f) worker \<Rightarrow> nat \<Rightarrow> state" where
  "snapshot_of w i = snd (wk_snapshots w ! i)"

definition release :: "nat \<Rightarrow> ('n, 'f) worker \<Rightarrow> ('n, 'f) worker" where
  "release i w = w\<lparr>wk_snapshots := (wk_snapshots w)[i := (False, snapshot_of w i)]\<rparr>"

definition release_deferred :: "('n, 'f) worker \<Rightarrow> ('n, 'f) worker" where
  "release_deferred w = (let w = (case wk_deferred w of None \<Rightarrow> w | Some i \<Rightarrow> release i w)
     in w\<lparr>wk_deferred := None, wk_manual := False\<rparr>)"

definition retain :: "nat \<Rightarrow> bool \<Rightarrow> ('n, 'f) worker \<Rightarrow> ('n, 'f) worker" where
  "retain i requested w = (let w = (case wk_deferred w of None \<Rightarrow> w | Some j \<Rightarrow> release j w)
     in w\<lparr>wk_deferred := Some i, wk_manual := wk_manual w \<or> requested\<rparr>)"

section \<open>Requests of the other tasks\<close>

definition send :: "message \<Rightarrow> ('n, 'f) worker \<Rightarrow> bool \<times> ('n, 'f) worker" where
  "send m w = (if \<not> wk_started w \<or> 8 \<le> length (wk_queue w)
     then (False, on_health (\<lambda>h. h\<lparr>sh_dropped := sh_dropped h + 1\<rparr>) w)
     else (True, w\<lparr>wk_queue := wk_queue w @ [m]\<rparr>))"

definition send_snapshot :: "(nat \<Rightarrow> message) \<Rightarrow> state \<Rightarrow> ('n, 'f) worker \<Rightarrow> bool \<times> ('n, 'f) worker" where
  "send_snapshot m s w =
     (case claim s w of
        (None, w) \<Rightarrow> (False, on_health (\<lambda>h. h\<lparr>sh_dropped := sh_dropped h + 1\<rparr>) w)
      | (Some i, w) \<Rightarrow> (case send (m i) w of (ok, w) \<Rightarrow> if ok then (True, w) else (False, release i w)))"

definition append_sighting :: "detection \<Rightarrow> string \<Rightarrow> bool \<Rightarrow> u8 \<Rightarrow> ('n, 'f) worker \<Rightarrow> bool \<times> ('n, 'f) worker" where
  "append_sighting d token research region w =
     (if sh_checking (wk_health w) then (False, on_health (\<lambda>h. h\<lparr>sh_dropped := sh_dropped h + 1\<rparr>) w)
      else send (M_Record d (take 20 (c_str token)) research region) w)"

definition save_state :: "state \<Rightarrow> bool \<Rightarrow> ('n, 'f) worker \<Rightarrow> bool \<times> ('n, 'f) worker" where
  "save_state s backup = send_snapshot (if backup then M_Backup else M_Save) s"

definition export_history :: "('n, 'f) worker \<Rightarrow> bool \<times> ('n, 'f) worker" where
  "export_history w = (if sh_checking (wk_health w) then (False, w) else send M_Export w)"

definition clear_logs :: "('n, 'f) worker \<Rightarrow> bool \<times> ('n, 'f) worker" where
  "clear_logs w = (if sh_checking (wk_health w) then (False, w) else send M_Clear w)"

definition sleep_with :: "state \<Rightarrow> ('n, 'f) worker \<Rightarrow> bool \<times> ('n, 'f) worker" where
  "sleep_with s w = (if \<not> valid_current s then (False, w) else send_snapshot M_Sleep s w)"

definition play :: "nat \<Rightarrow> ('n, 'f) worker \<Rightarrow> bool \<times> ('n, 'f) worker" where
  "play effect = send (M_Sound (effect mod 256))"

definition eject :: "('n, 'f) worker \<Rightarrow> bool \<times> ('n, 'f) worker" where
  "eject = send M_Eject"

definition diagnostics :: "string \<Rightarrow> ('n, 'f) worker \<Rightarrow> bool \<times> ('n, 'f) worker" where
  "diagnostics body = send (M_Diagnostics (take 255 (c_str body)))"

datatype storage_request = R_Append detection string bool u8 | R_Save state bool | R_Export | R_Clear
  | R_Sleep state | R_Sound nat | R_Eject | R_Diagnostics string

fun serve_request :: "storage_request \<Rightarrow> ('n, 'f) worker \<Rightarrow> bool \<times> ('n, 'f) worker" where
  "serve_request (R_Append d token research region) = append_sighting d token research region"
| "serve_request (R_Save s backup) = save_state s backup"
| "serve_request R_Export = export_history"
| "serve_request R_Clear = clear_logs"
| "serve_request (R_Sleep s) = sleep_with s"
| "serve_request (R_Sound n) = play n"
| "serve_request R_Eject = eject"
| "serve_request (R_Diagnostics body) = diagnostics body"

section \<open>The card\<close>

definition log_dir :: string where
  "log_dir = ''/sd/SURVSNIFF/LOGS''"

definition flush :: "u64 \<Rightarrow> ('n, 'f) worker \<Rightarrow> bool \<times> ('n, 'f) worker" where
  "flush now w =
     (if wk_file w = None then (True, w)
      else let (ok, w) = at_card lib_call w; (ok, w) = (if ok then at_card lib_call w else (False, w));
               w = (if ok then w else card_failed w)
           in (ok, w\<lparr>wk_pending := 0, wk_last_flush := now\<rparr>))"

definition pad3 :: "nat \<Rightarrow> string" where
  "pad3 n = replicate (3 - length (decimal n)) (CHR ''0'') @ decimal n"

definition session_file :: "string \<Rightarrow> nat \<Rightarrow> string" where
  "session_file session rotation = take 159 (log_dir @ ''/S-'' @ session @ ''-'' @ pad3 rotation @ ''.JSONL'')"

definition open_file :: "('n, 'f) worker \<Rightarrow> bool \<times> ('n, 'f) worker" where
  "open_file w =
     (let w = w\<lparr>wk_filename := session_file (wk_session w) (wk_rotation w)\<rparr>;
          (f, w) = at_card (fopen_new (wk_filename w)) w; w = w\<lparr>wk_file := f\<rparr>
      in if f = None then (False, card_failed w) else (True, w\<lparr>wk_size := 0\<rparr>))"

text \<open>\<open>fclose\<close> whose result is not looked at.\<close>

definition drop_file :: "('n, 'f) worker \<Rightarrow> ('n, 'f) worker" where
  "drop_file w = (snd (at_card lib_call w))\<lparr>wk_file := None\<rparr>"

definition hex8 :: "u32 \<Rightarrow> string" where
  "hex8 w = map (\<lambda>i. lower_hex (unat (drop_bit (28 - 4 * i) w) mod 16)) [0..<8]"

definition export_dir :: "u32 \<Rightarrow> string" where
  "export_dir random = ''/sd/SURVSNIFF/EXPORT/E-'' @ hex8 random"

definition card_usable :: "worker_health \<Rightarrow> bool" where
  "card_usable h \<longleftrightarrow> sh_mounted h \<and> \<not> sh_ejected h \<and> \<not> sh_read_only h"

definition export_all :: "('n, 'f) devices \<Rightarrow> moment \<Rightarrow> ('n, 'f) worker \<Rightarrow> ('n, 'f) worker option" where
  "export_all M t w =
     (if \<not> card_usable (wk_health w) \<or> sh_failed (wk_health w) then Some w
      else case flush (ti_now t) w of
          (False, w) \<Rightarrow> Some w
        | (True, w) \<Rightarrow>
            (case export_history_files (de_hmac M) (de_sha M) (ti_key t) (wk_file w) (wk_filename w) log_dir
                (export_dir (ti_random t)) (rc_card (wk_recovery w)) of
               None \<Rightarrow> None
             | Some (ok, f, rows, v) \<Rightarrow>
                 let w = w\<lparr>wk_file := f, wk_recovery := (wk_recovery w)\<lparr>rc_card := v\<rparr>\<rparr>
                 in Some (if ok then on_health (\<lambda>h. h\<lparr>sh_export_rows := rows, sh_exports := sh_exports h + 1\<rparr>) w
                          else card_failed w)))"

definition back_up :: "('n, 'f) devices \<Rightarrow> state \<Rightarrow> bool \<Rightarrow> ('n, 'f) worker \<Rightarrow> ('n, 'f) worker" where
  "back_up M s force w =
     (let h = wk_health w; list = co_ignored (t_companion s)
      in if \<not> sh_mounted h then backup_is Backup_NoCard w
         else if sh_ejected h then backup_is Backup_Ejected w
         else if sh_read_only h then backup_is Backup_ReadOnly w
         else if sh_failed h then backup_is Backup_Failed w
         else case de_list_digest M list of
             None \<Rightarrow> backup_is Backup_Failed w
           | Some digest \<Rightarrow>
               if \<not> force \<and> sh_ignore_backup h = Backup_Saved \<and> wk_digest w = Some digest
               then backup_is Backup_Saved w
               else case ignore_backup_id (de_hmac M) (t_meal_key s) of
                   None \<Rightarrow> backup_is Backup_Failed w
                 | Some name \<Rightarrow>
                     (case backup_ignores (de_hmac M) (de_files M) (take 79 (''/sd/SURVSNIFF/IGNORES/'' @ name))
                         (t_meal_key s) list (wk_ignores w) of
                        (Backup_Refused, fs) \<Rightarrow> backup_is Backup_Failed (w\<lparr>wk_ignores := fs\<rparr>)
                      | (_, fs) \<Rightarrow> backup_is Backup_Saved (on_health (\<lambda>h. h\<lparr>sh_ignore_count := ignored_count (t_companion s)\<rparr>)
                           (w\<lparr>wk_ignores := fs, wk_digest := Some digest\<rparr>))))"

definition finish_backup :: "('n, 'f) devices \<Rightarrow> state \<Rightarrow> bool \<Rightarrow> ('n, 'f) worker \<Rightarrow> ('n, 'f) worker" where
  "finish_backup M s manual w =
     (let w = back_up M s manual w
      in if manual then on_health (\<lambda>h. h\<lparr>sh_manual_backups := sh_manual_backups h + 1\<rparr>) w else w)"

definition persist_state :: "('n, 'f) devices \<Rightarrow> state \<Rightarrow> ('n, 'f) worker \<Rightarrow> bool \<times> ('n, 'f) worker" where
  "persist_state M s w = (case persist (de_nvs M) (de_layouts M) s (wk_flash w) of
     (ok, flash) \<Rightarrow> (ok, w\<lparr>wk_flash := flash\<rparr>))"

section \<open>Messages\<close>

definition do_save :: "('n, 'f) devices \<Rightarrow> nat \<Rightarrow> bool \<Rightarrow> ('n, 'f) worker \<Rightarrow> ('n, 'f) worker" where
  "do_save M i manual w =
     (case persist_state M (snapshot_of w i) w of
        (True, w) \<Rightarrow>
          let w = on_health (\<lambda>h. h\<lparr>sh_saves := sh_saves h + 1\<rparr>) w
          in if active (wk_recovery w) then backup_is Backup_Checking (retain i manual w)
             else release i (finish_backup M (snapshot_of w i) manual w)
      | (False, w) \<Rightarrow>
          let w = on_health (\<lambda>h. h\<lparr>sh_save_errors := sh_save_errors h + 1, sh_ignore_backup := Backup_InternalError,
                sh_failed := True\<rparr>) w;
              w = (if manual then on_health (\<lambda>h. h\<lparr>sh_manual_backups := sh_manual_backups h + 1\<rparr>) w else w)
          in release i w)"

definition log_limit :: nat where
  "log_limit = 4 * 1024 * 1024"

text \<open>The next file of the session, when the row would make this one too long.\<close>

definition rotate :: "u64 \<Rightarrow> nat \<Rightarrow> ('n, 'f) worker \<Rightarrow> bool \<times> ('n, 'f) worker" where
  "rotate now n w =
     (if wk_size w + n \<le> log_limit then (True, w)
      else let w = drop_file (snd (flush now w)) in open_file (w\<lparr>wk_rotation := wk_rotation w + 1\<rparr>))"

definition do_record :: "moment \<Rightarrow> detection \<Rightarrow> string \<Rightarrow> bool \<Rightarrow> u8 \<Rightarrow> ('n, 'f) worker \<Rightarrow> ('n, 'f) worker" where
  "do_record t d token research region w =
     (let h = wk_health w
      in if d_demo d \<or> wk_file w = None \<or> sh_failed h \<or> sh_ejected h \<or> sh_read_only h then w
         else case write_record d (wk_session w) token research 2048 region of
           (n, line) \<Rightarrow>
             if n = 0 then w
             else case rotate (ti_now t) n w of
                 (False, w) \<Rightarrow> w
               | (True, w) \<Rightarrow>
                   let (ok, w) = at_card (write_text (wk_file w) (take n line)) w
                   in if \<not> ok then card_failed w
                      else let w = on_health (\<lambda>h. h\<lparr>sh_writes := sh_writes h + 1\<rparr>)
                                 (w\<lparr>wk_size := wk_size w + n, wk_pending := wk_pending w + 1\<rparr>)
                           in if 10 \<le> wk_pending w then snd (flush (ti_now t) w) else w)"

text \<open>The loop stops at the end of the directory or when it cannot be read.\<close>

fun unlink_logs :: "string list \<Rightarrow> bool \<Rightarrow> volume \<Rightarrow> bool \<times> volume" where
  "unlink_logs [] ok v = (ok, snd (readdir [] v))"
| "unlink_logs (name # names) ok v =
     (case readdir (name # names) v of
        (Dir_Entry _ _, v) \<Rightarrow>
          if \<not> is_log name then unlink_logs names ok v
          else let (gone, v) = unlink (take 299 (log_dir @ ''/'' @ name)) v in unlink_logs names (ok \<and> gone) v
      | (_, v) \<Rightarrow> (ok, v))"

definition unlink_all :: "volume \<Rightarrow> bool \<times> volume" where
  "unlink_all v =
     (case opendir log_dir v of
        (None, v) \<Rightarrow> (False, v)
      | (Some names, v) \<Rightarrow> let (ok, v) = unlink_logs names True v in (ok, snd (lib_call v)))"

definition do_clear :: "moment \<Rightarrow> ('n, 'f) worker \<Rightarrow> ('n, 'f) worker" where
  "do_clear t w =
     (if active (wk_recovery w) \<or> \<not> card_usable (wk_health w) then w
      else let w = snd (flush (ti_now t) w); w = (if wk_file w = None then w else drop_file w);
               (ok, w) = at_card unlink_all w
           in if ok then on_health (\<lambda>h. h\<lparr>sh_clears := sh_clears h + 1\<rparr>) (snd (open_file (w\<lparr>wk_rotation := 0\<rparr>)))
              else card_failed w)"

definition cancel_check :: "('n, 'f) worker \<Rightarrow> bool \<times> ('n, 'f) worker" where
  "cancel_check w = (case cancel (wk_recovery w) of (ok, r) \<Rightarrow> (ok, w\<lparr>wk_recovery := r\<rparr>))"

definition stop_checking :: "('n, 'f) worker \<Rightarrow> ('n, 'f) worker" where
  "stop_checking w = on_health (\<lambda>h. h\<lparr>sh_checking := False\<rparr>) (w\<lparr>wk_initialized := True\<rparr>)"

definition do_sleep :: "('n, 'f) devices \<Rightarrow> moment \<Rightarrow> nat \<Rightarrow> ('n, 'f) worker \<Rightarrow> ('n, 'f) worker" where
  "do_sleep M t i w =
     (let was_checking = active (wk_recovery w); (closed, w) = cancel_check w;
          w = release_deferred (stop_checking w);
          (ok, w) = persist_state M (snapshot_of w i) w; ok = (ok \<and> closed);
          w = (if ok \<and> \<not> was_checking then back_up M (snapshot_of w i) False w else w);
          w = release i w;
          (ok, w) = (if ok then flush (ti_now t) w else (False, w))
      in if ok then (let w = (if wk_file w = None then w else drop_file w) in w\<lparr>wk_effects := wk_effects w @ [Power_Off]\<rparr>)
         else on_health (\<lambda>h. h\<lparr>sh_sleep_failed := True\<rparr>) w)"

definition do_eject :: "('n, 'f) worker \<Rightarrow> ('n, 'f) worker" where
  "do_eject w =
     (if sh_ejected (wk_health w) then w
      else let (ok, w) = cancel_check w; (closed, w) = at_card (close_log (wk_file w)) w; ok = (closed \<and> ok);
               w = stop_checking (w\<lparr>wk_file := None\<rparr>); cancelled = wk_manual w;
               w = (release_deferred w)\<lparr>wk_pending := 0\<rparr>;
               w = (if ok then w else card_failed w);
               w = on_health (\<lambda>h. h\<lparr>sh_eject_failed := \<not> ok, sh_ignore_backup := Backup_Ejected, sh_ejected := True\<rparr>) w
           in if cancelled then on_health (\<lambda>h. h\<lparr>sh_manual_backups := sh_manual_backups h + 1\<rparr>) w else w)"

definition do_diagnostics :: "string \<Rightarrow> ('n, 'f) worker \<Rightarrow> ('n, 'f) worker" where
  "do_diagnostics body w =
     (if active (wk_recovery w) \<or> \<not> card_usable (wk_health w) then w
      else let (f, w) = at_card (fopen_empty ''/sd/SURVSNIFF/CRASH/LAST-RESET.JSON'') w
           in if f = None then on_health (\<lambda>h. h\<lparr>sh_errors := sh_errors h + 1\<rparr>) w
              else snd (at_card lib_call (snd (at_card (write_text f body) w))))"

fun handle :: "('n, 'f) devices \<Rightarrow> moment \<Rightarrow> message \<Rightarrow> ('n, 'f) worker \<Rightarrow> ('n, 'f) worker option" where
  "handle M t (M_Save i) w = Some (do_save M i False w)"
| "handle M t (M_Backup i) w = Some (do_save M i True w)"
| "handle M t (M_Record d token research region) w = Some (do_record t d token research region w)"
| "handle M t (M_Sound n) w = Some (w\<lparr>wk_effects := wk_effects w @ [Sound_Played n]\<rparr>)"
| "handle M t M_Export w = export_all M t w"
| "handle M t M_Clear w = Some (do_clear t w)"
| "handle M t (M_Sleep i) w = Some (do_sleep M t i w)"
| "handle M t M_Eject w = Some (do_eject w)"
| "handle M t (M_Diagnostics body) w = Some (do_diagnostics body w)"

section \<open>The task\<close>

definition check_history :: "('n, 'f) worker \<Rightarrow> ('n, 'f) worker" where
  "check_history w =
     (let r = recovery_step 16 (wk_recovery w)
      in on_health (\<lambda>h. h\<lparr>sh_checked_rows := rc_rows r, sh_checked_files := rc_files r, sh_read_only := rc_read_only r,
             sh_errors := sh_errors h + (rc_errors r - wk_seen_errors w)\<rparr>)
           (w\<lparr>wk_recovery := r, wk_seen_errors := rc_errors r\<rparr>))"

definition initialise :: "('n, 'f) devices \<Rightarrow> ('n, 'f) worker \<Rightarrow> ('n, 'f) worker" where
  "initialise M w =
     (if wk_initialized w \<or> active (wk_recovery w) then w
      else let w = stop_checking w; h = wk_health w;
               w = (if card_usable h \<and> \<not> sh_failed h then snd (open_file w) else w)
           in case wk_deferred w of
                None \<Rightarrow> w
              | Some i \<Rightarrow> release_deferred (finish_backup M (snapshot_of w i) (wk_manual w) w))"

definition flush_due :: "moment \<Rightarrow> ('n, 'f) worker \<Rightarrow> ('n, 'f) worker" where
  "flush_due t w = (if wk_pending w \<noteq> 0 \<and> 5000 \<le> ti_now t - wk_last_flush w then snd (flush (ti_now t) w) else w)"

definition iterate :: "('n, 'f) devices \<Rightarrow> moment \<Rightarrow> ('n, 'f) worker \<Rightarrow> ('n, 'f) worker option" where
  "iterate M t w =
     (let w = initialise M (check_history w)
      in map_option (flush_due t)
           (case wk_queue w of [] \<Rightarrow> Some w | m # ms \<Rightarrow> handle M t m (w\<lparr>wk_queue := ms\<rparr>)))"

text \<open>\<open>start\<close> and the beginning of the task, with the outcome of creating it and of mounting the card.\<close>

definition mkdir_ok :: "string \<Rightarrow> volume \<Rightarrow> bool \<times> volume" where
  "mkdir_ok path v = (case mkdir path v of (made, v') \<Rightarrow> (made \<or> fst (lib_call v), v'))"

fun mkdirs :: "string list \<Rightarrow> volume \<Rightarrow> bool \<times> volume" where
  "mkdirs [] v = (True, v)"
| "mkdirs (path # paths) v = (case mkdir_ok path v of (ok, v) \<Rightarrow> if ok then mkdirs paths v else (False, v))"

definition card_dirs :: "string list" where
  "card_dirs = [''/sd/SURVSNIFF'', log_dir, ''/sd/SURVSNIFF/EXPORT'', ''/sd/SURVSNIFF/CRASH'', ''/sd/SURVSNIFF/IGNORES'']"

definition health0 :: worker_health where
  "health0 = \<lparr>sh_mounted = False, sh_failed = False, sh_ejected = False, sh_read_only = False, sh_sleep_failed = False,
     sh_eject_failed = False, sh_checking = False, sh_checked_rows = 0, sh_checked_files = 0, sh_manual_backups = 0,
     sh_ignore_backup = Backup_Waiting, sh_ignore_count = 0, sh_dropped = 0, sh_writes = 0, sh_errors = 0,
     sh_exports = 0, sh_saves = 0, sh_save_errors = 0, sh_export_rows = 0, sh_clears = 0\<rparr>"

definition worker0 :: "volume \<Rightarrow> 'f \<Rightarrow> u32 \<times> 'n \<Rightarrow> ('n, 'f) worker" where
  "worker0 v fs flash = \<lparr>wk_started = False, wk_queue = [], wk_snapshots = replicate 2 (False, state0), wk_deferred = None,
     wk_manual = False, wk_recovery = recovery0 v, wk_initialized = False, wk_seen_errors = 0, wk_session = [],
     wk_file = None, wk_filename = [], wk_rotation = 0, wk_size = 0, wk_pending = 0, wk_last_flush = 0, wk_flash = flash,
     wk_ignores = fs, wk_digest = None, wk_health = health0, wk_effects = []\<rparr>"

definition start_worker :: "string \<Rightarrow> bool \<Rightarrow> ('n, 'f) worker \<Rightarrow> bool \<times> ('n, 'f) worker" where
  "start_worker session created w =
     (let w = w\<lparr>wk_session := take 32 (c_str session)\<rparr>
      in if created then (True, on_health (\<lambda>h. h\<lparr>sh_checking := True, sh_ignore_backup := Backup_Checking\<rparr>) (w\<lparr>wk_started := True\<rparr>))
         else (False, on_health (\<lambda>h. h\<lparr>sh_checking := False, sh_failed := True, sh_ignore_backup := Backup_Unavailable\<rparr>) w))"

definition enter_task :: "bool \<Rightarrow> ('n, 'f) worker \<Rightarrow> ('n, 'f) worker" where
  "enter_task mounted w =
     (let w = on_health (\<lambda>h. h\<lparr>sh_mounted := mounted\<rparr>) w
      in if \<not> mounted then w
         else let (dirs, w) = at_card (mkdirs card_dirs) w
              in if dirs then w\<lparr>wk_recovery := snd (begin_recovery log_dir (wk_recovery w))\<rparr>
                 else on_health (\<lambda>h. h\<lparr>sh_failed := True\<rparr>) w)"

datatype worker_event = Request storage_request | Iteration moment

fun worker_step :: "('n, 'f) devices \<Rightarrow> worker_event \<Rightarrow> ('n, 'f) worker \<Rightarrow> ('n, 'f) worker option" where
  "worker_step M (Request r) w = Some (snd (serve_request r w))"
| "worker_step M (Iteration t) w = iterate M t w"

abbreviation worker_run :: "('n, 'f) devices \<Rightarrow> worker_event list \<Rightarrow> ('n, 'f) worker \<Rightarrow> ('n, 'f) worker option" where
  "worker_run M \<equiv> partial_run (worker_step M)"

section \<open>Frames\<close>

text \<open>
  \<open>core w\<close> is what the ownership of the snapshots depends on; most of the work of the task leaves
  it alone.
\<close>

definition core :: "('n, 'f) worker \<Rightarrow> message list \<times> (bool \<times> state) list \<times> nat option \<times> bool \<times> bool \<times> bool" where
  "core w = (wk_queue w, wk_snapshots w, wk_deferred w, wk_initialized w, active (wk_recovery w), wk_started w)"

named_theorems frames

lemma core_on_health [frames]: "core (on_health f w) = core w"
  by (simp add: core_def on_health_def)

lemma core_card_failed [frames]: "core (card_failed w) = core w"
  by (simp add: card_failed_def frames)

lemma core_backup_is [frames]: "core (backup_is s w) = core w"
  by (simp add: backup_is_def frames)

lemma core_at_card [frames]: "core (snd (at_card f w)) = core w"
  by (simp add: at_card_def on_card_def core_def active_def split: prod.split)

lemma core_updates [frames]:
  "core (w\<lparr>wk_file := f\<rparr>) = core w" "core (w\<lparr>wk_pending := n\<rparr>) = core w"
  "core (w\<lparr>wk_last_flush := now\<rparr>) = core w" "core (w\<lparr>wk_filename := p\<rparr>) = core w" "core (w\<lparr>wk_size := n\<rparr>) = core w"
  "core (w\<lparr>wk_rotation := n\<rparr>) = core w" "core (w\<lparr>wk_effects := es\<rparr>) = core w" "core (w\<lparr>wk_flash := fl\<rparr>) = core w"
  "core (w\<lparr>wk_ignores := fs\<rparr>) = core w" "core (w\<lparr>wk_digest := dg\<rparr>) = core w" "core (w\<lparr>wk_seen_errors := k\<rparr>) = core w"
  "core (w\<lparr>wk_manual := b\<rparr>) = core w" "core (w\<lparr>wk_recovery := wk_recovery w\<lparr>rc_card := v\<rparr>\<rparr>) = core w"
  "core (w\<lparr>wk_file := f, wk_recovery := wk_recovery w\<lparr>rc_card := v\<rparr>\<rparr>) = core w"
  by (simp_all add: core_def active_def)

lemma at_cardE: "at_card f w = (x, w') \<Longrightarrow> core w' = core w"
  using core_at_card [of f w] by simp

lemma core_flush [frames]: "core (snd (flush now w)) = core w"
  by (auto simp: flush_def Let_def frames split: prod.split dest!: at_cardE)

lemma core_open_file [frames]: "core (snd (open_file w)) = core w"
  by (auto simp: open_file_def Let_def frames split: prod.split dest!: at_cardE)

lemma core_drop_file [frames]: "core (drop_file w) = core w"
  by (simp add: drop_file_def frames)

lemma core_back_up [frames]: "core (back_up M s force w) = core w"
  by (simp add: back_up_def Let_def frames split: option.split prod.split backup_result.split)

lemma core_finish_backup [frames]: "core (finish_backup M s manual w) = core w"
  by (simp add: finish_backup_def Let_def frames)

lemma core_persist [frames]: "core (snd (persist_state M s w)) = core w"
  by (simp add: persist_state_def frames split: prod.split)

lemma core_rotate [frames]: "core (snd (rotate now n w)) = core w"
  by (simp add: rotate_def Let_def frames)

lemma core_record [frames]: "core (do_record t d token research region w) = core w"
proof -
  have "rotate (ti_now t) n w = (b, u) \<Longrightarrow> core u = core w" for n b u
    using core_rotate [of "ti_now t" n w] by simp
  then show ?thesis
    by (auto simp: do_record_def Let_def frames split: prod.split bool.split dest!: at_cardE)
qed

lemma core_clear [frames]: "core (do_clear t w) = core w"
  by (auto simp: do_clear_def Let_def frames split: prod.split dest!: at_cardE)

lemma core_diagnostics [frames]: "core (do_diagnostics body w) = core w"
  by (auto simp: do_diagnostics_def Let_def frames split: prod.split dest!: at_cardE)

lemma core_flush_due [frames]: "core (flush_due t w) = core w"
  by (simp add: flush_due_def frames)

lemma flushE: "flush now w = (x, w') \<Longrightarrow> core w' = core w"
  using core_flush [of now w] by simp

lemma core_export: "export_all M t w = Some w' \<Longrightarrow> core w' = core w"
  by (auto simp: export_all_def Let_def frames split: if_splits prod.splits bool.splits option.splits dest!: flushE)

section \<open>Ownership of the snapshots\<close>

fun slots_of :: "message \<Rightarrow> nat list" where
  "slots_of (M_Save i) = [i]"
| "slots_of (M_Sleep i) = [i]"
| "slots_of (M_Backup i) = [i]"
| "slots_of _ = []"

definition deferred_slot :: "nat option \<Rightarrow> nat list" where
  "deferred_slot d = (case d of None \<Rightarrow> [] | Some i \<Rightarrow> [i])"

text \<open>
  A slot is busy exactly when one place owns it: the handler of a message (\<open>held\<close>), the deferred
  backup, or one message of the queue.
\<close>

fun slots_ok :: "nat list \<Rightarrow> message list \<times> (bool \<times> state) list \<times> nat option \<times> bool \<times> bool \<times> bool \<Rightarrow> bool" where
  "slots_ok held (queue, snapshots, deferred, initialized, checking, started) \<longleftrightarrow>
     length snapshots = 2 \<and> length queue \<le> 8 \<and>
     distinct (held @ deferred_slot deferred @ concat (map slots_of queue)) \<and>
     (\<forall>i \<in> set (held @ deferred_slot deferred @ concat (map slots_of queue)). i < 2) \<and>
     (\<forall>i < 2. fst (snapshots ! i) \<longleftrightarrow> i \<in> set (held @ deferred_slot deferred @ concat (map slots_of queue))) \<and>
     (initialized \<longrightarrow> deferred = None \<and> \<not> checking)"

abbreviation holds :: "nat list \<Rightarrow> ('n, 'f) worker \<Rightarrow> bool" where
  "holds held w \<equiv> slots_ok held (core w)"

lemma holds_release: "holds [i] w \<Longrightarrow> holds [] (release i w)"
  by (auto simp: core_def release_def nth_list_update)

lemma holds_release_deferred: "holds held w \<Longrightarrow> holds held (release_deferred w) \<and> wk_deferred (release_deferred w) = None"
  by (auto simp: core_def release_deferred_def release_def deferred_slot_def nth_list_update Let_def split: option.splits)

lemma holds_retain: "holds [i] w \<Longrightarrow> \<not> wk_initialized w \<Longrightarrow> holds [] (retain i b w)"
  by (auto simp: core_def retain_def release_def deferred_slot_def nth_list_update Let_def split: option.splits)

lemma holds_pop: "holds [] w \<Longrightarrow> wk_queue w = m # ms \<Longrightarrow> holds (slots_of m) (w\<lparr>wk_queue := ms\<rparr>)"
  by (auto simp: core_def)

lemma holds_stop_checking: "holds held w \<Longrightarrow> wk_deferred w = None \<Longrightarrow> \<not> active (wk_recovery w) \<Longrightarrow> holds held (stop_checking w)"
  by (auto simp: core_def stop_checking_def on_health_def)

lemma holds_send: "slots_of m = [] \<Longrightarrow> holds [] w \<Longrightarrow> holds [] (snd (send m w))"
  by (auto simp: core_def send_def on_health_def)

lemma holds_send_snapshot:
  assumes "holds [] w" "\<And>i. slots_of (m i) = [i]"
  shows "holds [] (snd (send_snapshot m s w))"
proof (cases "first_index (\<lambda>(busy, t). \<not> busy) (wk_snapshots w)")
  case None
  then show ?thesis using assms(1) by (simp add: send_snapshot_def claim_def frames)
next
  case (Some i)
  define u where "u = w\<lparr>wk_snapshots := (wk_snapshots w)[i := (True, s)]\<rparr>"
  have i: "i < length (wk_snapshots w)" "\<not> fst (wk_snapshots w ! i)"
    using first_index_less [OF Some] first_index_holds [OF Some] by (simp_all add: case_prod_beta)
  with assms(1) have held: "holds [i] u" by (auto simp: core_def u_def nth_list_update)
  show ?thesis
  proof (cases "\<not> wk_started u \<or> 8 \<le> length (wk_queue u)")
    case True
    have "holds [] (release i (on_health (\<lambda>h. h\<lparr>sh_dropped := sh_dropped h + 1\<rparr>) u))"
      by (rule holds_release) (simp only: frames held)
    with True show ?thesis by (simp add: send_snapshot_def claim_def Some u_def [symmetric] send_def)
  next
    case False
    with held assms(2) have "holds [] (u\<lparr>wk_queue := wk_queue u @ [m i]\<rparr>)" by (auto simp: core_def)
    with False show ?thesis by (simp add: send_snapshot_def claim_def Some u_def [symmetric] send_def)
  qed
qed

lemma holds_request: "holds [] w \<Longrightarrow> holds [] (snd (serve_request r w))"
  by (cases r) (auto simp: append_sighting_def save_state_def export_history_def clear_logs_def sleep_with_def play_def
    eject_def diagnostics_def frames intro: holds_send holds_send_snapshot)


text \<open>The handlers give back what they hold.\<close>

lemma holds_idle:
  assumes "holds held w" "core w' = (wk_queue w, wk_snapshots w, wk_deferred w, wk_initialized w, act, wk_started w)"
    and "act \<longrightarrow> active (wk_recovery w)"
  shows "holds held w'"
proof -
  have "slots_ok held (wk_queue w, wk_snapshots w, wk_deferred w, wk_initialized w, active (wk_recovery w), wk_started w)"
    using assms(1) by (simp only: core_def)
  then have "slots_ok held (wk_queue w, wk_snapshots w, wk_deferred w, wk_initialized w, act, wk_started w)"
    using assms(3) unfolding slots_ok.simps by blast
  then show ?thesis by (simp only: assms(2))
qed

lemma holds_cancel:
  assumes "cancel_check w = (ok, w')" "holds held w"
  shows "holds held w' \<and> \<not> active (wk_recovery w')"
proof -
  have w': "w' = w\<lparr>wk_recovery := snd (cancel (wk_recovery w))\<rparr>"
    using assms(1) by (simp add: cancel_check_def split: prod.splits)
  have idle: "\<not> active (snd (cancel (wk_recovery w)))" using cancel_settled [of "wk_recovery w"] by (simp add: active_def)
  have "holds held w'" by (rule holds_idle [OF assms(2), of _ False]) (simp_all add: core_def w' idle)
  with idle show ?thesis by (simp add: w')
qed

lemma recovery_step_inactive: "\<not> active r \<Longrightarrow> recovery_step n r = r"
  by (cases n) simp_all

lemma active_before: "active (recovery_step n r) \<Longrightarrow> active r"
  using recovery_step_inactive by metis

lemma holds_check_history: "holds held w \<Longrightarrow> holds held (check_history w)"
  by (rule holds_idle [of _ w _ "active (recovery_step 16 (wk_recovery w))"])
    (auto simp: core_def check_history_def on_health_def Let_def simp del: slots_ok.simps recovery_step.simps dest: active_before)

lemma holds_save: 
  assumes "holds [i] w"
  shows "holds [] (do_save M i manual w)"
proof -
  obtain ok u where persist: "persist_state M (snapshot_of w i) w = (ok, u)" by fastforce
  have u: "holds [i] u" "wk_recovery u = wk_recovery w" "wk_initialized u = wk_initialized w"
    using assms core_persist [of M "snapshot_of w i" w] persist by (auto simp: persist_state_def split: prod.splits)
  show ?thesis
  proof (cases ok)
    case True
    define v where "v = on_health (\<lambda>h. h\<lparr>sh_saves := sh_saves h + 1\<rparr>) u"
    have v: "holds [i] v" "wk_recovery v = wk_recovery w" "wk_initialized v = wk_initialized w"
      using u by (simp_all only: v_def frames) (simp_all add: on_health_def)
    show ?thesis
    proof (cases "active (wk_recovery v)")
      case True
      then have "\<not> wk_initialized v" using v(1) by (auto simp: core_def)
      then have "holds [] (retain i manual v)" using v(1) by (intro holds_retain)
      then show ?thesis using persist \<open>ok\<close> True by (simp add: do_save_def v_def [symmetric] frames)
    next
      case False
      have "holds [] (release i (finish_backup M (snapshot_of v i) manual v))"
        by (rule holds_release) (simp only: frames v)
      then show ?thesis using persist \<open>ok\<close> False by (simp add: do_save_def v_def [symmetric])
    qed
  next
    case False
    have "holds [] (do_save M i manual w) \<longleftrightarrow> holds [] (release i (if manual then on_health (\<lambda>h. h\<lparr>sh_manual_backups := sh_manual_backups h + 1\<rparr>)
        (on_health (\<lambda>h. h\<lparr>sh_save_errors := sh_save_errors h + 1, sh_ignore_backup := Backup_InternalError, sh_failed := True\<rparr>) u)
        else on_health (\<lambda>h. h\<lparr>sh_save_errors := sh_save_errors h + 1, sh_ignore_backup := Backup_InternalError, sh_failed := True\<rparr>) u))"
      using persist False by (simp add: do_save_def Let_def)
    also have "\<dots>" by (rule holds_release) (simp add: frames u)
    finally show ?thesis .
  qed
qed

lemma holds_settle: "holds held w \<Longrightarrow> \<not> active (wk_recovery w) \<Longrightarrow> holds held (release_deferred (stop_checking w))"
  by (auto simp: core_def release_deferred_def release_def deferred_slot_def stop_checking_def on_health_def snapshot_of_def
      nth_list_update Let_def split: option.splits)

lemma holds_sleep:
  assumes "holds [i] w"
  shows "holds [] (do_sleep M t i w)"
proof -
  obtain closed w1 where c: "cancel_check w = (closed, w1)" by fastforce
  define w2 where "w2 = release_deferred (stop_checking w1)"
  obtain saved w3 where p: "persist_state M (snapshot_of w2 i) w2 = (saved, w3)" by fastforce
  define w4 where "w4 = release i (if (saved \<and> closed) \<and> \<not> active (wk_recovery w) then back_up M (snapshot_of w3 i) False w3 else w3)"
  have "holds [i] w2" unfolding w2_def using holds_cancel [OF c assms] by (intro holds_settle) blast+
  then have "holds [i] w3" using core_persist [of M "snapshot_of w2 i" w2] p by simp
  then have w4: "holds [] w4" unfolding w4_def by (intro holds_release) (simp add: frames)
  obtain flushed w5 where f: "(if saved \<and> closed then flush (ti_now t) w4 else (False, w4)) = (flushed, w5)" by fastforce
  then have w5: "holds [] w5" using w4 by (auto split: if_splits dest!: flushE)
  have "do_sleep M t i w = (if flushed then (if wk_file w5 = None then w5 else drop_file w5)\<lparr>wk_effects :=
        wk_effects (if wk_file w5 = None then w5 else drop_file w5) @ [Power_Off]\<rparr> else on_health (\<lambda>h. h\<lparr>sh_sleep_failed := True\<rparr>) w5)"
    unfolding do_sleep_def Let_def c prod.case w2_def [symmetric] p w4_def [symmetric] f ..
  then show ?thesis using w5 by (simp add: frames)
qed

lemma holds_eject:
  assumes "holds [] w"
  shows "holds [] (do_eject w)"
proof (cases "sh_ejected (wk_health w)")
  case False
  obtain ok w1 where c: "cancel_check w = (ok, w1)" by fastforce
  obtain closed w2 where l: "at_card (close_log (wk_file w1)) w1 = (closed, w2)" by fastforce
  define w3 where "w3 = release_deferred (stop_checking (w2\<lparr>wk_file := None\<rparr>))"
  have w2: "core (w2\<lparr>wk_file := None\<rparr>) = core w1" using at_cardE [OF l] by (simp add: frames)
  then have "active (wk_recovery (w2\<lparr>wk_file := None\<rparr>)) = active (wk_recovery w1)" by (simp add: core_def)
  then have "holds [] w3" unfolding w3_def using holds_cancel [OF c assms] w2 by (intro holds_settle) simp_all
  then show ?thesis using False by (simp add: do_eject_def c l w3_def [symmetric] frames Let_def)
qed (use assms in \<open>simp add: do_eject_def\<close>)

lemma holds_handle:
  assumes "holds (slots_of m) w" "handle M t m w = Some w'"
  shows "holds [] w'"
proof (cases m)
  case (M_Save i)
  with assms holds_save [of i w M False] show ?thesis by auto
next
  case (M_Backup i)
  with assms holds_save [of i w M True] show ?thesis by auto
next
  case (M_Sleep i)
  with assms holds_sleep [of i w M t] show ?thesis by auto
next
  case M_Eject
  with assms holds_eject [of w] show ?thesis by auto
next
  case M_Export
  with assms core_export [of M t w w'] show ?thesis by simp
qed (use assms in \<open>auto simp: frames simp del: slots_ok.simps\<close>)

lemma holds_initialise:
  assumes "holds [] w"
  shows "holds [] (initialise M w)"
proof (cases "wk_initialized w \<or> active (wk_recovery w)")
  case False
  define u where "u = (if card_usable (wk_health (stop_checking w)) \<and> \<not> sh_failed (wk_health (stop_checking w))
    then snd (open_file (stop_checking w)) else stop_checking w)"
  have u: "core u = core (stop_checking w)" by (simp add: u_def frames)
  have d: "wk_deferred u = wk_deferred w" using u by (simp add: core_def stop_checking_def on_health_def)
  have eq: "initialise M w = (case wk_deferred u of None \<Rightarrow> u
      | Some i \<Rightarrow> release_deferred (finish_backup M (snapshot_of u i) (wk_manual u) u))"
    using False unfolding initialise_def Let_def u_def [symmetric] by simp
  show ?thesis
  proof (cases "wk_deferred w")
    case None
    then show ?thesis unfolding eq using d holds_stop_checking [OF assms None] u False by simp
  next
    case (Some i)
    have "holds [] (release_deferred (finish_backup M (snapshot_of u i) (wk_manual u) u))"
    proof -
      define x where "x = finish_backup M (snapshot_of u i) (wk_manual u) u"
      have "core x = core (stop_checking w)" using u by (simp add: x_def frames)
      moreover have "core (release_deferred y) = core (release_deferred z)" if "core y = core z" for y z :: "('a, 'b) worker"
        using that by (auto simp: core_def release_deferred_def release_def snapshot_of_def Let_def split: option.splits)
      ultimately have "core (release_deferred x) = core (release_deferred (stop_checking w))" by blast
      then show ?thesis using holds_settle [OF assms] False by (simp add: x_def)
    qed
    then show ?thesis unfolding eq using d Some by simp
  qed
qed (use assms in \<open>simp add: initialise_def\<close>)

lemma holds_iterate:
  assumes "holds [] w" "iterate M t w = Some w'"
  shows "holds [] w'"
proof -
  define u where "u = initialise M (check_history w)"
  have u: "holds [] u" unfolding u_def by (rule holds_initialise [OF holds_check_history [OF assms(1)]])
  show ?thesis
  proof (cases "wk_queue u")
    case Nil
    with assms(2) have "w' = flush_due t u" by (simp add: iterate_def u_def [symmetric] Let_def)
    with u show ?thesis by (simp only: frames)
  next
    case (Cons m ms)
    with assms(2) obtain x where x: "handle M t m (u\<lparr>wk_queue := ms\<rparr>) = Some x" "w' = flush_due t x"
      by (auto simp: iterate_def u_def [symmetric] Let_def)
    with holds_handle [OF holds_pop [OF u Cons] x(1)] show ?thesis by (simp add: frames)
  qed
qed

definition boot_worker :: "string \<Rightarrow> bool \<Rightarrow> volume \<Rightarrow> 'f \<Rightarrow> u32 \<times> 'n \<Rightarrow> ('n, 'f) worker" where
  "boot_worker session mounted v fs flash = enter_task mounted (snd (start_worker session True (worker0 v fs flash)))"

lemma holds_fresh:
  "wk_queue w = [] \<Longrightarrow> wk_snapshots w = replicate 2 (False, state0) \<Longrightarrow> wk_deferred w = None \<Longrightarrow>
     \<not> wk_initialized w \<Longrightarrow> holds [] w"
  by (simp add: core_def deferred_slot_def less_2_cases_iff)

lemma holds_boot: "holds [] (boot_worker session mounted v fs flash)"
proof -
  define w where "w = on_health (\<lambda>h. h\<lparr>sh_mounted := mounted\<rparr>) (snd (start_worker session True (worker0 v fs flash)))"
  obtain dirs u where mk: "at_card (mkdirs card_dirs) w = (dirs, u)" by fastforce
  have w: "wk_queue w = []" "wk_snapshots w = replicate 2 (False, state0)" "wk_deferred w = None" "\<not> wk_initialized w"
    by (simp_all add: w_def on_health_def start_worker_def worker0_def)
  have "core u = core w" by (rule at_cardE [OF mk])
  with w have u: "wk_queue u = []" "wk_snapshots u = replicate 2 (False, state0)" "wk_deferred u = None" "\<not> wk_initialized u"
    by (simp_all add: core_def)
  have "boot_worker session mounted v fs flash = (if \<not> mounted then w
      else if dirs then u\<lparr>wk_recovery := snd (begin_recovery log_dir (wk_recovery u))\<rparr> else on_health (\<lambda>h. h\<lparr>sh_failed := True\<rparr>) u)"
    by (simp add: boot_worker_def enter_task_def w_def [symmetric] mk)
  then show ?thesis using w u by (simp add: holds_fresh on_health_def del: slots_ok.simps)
qed

lemma holds_step: "holds [] w \<Longrightarrow> worker_step M e w = Some w' \<Longrightarrow> holds [] w'"
  by (cases e) (use holds_request holds_iterate in \<open>auto simp del: slots_ok.simps\<close>)

interpretation owned: partial_machine "worker_step M" "holds []" for M :: "('n, 'f) devices"
  by unfold_locales (rule holds_step)

section \<open>The queue as a list of requests\<close>

text \<open>Abstractly the queue holds the requests themselves, with the states they were made with.\<close>

fun resolve :: "state list \<Rightarrow> message \<Rightarrow> storage_request" where
  "resolve states (M_Record d token research region) = R_Append d token research region"
| "resolve states (M_Save i) = R_Save (states ! i) False"
| "resolve states (M_Backup i) = R_Save (states ! i) True"
| "resolve states (M_Sleep i) = R_Sleep (states ! i)"
| "resolve states M_Export = R_Export"
| "resolve states M_Clear = R_Clear"
| "resolve states M_Eject = R_Eject"
| "resolve states (M_Sound n) = R_Sound n"
| "resolve states (M_Diagnostics body) = R_Diagnostics body"

text \<open>Texts and effect numbers are cut to the size of their field.\<close>

fun stored :: "storage_request \<Rightarrow> storage_request" where
  "stored (R_Append d token research region) = R_Append d (take 20 (c_str token)) research region"
| "stored (R_Sound n) = R_Sound (n mod 256)"
| "stored (R_Diagnostics body) = R_Diagnostics (take 255 (c_str body))"
| "stored r = r"

definition goods :: "('n, 'f) worker \<Rightarrow> message list \<times> state list" where
  "goods w = (case core w of (queue, snapshots, _) \<Rightarrow> (queue, map snd snapshots))"

definition contents :: "('n, 'f) worker \<Rightarrow> storage_request list" where
  "contents w = map (resolve (snd (goods w))) (fst (goods w))"

definition deferred_state :: "('n, 'f) worker \<Rightarrow> state option" where
  "deferred_state w = map_option (\<lambda>i. snd (wk_snapshots w ! i)) (wk_deferred w)"

lemma goods_release [simp]: "goods (release i w) = goods w"
proof -
  have "map snd (xs[i := (False, snd (xs ! i))]) = map snd xs" for xs :: "(bool \<times> state) list"
    by (cases "i < length xs") (simp_all add: map_update list_update_same_conv list_update_beyond)
  then show ?thesis by (simp add: goods_def core_def release_def snapshot_of_def)
qed

lemma goods_core: "core w' = core w \<Longrightarrow> goods w' = goods w"
  by (simp add: goods_def)

lemma goods_update [simp]:
  "goods (w\<lparr>wk_deferred := d, wk_manual := b\<rparr>) = goods w" "goods (stop_checking w) = goods w" "goods (check_history w) = goods w"
  by (simp_all add: goods_def core_def stop_checking_def check_history_def on_health_def Let_def)

lemma goods_release_deferred [simp]: "goods (release_deferred w) = goods w"
  by (simp add: release_deferred_def Let_def split: option.split)

lemma goods_retain [simp]: "goods (retain i b w) = goods w"
  by (simp add: retain_def Let_def split: option.split)

lemmas goods_frames [simp] = frames [THEN goods_core]

lemma goods_save [simp]: "goods (do_save M i manual w) = goods w"
proof -
  have "goods u = goods w" if "persist_state M (snapshot_of w i) w = (ok, u)" for ok u
    using goods_core [OF core_persist, of M "snapshot_of w i" w] that by simp
  then show ?thesis by (auto simp: do_save_def Let_def split: prod.split bool.split)
qed

lemma goods_cancel: "cancel_check w = (ok, w') \<Longrightarrow> goods w' = goods w"
  by (auto simp: cancel_check_def goods_def core_def split: prod.splits)

lemma goods_sleep [simp]: "goods (do_sleep M t i w) = goods w"
proof -
  have p: "persist_state M s u = (ok, v) \<Longrightarrow> goods v = goods u" for s u ok v
    using goods_core [OF core_persist, of M s u] by simp
  have f: "flush now u = (ok, v) \<Longrightarrow> goods v = goods u" for now u ok v
    using goods_core [OF flushE] by blast
  show ?thesis
    by (auto simp: do_sleep_def Let_def split: prod.split dest!: p f goods_cancel split: if_splits)
qed

lemma goods_eject [simp]: "goods (do_eject w) = goods w"
  by (auto simp: do_eject_def Let_def split: prod.split dest!: at_cardE [THEN goods_core] goods_cancel)

lemma goods_initialise [simp]: "goods (initialise M w) = goods w"
  by (simp add: initialise_def Let_def split: option.split)

lemma goods_handle: "handle M t m w = Some w' \<Longrightarrow> goods w' = goods w"
  by (cases m) (auto dest: goods_core [OF core_export])

lemma contents_iterate: "iterate M t w = Some w' \<Longrightarrow> contents w' = tl (contents w)"
proof -
  assume run: "iterate M t w = Some w'"
  define u where "u = initialise M (check_history w)"
  have u: "goods u = goods w" by (simp add: u_def)
  show "contents w' = tl (contents w)"
  proof (cases "wk_queue u")
    case Nil
    then have "contents w = []" using u by (simp add: contents_def goods_def core_def)
    moreover have "w' = flush_due t u" using run Nil by (simp add: iterate_def u_def [symmetric] Let_def)
    ultimately show ?thesis using u by (simp add: contents_def)
  next
    case (Cons m ms)
    with run obtain x where x: "handle M t m (u\<lparr>wk_queue := ms\<rparr>) = Some x" "w' = flush_due t x"
      by (auto simp: iterate_def u_def [symmetric] Let_def)
    have "goods x = (ms, snd (goods u))" using goods_handle [OF x(1)] by (simp add: goods_def core_def)
    then have "goods w' = (ms, snd (goods w))" using x(2) u by simp
    moreover have "fst (goods w) = m # ms" using Cons u by (simp add: goods_def core_def)
    ultimately show ?thesis by (simp add: contents_def)
  qed
qed

lemma resolve_fresh: "i \<notin> set (slots_of m) \<Longrightarrow> resolve (states[i := s]) m = resolve states m"
  by (cases m) auto

lemma contents_send:
  assumes "send m w = (ok, w')"
  shows "contents w' = contents w @ (if ok then [resolve (snd (goods w)) m] else [])"
  using assms by (auto simp: send_def contents_def goods_def core_def on_health_def split: if_splits)

lemma contents_send_snapshot:
  assumes "holds [] w" "\<And>i. slots_of (m i) = [i]" "send_snapshot m s w = (ok, w')"
    and resolved: "\<And>states i. i < length states \<Longrightarrow> resolve states (m i) = r (states ! i)"
  shows "contents w' = contents w @ (if ok then [r s] else []) \<and> deferred_state w' = deferred_state w"
proof (cases "first_index (\<lambda>(busy, t). \<not> busy) (wk_snapshots w)")
  case None
  with assms(3) show ?thesis
    by (auto simp: send_snapshot_def claim_def contents_def goods_def core_def on_health_def deferred_state_def snapshot_of_def)
next
  case (Some i)
  define u where "u = w\<lparr>wk_snapshots := (wk_snapshots w)[i := (True, s)]\<rparr>"
  have i: "i < length (wk_snapshots w)" "\<not> fst (wk_snapshots w ! i)"
    using first_index_less [OF Some] first_index_holds [OF Some] by (simp_all add: case_prod_beta)
  then have free: "i \<notin> set (slots_of x)" if "x \<in> set (wk_queue w)" for x
    using assms(1) that by (auto simp: core_def)
  have "wk_deferred w \<noteq> Some i" using i assms(1) by (auto simp: core_def deferred_slot_def)
  then have deferred: "deferred_state u = deferred_state w"
    by (auto simp: deferred_state_def u_def snapshot_of_def nth_list_update split: option.split)
      (cases "wk_deferred w"; simp add: nth_list_update)
  have u: "contents u = contents w" "snd (goods u) ! i = s" "i < length (snd (goods u))"
    using free i by (auto simp: contents_def goods_def core_def u_def map_update resolve_fresh)
  obtain sent x where x: "send (m i) u = (sent, x)" by fastforce
  have d: "deferred_state x = deferred_state u"
    using x by (auto simp: send_def deferred_state_def on_health_def snapshot_of_def split: if_splits)
  have w': "w' = (if sent then x else release i x)" "ok = sent"
    using assms(3) x by (simp_all add: send_snapshot_def claim_def Some u_def [symmetric] split: if_splits)
  have "deferred_state (release i x) = deferred_state x"
    by (cases "wk_deferred x"; cases "i < length (wk_snapshots x)")
      (auto simp: deferred_state_def release_def snapshot_of_def nth_list_update list_update_beyond)
  moreover have "contents (release i x) = contents x" by (simp add: contents_def)
  ultimately show ?thesis using w' contents_send [OF x] u deferred d resolved by simp
qed

lemma contents_request:
  assumes "holds [] w" "serve_request r w = (ok, w')"
  shows "contents w' = contents w @ (if ok then [stored r] else []) \<and> deferred_state w' = deferred_state w"
proof -
  have send: "contents w' = contents w @ (if ok then [resolve (snd (goods w)) m] else []) \<and> deferred_state w' = deferred_state w"
    if "send m w = (ok, w')" for m
    using contents_send [OF that] that
    by (auto simp: send_def deferred_state_def on_health_def snapshot_of_def split: if_splits)
  have same: "contents (on_health f w) = contents w \<and> deferred_state (on_health f w) = deferred_state w" for f
    by (simp add: contents_def deferred_state_def) (simp add: on_health_def snapshot_of_def)
  show ?thesis
  proof (cases r)
    case (R_Save s b)
    with assms(2) contents_send_snapshot [OF assms(1), of "if b then M_Backup else M_Save" s ok w' "\<lambda>s. R_Save s b"]
    show ?thesis by (auto simp: save_state_def split: if_splits)
  next
    case (R_Sleep s)
    with assms(2) contents_send_snapshot [OF assms(1), of M_Sleep s ok w' R_Sleep]
    show ?thesis by (auto simp: sleep_with_def split: if_splits)
  qed (use assms(2) send same in \<open>auto simp: append_sighting_def export_history_def clear_logs_def play_def eject_def
      diagnostics_def split: if_splits\<close>)
qed

section \<open>The task always goes on\<close>

lemma export_dir_ok: "outside log_dir (export_dir random)" "length (export_dir random) < 160"
  by (simp_all add: outside_def export_dir_def log_dir_def hex8_def)

lemma export_all_returns: "export_all M t w \<noteq> None"
proof -
  have "export_history_files (de_hmac M) (de_sha M) key f path log_dir (export_dir random) v \<noteq> None" for key f path random v
    by (rule export_history_returns [OF export_dir_ok]) (simp add: log_dir_def)
  then have "(export_history_files (de_hmac M) (de_sha M) key f path log_dir (export_dir random) v = None) = False" for key f path random v
    by blast
  note never = this
  show ?thesis by (simp add: export_all_def Let_def never split: prod.split bool.split option.split)
qed

lemma handle_returns: "handle M t m w \<noteq> None"
  using export_all_returns by (cases m) auto

lemma step_returns: "worker_step M e w \<noteq> None"
  using handle_returns by (cases e) (auto simp: iterate_def Let_def split: list.split)

interpretation going: partial_machine "worker_step M" "\<lambda>_. True" for M :: "('n, 'f) devices"
  by unfold_locales simp

lemmas worker_never_stops = going.run_returns [OF step_returns TrueI]

section \<open>What ejecting and sleeping leave\<close>

definition plain :: "('n, 'f) worker \<Rightarrow> (u32 \<times> 'n) \<times> worker_effect list \<times> bool" where
  "plain w = (wk_flash w, wk_effects w, sh_ejected (wk_health w))"

named_theorems plains

lemma plain_on_health [plains]: "(\<And>h. sh_ejected (f h) = sh_ejected h) \<Longrightarrow> plain (on_health f w) = plain w"
  by (simp add: plain_def on_health_def)

lemma plain_updates [plains]:
  "plain (w\<lparr>wk_file := f\<rparr>) = plain w" "plain (w\<lparr>wk_pending := n\<rparr>) = plain w" "plain (w\<lparr>wk_last_flush := now\<rparr>) = plain w"
  "plain (w\<lparr>wk_filename := p\<rparr>) = plain w" "plain (w\<lparr>wk_size := n\<rparr>) = plain w" "plain (w\<lparr>wk_rotation := n\<rparr>) = plain w"
  "plain (w\<lparr>wk_ignores := fs\<rparr>) = plain w" "plain (w\<lparr>wk_digest := dg\<rparr>) = plain w" "plain (w\<lparr>wk_seen_errors := k\<rparr>) = plain w"
  "plain (w\<lparr>wk_manual := b\<rparr>) = plain w" "plain (w\<lparr>wk_recovery := r\<rparr>) = plain w" "plain (w\<lparr>wk_deferred := d\<rparr>) = plain w"
  "plain (w\<lparr>wk_queue := q\<rparr>) = plain w" "plain (w\<lparr>wk_initialized := b\<rparr>) = plain w" "plain (w\<lparr>wk_snapshots := sn\<rparr>) = plain w"
  by (simp_all add: plain_def)

lemma plain_simple [plains]:
  "plain (card_failed w) = plain w" "plain (backup_is s w) = plain w" "plain (release i w) = plain w"
  "plain (stop_checking w) = plain w"
  by (simp_all add: card_failed_def backup_is_def release_def stop_checking_def plains)

lemma plain_release_deferred [plains]: "plain (release_deferred w) = plain w"
  by (simp add: release_deferred_def Let_def plains split: option.split)

lemma plain_retain [plains]: "plain (retain i b w) = plain w"
  by (simp add: retain_def Let_def plains split: option.split)

lemma plain_at_card: "at_card f w = (x, w') \<Longrightarrow> plain w' = plain w"
  by (auto simp: at_card_def plains split: prod.splits)

lemma plain_drop_file [plains]: "plain (drop_file w) = plain w"
  using plain_at_card [of lib_call w] by (metis drop_file_def plain_updates(1) prod.collapse)

lemma plain_flush: "flush now w = (x, w') \<Longrightarrow> plain w' = plain w"
  by (auto simp: flush_def Let_def plains split: prod.splits if_splits dest!: plain_at_card)

lemma plain_open_file: "open_file w = (x, w') \<Longrightarrow> plain w' = plain w"
  by (auto simp: open_file_def Let_def plains split: prod.splits if_splits dest!: plain_at_card)

lemma plain_flush' [plains]: "plain (snd (flush now w)) = plain w"
  using plain_flush by (metis prod.collapse)

lemma plain_open_file' [plains]: "plain (snd (open_file w)) = plain w"
  using plain_open_file by (metis prod.collapse)

lemma plain_cancel_check: "cancel_check w = (x, w') \<Longrightarrow> plain w' = plain w"
  by (auto simp: cancel_check_def plains split: prod.splits)

lemma plain_back_up [plains]: "plain (back_up M s force w) = plain w"
  by (simp add: back_up_def Let_def plains split: option.split prod.split backup_result.split)

lemma plain_finish_backup [plains]: "plain (finish_backup M s manual w) = plain w"
  by (simp add: finish_backup_def Let_def plains)

lemma plain_rotate: "rotate now n w = (x, w') \<Longrightarrow> plain w' = plain w"
  by (auto simp: rotate_def Let_def plains split: if_splits dest!: plain_open_file)

lemma plain_record [plains]: "plain (do_record t d token research region w) = plain w"
  by (auto simp: do_record_def Let_def plains split: prod.split bool.split dest!: plain_at_card plain_rotate)

lemma plain_clear [plains]: "plain (do_clear t w) = plain w"
  by (auto simp: do_clear_def Let_def plains split: prod.split dest!: plain_at_card)

lemma plain_diagnostics [plains]: "plain (do_diagnostics body w) = plain w"
proof -
  have "plain (snd (at_card f w)) = plain w" for f :: "volume \<Rightarrow> bool \<times> volume" and w :: "('a, 'b) worker"
    using plain_at_card by (metis prod.collapse)
  then show ?thesis by (auto simp: do_diagnostics_def Let_def plains split: prod.split dest!: plain_at_card)
qed

lemma plain_check_history [plains]: "plain (check_history w) = plain w"
  by (simp add: check_history_def Let_def plains)

lemma plain_flush_due [plains]: "plain (flush_due t w) = plain w"
  by (simp add: flush_due_def plains)

lemma plain_initialise [plains]: "plain (initialise M w) = plain w"
  by (simp add: initialise_def Let_def plains split: option.split)

lemma plain_export: "export_all M t w = Some w' \<Longrightarrow> plain w' = plain w"
  by (auto simp: export_all_def Let_def plains split: if_splits prod.splits bool.splits option.splits dest!: plain_flush)

text \<open>What a task with an ejected card has: nothing open, nothing to write, no check to go on with.\<close>

definition frozen :: "('n, 'f) worker \<Rightarrow> bool" where
  "frozen w \<longleftrightarrow> sh_ejected (wk_health w) \<and> wk_file w = None \<and> wk_pending w = 0 \<and> \<not> active (wk_recovery w) \<and>
     rc_input (wk_recovery w) = None \<and> wk_initialized w"

definition at_rest :: "('n, 'f) worker \<Rightarrow> recovery \<times> 'f \<times> string option \<times> nat \<times> bool \<times> bool" where
  "at_rest w = (wk_recovery w, wk_ignores w, wk_file w, wk_pending w, sh_ejected (wk_health w), wk_initialized w)"

lemma frozen_at_rest: "at_rest w' = at_rest w \<Longrightarrow> frozen w \<Longrightarrow> frozen w'"
  by (simp add: at_rest_def frozen_def)

named_theorems rests

lemma rest_on_health [rests]: "(\<And>h. sh_ejected (f h) = sh_ejected h) \<Longrightarrow> at_rest (on_health f w) = at_rest w"
  by (simp add: at_rest_def on_health_def)

lemma rest_updates [rests]:
  "at_rest (w\<lparr>wk_queue := q\<rparr>) = at_rest w" "at_rest (w\<lparr>wk_snapshots := sn\<rparr>) = at_rest w" "at_rest (w\<lparr>wk_deferred := d\<rparr>) = at_rest w"
  "at_rest (w\<lparr>wk_manual := b\<rparr>) = at_rest w" "at_rest (w\<lparr>wk_flash := fl\<rparr>) = at_rest w" "at_rest (w\<lparr>wk_effects := es\<rparr>) = at_rest w"
  "at_rest (release i w) = at_rest w" "at_rest (backup_is s w) = at_rest w"
  by (simp_all add: at_rest_def release_def backup_is_def on_health_def)

lemma rest_release_deferred [rests]: "at_rest (release_deferred w) = at_rest w"
  by (simp add: release_deferred_def Let_def rests split: option.split)

lemma rest_persist: "persist_state M s w = (ok, w') \<Longrightarrow> at_rest w' = at_rest w"
  by (auto simp: persist_state_def rests split: prod.splits)

lemma rest_send: "send m w = (ok, w') \<Longrightarrow> at_rest w' = at_rest w"
  by (auto simp: send_def rests split: if_splits)

lemma rest_send_snapshot: "send_snapshot m s w = (ok, w') \<Longrightarrow> at_rest w' = at_rest w"
  by (auto simp: send_snapshot_def claim_def rests split: option.splits prod.splits if_splits dest!: rest_send)

lemma rest_request: "serve_request r w = (ok, w') \<Longrightarrow> at_rest w' = at_rest w"
  by (cases r) (auto simp: append_sighting_def save_state_def export_history_def clear_logs_def sleep_with_def play_def
    eject_def diagnostics_def rests split: if_splits dest!: rest_send rest_send_snapshot)

lemma rest_back_up [rests]: "frozen w \<Longrightarrow> at_rest (back_up M s force w) = at_rest w"
  by (simp add: back_up_def Let_def rests frozen_def)

lemma rest_finish_backup [rests]: "frozen w \<Longrightarrow> at_rest (finish_backup M s manual w) = at_rest w"
  by (simp add: finish_backup_def Let_def rests)

lemma rest_save: "frozen w \<Longrightarrow> at_rest (do_save M i manual w) = at_rest w"
proof -
  assume frozen: "frozen w"
  obtain ok u where p: "persist_state M (snapshot_of w i) w = (ok, u)" by fastforce
  define v where "v = on_health (\<lambda>h. h\<lparr>sh_saves := sh_saves h + 1\<rparr>) u"
  have u: "at_rest u = at_rest w" "at_rest v = at_rest w" using rest_persist [OF p] by (simp_all add: v_def rests)
  then have "frozen v" using frozen frozen_at_rest by blast
  then have "at_rest (finish_backup M s manual v) = at_rest w" "\<not> active (wk_recovery v)" for s
    using u(2) by (simp_all add: rests) (simp add: frozen_def)
  then show "at_rest (do_save M i manual w) = at_rest w"
    using p u by (auto simp: do_save_def Let_def v_def [symmetric] rests split: bool.split)
qed

lemma cancel_idle: "rc_input r = None \<Longrightarrow> \<not> active r \<Longrightarrow> snd (cancel r) = r"
  by (simp add: cancel_def close_input_def active_def)

lemma rest_sleep: "frozen w \<Longrightarrow> at_rest (do_sleep M t i w) = at_rest w"
proof -
  assume frozen: "frozen w"
  obtain closed w1 where c: "cancel_check w = (closed, w1)" by fastforce
  have "w1 = w" using c frozen cancel_idle [of "wk_recovery w"] by (auto simp: cancel_check_def frozen_def split: prod.splits)
  define w2 where "w2 = release_deferred (stop_checking w1)"
  obtain saved w3 where p: "persist_state M (snapshot_of w2 i) w2 = (saved, w3)" by fastforce
  define w4 where "w4 = release i (if (saved \<and> closed) \<and> \<not> active (wk_recovery w) then back_up M (snapshot_of w3 i) False w3 else w3)"
  have "at_rest (stop_checking w) = at_rest w"
    using frozen by (simp add: stop_checking_def at_rest_def on_health_def frozen_def)
  then have w3: "at_rest w3 = at_rest w" using rest_persist [OF p] \<open>w1 = w\<close> by (simp add: w2_def rests)
  then have "frozen w3" using frozen frozen_at_rest by blast
  then have w4: "at_rest w4 = at_rest w" using w3 by (simp add: w4_def rests)
  then have none: "wk_file w4 = None" using frozen by (simp add: at_rest_def frozen_def)
  obtain flushed w5 where f: "(if saved \<and> closed then flush (ti_now t) w4 else (False, w4)) = (flushed, w5)" by fastforce
  have w5: "w5 = w4" using f none by (simp add: flush_def split: if_splits)
  have "do_sleep M t i w = (if flushed then (if wk_file w5 = None then w5 else drop_file w5)\<lparr>wk_effects :=
        wk_effects (if wk_file w5 = None then w5 else drop_file w5) @ [Power_Off]\<rparr> else on_health (\<lambda>h. h\<lparr>sh_sleep_failed := True\<rparr>) w5)"
    unfolding do_sleep_def Let_def c prod.case w2_def [symmetric] p w4_def [symmetric] f ..
  then show "at_rest (do_sleep M t i w) = at_rest w" using w4 w5 none by (simp add: rests)
qed

lemma rest_handle:
  assumes "frozen w" "handle M t m w = Some w'"
  shows "at_rest w' = at_rest w"
proof -
  have idle: "do_record t d token research region w = w" "do_clear t w = w" "do_diagnostics body w = w" "do_eject w = w"
    "export_all M t w = Some w" for d token research region body
    using assms(1) by (auto simp: frozen_def do_record_def do_clear_def do_diagnostics_def do_eject_def export_all_def
        card_usable_def Let_def)
  show ?thesis using assms
    by (cases m) (auto simp: idle rest_save rest_sleep rests)
qed

lemma rest_step:
  assumes "frozen w" "worker_step M e w = Some w'"
  shows "at_rest w' = at_rest w \<and> frozen w'"
proof (cases e)
  case (Request r)
  obtain ok u where "serve_request r w = (ok, u)" by fastforce
  with assms Request rest_request [OF this] frozen_at_rest show ?thesis by auto
next
  case (Iteration t)
  define u where "u = initialise M (check_history w)"
  have u: "at_rest u = at_rest w"
    using assms(1) by (simp add: u_def initialise_def check_history_def Let_def recovery_step_inactive frozen_def at_rest_def
      on_health_def del: recovery_step.simps)
  then have frozen: "frozen u" using assms(1) frozen_at_rest by blast
  have due: "flush_due t x = x" if "frozen x" for x :: "('a, 'b) worker"
    using that by (simp add: flush_due_def frozen_def)
  show ?thesis
  proof (cases "wk_queue u")
    case Nil
    then have "w' = flush_due t u" using assms(2) Iteration by (simp add: iterate_def u_def [symmetric] Let_def)
    then show ?thesis using due frozen u by simp
  next
    case (Cons m ms)
    have q: "frozen (u\<lparr>wk_queue := ms\<rparr>)" using frozen by (simp add: frozen_def)
    from Cons assms(2) Iteration obtain x where x: "handle M t m (u\<lparr>wk_queue := ms\<rparr>) = Some x" "w' = flush_due t x"
      by (auto simp: iterate_def u_def [symmetric] Let_def)
    have "at_rest x = at_rest u" using rest_handle [OF q x(1)] by (simp add: rests)
    with frozen have "frozen x" using frozen_at_rest by blast
    then show ?thesis using due x(2) \<open>at_rest x = at_rest u\<close> u by simp
  qed
qed

lemma rest_eject:
  assumes "\<not> sh_ejected (wk_health w)" shows "frozen (do_eject w)"
proof -
  obtain ok w1 where c: "cancel_check w = (ok, w1)" by fastforce
  obtain closed w2 where l: "at_card (close_log (wk_file w1)) w1 = (closed, w2)" by fastforce
  have w1: "\<not> active (wk_recovery w1)" "rc_input (wk_recovery w1) = None"
    using c cancel_settled [of "wk_recovery w"] by (auto simp: cancel_check_def active_def settled_def split: prod.splits)
  have w2: "\<not> active (wk_recovery w2)" "rc_input (wk_recovery w2) = None"
    using l w1 by (auto simp: at_card_def on_card_def active_def split: prod.splits)
  have "wk_recovery (release_deferred x) = wk_recovery x" "wk_file (release_deferred x) = wk_file x"
    "wk_initialized (release_deferred x) = wk_initialized x" for x :: "('a, 'b) worker"
    by (simp_all add: release_deferred_def release_def Let_def split: option.split)
  then show ?thesis using assms w2
    by (simp add: do_eject_def c l Let_def frozen_def on_health_def stop_checking_def card_failed_def)
qed

lemma persist_parts:
  assumes "persist_state M s w = (ok, w')"
  shows "persist (de_nvs M) (de_layouts M) s (wk_flash w) = (ok, wk_flash w')" "wk_effects w' = wk_effects w"
    "sh_ejected (wk_health w') = sh_ejected (wk_health w)"
  using assms by (auto simp: persist_state_def split: prod.splits)

lemma save_parts:
  "wk_flash (do_save M i manual w) = snd (persist (de_nvs M) (de_layouts M) (snapshot_of w i) (wk_flash w))"
  "wk_effects (do_save M i manual w) = wk_effects w"
  "sh_ejected (wk_health (do_save M i manual w)) = sh_ejected (wk_health w)"
proof -
  obtain ok u where p: "persist_state M (snapshot_of w i) w = (ok, u)" by fastforce
  have "plain (do_save M i manual w) = plain u"
    by (auto simp: do_save_def p Let_def plains split: bool.split)
  then show "wk_flash (do_save M i manual w) = snd (persist (de_nvs M) (de_layouts M) (snapshot_of w i) (wk_flash w))"
    "wk_effects (do_save M i manual w) = wk_effects w"
    "sh_ejected (wk_health (do_save M i manual w)) = sh_ejected (wk_health w)"
    using persist_parts [OF p] by (simp_all add: plain_def)
qed

lemma snapshot_goods: "holds held w \<Longrightarrow> i \<in> set held \<Longrightarrow> snapshot_of w i = snd (goods w) ! i"
  by (auto simp: goods_def core_def snapshot_of_def)

lemma sleep_parts:
  assumes "holds [i] w"
  shows "wk_flash (do_sleep M t i w) = snd (persist (de_nvs M) (de_layouts M) (snapshot_of w i) (wk_flash w))"
    and "sh_ejected (wk_health (do_sleep M t i w)) = sh_ejected (wk_health w)"
    and "wk_effects (do_sleep M t i w) = wk_effects w \<or>
      fst (persist (de_nvs M) (de_layouts M) (snapshot_of w i) (wk_flash w)) \<and> wk_file (do_sleep M t i w) = None"
proof -
  obtain closed w1 where c: "cancel_check w = (closed, w1)" by fastforce
  define w2 where "w2 = release_deferred (stop_checking w1)"
  obtain saved w3 where p: "persist_state M (snapshot_of w2 i) w2 = (saved, w3)" by fastforce
  define w4 where "w4 = release i (if (saved \<and> closed) \<and> \<not> active (wk_recovery w) then back_up M (snapshot_of w3 i) False w3 else w3)"
  have w2: "plain w2 = plain w" using plain_cancel_check [OF c] by (simp add: w2_def plains)
  have "goods w2 = goods w" using goods_cancel [OF c] by (simp add: w2_def)
  moreover have "holds [i] w2" unfolding w2_def using holds_cancel [OF c assms] by (intro holds_settle) blast+
  ultimately have snap: "snapshot_of w2 i = snapshot_of w i"
    using snapshot_goods [of "[i]" w2 i] snapshot_goods [of "[i]" w i] assms by (simp del: slots_ok.simps)
  obtain flushed w5 where f: "(if saved \<and> closed then flush (ti_now t) w4 else (False, w4)) = (flushed, w5)" by fastforce
  have "plain w5 = plain w4" using f plain_flush by (auto split: if_splits)
  then have w5: "plain w5 = plain w3" by (simp add: w4_def plains)
  note run = persist_parts [OF p, unfolded snap]
  have sleep: "do_sleep M t i w = (if flushed then (if wk_file w5 = None then w5 else drop_file w5)\<lparr>wk_effects :=
        wk_effects (if wk_file w5 = None then w5 else drop_file w5) @ [Power_Off]\<rparr> else on_health (\<lambda>h. h\<lparr>sh_sleep_failed := True\<rparr>) w5)"
    unfolding do_sleep_def Let_def c prod.case w2_def [symmetric] p w4_def [symmetric] f ..
  have drop: "plain (drop_file w5) = plain w5" by (simp add: plains)
  show "wk_flash (do_sleep M t i w) = snd (persist (de_nvs M) (de_layouts M) (snapshot_of w i) (wk_flash w))"
    "sh_ejected (wk_health (do_sleep M t i w)) = sh_ejected (wk_health w)"
    using run w2 w5 drop unfolding sleep by (auto simp: plain_def on_health_def)
  show "wk_effects (do_sleep M t i w) = wk_effects w \<or>
      fst (persist (de_nvs M) (de_layouts M) (snapshot_of w i) (wk_flash w)) \<and> wk_file (do_sleep M t i w) = None"
  proof (cases flushed)
    case True
    then have "saved" using f by (auto split: if_splits)
    then show ?thesis using run(1) w2 True unfolding sleep by (simp add: plain_def drop_file_def)
  next
    case False
    then show ?thesis using run(2) w2 w5 unfolding sleep by (simp add: plain_def on_health_def)
  qed
qed

text \<open>The flash after an iteration whose message is the head of the queue.\<close>

fun flash_after :: "('n, 'f) devices \<Rightarrow> storage_request \<Rightarrow> u32 \<times> 'n \<Rightarrow> u32 \<times> 'n" where
  "flash_after M (R_Save s b) flash = snd (persist (de_nvs M) (de_layouts M) s flash)"
| "flash_after M (R_Sleep s) flash = snd (persist (de_nvs M) (de_layouts M) s flash)"
| "flash_after M _ flash = flash"

lemma handle_parts:
  assumes "holds (slots_of m) w" "handle M t m w = Some w'"
  shows "wk_flash w' = flash_after M (resolve (snd (goods w)) m) (wk_flash w)"
    and "m = M_Eject \<or> sh_ejected (wk_health w') = sh_ejected (wk_health w)"
    and "wk_effects w' = wk_effects w \<or> (\<exists>n. wk_effects w' = wk_effects w @ [Sound_Played n]) \<or>
      (\<exists>i. m = M_Sleep i \<and> fst (persist (de_nvs M) (de_layouts M) (snd (goods w) ! i) (wk_flash w)) \<and> wk_file w' = None)"
proof -
  have eject: "wk_flash (do_eject w) = wk_flash w" "wk_effects (do_eject w) = wk_effects w"
  proof -
    have "wk_flash (on_health f x) = wk_flash x" "wk_effects (on_health f x) = wk_effects x" for f and x :: "('a, 'b) worker"
      by (simp_all add: on_health_def)
    moreover have "plain x = plain y \<Longrightarrow> wk_flash x = wk_flash y \<and> wk_effects x = wk_effects y" for x y :: "('a, 'b) worker"
      by (simp add: plain_def)
    ultimately have "wk_flash (do_eject w) = wk_flash w \<and> wk_effects (do_eject w) = wk_effects w"
    proof -
      obtain ok w1 where c: "cancel_check w = (ok, w1)" by fastforce
      obtain closed w2 where l: "at_card (close_log (wk_file w1)) w1 = (closed, w2)" by fastforce
      define w3 where "w3 = (release_deferred (stop_checking (w2\<lparr>wk_file := None\<rparr>)))\<lparr>wk_pending := 0\<rparr>"
      have "plain w3 = plain w" using plain_cancel_check [OF c] plain_at_card [OF l] by (simp add: w3_def plains)
      then show ?thesis
        by (simp add: do_eject_def c l w3_def [symmetric] Let_def plain_def) (simp add: on_health_def card_failed_def)
    qed
    then show "wk_flash (do_eject w) = wk_flash w" "wk_effects (do_eject w) = wk_effects w" by blast+
  qed
  have same: "wk_flash w' = wk_flash w" "wk_effects w' = wk_effects w" "sh_ejected (wk_health w') = sh_ejected (wk_health w)"
    if "plain w' = plain w" using that by (simp_all add: plain_def)
  have snap: "i \<in> set (slots_of m) \<Longrightarrow> snapshot_of w i = snd (goods w) ! i" for i
    by (rule snapshot_goods [OF assms(1)])
  have "wk_flash w' = flash_after M (resolve (snd (goods w)) m) (wk_flash w) \<and>
    (m = M_Eject \<or> sh_ejected (wk_health w') = sh_ejected (wk_health w)) \<and>
    (wk_effects w' = wk_effects w \<or> (\<exists>n. wk_effects w' = wk_effects w @ [Sound_Played n]) \<or>
      (\<exists>i. m = M_Sleep i \<and> fst (persist (de_nvs M) (de_layouts M) (snd (goods w) ! i) (wk_flash w)) \<and> wk_file w' = None))"
  proof (cases m)
    case (M_Save i)
    with assms(2) snap save_parts [of M i False w] show ?thesis by auto
  next
    case (M_Backup i)
    with assms(2) snap save_parts [of M i True w] show ?thesis by auto
  next
    case (M_Sleep i)
    with assms have "holds [i] w" by simp
    from sleep_parts [OF this, of M t] M_Sleep assms(2) snap show ?thesis by auto
  next
    case M_Eject
    with assms(2) eject show ?thesis by auto
  next
    case M_Export
    with assms(2) same [OF plain_export] show ?thesis by simp
  next
    case (M_Sound n)
    with assms(2) show ?thesis by auto
  next
    case (M_Record d token research region)
    with assms(2) have "plain w' = plain w" by (auto simp: plains)
    with M_Record same show ?thesis by simp
  next
    case M_Clear
    with assms(2) have "plain w' = plain w" by (auto simp: plains)
    with M_Clear same show ?thesis by simp
  next
    case (M_Diagnostics body)
    with assms(2) have "plain w' = plain w" by (auto simp: plains)
    with M_Diagnostics same show ?thesis by simp
  qed
  then show "wk_flash w' = flash_after M (resolve (snd (goods w)) m) (wk_flash w)"
    "m = M_Eject \<or> sh_ejected (wk_health w') = sh_ejected (wk_health w)"
    "wk_effects w' = wk_effects w \<or> (\<exists>n. wk_effects w' = wk_effects w @ [Sound_Played n]) \<or>
      (\<exists>i. m = M_Sleep i \<and> fst (persist (de_nvs M) (de_layouts M) (snd (goods w) ! i) (wk_flash w)) \<and> wk_file w' = None)"
    by blast+
qed

lemma iterate_parts:
  assumes "holds [] w" "iterate M t w = Some w'"
  shows "wk_flash w' = (case contents w of [] \<Rightarrow> wk_flash w | r # _ \<Rightarrow> flash_after M r (wk_flash w))"
    and "sh_ejected (wk_health w') = sh_ejected (wk_health w) \<or> frozen w'"
    and "Power_Off \<in> set (drop (length (wk_effects w)) (wk_effects w')) \<Longrightarrow> \<exists>s rest. contents w = R_Sleep s # rest \<and>
      persist (de_nvs M) (de_layouts M) s (wk_flash w) = (True, wk_flash w') \<and> wk_file w' = None"
proof -
  define u where "u = initialise M (check_history w)"
  have u: "holds [] u" unfolding u_def by (rule holds_initialise [OF holds_check_history [OF assms(1)]])
  have plain_u: "plain u = plain w" by (simp add: u_def plains)
  then have same: "wk_flash u = wk_flash w" "wk_effects u = wk_effects w" "sh_ejected (wk_health u) = sh_ejected (wk_health w)"
    by (simp_all add: plain_def)
  have goods_u: "goods u = goods w" by (simp add: u_def)
  have "wk_flash w' = (case contents w of [] \<Rightarrow> wk_flash w | r # _ \<Rightarrow> flash_after M r (wk_flash w)) \<and>
    (sh_ejected (wk_health w') = sh_ejected (wk_health w) \<or> frozen w') \<and>
    (Power_Off \<in> set (drop (length (wk_effects w)) (wk_effects w')) \<longrightarrow> (\<exists>s rest. contents w = R_Sleep s # rest \<and>
      persist (de_nvs M) (de_layouts M) s (wk_flash w) = (True, wk_flash w') \<and> wk_file w' = None))"
  proof (cases "wk_queue u")
    case Nil
    then have w': "w' = flush_due t u" using assms(2) by (simp add: iterate_def u_def [symmetric] Let_def)
    have "contents w = []" using Nil goods_u by (simp add: contents_def goods_def core_def)
    moreover have "plain w' = plain w" using plain_u by (simp add: w' plains)
    ultimately show ?thesis by (simp add: plain_def)
  next
    case (Cons m ms)
    with assms(2) obtain x where x: "handle M t m (u\<lparr>wk_queue := ms\<rparr>) = Some x" "w' = flush_due t x"
      by (auto simp: iterate_def u_def [symmetric] Let_def)
    note parts = handle_parts [OF holds_pop [OF u Cons] x(1)]
    have goods_pop: "snd (goods (u\<lparr>wk_queue := ms\<rparr>)) = snd (goods w)" using goods_u by (simp add: goods_def core_def)
    have "fst (goods w) = m # ms" using Cons goods_u [symmetric] by (simp add: goods_def core_def)
    then have head: "contents w = resolve (snd (goods w)) m # map (resolve (snd (goods w))) ms" by (simp add: contents_def)
    have "plain w' = plain x" by (simp add: x(2) plains)
    then have w': "wk_flash w' = wk_flash x" "wk_effects w' = wk_effects x" "sh_ejected (wk_health w') = sh_ejected (wk_health x)"
      by (simp_all add: plain_def)
    have shut: "wk_file x = None \<Longrightarrow> wk_file w' = None" by (simp add: x(2) flush_due_def flush_def)
    have flash: "wk_flash w' = flash_after M (resolve (snd (goods w)) m) (wk_flash w)"
      using parts(1) goods_pop same w'(1) by simp
    have "sh_ejected (wk_health w') = sh_ejected (wk_health w) \<or> frozen w'"
    proof (cases "m = M_Eject \<and> \<not> sh_ejected (wk_health u)")
      case True
      then have "frozen x" using x(1) rest_eject [of "u\<lparr>wk_queue := ms\<rparr>"] by auto
      then have "w' = x" by (simp add: x(2) flush_due_def frozen_def)
      with \<open>frozen x\<close> show ?thesis by simp
    next
      case False
      then show ?thesis using parts(2) same(3) w'(3) x(1) by (auto simp: do_eject_def)
    qed
    moreover have "\<exists>s rest. contents w = R_Sleep s # rest \<and>
      persist (de_nvs M) (de_layouts M) s (wk_flash w) = (True, wk_flash w') \<and> wk_file w' = None"
      if "Power_Off \<in> set (drop (length (wk_effects w)) (wk_effects w'))"
    proof -
      have "\<not> (wk_effects x = wk_effects w \<or> (\<exists>n. wk_effects x = wk_effects w @ [Sound_Played n]))"
        using that w'(2) by auto
      then obtain i where i: "m = M_Sleep i" "fst (persist (de_nvs M) (de_layouts M) (snd (goods w) ! i) (wk_flash w))" "wk_file x = None"
        using parts(3) same(1,2) goods_pop by auto
      then show ?thesis using head flash shut by (auto simp: prod_eq_iff)
    qed
    ultimately show ?thesis using flash head by simp
  qed
  then show "wk_flash w' = (case contents w of [] \<Rightarrow> wk_flash w | r # _ \<Rightarrow> flash_after M r (wk_flash w))"
    "sh_ejected (wk_health w') = sh_ejected (wk_health w) \<or> frozen w'"
    "Power_Off \<in> set (drop (length (wk_effects w)) (wk_effects w')) \<Longrightarrow> \<exists>s rest. contents w = R_Sleep s # rest \<and>
      persist (de_nvs M) (de_layouts M) s (wk_flash w) = (True, wk_flash w') \<and> wk_file w' = None" by blast+
qed

lemma ejected_step:
  assumes "holds [] w" "sh_ejected (wk_health w) \<Longrightarrow> frozen w" "worker_step M e w = Some w'"
  shows "sh_ejected (wk_health w') \<Longrightarrow> frozen w'"
proof (cases "sh_ejected (wk_health w)")
  case True
  with rest_step [of w M e w'] assms(2,3) show "frozen w'" by blast
next
  case False
  assume gone: "sh_ejected (wk_health w')"
  show "frozen w'"
  proof (cases e)
    case (Request r)
    obtain ok u where u: "serve_request r w = (ok, u)" by fastforce
    with rest_request [OF u] assms(3) Request gone False show ?thesis by (simp add: at_rest_def)
  next
    case (Iteration t)
    with iterate_parts(2) [OF assms(1)] assms(3) gone False show ?thesis by auto
  qed
qed

interpretation ejecting: partial_machine "worker_step M" "\<lambda>w. holds [] w \<and> (sh_ejected (wk_health w) \<longrightarrow> frozen w)"
  for M :: "('n, 'f) devices"
  by unfold_locales (use holds_step ejected_step in blast)

interpretation resting: partial_machine "worker_step M" frozen for M :: "('n, 'f) devices"
  by unfold_locales (use rest_step in blast)

lemma run_frozen: "frozen w \<Longrightarrow> worker_run M es w = Some w' \<Longrightarrow> at_rest w' = at_rest w"
  by (rule resting.run_keeps [where view = at_rest]) (use rest_step in blast)+

lemma boot_not_ejected: "\<not> sh_ejected (wk_health (boot_worker session mounted v fs flash))"
proof -
  define w where "w = on_health (\<lambda>h. h\<lparr>sh_mounted := mounted\<rparr>) (snd (start_worker session True (worker0 v fs flash)))"
  obtain dirs u where mk: "at_card (mkdirs card_dirs) w = (dirs, u)" by fastforce
  have "\<not> sh_ejected (wk_health w)" by (simp add: w_def on_health_def start_worker_def worker0_def health0_def)
  with plain_at_card [OF mk] show ?thesis
    by (simp add: boot_worker_def enter_task_def w_def [symmetric] mk Let_def plain_def) (simp add: on_health_def)
qed


section \<open>Clearing the logs\<close>

text \<open>
  The loop over the directory takes a failed read for its end: a clear is then reported as complete
  although a log is left.
\<close>

definition unreadable_card :: volume where
  "unreadable_card = \<lparr>vo_files = [(log_dir @ ''/A.JSONL'', ''x'')], vo_dirs = [log_dir], vo_faults = [Works, Fails 0]\<rparr>"

lemma clear_misses_read_errors:
  "fst (unlink_all unreadable_card) \<and> vo_files (snd (unlink_all unreadable_card)) = vo_files unreadable_card"
  by code_simp

section \<open>Every accepted request is served\<close>









section \<open>A concrete task\<close>

definition example_devices :: "(flash, card) devices" where
  "example_devices = \<lparr>de_nvs = example_nvs, de_layouts = example_layouts, de_files = example_files, de_hmac = example_hmac,
     de_sha = (\<lambda>body. None), de_list_digest = (\<lambda>list. None)\<rparr>"

text \<open>No card is mounted; the flash takes eight writes.\<close>

definition example_worker :: "(flash, card) worker" where
  "example_worker = boot_worker [] False example_card empty_card (0, old_flash 8)"

definition example_tick :: moment where
  "example_tick = \<lparr>ti_now = 0, ti_random = 0, ti_key = []\<rparr>"

lemma example_worker_simp: "example_worker = (worker0 example_card empty_card (0, old_flash 8))\<lparr>wk_started := True,
    wk_health := health0\<lparr>sh_checking := True, sh_ignore_backup := Backup_Checking\<rparr>\<rparr>"
  by (simp add: example_worker_def boot_worker_def enter_task_def start_worker_def on_health_def worker0_def health0_def c_str_def)

lemma example_sent: "serve_request (R_Sleep example_state) example_worker =
    (True, example_worker\<lparr>wk_queue := [M_Sleep 0], wk_snapshots := [(True, example_state), (False, state0)]\<rparr>)"
  by (simp add: sleep_with_def example_valid send_snapshot_def claim_def send_def example_worker_simp worker0_def numeral_2_eq_2)

section \<open>Properties\<close>

text \<open>
  Property C33.  Every snapshot is owned by exactly one place at a time.  In any run, a slot is busy
  if and only if the deferred backup or one message of the queue refers to it, no slot is referred
  to twice, the queue keeps its eight places, and once the start is over nothing is deferred: no
  slot leaks and none is overwritten while it is in use.
\<close>

theorem snapshots_owned:
  assumes "worker_run M es (boot_worker session mounted v fs flash) = Some w"
  shows "slots_ok [] (core w)"
  using owned.run_inv [OF holds_boot assms] .

lemma snapshots_owned_witness:
  "slots_ok [] (core (snd (serve_request (R_Sleep example_state) example_worker)))"
  using snapshots_owned [of example_devices "[Request (R_Sleep example_state)]" "[]" False example_card empty_card "(0, old_flash 8)"]
  by (simp add: example_worker_def del: slots_ok.simps serve_request.simps)

text \<open>
  Property C34.  The slots and the queue implement a queue of the requests themselves.  A request is
  refused and changes nothing, or is put at the end with the state it was made with; an iteration
  takes the first one off and, for a save or a sleep, writes that state to the flash.
\<close>

theorem queue_refinement:
  assumes "worker_run M es (boot_worker session mounted v fs flash) = Some w"
  shows "(serve_request r w = (ok, w1) \<longrightarrow>
      contents w1 = contents w @ (if ok then [stored r] else []) \<and> deferred_state w1 = deferred_state w) \<and>
    (iterate M t w = Some w2 \<longrightarrow> contents w2 = tl (contents w) \<and>
      wk_flash w2 = (case contents w of [] \<Rightarrow> wk_flash w | r # _ \<Rightarrow> flash_after M r (wk_flash w)))"
proof -
  note holds = owned.run_inv [OF holds_boot assms]
  show ?thesis using contents_request [OF holds] contents_iterate iterate_parts(1) [OF holds] by blast
qed

lemma queue_refinement_witness:
  "contents (snd (serve_request (R_Sleep example_state) example_worker)) = [R_Sleep example_state]"
proof -
  have "contents example_worker = []" by (simp add: contents_def goods_def core_def example_worker_simp worker0_def)
  then show ?thesis
    using queue_refinement [of example_devices "[]" "[]" False example_card empty_card "(0, old_flash 8)" example_worker
        "R_Sleep example_state" True "snd (serve_request (R_Sleep example_state) example_worker)" example_tick example_worker]
      example_sent by (simp add: example_worker_def [symmetric])
qed

text \<open>
  Property C35.  Once the card is declared ejected it is never touched again: whatever is requested
  afterwards and however the storage task goes on, the files of the card stay as they are and the
  card stays ejected.
\<close>

theorem ejected_card_untouched:
  assumes "worker_run M es (boot_worker session mounted v fs flash) = Some w" and "sh_ejected (wk_health w)"
    and "worker_run M es' w = Some w'"
  shows "rc_card (wk_recovery w') = rc_card (wk_recovery w) \<and> wk_ignores w' = wk_ignores w \<and> sh_ejected (wk_health w')"
proof -
  have "frozen w" using ejecting.run_inv [OF _ assms(1)] assms(2) by (simp add: holds_boot boot_not_ejected)
  with run_frozen [OF _ assms(3)] assms(2) show ?thesis by (simp add: at_rest_def)
qed

definition example_ejected :: "(flash, card) worker" where
  "example_ejected = the (worker_run example_devices [Request R_Eject, Iteration example_tick] example_worker)"

lemma example_idle: "recovery_step n (recovery0 v) = recovery0 v" "\<not> active (recovery0 v)"
  "cancel (recovery0 v) = (True, recovery0 v)"
  using recovery_step_inactive [of "recovery0 v" n]
  by (simp_all add: active_def recovery0_def cancel_def close_input_def)

lemmas example_task = iterate_def check_history_def initialise_def stop_checking_def on_health_def card_usable_def
  example_idle example_worker_simp worker0_def health0_def flush_due_def cancel_check_def Let_def

lemma example_ejects:
  "worker_run example_devices [Request R_Eject, Iteration example_tick] example_worker = Some example_ejected"
  "sh_ejected (wk_health example_ejected)"
proof -
  show run: "worker_run example_devices [Request R_Eject, Iteration example_tick] example_worker = Some example_ejected"
    using worker_never_stops by (metis example_ejected_def option.sel)
  have "eject example_worker = (True, example_worker\<lparr>wk_queue := [M_Eject]\<rparr>)"
    by (simp add: eject_def send_def example_worker_simp worker0_def)
  then have ejected: "example_ejected = the (iterate example_devices example_tick (example_worker\<lparr>wk_queue := [M_Eject]\<rparr>))"
    using run by (simp split: option.splits)
  have "sh_ejected (wk_health (the (iterate example_devices example_tick (example_worker\<lparr>wk_queue := [M_Eject]\<rparr>))))"
    by (simp add: example_task do_eject_def at_card_def on_card_def close_log_def finish_if_def release_deferred_def
      del: recovery_step.simps)
  then show "sh_ejected (wk_health example_ejected)" by (simp only: ejected)
qed

lemma ejected_card_untouched_witness:
  "\<exists>w'. worker_run example_devices [Request (R_Save example_state True), Iteration example_tick] example_ejected = Some w' \<and>
     rc_card (wk_recovery w') = rc_card (wk_recovery example_ejected)"
proof -
  obtain u where "worker_step example_devices (Request (R_Save example_state True)) example_ejected = Some u"
    using step_returns by blast
  moreover obtain w' where "worker_step example_devices (Iteration example_tick) u = Some w'" using step_returns by blast
  ultimately have run: "worker_run example_devices [Request (R_Save example_state True), Iteration example_tick] example_ejected = Some w'"
    by simp
  from ejected_card_untouched [OF example_ejects(1) [unfolded example_worker_def] example_ejects(2) run] run show ?thesis by blast
qed

text \<open>
  Property C36.  The device is switched off only after the state it was put to sleep with has been
  saved and the log file is closed.
\<close>

theorem power_off_after_save:
  assumes "worker_run M es (boot_worker session mounted v fs flash) = Some w" and "iterate M t w = Some w'"
    and "Power_Off \<in> set (drop (length (wk_effects w)) (wk_effects w'))"
  shows "\<exists>s rest. contents w = R_Sleep s # rest \<and> persist (de_nvs M) (de_layouts M) s (wk_flash w) = (True, wk_flash w') \<and>
    wk_file w' = None"
  using iterate_parts(3) [OF owned.run_inv [OF holds_boot assms(1)] assms(2,3)] .

lemma power_off_after_save_witness:
  "\<exists>w'. iterate example_devices example_tick (snd (serve_request (R_Sleep example_state) example_worker)) = Some w' \<and>
     wk_flash w' = (1, full_flash) \<and> wk_file w' = None"
proof -
  define w where "w = snd (serve_request (R_Sleep example_state) example_worker)"
  obtain w' where it: "iterate example_devices example_tick w = Some w'"
    using step_returns [of example_devices "Iteration example_tick" w] by auto
  have w: "w = example_worker\<lparr>wk_queue := [M_Sleep 0], wk_snapshots := [(True, example_state), (False, state0)]\<rparr>"
    by (simp only: w_def example_sent snd_conv)
  have off: "Power_Off \<in> set (drop (length (wk_effects w)) (wk_effects w'))"
    using it unfolding w
    by (auto simp: example_task do_sleep_def release_deferred_def persist_state_def snapshot_of_def example_devices_def
      example_persists back_up_def backup_is_def release_def flush_def simp del: recovery_step.simps)
  have run: "worker_run example_devices [Request (R_Sleep example_state)] example_worker = Some w" by (simp add: w_def)
  obtain s rest where s: "contents w = R_Sleep s # rest" "persist (de_nvs example_devices) (de_layouts example_devices) s (wk_flash w) = (True, wk_flash w')"
      "wk_file w' = None"
    using power_off_after_save [OF run [unfolded example_worker_def] it off] by blast
  have "contents w = [R_Sleep example_state]" "wk_flash w = (0, old_flash 8)"
    unfolding w by (simp_all add: contents_def goods_def core_def example_worker_simp worker0_def)
  with s example_persists have "wk_flash w' = (1, full_flash)" by (simp add: example_devices_def)
  with s(3) it show ?thesis unfolding w_def by blast
qed



end
