(* ===== verification/Screens.thy ===== *)
theory Screens
  imports Taps State
begin

text \<open>
  What the screens leave for the storage: \<open>storable\<close> is the part of \<open>valid_current\<close> that the user
  interface is responsible for, up to the dates of the companion, with a set \<open>B\<close> of brightness
  values and the time \<open>t\<close> as parameters.  Every handler of
  \<open>View\<close> and \<open>Taps\<close> keeps it, provided the brightness button stays in \<open>B\<close>.
\<close>

section \<open>What can be stored\<close>

definition storable_settings :: "(u8 \<Rightarrow> bool) \<Rightarrow> settings \<Rightarrow> bool" where
  "storable_settings B s \<longleftrightarrow> s_version s = 2 \<and> B (s_brightness s) \<and> s_character s < 6 \<and> s_region s < 2 \<and>
     s_threshold s \<in> {20, 50, 80} \<and> drop_bit category_count (s_enabled_categories s) = 0 \<and>
     drop_bit category_count (s_alert_categories s) = 0 \<and> length (s_name s) = 13 \<and> stored_name_ok (s_name s)"

definition storable_pet :: "pet \<Rightarrow> bool" where
  "storable_pet p \<longleftrightarrow> p_fullness p \<le> 100 \<and> p_mood p \<le> 100"

definition storable_battery :: "battery_calibration \<Rightarrow> bool" where
  "storable_battery b \<longleftrightarrow> (bc_enabled b \<longrightarrow> valid_battery b)"

definition storable :: "(u8 \<Rightarrow> bool) \<Rightarrow> u64 \<Rightarrow> view \<Rightarrow> bool" where
  "storable B t v \<longleftrightarrow> v_now v = t \<and> storable_settings B (v_settings v) \<and> storable_pet (v_pet v) \<and>
     companion_sound (v_companion v) \<and> companion_sound (v_preview_companion v) \<and>
     valid_appearance (v_appearance v) \<and> valid_appearance (v_preview_appearance v) \<and>
     storable_battery (v_battery_cal v) \<and> v_wardrobe_index v < outfit_count"

lemma storable_update [simp]:
  "storable B t (v\<lparr>v_screen := a0\<rparr>) \<longleftrightarrow> storable B t v"
  "storable B t (v\<lparr>v_identity_key := a1\<rparr>) \<longleftrightarrow> storable B t v"
  "storable B t (v\<lparr>v_snooze_until := a2\<rparr>) \<longleftrightarrow> storable B t v"
  "storable B t (v\<lparr>v_preview_snooze_until := a3\<rparr>) \<longleftrightarrow> storable B t v"
  "storable B t (v\<lparr>v_unlock_until := a4\<rparr>) \<longleftrightarrow> storable B t v"
  "storable B t (v\<lparr>v_preview_xp := a5\<rparr>) \<longleftrightarrow> storable B t v"
  "storable B t (v\<lparr>v_unlocked_outfit := a6\<rparr>) \<longleftrightarrow> storable B t v"
  "storable B t (v\<lparr>v_book_page := a7\<rparr>) \<longleftrightarrow> storable B t v"
  "storable B t (v\<lparr>v_scent_index := a8\<rparr>) \<longleftrightarrow> storable B t v"
  "storable B t (v\<lparr>v_scent_page := a9\<rparr>) \<longleftrightarrow> storable B t v"
  "storable B t (v\<lparr>v_ignored_page := a10\<rparr>) \<longleftrightarrow> storable B t v"
  "storable B t (v\<lparr>v_coverage_page := a11\<rparr>) \<longleftrightarrow> storable B t v"
  "storable B t (v\<lparr>v_ignore_backup := a12\<rparr>) \<longleftrightarrow> storable B t v"
  "storable B t (v\<lparr>v_manual_backup_count := a13\<rparr>) \<longleftrightarrow> storable B t v"
  "storable B t (v\<lparr>v_backup_pending := a14\<rparr>) \<longleftrightarrow> storable B t v"
  "storable B t (v\<lparr>v_sd_checking := a15\<rparr>) \<longleftrightarrow> storable B t v"
  "storable B t (v\<lparr>v_action_detection := a16\<rparr>) \<longleftrightarrow> storable B t v"
  "storable B t (v\<lparr>v_frame_presented := a17\<rparr>) \<longleftrightarrow> storable B t v"
  "storable B t (v\<lparr>v_home_alert_shown := a18\<rparr>) \<longleftrightarrow> storable B t v"
  "storable B t (v\<lparr>v_display_mode := a19\<rparr>) \<longleftrightarrow> storable B t v"
  "storable B t (v\<lparr>v_last_activity := a20\<rparr>) \<longleftrightarrow> storable B t v"
  "storable B t (v\<lparr>v_saver_since := a21\<rparr>) \<longleftrightarrow> storable B t v"
  "storable B t (v\<lparr>v_alert_wake_until := a22\<rparr>) \<longleftrightarrow> storable B t v"
  "storable B t (v\<lparr>v_saver_preview := a23\<rparr>) \<longleftrightarrow> storable B t v"
  "storable B t (v\<lparr>v_pets := a24\<rparr>) \<longleftrightarrow> storable B t v"
  "storable B t (v\<lparr>v_preview_fullness := a25\<rparr>) \<longleftrightarrow> storable B t v"
  "storable B t (v\<lparr>v_preview_mood := a26\<rparr>) \<longleftrightarrow> storable B t v"
  "storable B t (v\<lparr>v_preview_decay_ms := a27\<rparr>) \<longleftrightarrow> storable B t v"
  "storable B t (v\<lparr>v_celebration_until := a28\<rparr>) \<longleftrightarrow> storable B t v"
  "storable B t (v\<lparr>v_follow := a29\<rparr>) \<longleftrightarrow> storable B t v"
  "storable B t (v\<lparr>v_tag_watch := a30\<rparr>) \<longleftrightarrow> storable B t v"
  "storable B t (v\<lparr>v_watch_review := a31\<rparr>) \<longleftrightarrow> storable B t v"
  "storable B t (v\<lparr>v_watch_page := a32\<rparr>) \<longleftrightarrow> storable B t v"
  "storable B t (v\<lparr>v_requests := a33\<rparr>) \<longleftrightarrow> storable B t v"
  "storable B t (v\<lparr>v_alert_until := a35\<rparr>) \<longleftrightarrow> storable B t v"
  "storable B t (v\<lparr>v_meal_until := a36\<rparr>) \<longleftrightarrow> storable B t v"
  "storable B t (v\<lparr>v_happy_until := a37\<rparr>) \<longleftrightarrow> storable B t v"
  "storable B t (v\<lparr>v_meal_category := a38\<rparr>) \<longleftrightarrow> storable B t v"
  "storable B t (v\<lparr>v_alert_detection := a39\<rparr>) \<longleftrightarrow> storable B t v"
  "storable B t (v\<lparr>v_detail_detection := a40\<rparr>) \<longleftrightarrow> storable B t v"
  "storable B t (v\<lparr>v_detail_drone := a41\<rparr>) \<longleftrightarrow> storable B t v"
  "storable B t (v\<lparr>v_detail_valid := a42\<rparr>) \<longleftrightarrow> storable B t v"
  "storable B t (v\<lparr>v_detail_page := a43\<rparr>) \<longleftrightarrow> storable B t v"
  "storable B t (v\<lparr>v_demo := a44\<rparr>) \<longleftrightarrow> storable B t v"
  "storable B t (v\<lparr>v_sd := a45\<rparr>) \<longleftrightarrow> storable B t v"
  "storable B t (v\<lparr>v_sd_error := a46\<rparr>) \<longleftrightarrow> storable B t v"
  "storable B t (v\<lparr>v_scanning := a47\<rparr>) \<longleftrightarrow> storable B t v"
  "storable B t (v\<lparr>v_paused := a48\<rparr>) \<longleftrightarrow> storable B t v"
  "storable B t (v\<lparr>v_sd_read_only := a49\<rparr>) \<longleftrightarrow> storable B t v"
  "storable B t (v\<lparr>v_clock_seconds := a50\<rparr>) \<longleftrightarrow> storable B t v"
  "storable B t (v\<lparr>v_clock_set_ms := a51\<rparr>) \<longleftrightarrow> storable B t v"
  "storable B t (v\<lparr>v_level_until := a52\<rparr>) \<longleftrightarrow> storable B t v"
  "storable B t (v\<lparr>v_battery_point := a53\<rparr>) \<longleftrightarrow> storable B t v"
  "storable B t (v\<lparr>v_diagnostic_page := a54\<rparr>) \<longleftrightarrow> storable B t v"
  "storable B t (v\<lparr>v_log_page := a55\<rparr>) \<longleftrightarrow> storable B t v"
  "storable B t (v\<lparr>v_clock_input := a56\<rparr>) \<longleftrightarrow> storable B t v"
  "storable B t (v\<lparr>v_known_level := a57\<rparr>) \<longleftrightarrow> storable B t v"
  "storable B t (v\<lparr>v_self_test_taps := a58\<rparr>) \<longleftrightarrow> storable B t v"
  "storable B t (v\<lparr>v_drones := a59\<rparr>) \<longleftrightarrow> storable B t v"
  "storable B t (v\<lparr>v_battery_adc := a60\<rparr>) \<longleftrightarrow> storable B t v"
  "storable B t (v\<lparr>v_touch := a61\<rparr>) \<longleftrightarrow> storable B t v"
  "storable B t (v\<lparr>v_detector_page := a62\<rparr>) \<longleftrightarrow> storable B t v"
  "storable B t (v\<lparr>v_settings_page := a63\<rparr>) \<longleftrightarrow> storable B t v"
  "storable B t (v\<lparr>v_alert_page := a64\<rparr>) \<longleftrightarrow> storable B t v"
  "storable B t (v\<lparr>v_selected := a65\<rparr>) \<longleftrightarrow> storable B t v"
  "storable B t (v\<lparr>v_recent := a66\<rparr>) \<longleftrightarrow> storable B t v"
  "storable B t (v\<lparr>v_recent_count := a67\<rparr>) \<longleftrightarrow> storable B t v"
  "storable B t (v\<lparr>v_notice := a68\<rparr>) \<longleftrightarrow> storable B t v"
  "storable B t (v\<lparr>v_export_status := a69\<rparr>) \<longleftrightarrow> storable B t v"
  "storable B t (v\<lparr>v_exported_rows := a70\<rparr>) \<longleftrightarrow> storable B t v"
  "storable B t (v\<lparr>v_export_count := a71\<rparr>) \<longleftrightarrow> storable B t v"
  "storable B t (v\<lparr>v_eject_status := a72\<rparr>) \<longleftrightarrow> storable B t v"
  "storable B t (v\<lparr>v_low_heap := a73\<rparr>) \<longleftrightarrow> storable B t v"
  "storable B t (v\<lparr>v_save_pending := a74\<rparr>) \<longleftrightarrow> storable B t v"
  by (simp_all add: storable_def)

lemma storable_parts:
  assumes "storable B t v"
  shows "storable_settings B (v_settings v)" "storable_pet (v_pet v)" "companion_sound (v_companion v)"
    "companion_sound (v_preview_companion v)" "valid_appearance (v_appearance v)"
    "valid_appearance (v_preview_appearance v)" "storable_battery (v_battery_cal v)"
    "v_wardrobe_index v < outfit_count" "v_now v = t"
  using assms by (simp_all add: storable_def)

lemma storable_set:
  assumes "storable B t v"
  shows "storable_settings B s \<Longrightarrow> storable B t (v\<lparr>v_settings := s\<rparr>)"
    and "storable_pet p \<Longrightarrow> storable B t (v\<lparr>v_pet := p\<rparr>)"
    and "companion_sound c \<Longrightarrow> storable B t (v\<lparr>v_companion := c\<rparr>)"
    and "companion_sound c \<Longrightarrow> storable B t (v\<lparr>v_preview_companion := c\<rparr>)"
    and "valid_appearance a \<Longrightarrow> storable B t (v\<lparr>v_appearance := a\<rparr>)"
    and "valid_appearance a \<Longrightarrow> storable B t (v\<lparr>v_preview_appearance := a\<rparr>)"
    and "storable_battery b \<Longrightarrow> storable B t (v\<lparr>v_battery_cal := b\<rparr>)"
    and "i < outfit_count \<Longrightarrow> storable B t (v\<lparr>v_wardrobe_index := i\<rparr>)"
  using assms by (simp_all add: storable_def)

lemma storable_upon: "storable B t v \<Longrightarrow> (\<And>v. c \<Longrightarrow> storable B t v \<Longrightarrow> storable B t (f v)) \<Longrightarrow> storable B t (upon c f v)"
  by (simp add: upon_def)

lemma storable_fold: "storable B t v \<Longrightarrow> (\<And>x v. storable B t v \<Longrightarrow> storable B t (f x v)) \<Longrightarrow> storable B t (fold f xs v)"
  by (induction xs arbitrary: v) simp_all

lemma storable_ask [simp]: "storable B t (ask r v) \<longleftrightarrow> storable B t v"
  by (simp add: ask_def)

lemma storable_goto [simp]: "storable B t (goto s v) \<longleftrightarrow> storable B t v"
  by (simp add: goto_def)

lemma storable_snooze [simp]: "storable B t (snooze u v) \<longleftrightarrow> storable B t v"
  by (simp add: snooze_def)

lemma storable_on_settings:
  "storable B t v \<Longrightarrow> (\<And>s. storable_settings B s \<Longrightarrow> storable_settings B (f s)) \<Longrightarrow> storable B t (on_settings f v)"
  by (simp add: on_settings_def storable_set storable_parts)

lemma storable_on_collection:
  "storable B t v \<Longrightarrow> (\<And>c. companion_sound c \<Longrightarrow> companion_sound (f c)) \<Longrightarrow> storable B t (on_collection f v)"
  by (simp add: on_collection_def storable_set storable_parts)

lemma storable_on_book:
  "storable B t v \<Longrightarrow> (\<And>c. companion_sound c \<Longrightarrow> companion_sound (f c)) \<Longrightarrow> storable B t (on_book demo f v)"
  by (simp add: on_book_def storable_set storable_parts)

lemma storable_on_book_const:
  "storable B t v \<Longrightarrow> companion_sound c \<Longrightarrow> storable B t (on_book demo (\<lambda>_. c) v)"
  by (simp add: on_book_def storable_set)

lemma storable_on_look:
  "storable B t v \<Longrightarrow> (\<And>a. valid_appearance a \<Longrightarrow> valid_appearance (f a)) \<Longrightarrow> storable B t (on_look f v)"
  by (simp add: on_look_def storable_set storable_parts)

lemma storable_on_battery:
  "storable B t v \<Longrightarrow> (\<And>b. storable_battery b \<Longrightarrow> storable_battery (f b)) \<Longrightarrow> storable B t (on_battery f v)"
  by (simp add: on_battery_def storable_set storable_parts)

lemma collection_ok: "storable B t v \<Longrightarrow> companion_sound (collection v)"
  by (simp add: collection_def storable_parts)

lemma storable_watch [simp]:
  "storable B t (update_tag_watch v) \<longleftrightarrow> storable B t v" "storable B t (open_tag_watch v) \<longleftrightarrow> storable B t v"
  "storable B t (fst (wake_display b v)) \<longleftrightarrow> storable B t v" "storable B t (preview_saver v) \<longleftrightarrow> storable B t v"
  "storable B t (open_actions d v) \<longleftrightarrow> storable B t v" "storable B t (follow_detection d v) \<longleftrightarrow> storable B t v"
  "storable B t (toggle_snooze v) \<longleftrightarrow> storable B t v" "storable B t (recheck_alert hmac v) \<longleftrightarrow> storable B t v"
  "storable B t (acknowledge i v) \<longleftrightarrow> storable B t v" "storable B t (tap_watch_progress xy v) \<longleftrightarrow> storable B t v"
  "storable B t (toggle_sniffing v) \<longleftrightarrow> storable B t v" "storable B t (show_details i v) \<longleftrightarrow> storable B t v"
  "storable B t (navigate xy v) \<longleftrightarrow> storable B t v" "storable B t (update_display v) \<longleftrightarrow> storable B t v"
  "storable B t (clamp_ignored_page v) \<longleftrightarrow> storable B t v" "storable B t (request_export v) \<longleftrightarrow> storable B t v"
  "storable B t (request_eject v) \<longleftrightarrow> storable B t v" "storable B t (view_observe ob b v) \<longleftrightarrow> storable B t v"
  by (simp_all add: update_tag_watch_def open_tag_watch_def wake_display_def preview_saver_def
      open_actions_def follow_detection_def toggle_snooze_def recheck_alert_def acknowledge_def upon_def
      tap_watch_progress_def toggle_sniffing_def show_details_def navigate_def update_display_def
      clamp_ignored_page_def request_export_def request_eject_def view_observe_def Let_def
      split: option.splits prod.splits)

section \<open>Handlers\<close>

lemma storable_ignored [simp]:
  assumes "storable B t v"
  shows "storable B t (ignore_watched hmac i v)" "storable B t (ignore_action hmac v)"
proof -
  have kept: "companion_sound (fst (ignore h c k))" if "companion_sound k" for h c k
    using that by (rule ignore_ok)
  show "storable B t (ignore_watched hmac i v)"
    using kept [OF collection_ok [OF assms]]
    by (auto simp: ignore_watched_def Let_def case_prod_unfold intro!: storable_on_collection assms)
  show "storable B t (ignore_action hmac v)"
    using kept storable_parts(3,4) [OF assms]
    by (auto simp: ignore_action_def Let_def case_prod_unfold intro!: storable_on_book assms)
qed

lemma storable_tap_watch_page [simp]: "storable B t v \<Longrightarrow> storable B t (tap_tag_watch hmac xy v)"
  by (auto simp: tap_tag_watch_def Let_def intro!: storable_upon split: option.split)

lemma storable_open_wardrobe [simp]: "storable B t v \<Longrightarrow> storable B t (open_wardrobe v)"
proof -
  assume v: "storable B t v"
  let ?w = "on_collection (\<lambda>c. fst (unlock (if v_demo v then v_preview_xp v else p_xp (v_pet v)) c)) v"
  have w: "storable B t ?w" using v unlock_ok by (rule storable_on_collection)
  then have "unat (co_equipped (collection ?w)) < outfit_count"
    using collection_ok [OF w] by (simp add: companion_sound_def)
  with w show ?thesis by (simp add: open_wardrobe_def Let_def storable_set)
qed

lemma cycle_bound:
  assumes "0 < n" "n \<le> 256"
  shows "uint (cycle n b) < n"
proof -
  have m: "0 \<le> (uint b + 1) mod n" "(uint b + 1) mod n < n" using assms by simp_all
  have "(uint b + 1) mod n mod 256 = (uint b + 1) mod n"
    by (rule mod_pos_pos_trivial) (use m assms in linarith)+
  with m show ?thesis by (simp add: cycle_def uint_word_of_int)
qed

lemma cycle3 [simp]: "cycle 3 b < 3"
  using cycle_bound [of 3 b] by (simp add: word_less_def)

lemma cycle2 [simp]: "cycle 2 b < 2"
  using cycle_bound [of 2 b] by (simp add: word_less_def)

lemma flip_bit0: "(b :: u8) < 2 \<Longrightarrow> b XOR 1 < 2"
proof -
  assume "b < 2"
  then have "unat b = unat (0 :: u8) \<or> unat b = unat (1 :: u8)" by (simp add: word_less_nat_alt less_2_cases_iff)
  then have "b = 0 \<or> b = 1" by (simp only: word_unat_eq_iff)
  then show ?thesis by auto
qed

lemma next_timeout_valid [simp]: "valid_timeout (next_timeout t)"
proof (cases "first_index (\<lambda>v. v = t) idle_timeouts")
  case (Some i)
  have "(i + 1) mod length idle_timeouts < length idle_timeouts" by (simp add: idle_timeouts_def)
  then have "idle_timeouts ! ((i + 1) mod length idle_timeouts) \<in> set idle_timeouts" by (rule nth_mem)
  then show ?thesis by (simp add: next_timeout_def Some valid_timeout_def list_ex_iff)
qed (simp add: next_timeout_def valid_timeout_def idle_timeouts_def)

lemma storable_look_taps [simp]:
  assumes "storable B t v"
  shows "storable B t (tap_idle_display xy v)" "storable B t (tap_appearance xy v)"
  using assms by (auto simp: tap_idle_display_def tap_appearance_def Let_def valid_appearance_def flip_bit0
      intro!: storable_upon storable_on_look)

text \<open>The brightness button: \<open>brighter\<close> is its step.\<close>

definition brighter :: "u8 \<Rightarrow> u8" where
  "brighter b = (if 100 \<le> b then 20 else b + 20)"

lemma storable_tap_display:
  "(\<And>b. B b \<Longrightarrow> B (brighter b)) \<Longrightarrow> storable B t v \<Longrightarrow> storable B t (tap_display xy v)"
  by (auto simp: tap_display_def Let_def brighter_def [symmetric] valid_appearance_def flip_bit0 storable_settings_def
      intro!: storable_upon storable_on_look storable_on_settings)

lemma storable_pages [simp]:
  assumes "storable B t v"
  shows "storable B t (tap_follow xy v)" "storable B t (tap_coverage xy v)" "storable B t (tap_scent_book xy v)"
    "storable B t (tap_scent_card xy v)" "storable B t (tap_ignore_backup xy v)" "storable B t (tap_alert_actions hmac xy v)"
    "storable B t (tap_clock xy v)" "storable B t (tap_self_test xy v)" "storable B t (tap_clear_warning xy v)"
    "storable B t (tap_details xy v)" "storable B t (tap_log xy v)" "storable B t (tap_diagnostics xy v)"
  using assms by (auto simp: tap_follow_def tap_coverage_def tap_scent_book_def tap_scent_card_def
      tap_ignore_backup_def tap_alert_actions_def tap_clock_def tap_self_test_def tap_clear_warning_def
      tap_details_def tap_log_def tap_diagnostics_def Let_def
      intro!: storable_upon storable_fold split: option.split)

lemma storable_tap_ignored [simp]: "storable B t v \<Longrightarrow> storable B t (tap_ignored xy v)"
  by (auto simp: tap_ignored_def Let_def intro!: storable_upon storable_fold storable_on_collection forget_ok)

lemma storable_tap_wardrobe [simp]: "storable B t v \<Longrightarrow> storable B t (tap_wardrobe xy v)"
  by (auto simp: tap_wardrobe_def Let_def outfit_count_def storable_set
      intro!: storable_upon storable_on_collection equip_ok dest: storable_parts(8))

section \<open>Settings\<close>

lemma word_of_nat_less: "i < n \<Longrightarrow> n \<le> 255 \<Longrightarrow> (word_of_nat i :: u8) < word_of_nat n"
  by (simp add: word_less_nat_alt unat_of_nat)

lemma category_mask: "i < category_count \<Longrightarrow> drop_bit category_count (2 ^ i) = (0 :: u32)"
  by (rule bit_word_eqI) (auto simp: bit_drop_bit_eq bit_exp_iff)

lemma ibeacon_mask: "drop_bit category_count (8192 :: u32) = 0"
  using category_mask [of "category_index IBEACON"] by (simp add: category_count_def)

definition name_char :: "char \<Rightarrow> bool" where
  "name_char c \<longleftrightarrow> \<not> (c \<noteq> CHR 0x00 \<and> ((of_char c :: nat) < 32 \<or> 126 < (of_char c :: nat)))"

lemma stored_name_chars: "stored_name_ok name \<longleftrightarrow> last name = CHR 0x00 \<and> list_all name_char name"
  unfolding stored_name_ok_def name_char_def by (rule refl)

lemma stored_name_set:
  assumes "stored_name_ok name" "length name = 13" "name_char c" "i = 12 \<longrightarrow> c = CHR 0x00"
  shows "stored_name_ok (name[i := c])"
proof -
  have last12: "last xs = xs ! 12" if "length xs = 13" for xs :: string
    using that by (subst last_conv_nth) auto
  have "name ! 12 = CHR 0x00" using assms(1,2) last12 [of name] by (simp only: stored_name_chars)
  then have "last (name[i := c]) = CHR 0x00"
    using assms(2,4) last12 [of "name[i := c]"] by (cases "i = 12") simp_all
  moreover have "set (name[i := c]) \<subseteq> insert c (set name)" by (rule set_update_subset_insert)
  ultimately show ?thesis using assms(1,3) unfolding stored_name_chars list_all_iff by blast
qed

lemma name_char_nul: "name_char (CHR 0x00)"
  by (simp add: name_char_def)

lemma keyboard_printable: "i < 30 \<Longrightarrow> name_char (''ABCDEFGHIJKLMNOPQRSTUVWXYZ0123'' ! i)"
proof -
  have "list_all name_char ''ABCDEFGHIJKLMNOPQRSTUVWXYZ0123''" by (simp add: name_char_def)
  moreover assume "i < 30"
  ultimately show ?thesis by (simp only: list_all_length) simp
qed

lemma storable_tap_name [simp]:
  assumes "storable B t v" shows "storable B t (tap_name xy v)"
proof -
  let ?n = "length (c_str (s_name (v_settings v)))"
  have typed: "storable B t (on_settings (\<lambda>s. s\<lparr>s_name := (s_name s)[?n := ''ABCDEFGHIJKLMNOPQRSTUVWXYZ0123'' ! i,
      ?n + 1 := CHR 0x00]\<rparr>) v)" if "i < 30" "?n < 12" for i
    using that assms keyboard_printable [of i]
    by (intro storable_on_settings) (auto simp: storable_settings_def intro!: stored_name_set name_char_nul)
  have rubbed: "storable B t (on_settings (\<lambda>s. s\<lparr>s_name := (s_name s)[?n - 1 := CHR 0x00]\<rparr>) v)"
    using assms by (intro storable_on_settings) (auto simp: storable_settings_def intro!: stored_name_set name_char_nul)
  show ?thesis using assms typed rubbed
    by (auto simp: tap_name_def Let_def upon_def find_Some_iff split: option.split)
qed

lemma storable_rotate [simp]:
  assumes "storable B t v" shows "storable B t (rotate_view v)"
proof -
  have "storable_settings B (v_settings v\<lparr>s_portrait := b\<rparr>)" for b
    using storable_parts(1) [OF assms] by (simp add: storable_settings_def)
  then show ?thesis using assms by (simp add: rotate_view_def Let_def storable_set)
qed

lemma storable_choices [simp]:
  assumes "storable B t v"
  shows "storable B t (tap_welcome xy v)" "storable B t (tap_choose xy v)" "storable B t (tap_privacy xy v)"
    "storable B t (tap_warning xy v)" "storable B t (toggle_detector i v)" "storable B t (toggle_alert i v)"
    "storable B t (settings_screen i v)" "storable B t (settings_choices i v)"
  using assms word_of_nat_less [of _ 6]
  by (auto simp: tap_welcome_def tap_choose_def tap_privacy_def tap_warning_def toggle_detector_def
      toggle_alert_def settings_screen_def settings_choices_def Let_def
      storable_settings_def category_mask ibeacon_mask drop_bit_xor find_Some_iff
      intro!: storable_upon storable_on_settings split: option.split)


section \<open>The whole interface\<close>

lemma storable_demo [simp]: "storable B t v \<Longrightarrow> storable B t (toggle_demo v)"
  by (auto simp: toggle_demo_def Let_def storable_set storable_parts intro!: storable_upon)

lemma storable_settings_pages [simp]:
  assumes "storable B t v"
  shows "storable B t (settings_controls i v)" "storable B t (settings_logging i v)" "storable B t (settings_tools i v)"
    "storable B t (settings_device i v)"
  using assms by (auto simp: settings_controls_def settings_logging_def settings_tools_def settings_device_def
      storable_settings_def intro!: storable_on_settings)

lemma storable_tap_settings [simp]: "storable B t v \<Longrightarrow> storable B t (tap_settings xy v)"
  by (auto simp: tap_settings_def Let_def split: option.split)

lemma storable_toggles [simp]:
  assumes "storable B t v" shows "storable B t (tap_detectors xy v)" "storable B t (tap_alerts xy v)"
  using assms by (auto simp: tap_detectors_def tap_alerts_def Let_def intro!: storable_upon storable_fold)

lemma storable_battery_default [simp]: "storable_battery battery_calibration0"
  by (simp add: storable_battery_def battery_calibration0_def)

lemma storable_battery_off [simp]: "storable_battery (b\<lparr>bc_enabled := False\<rparr>)"
  by (simp add: storable_battery_def)

lemma valid_battery_switch: "valid_battery (b\<lparr>bc_enabled := e\<rparr>) = valid_battery b"
  by (simp add: valid_battery_def)

lemma storable_battery_switch [simp]: "storable_battery (b\<lparr>bc_enabled := \<not> bc_enabled b \<and> valid_battery b\<rparr>)"
  by (simp add: storable_battery_def valid_battery_switch)

lemma storable_tap_battery [simp]: "storable B t v \<Longrightarrow> storable B t (tap_battery xy v)"
  by (auto simp: tap_battery_def Let_def intro!: storable_upon storable_on_battery)

lemma storable_pet_life [simp]:
  assumes "storable_pet p"
  shows "storable_pet (tick now p)" "storable_pet (feed d low p)" "storable_pet (stroke p)"
    "storable_pet (p\<lparr>p_decay_ms := now\<rparr>)"
    "storable_pet (p\<lparr>p_unique := u\<rparr>)"
proof -
  obtain c f m where d: "decay_needs now (p_decay_ms p, p_fullness p, p_mood p) = (c, f, m)"
    by (cases "decay_needs now (p_decay_ms p, p_fullness p, p_mood p)")
  from decay_needs_le [OF d] assms show "storable_pet (tick now p)"
    by (auto simp: tick_def d storable_pet_def intro: order_trans)
  show "storable_pet (feed d low p)"
  proof (cases rule: feed_cases [of d low p])
    case (fed f m)
    from nourish_bounds [OF fed(6)] fed show ?thesis by (simp add: storable_pet_def)
  qed (simp add: assms)
  have "uint (of_int (min 100 (uint (p_mood p) + 2)) :: u8) \<le> 100"
    by (simp add: uint_word_of_int_eq take_bit_int_eq_self)
  with assms show "storable_pet (stroke p)" by (simp add: stroke_def storable_pet_def word_le_def)
qed (use assms in \<open>simp_all add: storable_pet_def\<close>)

lemma storable_pet_new [simp]: "storable_pet (pet0\<lparr>p_decay_ms := now\<rparr>)"
  by (simp add: storable_pet_def pet0_def)

lemma storable_care [simp]:
  assumes "storable B t v"
  shows "storable B t (tick_pet v)" "storable B t (pet_dog v)" "storable B t (tap_home xy v)" "storable B t (reset_progress v)"
proof -
  show "storable B t (tick_pet v)" and dog: "storable B t (pet_dog v)"
    using assms by (simp_all add: tick_pet_def pet_dog_def Let_def storable_set storable_parts split: prod.split)
  show "storable B t (tap_home xy v)" using assms dog
    by (auto simp: tap_home_def Let_def upon_def split: prod.splits)
  have "storable B t (on_collection start_over v)"
    using assms start_over_ok by (rule storable_on_collection)
  then show "storable B t (reset_progress v)"
    by (simp add: reset_progress_def Let_def storable_set storable_parts)
qed

lemma storable_alerts [simp]:
  "storable B t (remember d v) \<longleftrightarrow> storable B t v" "storable B t (wake_for_alert v) \<longleftrightarrow> storable B t v"
  "storable B t (watch_event hmac d v) \<longleftrightarrow> storable B t v"
  by (simp_all add: remember_def wake_for_alert_def watch_event_def Let_def split: option.split)

lemma storable_alert_event [simp]: "storable B t (alert_event hmac d v) \<longleftrightarrow> storable B t v"
  by (simp add: alert_event_def)

lemma storable_meal_event [simp]: "storable B t (meal_event d v) \<longleftrightarrow> storable B t v"
  by (simp add: meal_event_def Let_def split: prod.split)

lemma storable_book_event:
  assumes w: "storable B t w" and score: "d_score d \<le> 100"
  shows "storable B t (book_event d w)"
proof -
  have seen: "storable B t (on_book (d_demo d) (observe_scent d) w)"
    using w observe_scent_ok [OF _ score] by (rule storable_on_book)
  have unlocked: "companion_sound (fst (unlock xp (if d_demo d then v_preview_companion u else v_companion u)))"
    if "storable B t u" for xp u
    using storable_parts(3,4) [OF that] by (simp add: unlock_ok)
  have marked: "storable B t (if c then u\<lparr>v_preview_xp := xp\<rparr> else u) \<longleftrightarrow> storable B t u"
      "storable B t (if c then u\<lparr>v_unlocked_outfit := i, v_unlock_until := x\<rparr> else u) \<longleftrightarrow> storable B t u"
      "storable B t (if c then ask Save u else u) \<longleftrightarrow> storable B t u"
      "storable B t (if c then u\<lparr>v_level_until := x\<rparr> else u) \<longleftrightarrow> storable B t u" for c u xp i x
    by simp_all
  show ?thesis unfolding book_event_def Let_def case_prod_unfold
    by (simp only: marked storable_update storable_on_book_const unlocked seen)
qed

lemma storable_event [simp]:
  "storable B t v \<Longrightarrow> storable B t (event hmac d v)"
  by (simp add: event_def storable_book_event not_less)

lemma storable_next_screen [simp]: "storable B t v \<Longrightarrow> storable B t (next_screen v)"
proof -
  assume v: "storable B t v"
  obtain w idle where d: "wake_display False v = (w, idle)" by (cases "wake_display False v")
  with v have "storable B t w" using storable_watch(3) [of B t False v] by simp
  then show ?thesis by (simp add: next_screen_def d Let_def)
qed

lemma storable_tap:
  assumes "\<And>b. B b \<Longrightarrow> B (brighter b)" and v: "storable B t v"
  shows "storable B t (tap hmac xy v)"
proof (rule tap_cases [where P = "storable B t"])
  let ?w = "fst (wake_display False v)"
  show "storable B t v" by fact
  show w: "storable B t ?w" using v by simp
  show "storable B t w'" if "tap_watch hmac xy ?w = Some w'" for w'
    using that w by (auto simp: tap_watch_def Let_def split: prod.splits if_splits)
  show "storable B t w'" if "tap_home_targets xy ?w = Some w'" for w'
    using that w by (auto simp: tap_home_targets_def Let_def split: if_splits)
  show "storable B t w'" if "tap_screen hmac xy ?w = Some w'" for w'
    using that w assms(1) by (auto simp: tap_screen_def storable_tap_display split: screen.splits)
  show "storable B t (tap_page xy ?w)"
    using w by (auto simp: tap_page_def split: screen.splits)
qed simp

lemma storable_start: "storable (\<lambda>b. b = 70) 0 view0"
  by (simp add: storable_def view0_def storable_settings_def settings0_def storable_pet_def pet0_def
      blank_companion_sound blank_appearance_valid all_categories_def category_count_def outfit_count_def
      stored_name_chars name_char_def list_all_iff)

end
