(* ===== verification/App.thy ===== *)
theory App
  imports Screens Engine State_Store
begin

text \<open>
  The main task (\<open>main/app_main.cpp\<close>): one frame of \<open>app_task\<close> and the start of \<open>app_main\<close>.  What
  it asks of the storage worker, the radio and the board is a list of effects, oldest first; the
  answer to the \<open>n\<close>-th effect is \<open>ok n\<close>.  Clock readings, received packets, the touch panel, the
  button and the health counters of the other tasks are the input of a frame.  The touch mapping of
  the board (\<open>float\<close> arithmetic) and the HMAC are parameters; drawing, the light
  and the panel are in \<open>Rendering\<close>, and the serial health line is left out.
\<close>

section \<open>State\<close>

datatype effect = Save_State state bool
  | Append detection string bool u8
  | Play nat
  | Radio_Start u8
  | Radio_Pause bool
  | Radio_Region u8
  | Clear_Files
  | Export_Files
  | Eject_Now
  | Sleep_Now state
  | Copy_Diagnostics u32
  | Orient bool
  | Invert_Panel bool

record app =
  a_view :: view
  a_engine :: engine
  a_meals :: meal_guard
  a_calibration :: calibration
  a_meal_key :: "u8 list"
  a_session_key :: "u8 list"
  a_boots :: u32
  a_reason :: u32
  a_saves :: save_retry
  a_real_pet :: pet
  a_radio_started :: bool
  a_calibrating :: bool
  a_was_touch :: bool
  a_was_button :: bool
  a_button_woke :: bool
  a_button_at :: u64
  a_demo_at :: u64
  a_last_touch :: u64
  a_last_diag :: u64
  a_points :: "(int \<times> int) list"
  a_step :: nat
  a_last_clears :: u32
  a_critical :: u32
  a_sleeping :: bool
  a_low_sound :: u64
  a_out :: "effect list"

definition on_view :: "(view \<Rightarrow> view) \<Rightarrow> app \<Rightarrow> app" where
  "on_view f a = a\<lparr>a_view := f (a_view a)\<rparr>"

definition tell :: "effect \<Rightarrow> app \<Rightarrow> app" where
  "tell e a = a\<lparr>a_out := a_out a @ [e]\<rparr>"

text \<open>The answer to the effect that is told next.\<close>

definition answer :: "(nat \<Rightarrow> bool) \<Rightarrow> app \<Rightarrow> bool" where
  "answer ok a = ok (length (a_out a))"

text \<open>
  The \<open>State\<close> that is handed to the storage.  Its settings and pet are the ones the view works on;
  the bytes of its boolean fields are 0 or 1.
\<close>

definition raw_of :: "settings \<Rightarrow> calibration \<Rightarrow> battery_calibration \<Rightarrow> u8 list" where
  "raw_of s c b = map of_bool [s_sound s, s_low_feeding s, s_reduced_animation s, s_research s, s_raw_ssid s,
     s_onboarded s, s_ibeacon_alerts s, ca_valid c, s_portrait s, s_rotation_locked s, bc_enabled b]"

definition state_of :: "app \<Rightarrow> state" where
  "state_of a = (let v = a_view a in
     \<lparr>t_version = 5, t_settings = v_settings v, t_pet = v_pet v, t_calibration = a_calibration a,
      t_recent = snapshot (v_now v) (a_meals a), t_meal_key = a_meal_key a, t_boots = a_boots a,
      t_reset_reason = a_reason a, t_battery = v_battery_cal v, t_companion = v_companion v,
      t_appearance = v_appearance v, t_raw = raw_of (v_settings v) (a_calibration a) (v_battery_cal v)\<rparr>)"

definition save :: "(nat \<Rightarrow> bool) \<Rightarrow> bool \<Rightarrow> app \<Rightarrow> app" where
  "save ok backup a =
     (if v_demo (a_view a) then a
      else let requested = (sr_backup_requested (a_saves a) \<or> backup);
               accepted = answer ok a;
               a = tell (Save_State (state_of a) requested) a;
               saves = save_result (v_now (a_view a)) accepted ((a_saves a)\<lparr>sr_backup_requested := requested\<rparr>)
           in on_view (\<lambda>v. (if requested then backup_queued accepted v else v)\<lparr>v_save_pending := sr_pending saves\<rparr>)
                (a\<lparr>a_saves := saves\<rparr>))"

definition begin_radio :: "(nat \<Rightarrow> bool) \<Rightarrow> app \<Rightarrow> app" where
  "begin_radio ok a =
     (if v_demo (a_view a) \<or> v_paused (a_view a) then a
      else let a = (if \<not> a_radio_started a
               then let started = answer ok a;
                        a = (tell (Radio_Start (s_region (v_settings (a_view a)))) a)\<lparr>a_radio_started := started\<rparr>
                    in if started then a else on_view (\<lambda>v. v\<lparr>v_notice := ''RADIO INIT FAILED''\<rparr>) a
               else a)
           in tell (Radio_Pause (\<not> a_radio_started a)) a)"

section \<open>Received packets\<close>

record packet =
  pk_wifi :: bool
  pk_bytes :: "u8 list"
  pk_ms :: u64
  pk_address :: address
  pk_address_type :: u8
  pk_channel :: u8
  pk_rssi :: int
  pk_clock :: u64

definition raw_observation :: "packet \<Rightarrow> observation" where
  "raw_observation r = observation0\<lparr>o_ms := pk_ms r, o_rssi := pk_rssi r, o_channel := pk_channel r,
     o_address := pk_address r, o_address_type := pk_address_type r\<rparr>"

definition detected :: "keyed_digest \<Rightarrow> (nat \<Rightarrow> bool) \<Rightarrow> detection \<Rightarrow> app \<Rightarrow> app" where
  "detected hmac ok d a =
     (let v = a_view a; s = v_settings v; d = d\<lparr>d_unix_seconds := utc_now v\<rparr>;
          (named, token) = private_token hmac (a_session_key a) d
      in if \<not> named then a
         else
           let (meals, meal) = (if d_category d \<noteq> IBEACON \<or> s_ibeacon_alerts s
                 then award (meal_hash hmac (a_meal_key a) d) (v_now v) (d_category d) (d_score d)
                        (s_low_feeding s) (a_meals a)
                 else (a_meals a, d_meal d));
               d = d\<lparr>d_meal := meal\<rparr>;
               p = (if d_seen_count d = 1 then (v_pet v)\<lparr>p_unique := p_unique (v_pet v) + 1\<rparr> else v_pet v);
               old_level = pet_level p;
               a = on_view (\<lambda>v. event hmac d (v\<lparr>v_pet := feed d (s_low_feeding s) p\<rparr>)) (a\<lparr>a_meals := meals\<rparr>);
               a = (if d_meal d then save ok False a else a);
               a = tell (Append d token (s_research (v_settings (a_view a))) (s_region (v_settings (a_view a)))) a
           in upon (s_sound (v_settings (a_view a)) \<and> alert_allowed hmac d (a_view a))
                (tell (Play (if old_level < pet_level (v_pet (a_view a)) then 2 else if d_meal d then 1 else 0))) a)"

definition hear :: "keyed_digest \<Rightarrow> (nat \<Rightarrow> bool) \<Rightarrow> packet \<Rightarrow> app \<Rightarrow> app" where
  "hear hmac ok r a =
     (if v_demo (a_view a) \<or> a_calibrating a \<or> v_paused (a_view a) then a
      else case (if pk_wifi r then parse_wifi (pk_bytes r) (raw_observation r)
                 else parse_ble (pk_bytes r) (raw_observation r)) of
          None \<Rightarrow> a
        | Some ob \<Rightarrow>
            let a = on_view (\<lambda>v. (view_observe ob False (v\<lparr>v_now := pk_clock r\<rparr>))
                  \<lparr>v_drones := drone_ingest ob (v_drones v)\<rparr>) a;
                (g, found) = ingest ob (v_settings (a_view a)) 4 (a_engine a)
            in fold (detected hmac ok) found (a\<lparr>a_engine := g\<rparr>))"

section \<open>Touch and button\<close>

definition calibration_targets :: "bool \<Rightarrow> (int \<times> int) list" where
  "calibration_targets portrait = map (\<lambda>i. let p = to_portrait (target_point i portrait) portrait
     in (pt_x p, pt_y p)) [0..<3]"

text \<open>
  \<open>solve\<close> is \<open>board::calibrate\<close> on the touched and the expected points, \<open>locate\<close> is \<open>board::map\<close>.
\<close>

record board =
  solve :: "(int \<times> int) list \<Rightarrow> (int \<times> int) list \<Rightarrow> calibration option"
  locate :: "int \<times> int \<Rightarrow> calibration \<Rightarrow> int \<times> int"

definition calibration_touch :: "board \<Rightarrow> (nat \<Rightarrow> bool) \<Rightarrow> int \<times> int \<Rightarrow> app \<Rightarrow> app" where
  "calibration_touch brd ok raw a =
     (let s = v_settings (a_view a);
          a = a\<lparr>a_points := (a_points a)[a_step a := raw], a_step := a_step a + 1\<rparr>
      in if a_step a \<noteq> 3 then a
         else case solve brd (a_points a) (calibration_targets (s_portrait s)) of
             None \<Rightarrow> a\<lparr>a_step := 0\<rparr>
           | Some c \<Rightarrow> upon (s_onboarded s) (begin_radio ok) (save ok False
               (on_view (goto (if s_onboarded s then Home else Welcome)) (a\<lparr>a_calibration := c, a_calibrating := False\<rparr>))))"

definition touched :: "keyed_digest \<Rightarrow> board \<Rightarrow> (nat \<Rightarrow> bool) \<Rightarrow> int \<times> int \<Rightarrow> app \<Rightarrow> app" where
  "touched hmac brd ok raw a =
     (if a_calibrating a then calibration_touch brd ok raw a
      else if ca_valid (a_calibration a)
        then let (x, y) = locate brd raw (a_calibration a);
                 p = from_portrait \<lparr>pt_x = x, pt_y = y\<rparr> (s_portrait (v_settings (a_view a)))
             in on_view (tap hmac (pt_x p, pt_y p)) a
      else upon (v_screen (a_view a) = Welcome) (on_view (\<lambda>v. goto Calibration (ask Calibrate
             (on_settings (\<lambda>s. s\<lparr>s_region := 0\<rparr>) v)))) a)"

definition touch_step :: "keyed_digest \<Rightarrow> board \<Rightarrow> (nat \<Rightarrow> bool) \<Rightarrow> (int \<times> int) option \<Rightarrow> app \<Rightarrow> app" where
  "touch_step hmac brd ok touch a =
     (case touch of
        None \<Rightarrow> a\<lparr>a_was_touch := False\<rparr>
      | Some raw \<Rightarrow>
          let was = a_was_touch a; now = v_now (a_view a);
              a = on_view (\<lambda>v. v\<lparr>v_touch := raw\<rparr>) a;
              a = upon (\<not> was \<and> 150 < now - a_last_touch a)
                    (\<lambda>a. touched hmac brd ok raw (a\<lparr>a_last_touch := now\<rparr>)) a;
              a = upon (was \<and> \<not> v_saver_preview (a_view a)) (on_view (\<lambda>v. fst (wake_display False v))) a
          in a\<lparr>a_was_touch := True\<rparr>)"

definition button_released :: "(nat \<Rightarrow> bool) \<Rightarrow> app \<Rightarrow> app" where
  "button_released ok a =
     (if 1000 \<le> v_now (a_view a) - a_button_at a
      then save ok False (on_view (on_settings (\<lambda>s. s\<lparr>s_sound := False\<rparr>)) a)
      else if v_screen (a_view a) = Welcome then on_view (\<lambda>v. goto Calibration (ask Calibrate v)) a
      else on_view next_screen a)"

definition button_step :: "(nat \<Rightarrow> bool) \<Rightarrow> bool \<Rightarrow> app \<Rightarrow> app" where
  "button_step ok button a =
     (let was = a_was_button a;
          a = upon (button \<and> \<not> was) (\<lambda>a. let (v, idle) = wake_display False (a_view a)
                in a\<lparr>a_button_at := v_now (a_view a), a_button_woke := idle, a_view := v\<rparr>) a;
          a = upon button (on_view (\<lambda>v. fst (wake_display False v))) a;
          a = upon (\<not> button \<and> was \<and> \<not> a_button_woke a) (button_released ok) a
      in a\<lparr>a_was_button := button\<rparr>)"

section \<open>Requests of the screens\<close>

definition serve_calibrate :: "app \<Rightarrow> app" where
  "serve_calibrate a = (on_view (\<lambda>v. v\<lparr>v_follow := follow_restart (v_now v) (v_follow v),
     v_tag_watch := watch_clear (v_tag_watch v)\<rparr>) (tell (Radio_Pause True) a))\<lparr>a_calibrating := True, a_step := 0\<rparr>"

definition serve_pause :: "(nat \<Rightarrow> bool) \<Rightarrow> app \<Rightarrow> app" where
  "serve_pause ok a = (if v_paused (a_view a) then tell (Radio_Pause True) a
     else if \<not> a_calibrating a then begin_radio ok a else a)"

definition serve_clear :: "(nat \<Rightarrow> bool) \<Rightarrow> app \<Rightarrow> app" where
  "serve_clear ok a = (if v_demo (a_view a) then a
     else upon (answer ok a) (on_view (\<lambda>v. v\<lparr>v_notice := ''LOG DELETE QUEUED''\<rparr>)) (tell Clear_Files a))"

definition serve_save :: "(nat \<Rightarrow> bool) \<Rightarrow> app \<Rightarrow> app" where
  "serve_save ok a = (let a = save ok False a in tell (Radio_Region (s_region (v_settings (a_view a)))) a)"

definition serve_export :: "(nat \<Rightarrow> bool) \<Rightarrow> app \<Rightarrow> app" where
  "serve_export ok a = (if v_demo (a_view a) then on_view (export_queued False) a
     else on_view (export_queued (answer ok a)) (tell Export_Files a))"

definition serve_eject :: "(nat \<Rightarrow> bool) \<Rightarrow> app \<Rightarrow> app" where
  "serve_eject ok a = (if v_demo (a_view a) then a
     else let a = save ok False a in on_view (eject_queued (answer ok a)) (tell Eject_Now a))"

definition serve_demo :: "(nat \<Rightarrow> bool) \<Rightarrow> app \<Rightarrow> app" where
  "serve_demo ok a =
     (let a = tell (Invert_Panel (ap_inverted (look (a_view a)) \<noteq> 0)) a;
          a = on_view (\<lambda>v. v\<lparr>v_follow := follow0\<rparr>) a;
          a = (if v_demo (a_view a)
               then tell (Radio_Pause True) (on_view (\<lambda>v. v\<lparr>v_preview_fullness := 70, v_preview_mood := 70,
                      v_preview_decay_ms := v_now v\<rparr>) (a\<lparr>a_real_pet := v_pet (a_view a)\<rparr>))
               else begin_radio ok (on_view (\<lambda>v. v\<lparr>v_pet := (a_real_pet a)\<lparr>p_decay_ms := v_now v\<rparr>\<rparr>) a))
      in on_view (\<lambda>v. v\<lparr>v_recent_count := 0, v_alert_until := 0, v_meal_until := 0\<rparr>) a)"

definition serve :: "(nat \<Rightarrow> bool) \<Rightarrow> app \<Rightarrow> app" where
  "serve ok a =
     (let wants = (\<lambda>r. v_requests (a_view a) AND request_bit r \<noteq> 0);
          a = on_view (\<lambda>v. v\<lparr>v_requests := 0\<rparr>) a;
          a = upon (wants Calibrate) serve_calibrate a;
          a = upon (wants Pause) (serve_pause ok) a;
          a = upon (wants ClearLogs) (serve_clear ok) a;
          a = upon (wants Rotate) (\<lambda>a. tell (Orient (s_portrait (v_settings (a_view a)))) a) a;
          a = upon (wants Invert) (\<lambda>a. tell (Invert_Panel (ap_inverted (look (a_view a)) \<noteq> 0)) a) a;
          a = upon (wants Start) (begin_radio ok) a;
          a = upon (wants Save) (serve_save ok) a;
          a = upon (wants BackupIgnores) (save ok True) a;
          a = upon (wants Export) (serve_export ok) a;
          a = upon (wants Eject) (serve_eject ok) a;
          a = upon (wants DiagnosticCopy) (\<lambda>a. tell (Copy_Diagnostics (a_reason a)) a) a;
          a = upon (wants Reset) (\<lambda>a. save ok False (on_view reset_progress a)) a
      in upon (wants Demo) (serve_demo ok) a)"

section \<open>Demonstration\<close>

definition demo_flipper :: rule where
  "demo_flipper = \<lparr>r_id = ''demo.flipper'', r_category = FLIPPER, r_kind = Protocol, r_value = ''synthetic'',
     r_score = 85, r_cap = 100, r_generic = False, r_label = ''Synthetic Flipper'',
     r_reason = ''DEMO: synthetic evidence only''\<rparr>"

definition demo_pineapple :: rule where
  "demo_pineapple = \<lparr>r_id = ''demo.pineapple'', r_category = PINEAPPLE, r_kind = Protocol,
     r_value = ''synthetic'', r_score = 65, r_cap = 79, r_generic = False, r_label = ''Synthetic Pineapple'',
     r_reason = ''DEMO: synthetic evidence only''\<rparr>"

definition demo_sighting :: "u64 \<Rightarrow> detection" where
  "demo_sighting now =
     (let c = (if (now div 8000) mod 2 \<noteq> 0 then FLIPPER else PINEAPPLE);
          rule = (if c = FLIPPER then demo_flipper else demo_pineapple)
      in detection0\<lparr>d_demo := True, d_meal := True, d_category := c,
           d_rules := (d_rules detection0)[0 := Some rule], d_rule_count := 1, d_score := r_score rule,
           d_seen_count := 1, d_address := [2, 0, 0, 0, 0, of_nat (category_index c) + 1],
           d_radio := (if c = PINEAPPLE then Wifi else Ble), d_first_ms := now, d_last_ms := now,
           d_rssi_sum := - 65, d_rssi_min := - 70, d_rssi_max := - 60\<rparr>)"

definition demo_step :: "keyed_digest \<Rightarrow> app \<Rightarrow> app" where
  "demo_step hmac a =
     (let v = a_view a; now = v_now v; d = demo_sighting now
      in if v_demo v \<and> \<not> v_paused v \<and> 8000 \<le> now - a_demo_at a
         then (on_view (\<lambda>v. event hmac d (view_observe (observation0\<lparr>o_address := d_address d,
                 o_radio := d_radio d, o_ms := now, o_rssi := - 65\<rparr>) True v)) a)\<lparr>a_demo_at := now\<rparr>
         else a)"

section \<open>Health and battery\<close>

text \<open>What the other tasks publish, as far as the model keeps it.\<close>

record health =
  h_free_heap :: u32
  h_scanning :: bool
  h_mounted :: bool
  h_ejected :: bool
  h_eject_failed :: bool
  h_failed :: bool
  h_manual_backups :: u32
  h_ignore_backup :: backup_status
  h_checking :: bool
  h_read_only :: bool
  h_exports :: u32
  h_export_rows :: u32
  h_clears :: u32
  h_sleep_failed :: bool

definition health_step :: "health \<Rightarrow> app \<Rightarrow> app" where
  "health_step h a =
     (let a = on_view (\<lambda>v.
            let v = (memory_status (h_free_heap h) v)\<lparr>v_scanning := h_scanning h, v_sd := h_mounted h \<and> \<not> h_ejected h\<rparr>;
                v = (eject_progress (h_ejected h) (h_eject_failed h) v)\<lparr>v_sd_error := h_failed h,
                      v_ignore_backup := h_ignore_backup h\<rparr>;
                v = (backup_progress (h_manual_backups h) v)\<lparr>v_sd_checking := h_checking h,
                      v_sd_read_only := h_read_only h\<rparr>;
                v = export_progress (h_exports h) (h_export_rows h) v
            in upon (v_sd_read_only v) (\<lambda>v. v\<lparr>v_notice := ''SD READ ONLY - CHECK LOGS ON COMPUTER''\<rparr>) v) a
      in upon (h_clears h \<noteq> a_last_clears a) (\<lambda>a. on_view (\<lambda>v. v\<lparr>v_recent_count := 0, v_log_page := 0,
           v_notice := ''SD LOGS DELETED''\<rparr>) (a\<lparr>a_last_clears := h_clears h\<rparr>)) a)"

definition notify :: "string \<Rightarrow> app \<Rightarrow> app" where
  "notify text = on_view (\<lambda>v. v\<lparr>v_notice := text\<rparr>)"

definition critical_battery :: "(nat \<Rightarrow> bool) \<Rightarrow> app \<Rightarrow> app" where
  "critical_battery ok a =
     (let a = tell (Radio_Pause True) (on_view (\<lambda>v. v\<lparr>v_paused := True\<rparr>) a);
          a = save ok False a;
          a = (tell (Sleep_Now (state_of a)) a)\<lparr>a_sleeping := answer ok a\<rparr>
      in notify ''CRITICAL BATTERY - SAVING AND SLEEPING'' a)"

definition battery_step :: "(nat \<Rightarrow> bool) \<Rightarrow> int \<Rightarrow> health \<Rightarrow> app \<Rightarrow> app" where
  "battery_step ok adc h a =
     (let now = v_now (a_view a)
      in if now - a_last_diag a < 2000 then a
         else
           let a = on_view (\<lambda>v. v\<lparr>v_battery_adc := adc\<rparr>) a; v = a_view a; b = v_battery_cal v;
               mv = (if bc_enabled b then battery_mv b adc else - 1);
               a = a\<lparr>a_critical := (if 0 \<le> mv \<and> mv \<le> 3300 then a_critical a + 1 else 0)\<rparr>;
               low = (\<not> v_demo v \<and> 0 \<le> mv \<and> mv < 3500);
               a = upon low (notify ''LOW BATTERY - CONNECT POWER'') a;
               a = upon (low \<and> s_sound (v_settings v) \<and> (a_low_sound a = 0 \<or> 60000 < now - a_low_sound a))
                     (\<lambda>a. (tell (Play 3) a)\<lparr>a_low_sound := now\<rparr>) a;
               a = upon (\<not> v_demo v \<and> 5 \<le> a_critical a \<and> \<not> a_sleeping a) (critical_battery ok) a;
               a = upon (h_sleep_failed h) (notify ''SD FLUSH FAILED - CONNECT POWER'') a
           in a\<lparr>a_last_diag := now\<rparr>)"

section \<open>One frame\<close>

record frame_input =
  fi_clock :: u64
  fi_packets :: "packet list"
  fi_touch :: "(int \<times> int) option"
  fi_button :: bool
  fi_battery :: int
  fi_health :: health

definition autosave :: "(nat \<Rightarrow> bool) \<Rightarrow> app \<Rightarrow> app" where
  "autosave ok a = upon (\<not> v_demo (a_view a) \<and> save_due (v_now (a_view a)) (a_saves a)) (save ok False) a"

text \<open>One pass of the loop of \<open>app_task\<close>, up to drawing.  At most 16 packets are taken per frame.\<close>

text \<open>The end of a frame: the display mode, and the first strip unless the panel is off.\<close>

definition show_view :: "view \<Rightarrow> view" where
  "show_view v = (let v = update_display v in if v_display_mode v = Display_Off then v else begin_frame v)"

definition app_frame :: "keyed_digest \<Rightarrow> board \<Rightarrow> (nat \<Rightarrow> bool) \<Rightarrow> app \<Rightarrow> frame_input \<Rightarrow> app" where
  "app_frame hmac brd ok a f =
     (let a = on_view (\<lambda>v. tick_pet (update_display (update_tag_watch (v\<lparr>v_now := fi_clock f\<rparr>)))) a;
          a = fold (hear hmac ok) (take 16 (fi_packets f)) a;
          a = touch_step hmac brd ok (fi_touch f) a;
          a = button_step ok (fi_button f) a;
          a = serve ok a;
          a = demo_step hmac a;
          a = autosave ok a;
          a = health_step (fi_health f) a;
          a = battery_step ok (fi_battery f) (fi_health f) a
      in on_view show_view a)"

section \<open>Start\<close>

text \<open>
  \<open>app_main\<close> after a successful load: \<open>s\<close> is the loaded state, \<open>key\<close> the random session key,
  \<open>storage_ok\<close> whether the storage task started and \<open>demo_build\<close> whether the image is the
  demonstration one.  A failed load never gets here: it shows an error and stops.
\<close>

definition app_init :: "rule list \<Rightarrow> u8 list \<Rightarrow> state \<Rightarrow> app" where
  "app_init rules key s =
     (let v = view0\<lparr>v_settings := t_settings s, v_pet := t_pet s, v_battery_cal := t_battery s,
            v_companion := fst (unlock (p_xp (t_pet s)) (t_companion s)), v_appearance := t_appearance s,
            v_preview_appearance := t_appearance s, v_identity_key := t_meal_key s,
            v_known_level := pet_level (t_pet s)\<rparr>
      in \<lparr>a_view = v, a_engine = engine0 rules, a_meals = restore (t_recent s) meal_guard0,
          a_calibration = t_calibration s, a_meal_key = t_meal_key s, a_session_key = key,
          a_boots = t_boots s, a_reason = t_reset_reason s, a_saves = save_retry0, a_real_pet = pet0,
          a_radio_started = False, a_calibrating = False, a_was_touch = False, a_was_button = False,
          a_button_woke = False, a_button_at = 0, a_demo_at = 0, a_last_touch = 0, a_last_diag = 0,
          a_points = replicate 3 (0, 0), a_step = 0, a_last_clears = 0, a_critical = 0, a_sleeping = False,
          a_low_sound = 0, a_out = []\<rparr>)"

definition app_start :: "(nat \<Rightarrow> bool) \<Rightarrow> rule list \<Rightarrow> u8 list \<Rightarrow> bool \<Rightarrow> bool \<Rightarrow> u64 \<Rightarrow> state \<Rightarrow> app" where
  "app_start ok rules key storage_ok demo_build clock s =
     (let a = app_init rules key s;
          a = tell (Invert_Panel (ap_inverted (look (a_view a)) \<noteq> 0)) a;
          a = tell (Orient (s_portrait (t_settings s))) a;
          a = upon (\<not> storage_ok) (notify ''STORAGE TASK FAILED / RESTART'') a;
          a = upon (\<not> demo_build) (save ok False) a;
          a = on_view (goto (if s_onboarded (t_settings s) then Home else Welcome)) a;
          a = upon (\<not> ca_valid (t_calibration s)) (\<lambda>a. on_view (goto Calibration) (a\<lparr>a_calibrating := True\<rparr>)) a;
          a = upon demo_build (\<lambda>a. on_view (\<lambda>v. v\<lparr>v_demo := True, v_screen := Home\<rparr>)
                (a\<lparr>a_real_pet := v_pet (a_view a)\<rparr>)) a;
          a = upon (s_onboarded (t_settings s) \<and> \<not> a_calibrating a) (begin_radio ok) a
      in on_view (\<lambda>v. fst (wake_display False (v\<lparr>v_now := clock\<rparr>))) a)"

section \<open>What is handed to the storage\<close>

text \<open>The brightness button starts from any stored value, 1 to 100, and never leaves 1 to 119.\<close>

definition bright :: "u8 \<Rightarrow> bool" where
  "bright b \<longleftrightarrow> b \<noteq> 0 \<and> b \<le> 119"

lemma bright_brighter: "bright b \<Longrightarrow> bright (brighter b)"
proof (cases "100 \<le> b")
  case False
  then have b: "unat b < 100" by (simp add: word_le_nat_alt not_le)
  then have "unat (b + 20) = unat b + 20" by (simp add: unat_word_ariths)
  with False b show ?thesis
    by (auto simp: bright_def brighter_def word_le_nat_alt dest: arg_cong [where f = unat])
qed (simp add: bright_def brighter_def)

text \<open>
  Accepted by the storage if and only if the brightness, the coefficients of the calibration and the dates are
  in range.
\<close>

definition in_range :: "state \<Rightarrow> bool" where
  "in_range s \<longleftrightarrow> s_brightness (t_settings s) \<le> 100 \<and> calibration_ok (t_calibration s) \<and>
     list_all (\<lambda>e. se_first_utc e \<le> latest_utc \<and> se_last_utc e \<le> latest_utc) (co_scents (t_companion s))"

definition savable :: "state \<Rightarrow> bool" where
  "savable s \<longleftrightarrow> (valid_current s \<longleftrightarrow> in_range s)"

definition effect_ok :: "effect \<Rightarrow> bool" where
  "effect_ok e = (case e of Save_State s b \<Rightarrow> savable s | Sleep_Now s \<Rightarrow> savable s | _ \<Rightarrow> True)"

definition guard_fresh :: "u64 \<Rightarrow> meal_guard \<Rightarrow> bool" where
  "guard_fresh now g \<longleftrightarrow> (\<forall>s \<in> set (mg_stamps g). unat (ms_remaining_ms s) \<le> unat now + 1800000)"

definition app_inv :: "u64 \<Rightarrow> app \<Rightarrow> bool" where
  "app_inv t a \<longleftrightarrow> storable bright t (a_view a) \<and>
     list_ex (\<lambda>b. b \<noteq> 0) (a_meal_key a) \<and> storable_pet (a_real_pet a) \<and> guard_fresh t (a_meals a) \<and>
     list_all effect_ok (a_out a)"

lemma raw_of_ok: "raw_ok (raw_of s c b)"
proof -
  have "\<not> (1 :: u8) < of_bool x" for x by (cases x) simp_all
  then show ?thesis by (simp add: raw_of_def)
qed

lemma snapshot_ok:
  assumes "guard_fresh now g" shows "stamps_ok (snapshot now g)"
proof -
  have "\<not> 1800000 < ms_remaining_ms s - now" if "s \<in> set (mg_stamps g)" "now < ms_remaining_ms s" for s
  proof -
    have "unat (ms_remaining_ms s) \<le> unat now + 1800000" using assms that by (simp add: guard_fresh_def)
    moreover have "unat (ms_remaining_ms s - now) = unat (ms_remaining_ms s) - unat now"
      using that(2) by (simp add: unat_sub)
    ultimately show ?thesis by (simp add: word_less_nat_alt)
  qed
  then show ?thesis
    by (auto simp: stamps_ok_def snapshot_def list_all_iff no_stamp_def dest!: in_set_takeD)
qed

lemma app_inv_view: "app_inv t a \<Longrightarrow> storable bright t v \<Longrightarrow> app_inv t (a\<lparr>a_view := v\<rparr>)"
  by (simp add: app_inv_def)

lemma app_inv_on_view:
  "app_inv t a \<Longrightarrow> (\<And>v. storable bright t v \<Longrightarrow> storable bright t (f v)) \<Longrightarrow> app_inv t (on_view f a)"
  by (simp add: app_inv_def on_view_def)

lemma app_inv_tell: "app_inv t a \<Longrightarrow> effect_ok e \<Longrightarrow> app_inv t (tell e a)"
  by (simp add: app_inv_def tell_def)

lemma app_inv_upon: "app_inv t a \<Longrightarrow> (c \<Longrightarrow> app_inv t (f a)) \<Longrightarrow> app_inv t (upon c f a)"
  by (simp add: upon_def)

text \<open>For chains of statements, where the state before is a long term.\<close>

lemma app_inv_then: "app_inv t a \<Longrightarrow> (\<And>b. app_inv t b \<Longrightarrow> app_inv t (f b)) \<Longrightarrow> app_inv t (upon c f a)"
  by (simp add: upon_def)

lemma app_inv_flags [simp]:
  "app_inv t (a\<lparr>a_engine := a0\<rparr>) \<longleftrightarrow> app_inv t a" "app_inv t (a\<lparr>a_saves := a1\<rparr>) \<longleftrightarrow> app_inv t a"
  "app_inv t (a\<lparr>a_radio_started := a2\<rparr>) \<longleftrightarrow> app_inv t a" "app_inv t (a\<lparr>a_calibrating := a3\<rparr>) \<longleftrightarrow> app_inv t a"
  "app_inv t (a\<lparr>a_was_touch := a4\<rparr>) \<longleftrightarrow> app_inv t a" "app_inv t (a\<lparr>a_was_button := a5\<rparr>) \<longleftrightarrow> app_inv t a"
  "app_inv t (a\<lparr>a_button_woke := a6\<rparr>) \<longleftrightarrow> app_inv t a" "app_inv t (a\<lparr>a_button_at := a7\<rparr>) \<longleftrightarrow> app_inv t a"
  "app_inv t (a\<lparr>a_demo_at := a8\<rparr>) \<longleftrightarrow> app_inv t a" "app_inv t (a\<lparr>a_last_touch := a9\<rparr>) \<longleftrightarrow> app_inv t a"
  "app_inv t (a\<lparr>a_last_diag := b0\<rparr>) \<longleftrightarrow> app_inv t a" "app_inv t (a\<lparr>a_points := b1\<rparr>) \<longleftrightarrow> app_inv t a"
  "app_inv t (a\<lparr>a_step := b2\<rparr>) \<longleftrightarrow> app_inv t a" "app_inv t (a\<lparr>a_last_clears := b3\<rparr>) \<longleftrightarrow> app_inv t a"
  "app_inv t (a\<lparr>a_critical := b4\<rparr>) \<longleftrightarrow> app_inv t a" "app_inv t (a\<lparr>a_sleeping := b5\<rparr>) \<longleftrightarrow> app_inv t a"
  "app_inv t (a\<lparr>a_low_sound := b6\<rparr>) \<longleftrightarrow> app_inv t a"
  by (simp_all add: app_inv_def)

lemma app_inv_view_of: "app_inv t a \<Longrightarrow> storable bright t (a_view a)"
  by (simp add: app_inv_def)

lemma state_of_savable:
  assumes "app_inv t a" shows "savable (state_of a)"
proof -
  let ?v = "a_view a"
  have v: "storable bright t ?v" using assms by (rule app_inv_view_of)
  have s: "storable_settings bright (v_settings ?v)" "storable_pet (v_pet ?v)" "companion_sound (v_companion ?v)"
      "valid_appearance (v_appearance ?v)" "storable_battery (v_battery_cal ?v)" "v_now ?v = t"
    using v by (simp_all add: storable_parts)
  have "raw_ok (raw_of x y z)" "raw_ok (take 8 (raw_of x y z))" "raw_ok (drop 8 (raw_of x y z))" for x y z
    by (simp_all add: raw_of_ok raw_ok_take raw_ok_drop)
  moreover have "stamps_ok (snapshot t (a_meals a))"
      "list_ex (\<lambda>b. b \<noteq> 0) (a_meal_key a)"
    using assms by (simp_all add: app_inv_def snapshot_ok)
  ultimately show ?thesis using s
    by (auto simp: savable_def in_range_def state_of_def Let_def valid_current_def valid_state_def valid_fields_def
        settings_shape_def storable_settings_def storable_pet_def storable_battery_def companion_sound_valid
        scents_dated_def bright_def not_less not_le)
qed

section \<open>Every part of a frame\<close>

lemma app_inv_save [intro]: "app_inv t a \<Longrightarrow> app_inv t (save ok b a)"
proof -
  assume a: "app_inv t a"
  have "effect_ok (Save_State (state_of a) r)" for r using a by (simp add: effect_ok_def state_of_savable)
  then show ?thesis using a
    by (auto simp: save_def Let_def backup_queued_def intro!: app_inv_on_view app_inv_tell)
qed

lemma app_inv_told [intro]:
  assumes "app_inv t a" "\<And>s b. e \<noteq> Save_State s b" "\<And>s. e \<noteq> Sleep_Now s"
  shows "app_inv t (tell e a)"
  using assms(1) by (rule app_inv_tell) (use assms(2,3) in \<open>simp add: effect_ok_def split: effect.split\<close>)

lemma app_inv_notify [intro]: "app_inv t a \<Longrightarrow> app_inv t (notify text a)"
  unfolding notify_def by (rule app_inv_on_view) simp_all

lemma app_inv_radio [intro]: "app_inv t a \<Longrightarrow> app_inv t (begin_radio ok a)"
  by (auto simp: begin_radio_def Let_def intro!: app_inv_on_view app_inv_told)

lemma app_inv_release [intro]: "app_inv t a \<Longrightarrow> app_inv t (button_released ok a)"
  by (auto simp: button_released_def storable_settings_def intro!: app_inv_on_view storable_on_settings)

lemma app_inv_button [intro]: "app_inv t a \<Longrightarrow> app_inv t (button_step ok b a)"
proof -
  assume a: "app_inv t a"
  have "app_inv t (let (v, idle) = wake_display False (a_view a)
      in a\<lparr>a_button_at := v_now (a_view a), a_button_woke := idle, a_view := v\<rparr>)"
    using a app_inv_view [of t "a\<lparr>a_button_at := v_now (a_view a), a_button_woke := snd (wake_display False (a_view a))\<rparr>"
        "fst (wake_display False (a_view a))"]
    by (simp add: case_prod_unfold app_inv_view_of Let_def)
  then show ?thesis using a
    by (auto simp: button_step_def Let_def intro!: app_inv_upon app_inv_on_view)
qed

lemma app_inv_serve_parts [intro]:
  assumes "app_inv t a"
  shows "app_inv t (serve_calibrate a)" "app_inv t (serve_pause ok a)" "app_inv t (serve_clear ok a)"
    "app_inv t (serve_save ok a)" "app_inv t (serve_export ok a)" "app_inv t (serve_eject ok a)"
  using assms by (auto simp: serve_calibrate_def serve_pause_def serve_clear_def serve_save_def serve_export_def
      serve_eject_def export_queued_def eject_queued_def Let_def
      intro!: app_inv_on_view app_inv_upon app_inv_save app_inv_told)

lemma app_inv_real_pet: "app_inv t a \<Longrightarrow> storable_pet p \<Longrightarrow> app_inv t (a\<lparr>a_real_pet := p\<rparr>)"
  by (simp add: app_inv_def)

lemma app_inv_serve_demo [intro]:
  assumes "app_inv t a" shows "app_inv t (serve_demo ok a)"
proof -
  have pet: "storable_pet (v_pet (a_view a))" "storable_pet ((a_real_pet a)\<lparr>p_decay_ms := now\<rparr>)" for now
    using assms storable_parts(2) [OF app_inv_view_of [OF assms]] by (simp_all add: app_inv_def)
  have opened: "app_inv t (on_view (\<lambda>v. v\<lparr>v_follow := follow0\<rparr>) (tell (Invert_Panel b) a))" for b
    using assms by (auto intro!: app_inv_on_view app_inv_told)
  have "a_view (on_view f (tell e a)) = f (a_view a)" "a_real_pet (on_view f (tell e a)) = a_real_pet a" for f e
    by (simp_all add: on_view_def tell_def)
  then show ?thesis using assms opened pet
    by (auto simp: serve_demo_def Let_def storable_set
        intro!: app_inv_radio app_inv_on_view app_inv_told app_inv_real_pet)
qed


lemma app_inv_serve [intro]: "app_inv t a \<Longrightarrow> app_inv t (serve ok a)"
proof -
  assume a: "app_inv t a"
  have reset: "app_inv t (save ok False (on_view reset_progress b))" if "app_inv t b" for b
    using that by (auto intro!: app_inv_on_view)
  have start: "app_inv t (on_view (\<lambda>v. v\<lparr>v_requests := 0\<rparr>) a)" using a by (rule app_inv_on_view) simp
  show ?thesis unfolding serve_def Let_def
    by (intro app_inv_then app_inv_serve_parts app_inv_serve_demo app_inv_radio app_inv_save reset start
        app_inv_told; assumption?) simp_all
qed

lemma demo_sighting_score: "d_score (demo_sighting now) \<le> 100"
  by (simp add: demo_sighting_def Let_def demo_flipper_def demo_pineapple_def)

lemma app_inv_demo [intro]: "app_inv t a \<Longrightarrow> app_inv t (demo_step hmac a)"
proof -
  assume a: "app_inv t a"
  have "app_inv t (on_view (\<lambda>v. event hmac (demo_sighting now) (view_observe ob True v)) a)" for now ob
    using a by (intro app_inv_on_view storable_event) simp_all
  then show ?thesis using a by (simp add: demo_step_def Let_def)
qed

lemma app_inv_autosave [intro]: "app_inv t a \<Longrightarrow> app_inv t (autosave ok a)"
  by (auto simp: autosave_def intro!: app_inv_upon)

lemma app_inv_health [intro]: "app_inv t a \<Longrightarrow> app_inv t (health_step h a)"
  by (auto simp: health_step_def Let_def upon_def memory_status_def eject_progress_def backup_progress_def
      export_progress_def intro!: app_inv_on_view)

lemma app_inv_critical: "app_inv t a \<Longrightarrow> app_inv t (critical_battery ok a)"
proof -
  assume a: "app_inv t a"
  let ?a = "save ok False (tell (Radio_Pause True) (on_view (\<lambda>v. v\<lparr>v_paused := True\<rparr>) a))"
  have b: "app_inv t ?a" using a by (intro app_inv_save app_inv_told app_inv_on_view) simp_all
  then have "effect_ok (Sleep_Now (state_of ?a))" by (simp add: effect_ok_def state_of_savable)
  with b show ?thesis by (auto simp: critical_battery_def Let_def intro!: app_inv_tell)
qed

lemma app_inv_battery [intro]:
  assumes "app_inv t a" shows "app_inv t (battery_step ok adc h a)"
proof (cases "v_now (a_view a) - a_last_diag a < 2000")
  case True
  with assms show ?thesis by (simp add: battery_step_def)
next
  case False
  then show ?thesis unfolding battery_step_def Let_def if_not_P [OF False]
    by (intro app_inv_flags [THEN iffD2] app_inv_then app_inv_notify app_inv_critical app_inv_on_view
        app_inv_told assms; assumption?) simp_all
qed

section \<open>Touch and packets\<close>

lemma app_inv_calibration_touch:
  assumes a: "app_inv t a"
  shows "app_inv t (calibration_touch brd ok raw a)"
proof (cases "solve brd ((a_points a)[a_step a := raw]) (calibration_targets (s_portrait (v_settings (a_view a))))")
  case None
  then show ?thesis using a by (cases "a_step a = 2") (simp_all add: calibration_touch_def Let_def)
next
  case (Some c)
  have new: "app_inv t (a\<lparr>a_points := ps, a_step := n, a_calibration := c, a_calibrating := False\<rparr>)"
    for ps n using a by (simp add: app_inv_def)
  show ?thesis
  proof (cases "a_step a = 2")
    case True
    with Some show ?thesis
      by (auto simp: calibration_touch_def Let_def intro!: app_inv_then app_inv_on_view new)
  qed (use a in \<open>simp add: calibration_touch_def Let_def\<close>)
qed

lemma app_inv_touched:
  assumes a: "app_inv t a"
  shows "app_inv t (touched hmac brd ok raw a)"
proof (cases "a_calibrating a")
  case True
  with assms show ?thesis by (simp add: touched_def app_inv_calibration_touch)
next
  case False
  then show ?thesis using a
    by (auto simp: touched_def storable_settings_def Let_def split: prod.split intro!: app_inv_upon app_inv_on_view
        storable_tap bright_brighter storable_on_settings)
qed

lemma app_inv_touch:
  assumes a: "app_inv t a"
  shows "app_inv t (touch_step hmac brd ok touch a)"
proof (cases touch)
  case (Some raw)
  let ?a = "on_view (\<lambda>v. v\<lparr>v_touch := raw\<rparr>) a"
  let ?b = "?a\<lparr>a_last_touch := v_now (a_view a)\<rparr>"
  have b: "app_inv t ?a" "app_inv t ?b" using a by (auto intro!: app_inv_on_view)
  have "app_inv t (upon (\<not> a_was_touch a \<and> 150 < v_now (a_view a) - a_last_touch ?a)
      (\<lambda>a'. touched hmac brd ok raw (a'\<lparr>a_last_touch := v_now (a_view a)\<rparr>)) ?a)"
    using b app_inv_touched [of t ?b hmac brd ok raw]
    by (auto simp: touch_step_def Some Let_def upon_def split: if_splits)
  then show ?thesis by (auto simp: touch_step_def Some Let_def intro!: app_inv_then app_inv_on_view)
qed (use a in \<open>simp add: touch_step_def\<close>)

lemma guard_fresh_award:
  assumes "guard_fresh now g"
  shows "guard_fresh now (fst (award h now c score low g))"
proof -
  have "unat (meal_cooldown c) \<le> 1800000" by (simp add: meal_cooldown_def)
  then have "unat (now + meal_cooldown c) \<le> unat now + 1800000"
    using mod_less_eq_dividend [of "unat now + unat (meal_cooldown c)" "2 ^ 64"] by (simp add: unat_word_ariths)
  then show ?thesis using assms
    by (auto simp: guard_fresh_def award_def dest!: set_update_subset_insert [THEN subsetD])
qed

lemma app_inv_meals: "app_inv t a \<Longrightarrow> guard_fresh t g \<Longrightarrow> app_inv t (a\<lparr>a_meals := g\<rparr>)"
  by (simp add: app_inv_def)

lemma app_inv_detected:
  assumes a: "app_inv t a"
  shows "app_inv t (detected hmac ok d a)"
proof -
  let ?v = "a_view a" and ?d = "d\<lparr>d_unix_seconds := utc_now (a_view a)\<rparr>"
  have v: "storable bright t ?v" using a by (rule app_inv_view_of)
  have fresh: "guard_fresh t (a_meals a)" and now: "v_now ?v = t"
    using a storable_parts(9) [OF v] by (simp_all add: app_inv_def)
  obtain meals meal where m: "(if d_category ?d \<noteq> IBEACON \<or> s_ibeacon_alerts (v_settings ?v)
      then award (meal_hash hmac (a_meal_key a) ?d) (v_now ?v) (d_category ?d) (d_score ?d)
             (s_low_feeding (v_settings ?v)) (a_meals a)
      else (a_meals a, d_meal ?d)) = (meals, meal)" by (metis surj_pair)
  have meals: "guard_fresh t meals"
    using m fresh guard_fresh_award [OF fresh] by (metis fst_conv now)
  obtain named token where p: "private_token hmac (a_session_key a) ?d = (named, token)" by (metis surj_pair)
  have ate: "app_inv t (on_view (\<lambda>v. event hmac (?d\<lparr>d_meal := meal\<rparr>)
      (v\<lparr>v_pet := feed (?d\<lparr>d_meal := meal\<rparr>) low pet\<rparr>)) (a\<lparr>a_meals := meals\<rparr>))"
    if "storable_pet pet" for low pet
    using that a meals by (intro app_inv_on_view app_inv_meals storable_event storable_set storable_pet_life) simp_all
  have pet: "storable_pet (if c then (v_pet ?v)\<lparr>p_unique := u\<rparr> else v_pet ?v)" for c u
    using storable_parts(2) [OF v] by simp
  have fine: "app_inv t (upon c (tell (Play n)) (tell (Append e token r g) (if k then save ok False b else b)))"
    if "app_inv t b" for c n e r g k b
    using that by (auto intro!: app_inv_then app_inv_told)
  show ?thesis
  proof (cases named)
    case True
    show ?thesis unfolding detected_def Let_def p prod.case m
      by (simp only: True not_True_eq_False if_False) (rule fine, rule ate, rule pet)
  qed (simp add: detected_def p Let_def a)
qed

section \<open>The clock of a frame\<close>

lemma storable_later: "storable bright t v \<Longrightarrow> storable bright u (v\<lparr>v_now := u\<rparr>)"
  by (simp add: storable_def)

lemma app_inv_later:
  assumes "app_inv t a" "t \<le> u" shows "app_inv u (on_view (\<lambda>v. v\<lparr>v_now := u\<rparr>) a)"
proof -
  have "unat t \<le> unat u" using assms(2) by (simp add: word_le_nat_alt)
  with assms(1) show ?thesis
    by (auto simp: app_inv_def on_view_def guard_fresh_def intro: storable_later order_trans)
qed

lemma app_inv_now: "app_inv t a \<Longrightarrow> v_now (a_view a) = t"
  by (simp add: app_inv_def storable_def)

lemma app_inv_all_detected: "app_inv t a \<Longrightarrow> app_inv t (fold (detected hmac ok) ds a)"
  by (induction ds arbitrary: a) (simp_all add: app_inv_detected)

lemma app_inv_hear:
  assumes a: "app_inv t a" and later: "t \<le> pk_clock r"
  shows "app_inv t (hear hmac ok r a) \<or> app_inv (pk_clock r) (hear hmac ok r a)"
proof (cases "v_demo (a_view a) \<or> a_calibrating a \<or> v_paused (a_view a)")
  case True
  with a show ?thesis by (auto simp: hear_def)
next
  case False
  let ?parsed = "if pk_wifi r then parse_wifi (pk_bytes r) (raw_observation r) else parse_ble (pk_bytes r) (raw_observation r)"
  show ?thesis
  proof (cases ?parsed)
    case None
    have "hear hmac ok r a = a" unfolding hear_def if_not_P [OF False] None option.case by (rule refl)
    with a show ?thesis by simp
  next
    case (Some ob)
    let ?now = "on_view (\<lambda>v. v\<lparr>v_now := pk_clock r\<rparr>) a"
    let ?seen = "on_view (\<lambda>v. (view_observe ob False v)\<lparr>v_drones := drone_ingest ob (v_drones v)\<rparr>) ?now"
    have merged: "on_view (\<lambda>v. (view_observe ob False (v\<lparr>v_now := pk_clock r\<rparr>))
        \<lparr>v_drones := drone_ingest ob (v_drones v)\<rparr>) a = ?seen" by (simp add: on_view_def)
    obtain g found where g: "ingest ob (v_settings (a_view ?seen)) 4 (a_engine ?seen) = (g, found)" by fastforce
    have inv: "app_inv (pk_clock r) (?seen\<lparr>a_engine := g\<rparr>)"
      using app_inv_later [OF a later] by (auto intro!: app_inv_on_view)
    have "hear hmac ok r a = fold (detected hmac ok) found (?seen\<lparr>a_engine := g\<rparr>)"
      unfolding hear_def if_not_P [OF False] Some option.case merged Let_def g prod.case by (rule refl)
    then show ?thesis using app_inv_all_detected [OF inv, of hmac ok found] by simp
  qed
qed

lemma app_inv_hear_all:
  assumes "app_inv t a" "sorted (t # map pk_clock rs)"
  shows "\<exists>u \<in> set (t # map pk_clock rs). app_inv u (fold (hear hmac ok) rs a)"
  using assms
proof (induction rs arbitrary: t a)
  case (Cons r rs)
  have "app_inv t (hear hmac ok r a) \<or> app_inv (pk_clock r) (hear hmac ok r a)"
    using Cons.prems by (intro app_inv_hear) simp_all
  then show ?case
  proof
    assume "app_inv t (hear hmac ok r a)"
    from Cons.IH [OF this] Cons.prems(2) show ?thesis by auto
  next
    assume "app_inv (pk_clock r) (hear hmac ok r a)"
    from Cons.IH [OF this] Cons.prems(2) show ?thesis by auto
  qed
qed simp

text \<open>What the property of a run assumes of its frames: the clock does not go back.\<close>

definition frame_clocks :: "frame_input \<Rightarrow> u64 list" where
  "frame_clocks f = fi_clock f # map pk_clock (take 16 (fi_packets f))"

lemma storable_show_view [simp]: "storable B t (show_view v) \<longleftrightarrow> storable B t v"
  by (simp add: show_view_def begin_frame_def Let_def)

lemma app_inv_frame:
  assumes a: "app_inv t a" and f: "sorted (t # frame_clocks f)"
  shows "\<exists>u \<in> set (frame_clocks f). app_inv u (app_frame hmac brd ok a f)"
proof -
  let ?woken = "on_view (\<lambda>v. tick_pet (update_display (update_tag_watch v))) (on_view (\<lambda>v. v\<lparr>v_now := fi_clock f\<rparr>) a)"
  let ?heard = "fold (hear hmac ok) (take 16 (fi_packets f)) ?woken"
  have merged: "on_view (\<lambda>v. tick_pet (update_display (update_tag_watch (v\<lparr>v_now := fi_clock f\<rparr>)))) a = ?woken"
    by (simp add: on_view_def)
  have eq: "app_frame hmac brd ok a f = on_view show_view (battery_step ok (fi_battery f) (fi_health f)
      (health_step (fi_health f) (autosave ok (demo_step hmac (serve ok (button_step ok (fi_button f)
        (touch_step hmac brd ok (fi_touch f) ?heard)))))))"
    unfolding app_frame_def Let_def merged by (rule refl)
  have clocks: "t \<le> fi_clock f" "sorted (fi_clock f # map pk_clock (take 16 (fi_packets f)))"
    using f by (simp_all add: frame_clocks_def)
  have woken: "app_inv (fi_clock f) ?woken"
    using app_inv_later [OF a clocks(1)] by (auto intro!: app_inv_on_view)
  from app_inv_hear_all [OF woken clocks(2)] obtain u where u: "u \<in> set (frame_clocks f)" "app_inv u ?heard"
    unfolding frame_clocks_def by blast
  from u(2) have "app_inv u (app_frame hmac brd ok a f)" unfolding eq
    by (intro app_inv_on_view app_inv_battery app_inv_health app_inv_autosave app_inv_demo app_inv_serve
        app_inv_button app_inv_touch) simp_all
  with u(1) show ?thesis by blast
qed

lemma app_inv_run:
  assumes "app_inv t a" "sorted (t # concat (map frame_clocks fs))"
  shows "\<exists>u. app_inv u (foldl (app_frame hmac brd ok) a fs)"
  using assms
proof (induction fs arbitrary: t a)
  case (Cons f fs)
  then obtain u where u: "u \<in> set (frame_clocks f)" "app_inv u (app_frame hmac brd ok a f)"
    using app_inv_frame [of t a f hmac brd ok] by (fastforce simp: sorted_append)
  then have "sorted (u # concat (map frame_clocks fs))" using Cons.prems(2) by (simp add: sorted_append)
  from Cons.IH [OF u(2) this] show ?case by simp
qed auto

lemma guard_fresh_restore: "guard_fresh 0 (restore stamps meal_guard0)"
  by (auto simp: guard_fresh_def restore_def Let_def no_stamp_def)

lemma app_inv_init:
  assumes s: "valid_current s" and shape: "length (s_name (t_settings s)) = 13" "companion_sound (t_companion s)"
  shows "app_inv 0 (app_init rules key s)"
proof -
  have fields: "s_brightness (t_settings s) \<le> 100" "s_brightness (t_settings s) \<noteq> 0"
      "storable_settings (\<lambda>b. True) (t_settings s)" "storable_pet (t_pet s)" "storable_battery (t_battery s)"
      "valid_appearance (t_appearance s)" "calibration_ok (t_calibration s)" "list_ex (\<lambda>b. b \<noteq> 0) (t_meal_key s)"
    using s shape by (auto simp: valid_current_def valid_state_def valid_fields_def settings_shape_def
        storable_settings_def storable_pet_def storable_battery_def not_less not_le)
  have "bright (s_brightness (t_settings s))"
    using fields(1,2) order_trans [of "s_brightness (t_settings s)" 100 119] by (simp add: bright_def not_less)
  with fields(3) have "storable_settings bright (t_settings s)" by (simp add: storable_settings_def)
  moreover have "storable_pet pet0" by (simp add: storable_pet_def pet0_def)
  ultimately show ?thesis using fields
    by (simp add: app_inv_def app_init_def Let_def storable_def view0_def guard_fresh_restore unlock_ok shape
        blank_companion_sound outfit_count_def)
qed

lemma app_inv_start:
  assumes "valid_current s" "length (s_name (t_settings s)) = 13" "companion_sound (t_companion s)"
  shows "app_inv clock (app_start ok rules key storage_ok demo_build clock s)"
proof -
  note start = app_inv_init [OF assms, of rules key]
  have "storable_pet (v_pet (a_view b))" if "app_inv 0 b" for b
    using storable_parts(2) [OF app_inv_view_of [OF that]] .
  then have demo: "app_inv 0 (on_view (\<lambda>v. v\<lparr>v_demo := True, v_screen := Home\<rparr>) (b\<lparr>a_real_pet := v_pet (a_view b)\<rparr>))"
    if "app_inv 0 b" for b using that by (auto intro!: app_inv_on_view app_inv_real_pet)
  have wake: "app_inv clock (on_view (\<lambda>v. fst (wake_display False (v\<lparr>v_now := clock\<rparr>))) b)" if "app_inv 0 b" for b
    using app_inv_later [OF that, of clock] app_inv_on_view [of clock "on_view (\<lambda>v. v\<lparr>v_now := clock\<rparr>) b"
        "\<lambda>v. fst (wake_display False v)"] by (simp add: on_view_def)
  show ?thesis unfolding app_start_def Let_def
    by (rule wake) (intro app_inv_then app_inv_on_view app_inv_notify app_inv_save app_inv_radio app_inv_told
        demo start app_inv_flags [THEN iffD2]; assumption?; simp)
qed

section \<open>Properties\<close>

text \<open>
  Property C26.  Whatever is received, touched and pressed, in any run of frames from a loaded state with a clock
  that does not go back, every state the main task hands to the storage, to be saved or before sleep,
  satisfies all that \<open>valid_current\<close> asks for, up to three things the code does not bound: it is valid if
  and only if the brightness is at most 100, the coefficients of the calibration are those
  the storage accepts, and the dates of the scents are before 2100.
\<close>

theorem app_saves_valid_states:
  assumes "valid_current s" and "length (s_name (t_settings s)) = 13" and "companion_ok (t_companion s)"
    and "sorted (clock # concat (map frame_clocks fs))"
  shows "list_all (\<lambda>e. case e of
       Save_State saved b \<Rightarrow> valid_current saved \<longleftrightarrow> in_range saved
     | Sleep_Now saved \<Rightarrow> valid_current saved \<longleftrightarrow> in_range saved
     | _ \<Rightarrow> True)
    (a_out (foldl (app_frame hmac brd ok) (app_start ok rules key storage_ok demo_build clock s) fs))"
proof -
  have "companion_sound (t_companion s)" using assms(3) by (simp add: companion_ok_iff)
  from app_inv_run [OF app_inv_start [OF assms(1,2) this] assms(4)]
  obtain u where "app_inv u (foldl (app_frame hmac brd ok) (app_start ok rules key storage_ok demo_build clock s) fs)"
    by blast
  then have "list_all effect_ok (a_out (foldl (app_frame hmac brd ok)
      (app_start ok rules key storage_ok demo_build clock s) fs))" by (simp add: app_inv_def)
  then show ?thesis unfolding effect_ok_def [abs_def] savable_def .
qed

text \<open>
  A state out of range does arise: from the default brightness of 70, two taps on the
  brightness row of the display page give 110, and the storage refuses every save until a third tap.
\<close>

definition display_page :: view where
  "display_page = view0\<lparr>v_screen := Display, v_settings := settings0\<lparr>s_onboarded := True\<rparr>\<rparr>"

lemma display_row_tap:
  assumes "v_screen v = Display" "v_display_mode v = Active" "\<not> s_portrait (v_settings v)"
  shows "tap hmac (30, 90) v = ask Save (on_settings (\<lambda>s. s\<lparr>s_brightness := brighter (s_brightness s)\<rparr>)
    (fst (wake_display False v)))"
  using assms by (simp add: tap_def tap_watch_def tap_home_targets_def tap_screen_def tap_display_def
      wake_display_def Let_def has_def l_row_def l_more_def mk_rect_def panel_width_def panel_height_def
      upon_def brighter_def)

lemma brightness_blocks_saving:
  "let once = tap hmac (30, 90) display_page; twice = tap hmac (30, 90) once
   in s_brightness (v_settings once) = 90 \<and> s_brightness (v_settings twice) = 110 \<and>
      (\<forall>s. t_settings s = v_settings twice \<longrightarrow> persist N L s (gen, n) = (False, gen, n))"
proof -
  let ?once = "tap hmac (30, 90) display_page"
  have once: "v_screen ?once = Display" "v_display_mode ?once = Active"
      "v_settings ?once = settings0\<lparr>s_onboarded := True, s_brightness := 90\<rparr>"
    by (simp_all add: display_row_tap display_page_def view0_def settings0_def wake_display_def ask_def
        on_settings_def brighter_def)
  have "s_brightness (v_settings (tap hmac (30, 90) ?once)) = 110"
    using once by (simp add: display_row_tap settings0_def ask_def on_settings_def brighter_def)
  then show ?thesis using once
    by (simp add: Let_def persist_def valid_current_def valid_state_def valid_fields_def settings_shape_def)
qed


text \<open>A first frame after the start: nothing heard, the panel is touched, the button is up.\<close>

definition example_board :: board where
  "example_board = \<lparr>solve = (\<lambda>touched shown. None), locate = (\<lambda>raw c. raw)\<rparr>"

definition example_frame :: frame_input where
  "example_frame = \<lparr>fi_clock = 9, fi_packets = [], fi_touch = None, fi_button = True, fi_battery = 0,
     fi_health = \<lparr>h_free_heap = 90000, h_scanning = False, h_mounted = True, h_ejected = False,
       h_eject_failed = False, h_failed = False, h_manual_backups = 0, h_ignore_backup = Backup_Saved,
       h_checking = False, h_read_only = False, h_exports = 0, h_export_rows = 0, h_clears = 0,
       h_sleep_failed = False\<rparr>\<rparr>"

definition example_app :: app where
  "example_app = app_start (\<lambda>n. True) [] [] True False 5 example_state"

lemma app_saves_valid_states_witness:
  "list_all effect_ok (a_out (app_frame example_hmac example_board (\<lambda>n. True) example_app example_frame)) \<and>
   (\<exists>saved b. Save_State saved b \<in> set (a_out example_app))"
proof
  have shape: "length (s_name (t_settings example_state)) = 13" "companion_ok (t_companion example_state)"
    by (simp_all add: example_state_def state0_def settings0_def blank_companion_ok)
  have run: "sorted (5 # concat (map frame_clocks [example_frame]))"
    by (simp add: frame_clocks_def example_frame_def)
  show "list_all effect_ok (a_out (app_frame example_hmac example_board (\<lambda>n. True) example_app example_frame))"
    unfolding example_app_def effect_ok_def [abs_def] savable_def
    using app_saves_valid_states [OF example_valid shape run]
    by (simp only: foldl.simps)
  show "\<exists>saved b. Save_State saved b \<in> set (a_out example_app)"
    by (simp add: example_app_def app_start_def app_init_def Let_def upon_def on_view_def tell_def save_def
        begin_radio_def view0_def notify_def example_state_def state0_def settings0_def calibration0_def)
qed

end
