(* ===== verification/Radio.thy ===== *)
theory Radio
  imports App
begin

text \<open>
  The radio task (\<open>radio.cpp\<close>).  The
  drivers' callbacks turn frames and advertisements into packets of a bounded queue that the main
  task empties; the scheduler alternates Wi-Fi channels and a Bluetooth window.  What the drivers
  answer during a cycle is its input.
\<close>

section \<open>Packets\<close>

record receiver =
  rd_queue :: "packet list"
  rd_wifi_seen :: u32
  rd_ble_seen :: u32
  rd_dropped :: u32
  rd_oversized :: u32
  rd_queue_high :: nat
  rd_errors :: u32
  rd_cycles :: u32
  rd_channel :: nat
  rd_region :: u8
  rd_ble_window :: bool
  rd_paused :: bool

definition radio0 :: "u8 \<Rightarrow> receiver" where
  "radio0 region = \<lparr>rd_queue = [], rd_wifi_seen = 0, rd_ble_seen = 0, rd_dropped = 0, rd_oversized = 0, rd_queue_high = 0,
     rd_errors = 0, rd_cycles = 0, rd_channel = 0, rd_region = region, rd_ble_window = False, rd_paused = False\<rparr>"

definition enqueue :: "packet \<Rightarrow> receiver \<Rightarrow> receiver" where
  "enqueue p r =
     (let r = (if length (rd_queue r) < 16 then r\<lparr>rd_queue := rd_queue r @ [p]\<rparr> else r\<lparr>rd_dropped := rd_dropped r + 1\<rparr>)
      in r\<lparr>rd_queue_high := max (rd_queue_high r) (length (rd_queue r))\<rparr>)"

text \<open>A frame as the driver hands it over; its length includes the checksum.\<close>

record frame =
  fr_management :: bool
  fr_length :: nat
  fr_channel :: u8
  fr_rssi :: int
  fr_payload :: "u8 list"

definition wifi_callback :: "u64 \<Rightarrow> frame \<Rightarrow> receiver \<Rightarrow> receiver" where
  "wifi_callback now f r =
     (if \<not> fr_management f \<or> rd_paused r then r
      else let r = r\<lparr>rd_wifi_seen := rd_wifi_seen r + 1\<rparr>
      in if fr_length f < 28 then r
         else let n = fr_length f - 4
         in if 512 < n then r\<lparr>rd_oversized := rd_oversized r + 1\<rparr>
            else enqueue \<lparr>pk_wifi = True, pk_bytes = take n (fr_payload f), pk_ms = now, pk_address = replicate 6 0,
                   pk_address_type = 0, pk_channel = fr_channel f, pk_rssi = fr_rssi f, pk_clock = 0\<rparr> r)"

record advert =
  ad_discovery :: bool
  ad_data :: "u8 list"
  ad_type :: u8
  ad_rssi :: int
  ad_address :: "u8 list"

definition gap_event :: "u64 \<Rightarrow> advert \<Rightarrow> receiver \<Rightarrow> receiver" where
  "gap_event now a r =
     (if \<not> ad_discovery a \<or> rd_paused r then r
      else let r = r\<lparr>rd_ble_seen := rd_ble_seen r + 1\<rparr>
      in if 31 < length (ad_data a) then r\<lparr>rd_oversized := rd_oversized r + 1\<rparr>
         else enqueue \<lparr>pk_wifi = False, pk_bytes = ad_data a, pk_ms = now, pk_address = rev (take 6 (ad_address a)),
                pk_address_type = ad_type a, pk_channel = 0, pk_rssi = ad_rssi a, pk_clock = 0\<rparr> r)"

text \<open>\<open>receive\<close>; the clock is the one the main task reads with the packet.\<close>

definition receive :: "u64 \<Rightarrow> receiver \<Rightarrow> packet option \<times> receiver" where
  "receive now r = (case rd_queue r of [] \<Rightarrow> (None, r) | p # ps \<Rightarrow> (Some (p\<lparr>pk_clock := now\<rparr>), r\<lparr>rd_queue := ps\<rparr>))"

definition pause_radio :: "bool \<Rightarrow> receiver \<Rightarrow> receiver" where
  "pause_radio paused r = r\<lparr>rd_paused := paused\<rparr>"

section \<open>The scheduler\<close>

text \<open>What the drivers answer, and when the main task pauses the radio, during one cycle.\<close>

record radio_answers =
  cy_country :: bool
  cy_promiscuous :: bool
  cy_channel :: "nat \<Rightarrow> bool"
  cy_paused :: "nat \<Rightarrow> bool"
  cy_pause_ble :: bool
  cy_discover :: bool
  cy_listening :: "nat \<Rightarrow> bool"
  cy_closing :: "nat \<Rightarrow> bool"

definition last_channel :: "u8 \<Rightarrow> nat" where
  "last_channel region = (if region = 0 then 11 else 13)"

definition radio_error :: "bool \<Rightarrow> receiver \<Rightarrow> receiver" where
  "radio_error ok r = (if ok then r else r\<lparr>rd_errors := rd_errors r + 1\<rparr>)"

function hop :: "radio_answers \<Rightarrow> nat \<Rightarrow> nat \<Rightarrow> receiver \<Rightarrow> nat list \<times> receiver" where
  "hop c final channel r =
     (if final < channel \<or> cy_paused c channel then ([], r)
      else let r = (radio_error (cy_channel c channel) r)\<lparr>rd_channel := channel\<rparr>; (rest, r) = hop c final (channel + 1) r
           in (channel # rest, r))"
  by pat_completeness auto
termination by (relation "measure (\<lambda>(c, final, channel, r). Suc final - channel)") auto

declare hop.simps [simp del]

text \<open>The waits of the Bluetooth window: how long it listened, and whether the discovery stopped.\<close>

function listen :: "nat \<Rightarrow> (nat \<Rightarrow> bool) \<Rightarrow> nat \<Rightarrow> nat" where
  "listen window busy waited =
     (if busy waited \<and> waited < window + 500 then listen window busy (waited + 50) else waited)"
  by pat_completeness auto
termination by (relation "measure (\<lambda>(window, busy, waited). window + 500 - waited)") auto

declare listen.simps [simp del]

definition still_active :: "(nat \<Rightarrow> bool) \<Rightarrow> bool" where
  "still_active closing \<longleftrightarrow> list_all closing [0..<11]"

definition ble_window :: "radio_answers \<Rightarrow> receiver \<Rightarrow> receiver" where
  "ble_window c r =
     (if cy_pause_ble c then r
      else (let r = r\<lparr>rd_ble_window := True\<rparr>;
                r = (if \<not> cy_discover c then radio_error False r
                     else if still_active (cy_closing c) then (radio_error False r)\<lparr>rd_paused := True\<rparr> else r)
            in r\<lparr>rd_ble_window := False\<rparr>))"

definition radio_cycle :: "radio_answers \<Rightarrow> receiver \<Rightarrow> nat list \<times> receiver" where
  "radio_cycle c r =
     (if rd_paused r then ([], r)
      else let r = radio_error (cy_promiscuous c) (radio_error (cy_country c) r);
               (channels, r) = hop c (last_channel (rd_region r)) 1 r;
               r = ble_window c (r\<lparr>rd_channel := 0\<rparr>)
           in (channels, r\<lparr>rd_cycles := rd_cycles r + 1\<rparr>))"

section \<open>Facts about the radio\<close>

datatype radio_event = On_Frame u64 frame | On_Advert u64 advert | On_Receive u64 | On_Pause bool | On_Cycle radio_answers

fun radio_step :: "receiver \<Rightarrow> radio_event \<Rightarrow> receiver" where
  "radio_step r (On_Frame now f) = wifi_callback now f r"
| "radio_step r (On_Advert now a) = gap_event now a r"
| "radio_step r (On_Receive now) = snd (receive now r)"
| "radio_step r (On_Pause b) = pause_radio b r"
| "radio_step r (On_Cycle c) = snd (radio_cycle c r)"

definition packet_ok :: "packet \<Rightarrow> bool" where
  "packet_ok p \<longleftrightarrow> (if pk_wifi p then 24 \<le> length (pk_bytes p) \<and> length (pk_bytes p) \<le> 512 else length (pk_bytes p) \<le> 31) \<and>
     length (pk_address p) = 6"

definition radio_ok :: "receiver \<Rightarrow> bool" where
  "radio_ok r \<longleftrightarrow> length (rd_queue r) \<le> 16 \<and> rd_queue_high r \<le> 16 \<and> list_all packet_ok (rd_queue r)"

text \<open>What the drivers promise: a payload as long as the frame says, a full address.\<close>

fun driver_ok :: "radio_event \<Rightarrow> bool" where
  "driver_ok (On_Frame now f) \<longleftrightarrow> fr_length f \<le> length (fr_payload f) + 4"
| "driver_ok (On_Advert now a) \<longleftrightarrow> length (ad_address a) = 6"
| "driver_ok _ \<longleftrightarrow> True"

lemma radio_ok_enqueue: "radio_ok r \<Longrightarrow> packet_ok p \<Longrightarrow> radio_ok (enqueue p r)"
  by (auto simp: radio_ok_def enqueue_def Let_def)

lemma radio_ok_update [simp]:
  "radio_ok (r\<lparr>rd_wifi_seen := n\<rparr>) = radio_ok r" "radio_ok (r\<lparr>rd_ble_seen := n\<rparr>) = radio_ok r"
  "radio_ok (r\<lparr>rd_oversized := n\<rparr>) = radio_ok r" "radio_ok (r\<lparr>rd_errors := n\<rparr>) = radio_ok r"
  "radio_ok (r\<lparr>rd_channel := k\<rparr>) = radio_ok r" "radio_ok (r\<lparr>rd_cycles := n\<rparr>) = radio_ok r"
  "radio_ok (r\<lparr>rd_ble_window := b\<rparr>) = radio_ok r" "radio_ok (r\<lparr>rd_paused := b\<rparr>) = radio_ok r"
  by (simp_all add: radio_ok_def)

lemma radio_ok_error [simp]: "radio_ok (radio_error b r) = radio_ok r"
  by (simp add: radio_error_def)

lemma hop_keeps: "radio_ok (snd (hop c final channel r)) = radio_ok r \<and> rd_region (snd (hop c final channel r)) = rd_region r"
proof (induction c final channel r rule: hop.induct)
  case (1 c final channel r)
  then show ?case by (subst (1 2) hop.simps) (auto simp: Let_def radio_error_def split: prod.split)
qed

lemma hop_channels: "channel \<le> Suc final \<Longrightarrow> \<exists>n \<le> Suc final. channel \<le> n \<and> fst (hop c final channel r) = [channel..<n]"
proof (induction c final channel r rule: hop.induct)
  case (1 c final channel r)
  show ?case
  proof (cases "final < channel \<or> cy_paused c channel")
    case True
    then show ?thesis using 1(2) by (subst hop.simps) (auto intro: exI [of _ channel])
  next
    case False
    define q where "q = (radio_error (cy_channel c channel) r)\<lparr>rd_channel := channel\<rparr>"
    obtain n where n: "n \<le> Suc final" "channel + 1 \<le> n" "fst (hop c final (channel + 1) q) = [channel + 1..<n]"
      using 1(1) [OF False q_def] False by auto
    have "fst (hop c final channel r) = channel # fst (hop c final (channel + 1) q)"
      using False by (subst hop.simps) (simp add: q_def [symmetric] Let_def split: prod.split)
    then show ?thesis using n by (auto simp: upt_conv_Cons intro!: exI [of _ n])
  qed
qed

text \<open>A cycle visits a prefix of the channels of the region, in order.\<close>

lemma cycle_channels: "\<exists>n \<le> Suc (last_channel (rd_region r)). fst (radio_cycle c r) = [1..<n]"
proof (cases "rd_paused r")
  case True
  then show ?thesis by (auto simp: radio_cycle_def intro: exI [of _ 0])
next
  case False
  define q where "q = radio_error (cy_promiscuous c) (radio_error (cy_country c) r)"
  have "rd_region q = rd_region r" by (simp add: q_def radio_error_def)
  with False hop_channels [of 1 "last_channel (rd_region q)" c q] show ?thesis
    by (auto simp: radio_cycle_def q_def [symmetric] Let_def last_channel_def split: prod.split)
qed

lemma listen_bound: "waited < window + 500 + 50 \<Longrightarrow> listen window busy waited < window + 550"
proof (induction window busy waited rule: listen.induct)
  case (1 window busy waited)
  then show ?case by (subst listen.simps) auto
qed

lemma radio_ok_ble [simp]: "radio_ok (ble_window c r) = radio_ok r"
  by (simp add: ble_window_def Let_def)

lemma radio_ok_cycle: "radio_ok r \<Longrightarrow> radio_ok (snd (radio_cycle c r))"
  using hop_keeps [of c "last_channel (rd_region r)" 1 "radio_error (cy_promiscuous c) (radio_error (cy_country c) r)"]
  by (auto simp: radio_cycle_def Let_def radio_error_def split: prod.splits)

lemma radio_step_ok: "radio_ok r \<Longrightarrow> driver_ok e \<Longrightarrow> radio_ok (radio_step r e)"
proof (cases e)
  case (On_Receive now)
  assume "radio_ok r"
  then show ?thesis using On_Receive by (cases "rd_queue r") (auto simp: receive_def radio_ok_def)
next
  case (On_Cycle c)
  assume "radio_ok r"
  then show ?thesis using On_Cycle radio_ok_cycle by simp
qed (auto simp: wifi_callback_def gap_event_def pause_radio_def packet_ok_def Let_def intro!: radio_ok_enqueue)

interpretation radio_machine: invariant_machine radio_step radio_ok driver_ok
  by unfold_locales (rule radio_step_ok)

end
