(* ===== verification/Board_Support.thy ===== *)
theory Board_Support
  imports Prelude
begin

text \<open>
  The logic of the board support (\<open>board.cpp\<close>): the touch sample, the commands sent to the panel, the
  brightness and the shape of a sound.  The buses and pins themselves are not modelled; what is
  written to the panel is a list of commands.
\<close>

section \<open>Touch\<close>

text \<open>Two bytes of a conversion: twelve bits above three unused ones.\<close>

definition conversion_value :: "u8 \<Rightarrow> u8 \<Rightarrow> u16" where
  "conversion_value high low = drop_bit 3 (push_bit 8 (ucast high) OR ucast low)"

text \<open>The median of five samples of each axis, while the pen is down and both are in range.\<close>

definition touch :: "bool \<Rightarrow> u16 list \<Rightarrow> u16 list \<Rightarrow> (int \<times> int) option" where
  "touch pen_up xs ys =
     (let x = sort xs ! 2; y = sort ys ! 2
      in if pen_up \<or> x < 100 \<or> 4000 < x \<or> y < 100 \<or> 4000 < y then None else Some (uint x, uint y))"

section \<open>The panel\<close>

datatype panel_command = Panel_Command u8 "u8 list"

definition inversion_commands :: "bool \<Rightarrow> panel_command list" where
  "inversion_commands enabled = [Panel_Command (if enabled then 0x21 else 0x20) []]"

definition orientation_commands :: "bool \<Rightarrow> panel_command list" where
  "orientation_commands portrait = [Panel_Command 0x36 [if portrait then 0x48 else 0x28]]"

definition power_commands :: "bool \<Rightarrow> panel_command list" where
  "power_commands on = [Panel_Command (if on then 0x29 else 0x28) []]"

definition swap_bytes :: "u16 \<Rightarrow> u16" where
  "swap_bytes p = push_bit 8 p OR drop_bit 8 p"

definition pixel_bytes :: "u16 \<Rightarrow> u8 list" where
  "pixel_bytes p = [ucast p, ucast (drop_bit 8 p)]"

definition byte_pair :: "int \<Rightarrow> u8 list" where
  "byte_pair n = [word_of_int (n div 256), word_of_int n]"

definition blit_commands :: "bool \<Rightarrow> int \<Rightarrow> int \<Rightarrow> u16 list \<Rightarrow> panel_command list" where
  "blit_commands portrait y height pixels =
     (let width = (if portrait then 320 else 480); screen_height = (if portrait then 480 else 320)
      in if y < 0 \<or> height \<le> 0 \<or> 16 < height \<or> screen_height < y + height \<or> int (length pixels) \<noteq> width * height then []
         else [Panel_Command 0x2a ([0, 0] @ byte_pair (width - 1)),
               Panel_Command 0x2b (byte_pair y @ byte_pair (y + height - 1)),
               Panel_Command 0x2c (concat (map (pixel_bytes \<circ> swap_bytes) pixels))])"

definition duty :: "nat \<Rightarrow> nat" where
  "duty percent = min percent 100 * 1023 div 100"

text \<open>The light is on when its pin is low.\<close>

definition led_levels :: "bool \<Rightarrow> bool \<Rightarrow> bool \<Rightarrow> bool list" where
  "led_levels r g b = [\<not> r, \<not> g, \<not> b]"

section \<open>Sound\<close>

definition sound_length :: "nat list" where
  "sound_length = [50, 80, 120, 150]"

definition sound_sample :: "nat \<Rightarrow> nat \<Rightarrow> int" where
  "sound_sample effect i =
     (let period = (if effect = 2 then (if i < 60 then 3 else 2) else if effect = 3 then 5 else 2);
          amplitude = (if i < 6 \<or> sound_length ! effect \<le> i + 6 then 3 else 8);
          amplitude = (if effect = 1 \<and> i div 20 mod 2 \<noteq> 0 then 0 else amplitude)
      in 128 + (if i div period mod 2 \<noteq> 0 then amplitude else - amplitude))"

text \<open>The levels written to the converter, the resting level last.\<close>

definition sound_wave :: "nat \<Rightarrow> int list" where
  "sound_wave effect = (let effect = min effect 3 in map (sound_sample effect) [0..<sound_length ! effect] @ [128])"

section \<open>Facts\<close>

lemma touch_range: "touch pen_up xs ys = Some (x, y) \<Longrightarrow> 100 \<le> x \<and> x \<le> 4000 \<and> 100 \<le> y \<and> y \<le> 4000"
  by (auto simp: touch_def Let_def word_less_def not_less split: if_splits)

text \<open>A bit-exact view of a pixel: the high byte is sent first.\<close>

lemma swapped_bytes: "pixel_bytes (swap_bytes p) = [ucast (drop_bit 8 p), ucast p]"
proof -
  have high: "\<not> bit p (k + 16)" for k using bit_imp_le_length [of p "k + 16"] by auto
  have "ucast (swap_bytes p) = (ucast (drop_bit 8 p) :: u8)"
    by (rule bit_word_eqI) (simp add: swap_bytes_def bit_ucast_iff bit_or_iff bit_push_bit_iff bit_drop_bit_eq)
  moreover have "ucast (drop_bit 8 (swap_bytes p)) = (ucast p :: u8)"
    by (rule bit_word_eqI) (simp add: swap_bytes_def bit_ucast_iff bit_or_iff bit_push_bit_iff bit_drop_bit_eq high add.commute)
  ultimately show ?thesis by (simp add: pixel_bytes_def)
qed

text \<open>Three samples that agree on a range decide the median: two stray samples do not move it.\<close>

lemma median_robust:
  fixes xs :: "u16 list"
  assumes "length xs = 5" and "3 \<le> length (filter (\<lambda>x. a \<le> x \<and> x \<le> b) xs)"
  shows "a \<le> sort xs ! 2 \<and> sort xs ! 2 \<le> b"
proof -
  define ys where "ys = sort xs"
  have ys: "sorted ys" "length ys = 5" using assms(1) by (simp_all add: ys_def)
  have count: "length (filter P ys) = length (filter P xs)" for P
    by (metis filter_sort length_sort ys_def)
  have three: "3 \<le> length (filter (\<lambda>x. a \<le> x \<and> x \<le> b) ys)" using assms(2) count by simp
  obtain p q r s t where list: "ys = [p, q, r, s, t]" using ys(2)
    by (auto simp: numeral_eq_Suc length_Suc_conv)
  have order: "p \<le> q" "q \<le> r" "r \<le> s" "s \<le> t" using ys(1) by (simp_all add: list)
  have "a \<le> r"
  proof (rule ccontr)
    assume "\<not> a \<le> r"
    then have "\<not> a \<le> p" "\<not> a \<le> q" "\<not> a \<le> r" using order by auto
    with three show False by (auto simp: list split: if_splits)
  qed
  moreover have "r \<le> b"
  proof (rule ccontr)
    assume "\<not> r \<le> b"
    then have "\<not> r \<le> b" "\<not> s \<le> b" "\<not> t \<le> b" using order by auto
    with three show False by (auto simp: list split: if_splits)
  qed
  ultimately show ?thesis by (simp add: ys_def [symmetric] list)
qed

lemma duty_range: "duty percent \<le> 1023"
  by (simp add: duty_def div_le_mono [of _ "102300" 100, simplified])

lemma sound_sample_range: "120 \<le> sound_sample effect i \<and> sound_sample effect i \<le> 136"
proof -
  have "120 \<le> 128 + (if A then a else - a) \<and> 128 + (if A then a else - a) \<le> 136"
    if "a = (if B then 0 else if C then 3 else 8)" for A B C and a :: int using that by simp
  then show ?thesis unfolding sound_sample_def Let_def by blast
qed

lemma sound_range: "s \<in> set (sound_wave effect) \<Longrightarrow> 120 \<le> s \<and> s \<le> 136"
  unfolding sound_wave_def Let_def using sound_sample_range by fastforce

end
