(* ===== verification/Canvas.thy ===== *)
theory Canvas
  imports Taps
begin

text \<open>
  The drawing surface of the screen (class \<open>Canvas\<close> of \<open>ui.cpp\<close>).  A frame is drawn strip by strip
  into a small span of pixels, so every operation clips to the strip of its canvas.  A write outside the
  span, or a read outside a table of the sprites, sets \<open>cn_overrun\<close>.  Coordinates are unbounded integers.
\<close>

section \<open>Colours and letters\<close>

definition bg :: u16 where "bg = 0x0863"
definition panel :: u16 where "panel = 0x18C6"
definition ink :: u16 where "ink = 0xF7BF"
definition muted :: u16 where "muted = 0xA4F7"
definition mint :: u16 where "mint = 0x3F1C"
definition amber :: u16 where "amber = 0xFE6B"
definition pink :: u16 where "pink = 0xFBB6"
definition grid :: u16 where "grid = 0x312B"

definition font :: "nat list list" where
  "font = [
    [14, 17, 17, 31, 17, 17, 17], [30, 17, 17, 30, 17, 17, 30], [14, 17, 16, 16, 16, 17, 14],
    [30, 17, 17, 17, 17, 17, 30], [31, 16, 16, 30, 16, 16, 31], [31, 16, 16, 30, 16, 16, 16],
    [14, 17, 16, 23, 17, 17, 15], [17, 17, 17, 31, 17, 17, 17], [31, 4, 4, 4, 4, 4, 31],
    [7, 2, 2, 2, 18, 18, 12], [17, 18, 20, 24, 20, 18, 17], [16, 16, 16, 16, 16, 16, 31],
    [17, 27, 21, 21, 17, 17, 17], [17, 25, 25, 21, 19, 19, 17], [14, 17, 17, 17, 17, 17, 14],
    [30, 17, 17, 30, 16, 16, 16], [14, 17, 17, 17, 21, 18, 13], [30, 17, 17, 30, 20, 18, 17],
    [15, 16, 16, 14, 1, 1, 30], [31, 4, 4, 4, 4, 4, 4], [17, 17, 17, 17, 17, 17, 14],
    [17, 17, 17, 17, 17, 10, 4], [17, 17, 17, 21, 21, 27, 17], [17, 17, 10, 4, 10, 17, 17],
    [17, 17, 10, 4, 4, 4, 4], [31, 1, 2, 4, 8, 16, 31], [14, 17, 19, 21, 25, 17, 14],
    [4, 12, 4, 4, 4, 4, 14], [14, 17, 1, 2, 4, 8, 31], [30, 1, 1, 14, 1, 1, 30],
    [2, 6, 10, 18, 31, 2, 2], [31, 16, 16, 30, 1, 1, 30], [14, 16, 16, 30, 17, 17, 14],
    [31, 1, 2, 4, 8, 8, 8], [14, 17, 17, 14, 17, 17, 14], [14, 17, 17, 15, 1, 1, 14],
    [0, 0, 0, 31, 0, 0, 0], [0, 4, 4, 0, 4, 4, 0], [0, 0, 0, 0, 0, 4, 4],
    [0, 1, 2, 4, 8, 16, 0], [14, 17, 1, 2, 4, 0, 4], [4, 4, 4, 4, 4, 0, 4],
    [0, 0, 0, 0, 0, 0, 0]]"

text \<open>\<open>std::toupper\<close> in the C locale, on the code of a character.\<close>

definition upper_code :: "char \<Rightarrow> nat" where
  "upper_code c = (let n = of_char c in if 97 \<le> n \<and> n \<le> 122 then n - 32 else n)"

definition glyph :: "char \<Rightarrow> nat" where
  "glyph ch = (let c = upper_code ch
     in if 65 \<le> c \<and> c \<le> 90 then c - 65
        else if 48 \<le> c \<and> c \<le> 57 then c - 48 + 26
        else if c = of_char (CHR ''-'') then 36
        else if c = of_char (CHR '':'') then 37
        else if c = of_char (CHR ''.'') then 38
        else if c = of_char (CHR ''/'') then 39
        else if c = of_char (CHR ''?'') then 40
        else if c = of_char (CHR ''!'') then 41
        else 42)"

section \<open>The canvas\<close>

record canvas =
  cn_tile :: int
  cn_width :: int
  cn_height :: int
  cn_rows :: int
  cn_pixels :: "u16 list"
  cn_theme :: u8
  cn_red_warning :: bool
  cn_overrun :: bool

type_synonym drawing = "canvas \<Rightarrow> canvas"

definition palette_source :: "u16 list" where
  "palette_source = [bg, panel, ink, muted, mint, amber, pink, grid]"

definition theme_palettes :: "u16 list list" where
  "theme_palettes = [
     [bg, panel, ink, muted, mint, amber, pink, grid],
     [0x18A4, 0x2907, 0xFF9B, 0xC594, 0xFDCA, 0xFF14, 0xFCB6, 0x51AB],
     [0xEF7C, 0xFFFF, 0x1926, 0x4ACD, 0x03AD, 0x9B40, 0xA1AA, 0xC638]]"

definition shade :: "canvas \<Rightarrow> u16 \<Rightarrow> u16" where
  "shade cv col =
     (if cn_red_warning cv
      then if col = bg then 0x7800 else if col = panel then 0x4000 else if col = grid then 0xB000 else col
      else if cn_theme cv = 0 then col
      else case map_of (zip palette_source (theme_palettes ! min (unat (cn_theme cv)) 2)) col of
             Some c \<Rightarrow> c | None \<Rightarrow> col)"

definition put_pixel :: "int \<Rightarrow> u16 \<Rightarrow> drawing" where
  "put_pixel i col cv = (if 0 \<le> i \<and> i < int (length (cn_pixels cv)) then cv\<lparr>cn_pixels := (cn_pixels cv)[nat i := col]\<rparr>
     else cv\<lparr>cn_overrun := True\<rparr>)"

definition draw_rect :: "int \<Rightarrow> int \<Rightarrow> int \<Rightarrow> int \<Rightarrow> u16 \<Rightarrow> drawing" where
  "draw_rect x y w h col cv =
     (let c = shade cv col;
          bottom = min (min (y + h) (cn_tile cv + cn_rows cv)) (cn_height cv);
          right = min (cn_width cv) (x + w);
          tile = cn_tile cv; width = cn_width cv
      in fold (\<lambda>yy. fold (\<lambda>xx. put_pixel ((yy - tile) * width + xx) c) [max 0 x..right - 1])
           [max y tile..bottom - 1] cv)"

section \<open>Text, boxes and lines\<close>

definition draw_glyph :: "int \<Rightarrow> int \<Rightarrow> char \<Rightarrow> u16 \<Rightarrow> int \<Rightarrow> drawing" where
  "draw_glyph x y ch col scale =
     (let rows = font ! glyph ch
      in fold (\<lambda>yy. fold (\<lambda>xx cv.
           if (rows ! yy) AND 2 ^ (4 - xx) \<noteq> 0
           then draw_rect (x + int xx * scale) (y + int yy * scale) scale scale col cv else cv) [0..<5]) [0..<7])"

primrec draw_text :: "int \<Rightarrow> int \<Rightarrow> string \<Rightarrow> u16 \<Rightarrow> int \<Rightarrow> drawing" where
  "draw_text x y [] col scale cv = cv"
| "draw_text x y (ch # str) col scale cv = draw_text (x + 6 * scale) y str col scale (draw_glyph x y ch col scale cv)"

text \<open>\<open>find_last_of(' ')\<close>, and the number of characters that \<open>wrap\<close> puts on its next line.\<close>

definition last_space :: "string \<Rightarrow> nat option" where
  "last_space str = (case filter (\<lambda>i. str ! i = CHR '' '') [0..<length str] of [] \<Rightarrow> None | is \<Rightarrow> Some (last is))"

definition line_length :: "nat \<Rightarrow> string \<Rightarrow> nat" where
  "line_length width str =
     (let n = min width (length str)
      in if n < length str
         then (case last_space (take n str) of Some i \<Rightarrow> if i \<noteq> 0 then i else n | None \<Rightarrow> n)
         else n)"

primrec wrap_lines :: "nat \<Rightarrow> nat \<Rightarrow> string \<Rightarrow> string list" where
  "wrap_lines 0 width str = []"
| "wrap_lines (Suc max_lines) width str =
     (if str = [] then []
      else let n = line_length width str
           in take n str # wrap_lines max_lines width (dropWhile (\<lambda>c. c = CHR '' '') (drop n str)))"

definition draw_wrap :: "int \<Rightarrow> int \<Rightarrow> string \<Rightarrow> nat \<Rightarrow> u16 \<Rightarrow> int \<Rightarrow> nat \<Rightarrow> drawing" where
  "draw_wrap x y str width col scale max_lines =
     (let lines = wrap_lines max_lines width str
      in fold (\<lambda>i. draw_text x (y + int i * (11 * scale)) (lines ! i) col scale) [0..<length lines])"

definition draw_box :: "int \<Rightarrow> int \<Rightarrow> int \<Rightarrow> int \<Rightarrow> u16 \<Rightarrow> drawing" where
  "draw_box x y w h edge cv = draw_rect (x + 1) (y + 1) (w - 2) (h - 2) panel (draw_rect x y w h edge cv)"

definition label_scale :: "string \<Rightarrow> int \<Rightarrow> int" where
  "label_scale label w = (if int (length label) * 12 + 20 \<le> w then 2 else 1)"

definition draw_button :: "rect \<Rightarrow> string \<Rightarrow> bool \<Rightarrow> drawing" where
  "draw_button r label active cv =
     (let scale = label_scale label (rc_w r)
      in draw_text (rc_x r + c_div (rc_w r - int (length label) * 6 * scale) 2)
           (rc_y r + c_div (rc_h r - 7 * scale) 2) label (if active then mint else ink) scale
           (draw_box (rc_x r) (rc_y r) (rc_w r) (rc_h r) (if active then mint else grid) cv))"

text \<open>
  The points of a line, one per round of the loop; \<open>None\<close> would mean that the loop does not end, and
  \<open>line_points_ends\<close> shows that it always does.
\<close>

partial_function (option) line_points ::
  "int \<Rightarrow> int \<Rightarrow> int \<Rightarrow> int \<Rightarrow> int \<Rightarrow> int \<Rightarrow> int \<Rightarrow> int \<Rightarrow> int \<Rightarrow> (int \<times> int) list option" where
  "line_points x1 y1 dx sx dy sy error x0 y0 =
     (if x0 = x1 \<and> y0 = y1 then Some [(x0, y0)]
      else let e = 2 * error
           in Option.bind
                (line_points x1 y1 dx sx dy sy
                  (error + (if dy \<le> e then dy else 0) + (if e \<le> dx then dx else 0))
                  (if dy \<le> e then x0 + sx else x0) (if e \<le> dx then y0 + sy else y0))
                (\<lambda>ps. Some ((x0, y0) # ps)))"

definition line_path :: "int \<Rightarrow> int \<Rightarrow> int \<Rightarrow> int \<Rightarrow> (int \<times> int) list option" where
  "line_path x0 y0 x1 y1 =
     (let dx = \<bar>x1 - x0\<bar>; sx = (if x0 < x1 then 1 else - 1);
          dy = - \<bar>y1 - y0\<bar>; sy = (if y0 < y1 then 1 else - 1)
      in line_points x1 y1 dx sx dy sy (dx + dy) x0 y0)"

definition draw_line :: "int \<Rightarrow> int \<Rightarrow> int \<Rightarrow> int \<Rightarrow> u16 \<Rightarrow> drawing" where
  "draw_line x0 y0 x1 y1 col = fold (\<lambda>(x, y). draw_rect x y 1 1 col) (the (line_path x0 y0 x1 y1))"

section \<open>Sprites\<close>

text \<open>
  The generated pictures: for each of the six dogs its frames as a place in the run-length encoded
  pixels, and its palette.  The data itself is a parameter.
\<close>

record sprites =
  sp_palettes :: "u16 list list"
  sp_frames :: "(nat \<times> nat) list list"
  sp_pixels :: "u8 list"

definition frame_count :: int where "frame_count = 33"

text \<open>The remainder of C++ has the sign of the dividend.\<close>

definition c_mod :: "int \<Rightarrow> int \<Rightarrow> int" where
  "c_mod a b = a - b * c_div a b"

definition clamp_dog :: "nat \<Rightarrow> nat" where
  "clamp_dog character = min character 5"

definition sprite_color :: "u16 list \<Rightarrow> bool \<Rightarrow> nat \<Rightarrow> nat \<Rightarrow> nat \<Rightarrow> nat \<Rightarrow> u16" where
  "sprite_color palette side outfit px py index =
     (let color = palette ! index;
          color = (if index = 6 \<and> outfit \<noteq> 0
                   then if outfit = 1 then if (px div 2 + py div 2) mod 2 \<noteq> 0 then pink else mint
                        else if outfit = 2 then amber else pink
                   else color);
          color = (if outfit = 2 \<and> index = 6 \<and> (if side then 43 else 45) \<le> py
                   then palette ! (if side then 1 else 2) else color)
      in if outfit = 3 \<and> (index = 1 \<or> index = 2) \<and>
            (if side then 9 \<le> px \<and> px \<le> 37 \<and> 34 \<le> py \<and> py \<le> 44 else 17 \<le> px \<and> px \<le> 46 \<and> 43 \<le> py \<and> py \<le> 51)
         then amber else color)"

definition sprite_pixel :: "u16 list \<Rightarrow> int \<Rightarrow> int \<Rightarrow> int \<Rightarrow> int \<Rightarrow> nat \<Rightarrow> nat \<Rightarrow> nat \<Rightarrow> drawing" where
  "sprite_pixel palette x y frame scale outfit index at cv =
     (if index \<noteq> 0 \<and> (index \<noteq> 7 \<or> cn_theme cv \<noteq> 2 \<or> cn_red_warning cv)
      then if index < length palette
           then let px = at mod 64; py = at div 64
                in draw_rect (x + int px * scale) (y + int py * scale) scale scale
                     (sprite_color palette (side_walk \<le> frame) outfit px py index) cv
           else cv\<lparr>cn_overrun := True\<rparr>
      else cv)"

text \<open>One run of equal pixels; \<open>at\<close> is the number of pixels before it.\<close>

definition sprite_run :: "sprites \<Rightarrow> nat \<Rightarrow> int \<Rightarrow> int \<Rightarrow> int \<Rightarrow> int \<Rightarrow> nat \<Rightarrow> nat \<Rightarrow> nat \<times> canvas \<Rightarrow> nat \<times> canvas" where
  "sprite_run sheet character x y frame scale outfit i s =
     (case s of (at, cv) \<Rightarrow>
        if i + 1 < length (sp_pixels sheet)
        then let run = unat (sp_pixels sheet ! i); index = unat (sp_pixels sheet ! (i + 1))
             in (at + run, fold (\<lambda>j. sprite_pixel (sp_palettes sheet ! clamp_dog character) x y frame scale outfit index (at + j))
                  [0..<run] cv)
        else (at, cv\<lparr>cn_overrun := True\<rparr>))"

definition draw_sprite :: "sprites \<Rightarrow> int \<Rightarrow> int \<Rightarrow> nat \<Rightarrow> int \<Rightarrow> int \<Rightarrow> nat \<Rightarrow> drawing" where
  "draw_sprite sheet x y character frame scale outfit cv =
     (if c_mod frame frame_count < 0 then cv\<lparr>cn_overrun := True\<rparr>
      else case sp_frames sheet ! clamp_dog character ! nat (c_mod frame frame_count) of (off, len) \<Rightarrow>
        snd (fold (sprite_run sheet character x y frame scale outfit) (map (\<lambda>k. off + 2 * k) [0..<(len + 1) div 2]) (0, cv)))"

definition draw_part :: "int \<Rightarrow> int \<Rightarrow> int \<Rightarrow> int \<Rightarrow> int \<Rightarrow> int \<Rightarrow> int \<Rightarrow> u16 \<Rightarrow> drawing" where
  "draw_part x y scale dx dy w h col = draw_rect (x + dx * scale) (y + dy * scale) (w * scale) (h * scale) col"

text \<open>A picture is a list of drawing operations, the first one first.\<close>

definition draws :: "drawing list \<Rightarrow> drawing" where
  "draws ops = fold (\<lambda>op. op) ops"

definition bob :: "int \<Rightarrow> int" where
  "bob frame = (if (frame < 17 \<or> 22 \<le> frame) \<and> frame mod 2 \<noteq> 0 then 1 else 0)"

definition face_height :: "int \<Rightarrow> int" where
  "face_height frame =
     (let face = (if side_walk \<le> frame then if side_eat \<le> frame then 31 else 28 - (frame - side_walk) mod 2
                  else 27 - bob frame + (if 8 \<le> frame \<and> frame \<le> 10 then 3 else 0))
      in if frame = 20 \<or> frame = 21 then face + 2 + frame - 20 else face)"

definition draw_dog :: "sprites \<Rightarrow> int \<Rightarrow> int \<Rightarrow> nat \<Rightarrow> int \<Rightarrow> nat \<Rightarrow> int \<Rightarrow> drawing" where
  "draw_dog sheet x y character frame outfit scale =
     (let side = side_walk \<le> frame; b = bob frame; face = face_height frame; part = draw_part x y scale
      in draws (draw_sprite sheet x y character frame scale outfit #
          (if outfit = 2
           then [part (if side then 37 else 21) (if side then 40 - b else 42 - b) (if side then 8 else 23) 3 amber,
                 part (if side then 40 else 30) (if side then 43 - b else 45 - b) 5 5 amber,
                 part (if side then 41 else 31) (if side then 44 - b else 46 - b) 2 2 bg]
           else if outfit = 4
           then let hx = (if side then 32 else 17); hy = face - 18
                in [part (hx + 3) (hy - 3) 24 7 0xAB44, part hx (hy + 4) 31 3 amber, part (hx + 12) (hy - 2) 2 6 bg]
           else if outfit = 5
           then if side then [part 43 (face - 6) 11 8 bg, part 45 (face - 5) 7 2 mint, part 37 (face - 5) 7 2 bg]
                else [part 15 (face - 5) 13 9 bg, part 34 (face - 5) 13 9 bg, part 28 (face - 3) 6 2 bg,
                      part 17 (face - 4) 8 2 mint, part 36 (face - 4) 8 2 mint]
           else [])))"

section \<open>Food\<close>

text \<open>Each bite cuts ten columns off the side of the mouth and moves the rest eight to the left.\<close>

definition food_part :: "int \<Rightarrow> int \<Rightarrow> int \<Rightarrow> int \<Rightarrow> int \<Rightarrow> int \<Rightarrow> int \<Rightarrow> u16 \<Rightarrow> drawing" where
  "food_part x y bites dx dy w h col cv =
     (let left = max dx (bites * 10)
      in if left < dx + w then draw_rect (x + left - bites * 8) (y + dy) (dx + w - left) h col cv else cv)"

definition pineapple_spots :: "(int \<times> int) list" where
  "pineapple_spots = concat (map (\<lambda>row. map (\<lambda>col. (11 + col * 7 + (row mod 2) * 2, 18 + row * 6)) [0..2]) [0..2])"

definition food_parts :: "category \<Rightarrow> (int \<times> int \<times> int \<times> int \<times> u16) list" where
  "food_parts category =
    (if category = FLIPPER then
       [(0, 12, 8, 6, mint), (2, 8, 4, 14, mint), (8, 9, 22, 14, mint), (13, 6, 16, 4, mint), (15, 0, 5, 10, mint),
        (20, 4, 3, 6, mint), (28, 10, 8, 8, mint), (33, 14, 7, 4, mint), (15, 19, 5, 9, mint), (19, 19, 4, 5, mint),
        (27, 11, 3, 3, bg), (10, 18, 20, 3, ink)]
     else if category = PINEAPPLE then
       [(5, 11, 29, 20, amber), (9, 8, 21, 28, amber), (11, 13, 17, 2, ink)] @
       map (\<lambda>(dx, dy). (dx, dy, 3, 3, 0xAB44)) pineapple_spots @
       [(16, 0, 5, 12, mint), (7, 3, 8, 5, mint), (23, 3, 9, 5, mint), (11, 7, 17, 5, mint)]
     else if category = FLOCK \<or> category = ALPR then
       [(0, 8, 40, 24, if category = FLOCK then ink else amber), (4, 12, 32, 16, bg), (7, 15, 4, 9, mint),
        (14, 15, 10, 3, mint), (14, 21, 10, 3, mint), (28, 15, 4, 9, mint)]
     else if category = AXON \<or> category = CAMERA then
       [(4, 8, 32, 24, if category = AXON then pink else mint), (8, 4, 12, 5, ink), (16, 12, 14, 14, bg),
        (19, 15, 8, 8, ink), (7, 12, 4, 4, amber)]
     else if category = GLASSES then
       [(0, 12, 17, 15, mint), (23, 12, 17, 15, mint), (15, 16, 10, 4, mint), (4, 16, 9, 7, bg), (27, 16, 9, 7, bg),
        (0, 8, 4, 8, mint), (36, 8, 4, 8, mint)]
     else if category = SKIMMER then
       [(0, 5, 40, 28, amber), (0, 11, 40, 5, bg), (6, 22, 8, 6, ink), (22, 24, 12, 3, pink)]
     else if category = RAVEN then
       [(12, 1, 16, 23, pink), (16, 4, 8, 15, bg), (6, 16, 4, 12, ink), (30, 16, 4, 12, ink), (10, 26, 20, 4, ink),
        (18, 29, 4, 7, ink)]
     else if category = AIRTAG then
       [(8, 2, 24, 32, ink), (3, 8, 34, 20, ink), (12, 10, 16, 16, muted), (16, 14, 8, 8, bg)]
     else if category = TILE then
       [(3, 3, 34, 32, mint), (7, 7, 6, 6, bg), (19, 12, 4, 16, bg), (14, 12, 14, 4, bg)]
     else if category = SAMSUNG_TAG then
       map (\<lambda>i. (19 - i, 17 - \<bar>i - 9\<bar>, 2 * i + 2, 2 * (9 - \<bar>i - 9\<bar>) + 8, pink)) [0..17] @
       [(17, 5, 6, 6, bg), (14, 18, 12, 5, ink)]
     else if category = GOOGLE_TAG then
       [(7, 0, 26, 20, mint), (3, 6, 34, 12, mint), (12, 18, 16, 7, mint), (17, 25, 6, 9, mint), (15, 6, 10, 10, bg)]
     else if category = DRONE then
       [(12, 13, 16, 12, amber), (3, 8, 7, 20, muted), (30, 8, 7, 20, muted), (0, 5, 15, 4, mint), (25, 5, 15, 4, mint),
        (0, 28, 15, 4, mint), (25, 28, 15, 4, mint), (8, 17, 24, 4, ink)]
     else if category = RING then
       [(10, 0, 20, 36, ink), (14, 4, 12, 12, bg), (17, 7, 6, 6, mint), (15, 23, 10, 9, mint)]
     else if category = IBEACON then
       [(9, 12, 23, 23, pink), (14, 7, 13, 5, mint), (19, 1, 4, 9, mint), (14, 18, 4, 4, ink), (26, 23, 3, 3, ink)]
     else if category = PWNAGOTCHI then
       [(7, 3, 26, 29, ink), (3, 10, 34, 20, ink), (3, 29, 7, 7, ink), (16, 29, 8, 7, ink), (30, 29, 7, 7, ink),
        (11, 12, 6, 8, bg), (25, 12, 6, 8, bg)]
     else if category = DEAUTH then
       [(18, 0, 14, 8, amber), (12, 8, 14, 8, amber), (6, 16, 28, 6, amber), (20, 22, 10, 7, amber), (14, 29, 10, 7, amber)]
     else if category = EVIL_TWIN then
       [(0, 5, 24, 25, mint), (16, 10, 24, 25, pink), (4, 11, 5, 5, bg), (13, 11, 5, 5, bg), (21, 17, 5, 5, bg),
        (31, 17, 5, 5, bg)]
     else
       [(4, 8, 31, 24, amber), (8, 4, 23, 32, amber), (10, 12, 5, 4, 0xAB44), (24, 17, 4, 4, 0xAB44),
        (15, 25, 5, 4, 0xAB44)])"

definition draw_food :: "int \<Rightarrow> int \<Rightarrow> category \<Rightarrow> int \<Rightarrow> drawing" where
  "draw_food x y category bites cv =
     (if 4 \<le> bites then cv
      else fold (\<lambda>(dx, dy, w, h, col). food_part x y bites dx dy w h col) (food_parts category) cv)"

section \<open>Rectangles\<close>

definition rect_indices :: "int \<Rightarrow> int \<Rightarrow> int \<Rightarrow> int \<Rightarrow> canvas \<Rightarrow> int list" where
  "rect_indices x y w h cv = concat (map (\<lambda>yy. map (\<lambda>xx. (yy - cn_tile cv) * cn_width cv + xx)
       [max 0 x..min (cn_width cv) (x + w) - 1])
     [max y (cn_tile cv)..min (min (y + h) (cn_tile cv + cn_rows cv)) (cn_height cv) - 1])"

lemma fold_rows: "fold (\<lambda>yy. fold (\<lambda>xx. op (g yy xx)) xs) ys cv = fold op (concat (map (\<lambda>yy. map (g yy) xs) ys)) cv"
  by (induction ys arbitrary: cv) (simp_all add: fold_map o_def)

lemma draw_rect_indices: "draw_rect x y w h col cv = fold (\<lambda>i. put_pixel i (shade cv col)) (rect_indices x y w h cv) cv"
  unfolding draw_rect_def rect_indices_def Let_def by (rule fold_rows)

text \<open>The span has the size of the strip, and nothing was written outside it.\<close>

definition in_span :: "canvas \<Rightarrow> bool" where
  "in_span cv \<longleftrightarrow> 0 \<le> cn_tile cv \<and> 0 \<le> cn_width cv \<and> 0 \<le> cn_rows cv \<and>
     int (length (cn_pixels cv)) = cn_width cv * cn_rows cv \<and> \<not> cn_overrun cv"

definition covers :: "int \<Rightarrow> int \<Rightarrow> int \<Rightarrow> int \<Rightarrow> int \<times> int \<Rightarrow> bool" where
  "covers x y w h p = has (mk_rect x y w h) p"

lemma covers_iff: "covers x y w h (px, py) \<longleftrightarrow> x \<le> px \<and> px < x + w \<and> y \<le> py \<and> py < y + h"
  by (auto simp: covers_def has_def mk_rect_def)

lemma put_pixels:
  assumes "\<And>i. i \<in> set is \<Longrightarrow> 0 \<le> i \<and> i < int (length (cn_pixels cv))"
  shows "fold (\<lambda>i. put_pixel i col) is cv = cv\<lparr>cn_pixels := map (\<lambda>k. if int k \<in> set is then col else cn_pixels cv ! k) [0..<length (cn_pixels cv)]\<rparr>"
  using assms
proof (induction "is" arbitrary: cv)
  case Nil
  then show ?case by (simp add: map_nth)
next
  case (Cons i "is")
  have i: "0 \<le> i" "i < int (length (cn_pixels cv))" using Cons.prems by auto
  have "fold (\<lambda>i. put_pixel i col) is (cv\<lparr>cn_pixels := (cn_pixels cv)[nat i := col]\<rparr>) =
      cv\<lparr>cn_pixels := map (\<lambda>k. if int k \<in> set is then col else (cn_pixels cv)[nat i := col] ! k) [0..<length (cn_pixels cv)]\<rparr>"
    using Cons.IH [of "cv\<lparr>cn_pixels := (cn_pixels cv)[nat i := col]\<rparr>"] Cons.prems by simp
  also have "map (\<lambda>k. if int k \<in> set is then col else (cn_pixels cv)[nat i := col] ! k) [0..<length (cn_pixels cv)] =
      map (\<lambda>k. if int k \<in> set (i # is) then col else cn_pixels cv ! k) [0..<length (cn_pixels cv)]"
    using i by (auto simp: nth_list_update)
  finally show ?case using i by (simp add: put_pixel_def)
qed

lemma rect_indices_iff:
  "i \<in> set (rect_indices x y w h cv) \<longleftrightarrow> (\<exists>px py. i = (py - cn_tile cv) * cn_width cv + px \<and> covers x y w h (px, py) \<and>
     0 \<le> px \<and> px < cn_width cv \<and> cn_tile cv \<le> py \<and> py < cn_tile cv + cn_rows cv \<and> py < cn_height cv)"
proof -
  have "i \<in> set (rect_indices x y w h cv) \<longleftrightarrow> (\<exists>py \<in> {max y (cn_tile cv)..min (min (y + h) (cn_tile cv + cn_rows cv)) (cn_height cv) - 1}.
      \<exists>px \<in> {max 0 x..min (cn_width cv) (x + w) - 1}. i = (py - cn_tile cv) * cn_width cv + px)"
    unfolding rect_indices_def set_concat set_map set_upto image_image UN_iff image_iff ..
  then show ?thesis unfolding covers_iff Bex_def atLeastAtMost_iff by (auto; force)
qed

lemma pixel_place:
  assumes "0 \<le> (px :: int)" "px < w" "0 \<le> q" "q < r"
  shows "0 \<le> q * w + px" "q * w + px < w * r"
proof -
  show "0 \<le> q * w + px" using assms by (simp add: mult_nonneg_nonneg)
  have "q * w + px < (q + 1) * w" using assms by (simp add: distrib_right)
  also have "\<dots> \<le> r * w" using assms by (intro mult_right_mono) auto
  finally show "q * w + px < w * r" by (simp add: mult.commute)
qed

lemma pixel_place_inj:
  assumes "0 \<le> (px :: int)" "px < w" "0 \<le> px'" "px' < w" "q * w + px = q' * w + px'"
  shows "px = px' \<and> q = q'"
proof -
  have "(q * w + px) mod w = px" "(q' * w + px') mod w = px'" using assms(1-4) by (simp_all add: mod_pos_pos_trivial)
  then have "px = px'" using assms(5) by simp
  with assms show ?thesis by simp
qed

lemma rect_in_span:
  assumes "in_span cv" and "i \<in> set (rect_indices x y w h cv)"
  shows "0 \<le> i \<and> i < int (length (cn_pixels cv))"
proof -
  obtain px py where p: "i = (py - cn_tile cv) * cn_width cv + px" "0 \<le> px" "px < cn_width cv" "cn_tile cv \<le> py"
      "py < cn_tile cv + cn_rows cv"
    using assms(2) by (auto simp: rect_indices_iff)
  then show ?thesis using pixel_place [of px "cn_width cv" "py - cn_tile cv" "cn_rows cv"] assms(1) by (simp add: in_span_def)
qed

lemma draw_rect_pixels:
  assumes "in_span cv"
  shows "draw_rect x y w h col cv = cv\<lparr>cn_pixels :=
    map (\<lambda>k. if int k \<in> set (rect_indices x y w h cv) then shade cv col else cn_pixels cv ! k) [0..<length (cn_pixels cv)]\<rparr>"
  unfolding draw_rect_indices by (rule put_pixels) (rule rect_in_span [OF assms])

lemma draw_rect_in_span: "in_span cv \<Longrightarrow> in_span (draw_rect x y w h col cv)"
  by (simp add: draw_rect_pixels) (simp add: in_span_def)

text \<open>The pixel at a place of the panel that the strip holds.\<close>

definition pixel :: "canvas \<Rightarrow> int \<times> int \<Rightarrow> u16" where
  "pixel cv p = (case p of (px, py) \<Rightarrow> cn_pixels cv ! nat ((py - cn_tile cv) * cn_width cv + px))"

definition holds_place :: "canvas \<Rightarrow> int \<times> int \<Rightarrow> bool" where
  "holds_place cv p = (case p of (px, py) \<Rightarrow> 0 \<le> px \<and> px < cn_width cv \<and> cn_tile cv \<le> py \<and>
     py < cn_tile cv + cn_rows cv \<and> py < cn_height cv)"

lemma pixel_draw_rect:
  assumes "in_span cv" and "holds_place cv p"
  shows "pixel (draw_rect x y w h col cv) p = (if covers x y w h p then shade cv col else pixel cv p)"
proof -
  obtain px py where p: "p = (px, py)" by (cases p)
  have at: "0 \<le> px" "px < cn_width cv" "0 \<le> py - cn_tile cv" "py - cn_tile cv < cn_rows cv" "py < cn_height cv"
    using assms(2) by (auto simp: holds_place_def p)
  define i where "i = (py - cn_tile cv) * cn_width cv + px"
  have i: "0 \<le> i" "i < int (length (cn_pixels cv))"
    using pixel_place [OF at(1-4)] assms(1) by (simp_all add: i_def in_span_def)
  have "i \<in> set (rect_indices x y w h cv) \<longleftrightarrow> covers x y w h (px, py)"
  proof
    assume "i \<in> set (rect_indices x y w h cv)"
    then obtain qx qy where q: "i = (qy - cn_tile cv) * cn_width cv + qx" "covers x y w h (qx, qy)" "0 \<le> qx" "qx < cn_width cv"
      by (auto simp: rect_indices_iff)
    with pixel_place_inj [OF at(1,2) q(3,4), of "py - cn_tile cv" "qy - cn_tile cv"] show "covers x y w h (px, py)" by (simp add: i_def)
  next
    assume "covers x y w h (px, py)"
    with at show "i \<in> set (rect_indices x y w h cv)" unfolding rect_indices_iff i_def by force
  qed
  with i show ?thesis by (simp add: pixel_def p draw_rect_pixels [OF assms(1)] i_def [symmetric])
qed

section \<open>What drawing depends on\<close>

definition frame_ok :: "u8 list \<Rightarrow> nat \<times> nat \<Rightarrow> bool" where
  "frame_ok pixels f = (case f of (off, len) \<Rightarrow> even len \<and> off + len \<le> length pixels \<and>
     (\<forall>k < len div 2. unat (pixels ! (off + 2 * k + 1)) < 8))"

definition sprites_ok :: "sprites \<Rightarrow> bool" where
  "sprites_ok sheet \<longleftrightarrow> length (sp_palettes sheet) = 6 \<and> (\<forall>p \<in> set (sp_palettes sheet). length p = 8) \<and>
     length (sp_frames sheet) = 6 \<and>
     (\<forall>fs \<in> set (sp_frames sheet). int (length fs) = frame_count \<and> (\<forall>f \<in> set fs. frame_ok (sp_pixels sheet) f))"

text \<open>
  A relation between two canvases that filling a rectangle keeps, and that looks the same to the code,
  is kept by every drawing operation.
\<close>

locale surface =
  fixes related :: "canvas \<Rightarrow> canvas \<Rightarrow> bool"
  assumes same_look: "related c d \<Longrightarrow> cn_theme c = cn_theme d \<and> cn_red_warning c = cn_red_warning d"
    and rect_related: "related c d \<Longrightarrow> related (draw_rect x y w h col c) (draw_rect x y w h col d)"
begin

definition uniform :: "drawing \<Rightarrow> bool" where
  "uniform op \<longleftrightarrow> (\<forall>c d. related c d \<longrightarrow> related (op c) (op d))"

lemma uniformI: "(\<And>c d. related c d \<Longrightarrow> related (op c) (op d)) \<Longrightarrow> uniform op"
  by (simp add: uniform_def)

lemma uniformD: "uniform op \<Longrightarrow> related c d \<Longrightarrow> related (op c) (op d)"
  by (simp add: uniform_def)

lemma uniform_rect [simp]: "uniform (draw_rect x y w h col)"
  by (rule uniformI) (rule rect_related)

lemma uniform_skip [simp]: "uniform (\<lambda>c. c)"
  by (simp add: uniform_def)

lemma uniform_if: "(b \<Longrightarrow> uniform f) \<Longrightarrow> (\<not> b \<Longrightarrow> uniform g) \<Longrightarrow> uniform (\<lambda>c. if b then f c else g c)"
  by (simp add: uniform_def)

lemma uniform_fold: "(\<And>x. x \<in> set xs \<Longrightarrow> uniform (f x)) \<Longrightarrow> uniform (fold f xs)"
proof (induction xs)
  case (Cons x xs)
  then have "uniform (fold f xs)" "uniform (f x)" by simp_all
  then show ?case by (simp add: uniform_def)
qed (simp add: uniform_def)

lemma uniform_draws: "list_all uniform ops \<Longrightarrow> uniform (draws ops)"
  unfolding draws_def by (rule uniform_fold) (simp add: list_all_iff)

lemma uniform_glyph [simp]: "uniform (draw_glyph x y ch col scale)"
  unfolding draw_glyph_def Let_def by (intro uniform_fold uniform_if) simp_all

lemma uniform_text [simp]: "uniform (draw_text x y str col scale)"
  by (induction str arbitrary: x) (auto simp: uniform_def intro: uniformD [OF uniform_glyph])

lemma uniform_wrap [simp]: "uniform (draw_wrap x y str width col scale max_lines)"
  unfolding draw_wrap_def Let_def by (rule uniform_fold) simp

lemma uniform_box [simp]: "uniform (draw_box x y w h edge)"
  by (simp add: uniform_def draw_box_def rect_related)

lemma uniform_button [simp]: "uniform (draw_button r label active)"
  by (simp add: uniform_def draw_button_def Let_def uniformD [OF uniform_text] uniformD [OF uniform_box])

lemma uniform_line [simp]: "uniform (draw_line x0 y0 x1 y1 col)"
  unfolding draw_line_def by (rule uniform_fold) (simp split: prod.split)

lemma uniform_part [simp]: "uniform (draw_part x y scale dx dy w h col)"
  unfolding draw_part_def by simp

lemma uniform_pixel:
  assumes "index < length palette"
  shows "uniform (sprite_pixel palette x y frame scale outfit index at)"
  using assms by (auto simp: uniform_def sprite_pixel_def Let_def same_look intro: rect_related)

lemma sprite_run_related:
  assumes "i + 1 < length (sp_pixels sheet)"
    and "unat (sp_pixels sheet ! (i + 1)) < length (sp_palettes sheet ! clamp_dog character)"
    and "related c d"
  shows "\<exists>at' c' d'. sprite_run sheet character x y frame scale outfit i (at, c) = (at', c') \<and>
    sprite_run sheet character x y frame scale outfit i (at, d) = (at', d') \<and> related c' d'"
  using assms uniformD [OF uniform_fold [OF uniform_pixel [OF assms(2)]] assms(3)]
  by (simp add: sprite_run_def Let_def)

lemma sprite_runs_related:
  assumes "\<And>i. i \<in> set is \<Longrightarrow> i + 1 < length (sp_pixels sheet) \<and>
      unat (sp_pixels sheet ! (i + 1)) < length (sp_palettes sheet ! clamp_dog character)"
    and "related c d"
  shows "related (snd (fold (sprite_run sheet character x y frame scale outfit) is (at, c)))
    (snd (fold (sprite_run sheet character x y frame scale outfit) is (at, d)))"
  using assms
proof (induction "is" arbitrary: at c d)
  case (Cons i "is")
  obtain at' c' d' where "sprite_run sheet character x y frame scale outfit i (at, c) = (at', c')"
      "sprite_run sheet character x y frame scale outfit i (at, d) = (at', d')" "related c' d'"
    using sprite_run_related [of i sheet character c d] Cons.prems by (metis list.set_intros(1))
  with Cons.IH [of c' d' at'] Cons.prems(1) show ?case by simp
qed simp

lemma uniform_sprite [simp]:
  assumes "sprites_ok sheet" "0 \<le> frame"
  shows "uniform (draw_sprite sheet x y character frame scale outfit)"
proof (rule uniformI)
  fix c d
  assume r: "related c d"
  define fs where "fs = sp_frames sheet ! clamp_dog character"
  define k where "k = nat (c_mod frame frame_count)"
  have "c_mod frame frame_count = frame mod frame_count"
    using assms(2) by (cases "frame = 0") (simp_all add: c_mod_def c_div_def frame_count_def minus_mult_div_eq_mod)
  then have k: "\<not> c_mod frame frame_count < 0" "int k < frame_count" by (simp_all add: k_def frame_count_def)
  obtain off len where f: "fs ! k = (off, len)" by fastforce
  have fs: "fs \<in> set (sp_frames sheet)" "sp_palettes sheet ! clamp_dog character \<in> set (sp_palettes sheet)"
    using assms(1) by (simp_all add: fs_def sprites_ok_def clamp_dog_def)
  then have ok: "int (length fs) = frame_count" "\<forall>f \<in> set fs. frame_ok (sp_pixels sheet) f"
      "length (sp_palettes sheet ! clamp_dog character) = 8"
    using assms(1) by (simp_all add: sprites_ok_def)
  then have "k < length fs" using k(2) by simp
  then have "(off, len) \<in> set fs" using f by (metis nth_mem)
  then have "frame_ok (sp_pixels sheet) (off, len)" using ok(2) by blast
  then have "off + 2 * k + 1 < length (sp_pixels sheet) \<and> unat (sp_pixels sheet ! (off + 2 * k + 1)) < 8"
    if "k < (len + 1) div 2" for k
    using that by (auto simp: frame_ok_def elim!: evenE)
  then show "related (draw_sprite sheet x y character frame scale outfit c) (draw_sprite sheet x y character frame scale outfit d)"
    unfolding draw_sprite_def if_not_P [OF k(1)] fs_def [symmetric] k_def [symmetric] f prod.case
    by (intro sprite_runs_related) (use r ok(3) in auto)
qed

lemma uniform_dog [simp]: "sprites_ok sheet \<Longrightarrow> 0 \<le> frame \<Longrightarrow> uniform (draw_dog sheet x y character frame outfit scale)"
  unfolding draw_dog_def Let_def by (intro uniform_draws) simp

lemma uniform_food_part: "uniform (food_part x y bites dx dy w h col)"
  unfolding food_part_def Let_def by (intro uniform_if) simp_all

lemma uniform_food [simp]: "uniform (draw_food x y category bites)"
  unfolding draw_food_def by (intro uniform_if uniform_fold) (simp_all add: uniform_food_part case_prod_unfold)

end

section \<open>Lines\<close>

text \<open>
  A point of the line with \<open>i\<close> steps to the side and \<open>j\<close> down: the \<open>q\<close>-th one counts steps along the
  longer side, and it is the nearest one to the ideal line, up to half a pixel.
\<close>

definition near_line :: "int \<Rightarrow> int \<Rightarrow> int \<Rightarrow> int \<Rightarrow> int \<Rightarrow> int \<Rightarrow> int \<Rightarrow> int \<times> int \<Rightarrow> bool" where
  "near_line dx h sx sy x0 y0 q p \<longleftrightarrow> (\<exists>i j. p = (x0 + sx * i, y0 + sy * j) \<and> (if h \<le> dx then i else j) = q \<and>
     0 \<le> i \<and> i \<le> dx \<and> 0 \<le> j \<and> j \<le> h \<and> 2 * \<bar>j * dx - i * h\<bar> \<le> max dx h)"

lemma twice_abs: "2 * \<bar>z\<bar> \<le> m \<longleftrightarrow> - m \<le> 2 * z \<and> 2 * z \<le> m" for z m :: int
  by arith

text \<open>One round, with the deviation \<open>d\<close> from the ideal line times the longer side.\<close>

lemma line_step_wide:
  fixes i j dx h d e :: int
  assumes "h \<le> dx" "0 \<le> i" "i < dx" "0 \<le> j" "j \<le> h" "2 * \<bar>d\<bar> \<le> dx" "d = j * dx - i * h" and e: "e = 2 * d + 2 * dx - 2 * h"
  shows "- h \<le> e" and "e \<le> dx \<Longrightarrow> j + 1 \<le> h \<and> 2 * \<bar>d + dx - h\<bar> \<le> dx" and "\<not> e \<le> dx \<Longrightarrow> 2 * \<bar>d - h\<bar> \<le> dx"
proof -
  show "- h \<le> e" "\<not> e \<le> dx \<Longrightarrow> 2 * \<bar>d - h\<bar> \<le> dx" using assms(1,4,5,6) e unfolding twice_abs by auto
  have "j \<noteq> h" if "e \<le> dx"
  proof
    assume j: "j = h"
    have "h * 1 \<le> h * (dx - i)" using assms(3,4) j by (intro mult_left_mono) auto
    then have "h \<le> d" by (simp add: j assms(7) algebra_simps)
    with e that assms(1,2,3) show False by linarith
  qed
  then show "e \<le> dx \<Longrightarrow> j + 1 \<le> h \<and> 2 * \<bar>d + dx - h\<bar> \<le> dx" using assms(1,4,5,6) e unfolding twice_abs by auto
qed

lemma line_step_tall:
  fixes i j dx h d e :: int
  assumes "dx < h" "0 \<le> i" "i \<le> dx" "0 \<le> j" "j < h" "2 * \<bar>d\<bar> \<le> h" "d = j * dx - i * h" and e: "e = 2 * d + 2 * dx - 2 * h"
  shows "e \<le> dx" and "- h \<le> e \<Longrightarrow> i + 1 \<le> dx \<and> 2 * \<bar>d + dx - h\<bar> \<le> h" and "\<not> - h \<le> e \<Longrightarrow> 2 * \<bar>d + dx\<bar> \<le> h"
proof -
  show "e \<le> dx" "\<not> - h \<le> e \<Longrightarrow> 2 * \<bar>d + dx\<bar> \<le> h" using assms(1-6) e unfolding twice_abs by auto
  have "i \<noteq> dx" if "- h \<le> e"
  proof
    assume i: "i = dx"
    have "dx * 1 \<le> dx * (h - j)" using assms(2,5) i by (intro mult_left_mono) auto
    then have "d \<le> - dx" by (simp add: i assms(7) algebra_simps)
    with e that assms(1,2,4,5) show False by linarith
  qed
  then show "- h \<le> e \<Longrightarrow> i + 1 \<le> dx \<and> 2 * \<bar>d + dx - h\<bar> \<le> h" using assms(1-6) e unfolding twice_abs by auto
qed

lemma line_end:
  fixes i j dx h :: int
  assumes "(if h \<le> dx then i else j) = max dx h" "0 \<le> i" "i \<le> dx" "0 \<le> j" "j \<le> h" "2 * \<bar>j * dx - i * h\<bar> \<le> max dx h"
  shows "i = dx" "j = h"
proof -
  have *: "a = c" if "2 * \<bar>a * b - b * c\<bar> \<le> b" "0 \<le> a" "a \<le> c" "c \<le> b" for a b c :: int
  proof (rule ccontr)
    assume "a \<noteq> c"
    then have "b * 1 \<le> b * (c - a)" using that by (intro mult_left_mono) auto
    then have "b \<le> - (a * b - b * c)" by (simp add: algebra_simps)
    moreover have "0 < b" using that \<open>a \<noteq> c\<close> by linarith
    ultimately show False using that(1) by presburger
  qed
  show "i = dx" "j = h"
    using assms * [of j dx h] * [of i h dx]
    by (auto simp: max_def mult.commute abs_minus_commute split: if_splits)
qed

lemma line_points_near:
  fixes i j dx h :: int
  assumes "sx = 1 \<or> sx = - 1" "sy = 1 \<or> sy = - 1"
    and "near_line dx h sx sy x0 y0 k (x0 + sx * i, y0 + sy * j)" "int n = max dx h - k"
    and "error = (j + 1) * dx - (i + 1) * h" "0 \<le> dx" "0 \<le> h"
  shows "\<exists>ps. line_points (x0 + sx * dx) (y0 + sy * h) dx sx (- h) sy error (x0 + sx * i) (y0 + sy * j) = Some ps \<and>
    length ps = n + 1 \<and> (\<forall>q \<le> n. near_line dx h sx sy x0 y0 (k + int q) (ps ! q)) \<and> last ps = (x0 + sx * dx, y0 + sy * h)"
  using assms(3-5)
proof (induction n arbitrary: i j k error)
  case 0
  have at: "(if h \<le> dx then i else j) = k" "0 \<le> i" "i \<le> dx" "0 \<le> j" "j \<le> h" "2 * \<bar>j * dx - i * h\<bar> \<le> max dx h"
    using 0(1) assms(1,2) by (auto simp: near_line_def)
  with line_end [of h dx i j] 0(2) have "i = dx" "j = h" by auto
  then show ?case using 0(1) by (subst line_points.simps) simp
next
  case (Suc n)
  define d where "d = j * dx - i * h"
  have at: "(if h \<le> dx then i else j) = k" "0 \<le> i" "i \<le> dx" "0 \<le> j" "j \<le> h" "2 * \<bar>d\<bar> \<le> max dx h"
    using Suc.prems(1) assms(1,2) by (auto simp: near_line_def d_def)
  have e: "2 * error = 2 * d + 2 * dx - 2 * h" by (simp add: Suc.prems(3) d_def algebra_simps)
  define i' where "i' = (if - h \<le> 2 * error then i + 1 else i)"
  define j' where "j' = (if 2 * error \<le> dx then j + 1 else j)"
  define error' where "error' = error + (if - h \<le> 2 * error then - h else 0) + (if 2 * error \<le> dx then dx else 0)"
  have step: "(if h \<le> dx then i' else j') = k + 1 \<and> i' \<le> dx \<and> j' \<le> h \<and> 2 * \<bar>j' * dx - i' * h\<bar> \<le> max dx h"
  proof (cases "h \<le> dx")
    case True
    then have "i < dx" using at(1) Suc.prems(2) by simp
    note s = line_step_wide [OF True at(2) this at(4,5) _ d_def e]
    have "j' * dx - i' * h = (if 2 * error \<le> dx then d + dx - h else d - h)"
      using s(1) at(6) True by (simp add: i'_def j'_def d_def max_def algebra_simps)
    then show ?thesis using s at True \<open>i < dx\<close> by (auto simp: i'_def j'_def max_def)
  next
    case False
    then have "j < h" "dx < h" using at(1) Suc.prems(2) by simp_all
    note s = line_step_tall [OF \<open>dx < h\<close> at(2,3,4) \<open>j < h\<close> _ d_def e]
    have "j' * dx - i' * h = (if - h \<le> 2 * error then d + dx - h else d + dx)"
      using s(1) at(6) False by (simp add: i'_def j'_def d_def max_def algebra_simps)
    then show ?thesis using s at False \<open>j < h\<close> by (auto simp: i'_def j'_def max_def)
  qed
  have "near_line dx h sx sy x0 y0 (k + 1) (x0 + sx * i', y0 + sy * j')"
    unfolding near_line_def using step at(2,4) by (intro exI [of _ i'] exI [of _ j']) (simp add: i'_def j'_def)
  moreover have "int n = max dx h - (k + 1)" using Suc.prems(2) by simp
  moreover have "error' = (j' + 1) * dx - (i' + 1) * h" by (simp add: error'_def i'_def j'_def Suc.prems(3) algebra_simps)
  ultimately obtain ps where ps: "line_points (x0 + sx * dx) (y0 + sy * h) dx sx (- h) sy error' (x0 + sx * i') (y0 + sy * j') = Some ps"
      "length ps = n + 1" "\<forall>q \<le> n. near_line dx h sx sy x0 y0 (k + 1 + int q) (ps ! q)" "last ps = (x0 + sx * dx, y0 + sy * h)"
    using Suc.IH by blast
  have "i \<noteq> dx \<or> j \<noteq> h" using at(1) Suc.prems(2) by (auto split: if_splits)
  then have ne: "\<not> (x0 + sx * i = x0 + sx * dx \<and> y0 + sy * j = y0 + sy * h)" using assms(1,2) by auto
  have next_place: "(if - h \<le> 2 * error then x0 + sx * i + sx else x0 + sx * i) = x0 + sx * i'"
      "(if 2 * error \<le> dx then y0 + sy * j + sy else y0 + sy * j) = y0 + sy * j'"
    by (simp_all add: i'_def j'_def algebra_simps)
  have "line_points (x0 + sx * dx) (y0 + sy * h) dx sx (- h) sy error (x0 + sx * i) (y0 + sy * j) = Some ((x0 + sx * i, y0 + sy * j) # ps)"
    by (subst line_points.simps) (simp only: ne if_False Let_def next_place error'_def [symmetric] ps(1) Option.bind.simps)
  moreover have "near_line dx h sx sy x0 y0 (k + int q) (((x0 + sx * i, y0 + sy * j) # ps) ! q)" if "q \<le> Suc n" for q
    using that Suc.prems(1) ps(3) by (cases q) (auto simp: algebra_simps)
  moreover have "last ((x0 + sx * i, y0 + sy * j) # ps) = (x0 + sx * dx, y0 + sy * h)" using ps(2,4) by auto
  ultimately show ?case using ps(2) by (intro exI [of _ "(x0 + sx * i, y0 + sy * j) # ps"]) simp
qed

lemma line_path_near:
  "\<exists>ps. line_path x0 y0 x1 y1 = Some ps \<and> length ps = nat (max \<bar>x1 - x0\<bar> \<bar>y1 - y0\<bar>) + 1 \<and>
     hd ps = (x0, y0) \<and> last ps = (x1, y1) \<and>
     (\<forall>q < length ps. near_line \<bar>x1 - x0\<bar> \<bar>y1 - y0\<bar> (if x0 < x1 then 1 else - 1) (if y0 < y1 then 1 else - 1) x0 y0 (int q) (ps ! q))"
proof -
  define dx h sx sy where d: "dx = \<bar>x1 - x0\<bar>" "h = \<bar>y1 - y0\<bar>" "sx = (if x0 < x1 then 1 else - 1 :: int)"
    "sy = (if y0 < y1 then 1 else - 1 :: int)"
  have ends: "x1 = x0 + sx * dx" "y1 = y0 + sy * h" by (auto simp: d)
  have signs: "sx = 1 \<or> sx = - 1" "sy = 1 \<or> sy = - 1" "0 \<le> dx" "0 \<le> h" by (auto simp: d)
  have start: "near_line dx h sx sy x0 y0 0 (x0 + sx * 0, y0 + sy * 0)"
    unfolding near_line_def using signs(3,4) by (intro exI [of _ 0]) simp
  have count: "int (nat (max dx h)) = max dx h - 0" using signs(3) by (simp add: le_max_iff_disj)
  have first: "dx + - h = (0 + 1) * dx - (0 + 1) * h" by simp
  obtain ps where ps: "line_points (x0 + sx * dx) (y0 + sy * h) dx sx (- h) sy (dx + - h) (x0 + sx * 0) (y0 + sy * 0) = Some ps"
      "length ps = nat (max dx h) + 1" "\<forall>q \<le> nat (max dx h). near_line dx h sx sy x0 y0 (0 + int q) (ps ! q)"
      "last ps = (x0 + sx * dx, y0 + sy * h)"
    using line_points_near [OF signs(1,2) start count first signs(3,4)] by blast
  have "line_path x0 y0 x1 y1 = Some ps"
    using ps(1) by (simp add: line_path_def Let_def d(1,2) [symmetric] d(3,4) [symmetric] ends [symmetric])
  moreover have "hd ps = (x0, y0)"
    using ps(1,2) by (subst (asm) line_points.simps)
      (auto simp: Let_def bind_eq_Some_conv split: if_splits)
  ultimately show ?thesis using ps(2-4) unfolding d(1,2) [symmetric] d(3,4) [symmetric] ends [symmetric]
    by (intro exI [of _ ps]) auto
qed

section \<open>Lines of text\<close>

definition letters :: "string \<Rightarrow> string" where
  "letters str = filter (\<lambda>c. c \<noteq> CHR '' '') str"

lemma letters_append: "letters (a @ b) = letters a @ letters b"
  by (simp add: letters_def)

lemma letters_skip: "letters (dropWhile (\<lambda>c. c = CHR '' '') str) = letters str"
  by (induction str) (auto simp: letters_def)

lemma last_space_less:
  assumes "last_space str = Some i"
  shows "i < length str"
proof -
  define spaces where "spaces = filter (\<lambda>i. str ! i = CHR '' '') [0..<length str]"
  have "spaces \<noteq> []" "i = last spaces" using assms by (auto simp: last_space_def spaces_def [symmetric] split: list.splits)
  then have "i \<in> set spaces" by simp
  then show ?thesis by (simp add: spaces_def)
qed

lemma line_length_bounds: "line_length width str \<le> width" "0 < width \<Longrightarrow> str \<noteq> [] \<Longrightarrow> 0 < line_length width str"
  by (auto simp: line_length_def Let_def min_def dest!: last_space_less split: option.splits if_splits)

lemma wrap_lines_fit: "line \<in> set (wrap_lines m width str) \<Longrightarrow> length line \<le> width"
  by (induction m arbitrary: str) (auto simp: Let_def line_length_bounds(1) min.coboundedI2 split: if_splits)

lemma wrap_lines_letters:
  assumes "0 < width" "length str \<le> m"
  shows "concat (map letters (wrap_lines m width str)) = letters str"
  using assms(2)
proof (induction m arbitrary: str)
  case 0
  then show ?case by (simp add: letters_def)
next
  case (Suc m)
  show ?case
  proof (cases "str = []")
    case False
    define n where "n = line_length width str"
    have "length (dropWhile (\<lambda>c. c = CHR '' '') (drop n str)) \<le> length (drop n str)" by (rule length_dropWhile_le)
    then have "length (dropWhile (\<lambda>c. c = CHR '' '') (drop n str)) \<le> m"
      using line_length_bounds(2) [OF assms(1) False] Suc.prems by (simp add: n_def [symmetric])
    note IH = Suc.IH [OF this]
    have "letters (take n str) @ letters (drop n str) = letters str" by (simp add: letters_append [symmetric])
    with False show ?thesis by (simp add: Let_def n_def [symmetric] IH letters_skip)
  qed (simp add: letters_def)
qed

section \<open>Strips of the panel\<close>

text \<open>
  Two canvases for the same panel agree if they hold the same pixels wherever both hold one.  Drawing
  keeps that, and it never leaves the span.
\<close>

definition agree :: "canvas \<Rightarrow> canvas \<Rightarrow> bool" where
  "agree c d \<longleftrightarrow> in_span c \<and> in_span d \<and> cn_width c = cn_width d \<and> cn_height c = cn_height d \<and>
     cn_theme c = cn_theme d \<and> cn_red_warning c = cn_red_warning d \<and>
     (\<forall>p. holds_place c p \<longrightarrow> holds_place d p \<longrightarrow> pixel c p = pixel d p)"

lemma draw_rect_fields:
  assumes "in_span cv"
  shows "cn_tile (draw_rect x y w h col cv) = cn_tile cv" "cn_width (draw_rect x y w h col cv) = cn_width cv"
    "cn_height (draw_rect x y w h col cv) = cn_height cv" "cn_rows (draw_rect x y w h col cv) = cn_rows cv"
    "cn_theme (draw_rect x y w h col cv) = cn_theme cv" "cn_red_warning (draw_rect x y w h col cv) = cn_red_warning cv"
    "holds_place (draw_rect x y w h col cv) p = holds_place cv p"
  by (simp_all add: draw_rect_pixels [OF assms] holds_place_def)

lemma agree_rect: "agree c d \<Longrightarrow> agree (draw_rect x y w h col c) (draw_rect x y w h col d)"
  by (auto simp: agree_def draw_rect_fields draw_rect_in_span pixel_draw_rect shade_def)

interpretation strips: surface agree
proof
  fix c d
  assume "agree c d"
  then show "cn_theme c = cn_theme d \<and> cn_red_warning c = cn_red_warning d" by (simp add: agree_def)
qed (rule agree_rect)

definition spans :: "int \<Rightarrow> int \<Rightarrow> int \<Rightarrow> int \<Rightarrow> canvas \<Rightarrow> canvas \<Rightarrow> bool" where
  "spans tile width height rows c d \<longleftrightarrow> d = c \<and> in_span c \<and> cn_tile c = tile \<and> cn_width c = width \<and>
     cn_height c = height \<and> cn_rows c = rows"

interpretation span: surface "spans tile width height rows" for tile width height rows
  by unfold_locales (auto simp: spans_def draw_rect_fields draw_rect_in_span)

text \<open>The pixels of a strip are those of the whole panel.\<close>

lemma agree_strip:
  assumes "agree whole strip" "cn_tile whole = 0" "cn_rows whole = cn_height whole"
    and "cn_tile strip + cn_rows strip \<le> cn_height strip"
  shows "cn_pixels strip = take (length (cn_pixels strip)) (drop (nat (cn_tile strip * cn_width strip)) (cn_pixels whole))"
proof (rule nth_equalityI)
  define w where "w = cn_width strip"
  have spans: "in_span whole" "in_span strip" "cn_width whole = w" "cn_height whole = cn_height strip"
    using assms(1) by (simp_all add: agree_def w_def)
  have size_whole: "int (length (cn_pixels whole)) = w * cn_height strip" and size_strip: "int (length (cn_pixels strip)) = w * cn_rows strip"
    and pos: "0 \<le> w" "0 \<le> cn_tile strip" "0 \<le> cn_rows strip"
    using spans assms(3) by (simp_all add: in_span_def w_def)
  have "w * (cn_tile strip + cn_rows strip) \<le> w * cn_height strip" using assms(4) pos by (intro mult_left_mono)
  then have room: "cn_tile strip * w + int (length (cn_pixels strip)) \<le> int (length (cn_pixels whole))"
    by (simp add: size_whole size_strip algebra_simps)
  have off: "0 \<le> cn_tile strip * w" using pos by simp
  then show len: "length (cn_pixels strip) = length (take (length (cn_pixels strip)) (drop (nat (cn_tile strip * cn_width strip)) (cn_pixels whole)))"
    using room by (simp add: w_def [symmetric] min_def) linarith
  fix k
  assume k: "k < length (cn_pixels strip)"
  define px py where "px = int k mod w" and "py = int k div w"
  have "0 < w" using k size_strip pos by (cases "w = 0") auto
  then have split: "int k = py * w + px" "0 \<le> px" "px < w" "0 \<le> py" by (simp_all add: px_def py_def pos_imp_zdiv_nonneg_iff)
  have "py * w < cn_rows strip * w" using k size_strip split(1,2) by (simp add: mult.commute)
  then have "py < cn_rows strip" using \<open>0 < w\<close> by (simp add: mult_less_cancel_right)
  then have held: "holds_place strip (px, cn_tile strip + py)" "holds_place whole (px, cn_tile strip + py)"
    using split assms(2,3,4) spans(3,4) by (simp_all add: holds_place_def w_def pos)
  have "pixel strip (px, cn_tile strip + py) = cn_pixels strip ! k" using split(1) by (simp add: pixel_def w_def [symmetric] flip: split(1))
  moreover have "pixel whole (px, cn_tile strip + py) = cn_pixels whole ! (nat (cn_tile strip * w) + k)"
  proof -
    have "(cn_tile strip + py) * w + px = cn_tile strip * w + int k" by (simp add: split(1) algebra_simps)
    then show ?thesis using off assms(2) spans(3) by (simp add: pixel_def nat_add_distrib)
  qed
  moreover have "pixel whole (px, cn_tile strip + py) = pixel strip (px, cn_tile strip + py)" using assms(1) held by (simp add: agree_def)
  ultimately show "cn_pixels strip ! k = take (length (cn_pixels strip)) (drop (nat (cn_tile strip * cn_width strip)) (cn_pixels whole)) ! k"
    using k room off by (simp add: w_def [symmetric])
qed

section \<open>Pictures\<close>

text \<open>The drawing operations of the canvas; a picture is a list of them.\<close>

inductive operation :: "sprites \<Rightarrow> drawing \<Rightarrow> bool" for sheet where
  op_rect: "operation sheet (draw_rect x y w h col)"
| op_text: "operation sheet (draw_text x y str col scale)"
| op_wrap: "operation sheet (draw_wrap x y str width col scale max_lines)"
| op_box: "operation sheet (draw_box x y w h edge)"
| op_button: "operation sheet (draw_button r label active)"
| op_line: "operation sheet (draw_line x0 y0 x1 y1 col)"
| op_sprite: "0 \<le> frame \<Longrightarrow> operation sheet (draw_sprite sheet x y character frame scale outfit)"
| op_dog: "0 \<le> frame \<Longrightarrow> operation sheet (draw_dog sheet x y character frame outfit scale)"
| op_food: "operation sheet (draw_food x y category bites)"

lemmas operations [simp] = operation.intros

context surface
begin

lemma operation_uniform: "operation sheet op \<Longrightarrow> sprites_ok sheet \<Longrightarrow> uniform op"
  by (induction rule: operation.induct) simp_all

lemma picture_uniform: "list_all (operation sheet) ops \<Longrightarrow> sprites_ok sheet \<Longrightarrow> uniform (draws ops)"
  by (rule uniform_draws) (auto simp: list_all_iff intro: operation_uniform)

end

text \<open>A strip as it is before drawing: filled with one colour.\<close>

definition blank_canvas :: "int \<Rightarrow> int \<Rightarrow> int \<Rightarrow> int \<Rightarrow> u8 \<Rightarrow> bool \<Rightarrow> u16 \<Rightarrow> canvas" where
  "blank_canvas tile width height rows theme red col =
     (let cv = \<lparr>cn_tile = tile, cn_width = width, cn_height = height, cn_rows = rows, cn_pixels = [], cn_theme = theme,
        cn_red_warning = red, cn_overrun = False\<rparr>
      in cv\<lparr>cn_pixels := replicate (nat (width * rows)) (shade cv col)\<rparr>)"

lemma blank_in_span: "0 \<le> tile \<Longrightarrow> 0 \<le> width \<Longrightarrow> 0 \<le> rows \<Longrightarrow> in_span (blank_canvas tile width height rows theme red col)"
  by (simp add: in_span_def blank_canvas_def Let_def)

lemma shade_cong: "cn_theme c = cn_theme d \<Longrightarrow> cn_red_warning c = cn_red_warning d \<Longrightarrow> shade c col = shade d col"
  by (simp add: shade_def)

lemma blank_pixel:
  assumes "holds_place (blank_canvas tile width height rows theme red col) p"
  shows "pixel (blank_canvas tile width height rows theme red col) p = shade (blank_canvas 0 0 0 0 theme red col) col"
proof -
  obtain px py where p: "p = (px, py)" by (cases p)
  have "0 \<le> px" "px < width" "0 \<le> py - tile" "py - tile < rows"
    using assms by (auto simp: p holds_place_def blank_canvas_def Let_def)
  note at = pixel_place [OF this]
  then have "nat ((py - tile) * width + px) < nat (width * rows)" by linarith
  then show ?thesis by (simp add: p pixel_def blank_canvas_def Let_def) (rule shade_cong; simp)
qed

lemma blank_agree:
  assumes "0 \<le> tile" "0 \<le> tile'" "0 \<le> width" "0 \<le> rows" "0 \<le> rows'"
  shows "agree (blank_canvas tile width height rows theme red col) (blank_canvas tile' width height rows' theme red col)"
  using assms by (simp add: agree_def blank_in_span blank_pixel) (simp add: blank_canvas_def Let_def)

lemma blank_spans:
  assumes "0 \<le> tile" "0 \<le> width" "0 \<le> rows"
  shows "spans tile width height rows (blank_canvas tile width height rows theme red col) (blank_canvas tile width height rows theme red col)"
  using assms by (simp add: spans_def blank_in_span) (simp add: blank_canvas_def Let_def)

lemma picture_spans:
  assumes "sprites_ok sheet" "list_all (operation sheet) ops" "0 \<le> tile" "0 \<le> width" "0 \<le> rows"
  shows "spans tile width height rows (draws ops (blank_canvas tile width height rows theme red col))
    (draws ops (blank_canvas tile width height rows theme red col))"
  by (rule span.uniformD [OF span.picture_uniform [OF assms(2,1)] blank_spans [OF assms(3-5)]])

section \<open>Properties\<close>

text \<open>
  A picture drawn strip by strip is the picture drawn on the whole panel: whatever the
  operations are, the span of a strip ends up with exactly the rows of the panel that it stands for, and
  neither a strip nor the panel is ever written outside its span, nor a table of the sprites read outside.
\<close>

theorem strips_make_the_panel:
  assumes "sprites_ok sheet" and "list_all (operation sheet) ops"
    and "0 \<le> tile" "0 \<le> rows" "0 \<le> width" "tile + rows \<le> height"
  shows "cn_pixels (draws ops (blank_canvas tile width height rows theme red col)) =
      take (nat (width * rows)) (drop (nat (tile * width)) (cn_pixels (draws ops (blank_canvas 0 width height height theme red col)))) \<and>
    \<not> cn_overrun (draws ops (blank_canvas tile width height rows theme red col)) \<and>
    \<not> cn_overrun (draws ops (blank_canvas 0 width height height theme red col))"
proof -
  define strip where "strip = draws ops (blank_canvas tile width height rows theme red col)"
  define whole where "whole = draws ops (blank_canvas 0 width height height theme red col)"
  have height: "0 \<le> height" using assms(3,4,6) by simp
  have strip: "spans tile width height rows strip strip" and whole: "spans 0 width height height whole whole"
    using picture_spans [OF assms(1,2)] assms(3-5) height by (simp_all add: strip_def whole_def)
  have "agree whole strip"
    unfolding whole_def strip_def
    by (rule strips.uniformD [OF strips.picture_uniform [OF assms(2,1)] blank_agree]) (use assms height in simp_all)
  moreover have "length (cn_pixels strip) = nat (width * rows)" using strip by (auto simp: spans_def in_span_def)
  ultimately show ?thesis
    using agree_strip [of whole strip] strip whole assms(6)
    by (auto simp: spans_def in_span_def strip_def [symmetric] whole_def [symmetric])
qed

definition example_sprites :: sprites where
  "example_sprites = \<lparr>sp_palettes = replicate 6 (replicate 8 0), sp_frames = replicate 6 (replicate 33 (0, 2)), sp_pixels = [2, 6]\<rparr>"

lemma example_sprites_ok: "sprites_ok example_sprites"
  by (simp add: sprites_ok_def example_sprites_def frame_count_def frame_ok_def)

lemma strips_make_the_panel_witness:
  "cn_pixels (draws [draw_rect 0 1 2 1 mint, draw_sprite example_sprites 0 0 0 1 1 2] (blank_canvas 1 3 2 1 0 False bg)) =
     take 3 (drop 3 (cn_pixels (draws [draw_rect 0 1 2 1 mint, draw_sprite example_sprites 0 0 0 1 1 2] (blank_canvas 0 3 2 2 0 False bg))))"
  using strips_make_the_panel [OF example_sprites_ok, of "[draw_rect 0 1 2 1 mint, draw_sprite example_sprites 0 0 0 1 1 2]" 1 1 3 2 0 False bg]
  by simp

text \<open>
  Property C40.  \<open>line\<close> ends after as many points as its longer side has, starts and ends at the given
  points, and every point is the one nearest to the ideal line, within half a pixel of the shorter side.
\<close>

theorem line_is_straight:
  "\<exists>ps. line_path x0 y0 x1 y1 = Some ps \<and> length ps = nat (max \<bar>x1 - x0\<bar> \<bar>y1 - y0\<bar>) + 1 \<and>
     hd ps = (x0, y0) \<and> last ps = (x1, y1) \<and>
     list_all2 (\<lambda>q p. near_line \<bar>x1 - x0\<bar> \<bar>y1 - y0\<bar> (if x0 < x1 then 1 else - 1) (if y0 < y1 then 1 else - 1) x0 y0 (int q) p)
       [0..<length ps] ps"
  using line_path_near [of x0 y0 x1 y1] by (auto simp: list_all2_conv_all_nth)

text \<open>
  \<open>wrap\<close> breaks a text into lines that fit the width and, given enough lines, loses nothing
  but spaces.
\<close>

lemma wrap_loses_only_spaces:
  assumes "0 < width" and "length str \<le> max_lines"
  shows "(\<forall>line \<in> set (wrap_lines max_lines width str). length line \<le> width) \<and>
    concat (map letters (wrap_lines max_lines width str)) = letters str"
  using wrap_lines_fit wrap_lines_letters [OF assms] by blast

end
