(* ===== verification/Pictures.thy ===== *)
theory Pictures
  imports Complex_Main Canvas Records
begin

text \<open>
  The pictures of the screens (\<open>View::render\<close> of \<open>ui.cpp\<close>, one definition per screen): each is the list
  of drawing operations in the order of the code.  A read of a table by an index the code does not check
  goes through \<open>pick\<close>, which marks an overrun when the index is outside the table.
\<close>

section \<open>Material\<close>

text \<open>
  The parameters: the HMAC, the sprites, the generated rules and the name of their version, and the text
  that \<open>printf\<close> gives for a \<open>double\<close> with a number of decimals.
\<close>

record material =
  mt_hmac :: keyed_digest
  mt_sprites :: sprites
  mt_rules :: "rule list"
  mt_pack :: string
  mt_real :: "nat \<Rightarrow> rat \<Rightarrow> string"

text \<open>The counters of \<open>View\<close> that are only drawn.\<close>

record readings =
  re_ble_window_open :: bool
  re_wifi_accepted :: u32
  re_ble_accepted :: u32
  re_wifi_malformed :: u32
  re_ble_malformed :: u32
  re_radio_stack :: u32
  re_storage_stack :: u32
  re_ble_stack :: u32
  re_oversize :: u32
  re_radio_errors :: u32
  re_sd_free :: u64
  re_sd_total :: u64
  re_battery_millivolts :: int
  re_battery_level :: int
  re_heap :: u32
  re_min_heap :: u32
  re_largest_heap :: u32
  re_wifi_count :: u32
  re_ble_count :: u32
  re_drops :: u32
  re_queue_peak :: u32
  re_writes :: u32
  re_boot_reason :: u32
  re_ui_stack :: u32
  re_calibration_step :: int
  re_counts :: "u32 list"
  re_saves :: u32
  re_save_errors :: u32
  re_backup_entries :: u32
  re_checked_rows :: u32
  re_checked_files :: u32

text \<open>What the first strip of a frame fixes for all of them: the identity on the screen.\<close>

record drawn =
  dn_identity :: u64
  dn_ignored :: bool

section \<open>Texts\<close>

text \<open>\<open>int(x)\<close> of a 64-bit number keeps its low 32 bits.\<close>

definition int_of :: "u64 \<Rightarrow> int" where
  "int_of x = sint (ucast x :: u32)"

text \<open>\<open>snprintf\<close> into the buffer of a hundred bytes.\<close>

definition clip :: "string \<Rightarrow> string" where
  "clip str = take 99 str"

definition udec :: "'a::len word \<Rightarrow> string" where
  "udec x = decimal (unat x)"

definition two_digits :: "nat \<Rightarrow> string" where
  "two_digits n = (if n < 10 then ''0'' else []) @ decimal n"

definition upper_hex :: "nat \<Rightarrow> char" where
  "upper_hex n = char_of (if n < 10 then 48 + n else 55 + n)"

definition id_text :: "u64 \<Rightarrow> string" where
  "id_text x = map (\<lambda>i. upper_hex (unat (drop_bit (60 - 4 * i) x) mod 16)) [0..<8]"

definition pick :: "'a list \<Rightarrow> nat \<Rightarrow> ('a \<Rightarrow> drawing list) \<Rightarrow> drawing list" where
  "pick xs i f = (if i < length xs then f (xs ! i) else [\<lambda>cv. cv\<lparr>cn_overrun := True\<rparr>])"

definition draw_if :: "bool \<Rightarrow> drawing list \<Rightarrow> drawing list" where
  "draw_if b ops = (if b then ops else [])"

definition with_name :: "category \<Rightarrow> (string \<Rightarrow> drawing list) \<Rightarrow> drawing list" where
  "with_name c = pick categories (category_index c)"

definition first_reason :: "detection \<Rightarrow> string \<Rightarrow> string" where
  "first_reason d other = (case d_rules d ! 0 of
     Some r \<Rightarrow> if d_rule_count d \<noteq> 0 then r_reason r else other | None \<Rightarrow> other)"

definition radio_name :: "radio \<Rightarrow> string" where
  "radio_name r = (if r = Ble then ''BLE'' else ''WI-FI'')"

text \<open>A date, or the text for a clock that was not set.\<close>

definition utc_label :: "u64 \<Rightarrow> string \<Rightarrow> string" where
  "utc_label t unset = (case format_utc (unat t) 24 of Some s \<Rightarrow> if s = [] then unset else s | None \<Rightarrow> unset)"

definition outfit_names :: "string list" where
  "outfit_names = [''CLASSIC'', ''TRAIL BANDANA'', ''BRASS COLLAR'', ''RAINCOAT'', ''DETECTIVE CAP'', ''SUNGLASSES'']"

definition outfit_goals :: "string list" where
  "outfit_goals = [''READY TO WEAR'', ''EARN 25 XP'', ''EARN 100 XP'', ''DISCOVER 5 SCENTS'', ''EARN 300 XP'',
     ''DISCOVER 10 SCENTS'']"

definition theme_names :: "string list" where
  "theme_names = [''MIDNIGHT'', ''SUNSET'', ''DAYLIGHT'']"

definition scene_names :: "string list" where
  "scene_names = [''SIGNAL GRID'', ''DOG PARK'', ''ROOFTOPS'']"

definition speech_names :: "string list" where
  "speech_names = [''OFF'', ''OCCASIONAL'', ''CHATTY'']"

definition dog_names :: "string list" where
  "dog_names = [''CORGI'', ''BEAGLE'', ''SHIBA'', ''HUSKY'', ''LABRADOR'', ''DALMATIAN'']"

fun screen_title :: "screen \<Rightarrow> string" where
  "screen_title Welcome = ''HELLO, HOUND''"
| "screen_title Calibration = ''CALIBRATE TOUCH''"
| "screen_title Choose = ''PICK YOUR PARTNER''"
| "screen_title Name = ''NAME YOUR HOUND''"
| "screen_title Privacy_Choice = ''YOUR PRIVACY''"
| "screen_title Home = ''SURVEILLANCE HOUND''"
| "screen_title Log = ''FIELD NOTES''"
| "screen_title Detectors = ''DETECTORS''"
| "screen_title Settings = ''SETTINGS''"
| "screen_title Diagnostics = ''DIAGNOSTICS''"
| "screen_title Details = ''EVIDENCE DETAILS''"
| "screen_title ResearchWarning = ''RESEARCH LOGGING''"
| "screen_title ResetWarning = ''RESET PROGRESS''"
| "screen_title Alerts = ''ALERT TYPES''"
| "screen_title Clock = ''SET UTC TIME''"
| "screen_title Battery = ''BATTERY SETUP''"
| "screen_title ClearWarning = ''CLEAR LOGS''"
| "screen_title SelfTest = ''SELF TEST''"
| "screen_title ScentBook = ''SCENT BOOK''"
| "screen_title ScentCard = ''SCENT CARD''"
| "screen_title Wardrobe = ''WARDROBE''"
| "screen_title AlertActions = ''QUIET ALERTS''"
| "screen_title Ignored = ''IGNORED SCENTS''"
| "screen_title Follow = ''FOLLOW SCENT''"
| "screen_title Appearance = ''ATMOSPHERE''"
| "screen_title Display = ''DISPLAY OPTIONS''"
| "screen_title TagWatch = ''TAG WATCH''"
| "screen_title WatchProgress = ''WATCH PROGRESS''"
| "screen_title IdleDisplay = ''SCREEN SAVER''"
| "screen_title IgnoreBackup = ''IGNORE BACKUP''"
| "screen_title Coverage = ''DETECTION COVERAGE''"

section \<open>Short screens\<close>

text \<open>The view's orientation and the size of the panel in it.\<close>

definition tall :: "view \<Rightarrow> bool" where
  "tall v = s_portrait (v_settings v)"

definition wide :: "view \<Rightarrow> int" where
  "wide v = panel_width (tall v)"

definition high :: "view \<Rightarrow> int" where
  "high v = panel_height (tall v)"

definition button_at :: "int \<Rightarrow> int \<Rightarrow> int \<Rightarrow> int \<Rightarrow> string \<Rightarrow> drawing" where
  "button_at x y w h label = draw_button (mk_rect x y w h) label False"

definition confirms :: "view \<Rightarrow> string \<Rightarrow> string \<Rightarrow> bool \<Rightarrow> bool \<Rightarrow> drawing list" where
  "confirms v left right left_on right_on =
     [draw_button (l_confirm (tall v) False) left left_on, draw_button (l_confirm (tall v) True) right right_on]"

definition rest_frame :: "view \<Rightarrow> int" where
  "rest_frame v = (if s_reduced_animation (v_settings v) then 0 else c_mod (int_of (v_now v div 250)) 4)"

definition draw_welcome :: "material \<Rightarrow> view \<Rightarrow> drawing list" where
  "draw_welcome m v =
     [draw_sprite (mt_sprites m) (wide v - 154) (if tall v then 164 else 78) (unat (s_character (v_settings v))) (rest_frame v) 2 0,
      draw_text 16 88 ''GOOD DOG.'' mint 3, draw_text 16 120 ''SHARP NOSE.'' pink 2,
      draw_wrap 16 (if tall v then 312 else 160) ''Passive clues. No uploads. No proof of intent.'' (if tall v then 24 else 25)
        muted 1 1000,
      draw_text 16 (high v - 102) ''CHOOSE YOUR RADIO REGION'' muted 1] @ confirms v ''US 1-11'' ''EU 1-13'' False False"

definition draw_calibration :: "readings \<Rightarrow> view \<Rightarrow> drawing list" where
  "draw_calibration r v =
     (let p = target_point (nat (min 2 (re_calibration_step r))) (tall v)
      in [draw_text 12 68 ''TAP EACH CROSS WITH A STYLUS'' muted 1, draw_rect (pt_x p - 15) (pt_y p - 1) 31 3 mint,
          draw_rect (pt_x p - 1) (pt_y p - 15) 3 31 mint])"

definition draw_choose :: "material \<Rightarrow> view \<Rightarrow> drawing list" where
  "draw_choose m v = concat (map (\<lambda>i.
     let r = l_choice (tall v) i; chosen = (unat (s_character (v_settings v)) = i); dog = dog_names ! i
     in [draw_box (rc_x r) (rc_y r) (rc_w r) (rc_h r) (if chosen then mint else grid),
         draw_sprite (mt_sprites m) (rc_x r + (rc_w r - 64) div 2) (rc_y r + 2) i 0 1 0,
         draw_text (rc_x r + c_div (rc_w r - int (length dog) * 6) 2) (rc_y r + rc_h r - 17) dog (if chosen then mint else ink) 1])
     [0..<6])"

definition draw_name :: "view \<Rightarrow> drawing list" where
  "draw_name v = draw_text 16 76 (c_str (s_name (v_settings v))) mint 3 #
     map (\<lambda>i. draw_button (l_key (tall v) i) [''ABCDEFGHIJKLMNOPQRSTUVWXYZ0123'' ! i] False) [0..<30] @
     confirms v ''DELETE'' ''DONE'' False True"

definition draw_privacy :: "view \<Rightarrow> drawing list" where
  "draw_privacy v = draw_wrap 16 94
     ''Private logs use a new anonymous token each boot. No raw names, packets or location.''
     (if tall v then 24 else 37) muted 2 1000 # confirms v ''PRIVATE'' ''RESEARCH'' True False"

definition draw_research_warning :: "view \<Rightarrow> drawing list" where
  "draw_research_warning v = draw_wrap 16 94
     ''Research mode writes raw radio addresses to your SD card. These can identify devices. Exports stay sanitized.''
     (if tall v then 24 else 37) amber 2 1000 # confirms v ''CANCEL'' ''ENABLE'' False False"

definition draw_reset_warning :: "view \<Rightarrow> drawing list" where
  "draw_reset_warning v = draw_wrap 16 94
     ''Reset XP, meals, Scent Book and outfits? Observation logs and ignored devices remain.''
     (if tall v then 24 else 37) muted 2 1000 # confirms v ''CANCEL'' ''RESET'' False False"

definition draw_clear_warning :: "view \<Rightarrow> drawing list" where
  "draw_clear_warning v = draw_wrap 16 85
     ''Permanently delete all observation logs from the SD card? Exports and hound progress remain.''
     (if tall v then 24 else 37) muted 2 1000 # confirms v ''CANCEL'' ''DELETE LOGS'' False False"

definition draw_self_test :: "view \<Rightarrow> drawing list" where
  "draw_self_test v =
     draw_text 16 72 ''DISPLAY / TOUCH / COLOR TEST'' mint 1 #
     map (\<lambda>i. draw_rect (16 + i * (wide v - 32) div 3) 94 ((wide v - 32) div 3 - 4) 44
       (if i = 0 then 0xf800 else if i = 1 then 0x07e0 else 0x001f)) [0..2] @
     [draw_box 12 145 (wide v - 24) 70 mint,
      draw_text 20 160 (clip (''TAPS '' @ udec (v_self_test_taps v) @ '' / X '' @ number_text (fst (v_touch v)) @ '' Y '' @
        number_text (snd (v_touch v)))) ink 1,
      draw_text 20 183 ''TOUCH CORNERS AND CHECK ALL COLORS'' muted 1,
      draw_button (l_more (tall v)) ''BACK TO SETTINGS'' False]"

definition draw_clock :: "view \<Rightarrow> drawing list" where
  "draw_clock v =
     [draw_text 16 68 ''UTC YYYYMMDDHHMM - TAP VALUE TO DELETE'' muted 1, draw_text 16 88 (v_clock_input v) mint 2] @
     map (\<lambda>i. button_at (16 + (i mod 5) * (wide v - 32) div 5) (120 + (i div 5) * 48) ((wide v - 32) div 5 - 4) 44
       [char_of (nat (48 + i))]) [0..9] @
     draw_text 16 222 (if v_notice v \<noteq> [] then v_notice v else ''MANUAL TIME RESETS AFTER POWER LOSS'')
       (if v_notice v \<noteq> [] then amber else muted) 1 # confirms v ''CANCEL'' ''SET TIME'' False True"

section \<open>Home\<close>

definition stage_width :: "view \<Rightarrow> int" where
  "stage_width v = (if tall v then 296 else 280)"

definition stage_height :: "view \<Rightarrow> int" where
  "stage_height v = (if tall v then 226 else 192)"

definition horizon :: "view \<Rightarrow> int" where
  "horizon v = 64 + stage_height v - 49"

definition scene_grid :: "view \<Rightarrow> drawing list" where
  "scene_grid v =
     (let sw = stage_width v; hz = horizon v
      in concat (map (\<lambda>col.
           let x = 22 + col * (sw - 20) div 12;
               y = 72 + c_mod (col * 19 + (if s_reduced_animation (v_settings v) then 0 else int_of (v_now v div 160))) 80
           in map (\<lambda>k. draw_rect x (y + k * 7) 2 3 (if k = 0 then mint else grid)) [0..2]) [0..11]) @
         map (\<lambda>i. draw_line (12 + sw div 2) hz (max 13 (min (sw + 10) (12 + sw div 2 + c_div (i * sw) 4)))
           (64 + stage_height v - 2) grid) [-4..4] @
         map (\<lambda>y. draw_rect 13 (hz + y * y * 3) (sw - 2) 1 grid) [0..4])"

definition lawns :: "u16 list" where "lawns = [0x1945, 0x3146, 0xC6D1]"
definition leaves :: "u16 list" where "leaves = [0x32E9, 0x642A, 0x53A8]"
definition tips :: "u16 list" where "tips = [0x4C0D, 0x958C, 0x85AC]"

text \<open>The numbers from \<open>a\<close> below \<open>b\<close> in steps, as a \<open>for\<close> loop counts.\<close>

definition steps :: "int \<Rightarrow> int \<Rightarrow> int \<Rightarrow> int list" where
  "steps a b d = map (\<lambda>k. a + int k * d) [0..<nat ((b - a + d - 1) div d)]"

definition park_trees :: "view \<Rightarrow> u16 \<Rightarrow> u16 \<Rightarrow> drawing list" where
  "park_trees v leaf tip = concat (map (\<lambda>tx.
     [draw_rect (tx - 3) 125 7 (horizon v - 130) grid, draw_rect (tx - 18) 114 37 21 leaf, draw_rect (tx - 12) 103 25 12 leaf,
      draw_rect (tx - 23) 121 47 9 leaf, draw_rect (tx - 10) 107 17 6 tip]) [38, stage_width v - 28])"

definition park_fence :: "view \<Rightarrow> drawing list" where
  "park_fence v =
     map (\<lambda>fy. draw_rect 14 fy (stage_width v - 4) 3 muted) [horizon v - 41, horizon v - 23] @
     concat (map (\<lambda>fx. [draw_rect (fx + 1) (horizon v - 49) 3 3 muted, draw_rect fx (horizon v - 46) 5 35 muted])
       (steps 20 (stage_width v) 19))"

definition park_hoop :: "view \<Rightarrow> drawing list" where
  "park_hoop v =
     (let hx = stage_width v - 44; hy = horizon v - 24
      in [draw_rect (hx - 18) hy 3 27 grid, draw_rect (hx + 16) hy 3 27 grid] @
         concat (map (\<lambda>side.
           [draw_rect (hx - 10) (hy + side * 18) 23 4 amber,
            draw_rect (hx - 17) (hy + (if side < 0 then - 14 else 12)) 7 6 amber,
            draw_rect (hx + 13) (hy + (if side < 0 then - 14 else 12)) 7 6 amber]) [- 1, 1]) @
         [draw_rect (hx - 21) (hy - 8) 4 20 amber, draw_rect (hx + 20) (hy - 8) 4 20 amber])"

definition park_toys :: "view \<Rightarrow> u16 \<Rightarrow> drawing list" where
  "park_toys v leaf =
     (let hz = horizon v; sw = stage_width v
      in [draw_rect 38 (hz - 15) 10 24 pink, draw_rect 36 (hz - 18) 14 5 pink, draw_rect 33 (hz - 8) 20 6 pink,
          draw_rect 35 (hz + 8) 17 4 pink, draw_rect 40 (hz - 11) 3 12 ink, draw_rect 66 (hz + 8) 8 10 0xCFA6,
          draw_rect 64 (hz + 10) 12 6 0xCFA6, draw_line 68 (hz + 9) 72 (hz + 16) ink,
          draw_rect (sw - 51) (hz + 17) 23 4 mint, draw_rect (sw - 47) (hz + 15) 15 2 ink] @
         concat (map (\<lambda>gx. [draw_rect gx (hz + 17) 2 5 leaf, draw_rect (gx + 3) (hz + 14) 2 7 leaf]) [25, 86, sw - 14]))"

definition scene_park :: "view \<Rightarrow> drawing list" where
  "scene_park v =
     (let theme = unat (ap_theme (look v)); sw = stage_width v; hz = horizon v
      in pick lawns theme (\<lambda>lawn. pick leaves theme (\<lambda>leaf. pick tips theme (\<lambda>tip.
           [draw_rect 13 (hz - 9) (sw - 2) (64 + stage_height v - hz + 8) lawn, draw_rect (sw - 55) 103 16 16 amber] @
           park_trees v leaf tip @ park_fence v @
           [draw_box 59 (hz - 61) 70 19 amber, draw_text 67 (hz - 55) ''DOG PARK'' ink 1] @ park_hoop v @ park_toys v leaf))))"

definition scene_roofs :: "view \<Rightarrow> drawing list" where
  "scene_roofs v =
     (let sw = stage_width v; hz = horizon v
      in draw_rect (sw - 42) 104 18 18 amber #
         concat (map (\<lambda>i.
           let bx = 16 + i * (sw - 8) div 8; bh = 37 + (i * 17) mod 43
           in draw_rect bx (hz - bh) 29 bh grid #
              concat (map (\<lambda>wy. map (\<lambda>wx. draw_rect (bx + 6 + wx * 12) wy 4 5 (if i mod 3 = 0 then amber else muted)) [0..1])
                (steps (hz - bh + 8) (hz - 5) 13))) [0..7]) @
         draw_rect 13 hz (sw - 2) 3 muted # map (\<lambda>x. draw_rect x (hz + 18) 12 2 grid) (steps 20 sw 22))"

definition draw_stage :: "view \<Rightarrow> drawing list" where
  "draw_stage v =
     draw_box 12 64 (stage_width v) (stage_height v) grid #
     (if ap_scene (look v) = 0 then scene_grid v else if ap_scene (look v) = 1 then scene_park v else scene_roofs v) @
     [draw_rect 20 72 (stage_width v - 16) 21 panel,
      draw_text 24 78 (clip (c_str (s_name (v_settings v)) @ '' / LV '' @ udec (pet_level (v_pet v)) @ '' / OUTFIT'')) mint 1]"

text \<open>What the hound says when nothing happens.\<close>

definition idle_line :: "view \<Rightarrow> string" where
  "idle_line v =
     (let odd = (v_now v div 24000 mod 2 \<noteq> 0)
      in if ap_scene (look v) = 1 then if odd then ''WHO BROUGHT THE TENNIS BALL?'' else ''GOOD NOSES. GREAT ZOOMIES.''
         else if ap_scene (look v) = 2 then if odd then ''CITY LIGHTS. SHARP EARS.'' else ''ROOFTOP WATCH, TAIL READY.''
         else if odd then ''I HEARD THAT. PROBABLY.'' else ''ALL QUIET. GOOD COMPANY.'')"

definition snack_mood :: "view \<Rightarrow> string \<times> string" where
  "snack_mood v =
     (let phase = sp_phase (snack_pose_of v)
      in (if phase = Turn then ''A NEW TREAT'' else if phase = Approach then ''WALKING UP''
          else if phase = Chew then ''CHOMP CHOMP'' else ''HAPPY HOUND'',
          if phase = Happy then ''GONE. THAT WAS DELICIOUS.''
          else if v_meal_category v = FLIPPER then ''DOLPHIN SNACK!''
          else if v_meal_category v = PINEAPPLE then ''PINEAPPLE SNACK!'' else ''A CLUE AND A CHEW.''))"

definition beat :: "view \<Rightarrow> u64 \<Rightarrow> int \<Rightarrow> int" where
  "beat v period n = c_mod (int_of (v_now v div period)) n"

text \<open>The frame of the hound, its state and its line, from the most to the least urgent reason.\<close>

definition hound_mood :: "view \<Rightarrow> int \<times> string \<times> string" where
  "hound_mood v =
     (let reduced = s_reduced_animation (v_settings v); now = v_now v; idle = idle_line v; pose = snack_pose_of v;
          lively = (\<lambda>period. 22 + (if reduced then 0 else beat v period 3))
      in if v_paused v then (17 + (if reduced then 0 else beat v 900 3), ''SLEEPING'', ''RESTING MY NOSE.'')
         else if sp_phase pose \<noteq> Snack_None then (sp_frame pose, fst (snack_mood v), snd (snack_mood v))
         else if celebrating v then (lively 160, ''HAPPY HOUND'', ''BELLY FULL. TAIL GOING!'')
         else if now < v_unlock_until v then (lively 166, ''NEW OUTFIT!'', ''YOUR WARDROBE IS GROWING.'')
         else if now < v_level_until v then (lively 166, ''LEVEL UP!'', ''A LITTLE OLDER. STILL A PUP.'')
         else if now < v_happy_until v then
           ((if v_pets v mod 3 = 0 then 11 else 22) + beat v 166 (if v_pets v mod 3 = 0 then 2 else 3), ''GOOD HOUND'',
            [''EAR SCRITCHES!'', ''THAT IS THE SPOT.'', ''ONE MORE, PLEASE.'', ''TAIL WAGS FOR YOU.''] ! unat (v_pets v mod 4))
         else if needs_care v then
           (20 + beat v 1400 2, if view_fullness v \<le> low_needs then ''HUNGRY'' else ''LOW SPIRITS'',
            if view_fullness v \<le> low_needs then ''A LITTLE SNACK, PLEASE?'' else ''COULD USE A SNACK AND A PAT.'')
         else if now div 15000 mod 4 = 0 \<and> now div 4000 mod 3 = 2 then
           (11 + beat v 450 2, ''ALL EARS'', ''DID SOMEONE SAY WALK?'')
         else if now div 15000 mod 4 = 1 then (4 + beat v 125 4, ''PATROLLING'', idle)
         else if now div 15000 mod 4 = 2 then (8 + beat v 166 3, ''SNIFFING'', ''NOSE DOWN. EARS UP.'')
         else if now div 15000 mod 4 = 3 then (17 + beat v 500 3, ''RESTING'', ''EVEN HOUNDS TAKE BREAKS.'')
         else (if reduced then 0 else beat v 250 4, ''ON PATROL'', idle))"

definition hound_frame :: "view \<Rightarrow> int" where
  "hound_frame v =
     (if s_reduced_animation (v_settings v) \<and> sp_phase (snack_pose_of v) = Snack_None
      then if v_paused v then 17
           else if celebrating v \<or> v_now v < v_happy_until v \<or> v_now v < v_level_until v \<or> v_now v < v_unlock_until v then 22
           else if needs_care v then 20 else 0
      else fst (hound_mood v))"

definition draw_hound :: "material \<Rightarrow> view \<Rightarrow> drawing list" where
  "draw_hound m v =
     (let sw = stage_width v; reduced = s_reduced_animation (v_settings v); pose = snack_pose_of v; phase = sp_phase pose;
          x = 12 + (sw - 128) div 2; y = 95 + (if tall v then 22 else 0);
          food_x = sw - 30; food_y = y + 68;
          y = (if celebrating v \<and> \<not> reduced then y + (14 - celebration_jump v) else y);
          x = (if phase = Approach \<or> phase = Chew then x + c_div ((food_x - 124 - x) * sp_approach pose) 100 else x)
      in draw_if (phase \<noteq> Snack_None \<and> phase \<noteq> Happy) [draw_food food_x food_y (v_meal_category v) (sp_bites pose)] @
         draw_dog (mt_sprites m) x y (unat (s_character (v_settings v))) (hound_frame v) (unat (co_equipped (collection v))) 2 #
         draw_if (v_paused v) (map (\<lambda>i. let drift = (if reduced then 0 else beat v 250 12)
           in draw_text (x + 89 + i * 13) (y + 27 - i * 13 - drift) ''Z'' mint (if i = 2 then 2 else 1)) [0..2]) @
         draw_if (phase = Chew \<and> \<not> reduced \<and> sp_bites pose < 4)
           (let bounce = beat v 160 3; crumbs = (if v_meal_category v = FLIPPER then mint else amber)
            in [draw_rect (food_x + 3) (food_y + 26 + bounce * 3) 3 3 crumbs,
                draw_rect (food_x + 12) (food_y + 29 + bounce * 2) 2 2 crumbs]) @
         draw_if (speaking v \<and> \<not> (tall v \<and> f_active (v_follow v)))
           (let by = 64 + stage_height v - 23
            in [draw_box 20 by (sw - 16) 17 mint, draw_rect 49 (by - 4) 6 5 mint,
                draw_text 25 (by + 5) (snd (snd (hound_mood v))) mint 1]))"

definition count_texts :: "readings \<Rightarrow> string \<times> string" where
  "count_texts r = (udec (re_counts r ! 0), udec (re_counts r ! 1))"

definition status_x :: "view \<Rightarrow> int" where
  "status_x v = (if tall v then 16 else 306)"

definition status_y :: "view \<Rightarrow> int" where
  "status_y v = (if tall v then 304 else 72)"

definition compact_status :: "readings \<Rightarrow> view \<Rightarrow> drawing list" where
  "compact_status r v =
     (let sx = status_x v; sy = status_y v
      in [draw_text sx (sy + 29) (clip (''FULL '' @ udec (view_fullness v) @ '' / MOOD '' @ udec (view_mood v))) muted 1,
          draw_text sx (sy + 42) (if v_demo v then ''DEMO / COUNTS EXCLUDED'' else ''RECENT SIGNALS / 90S'') muted 1,
          draw_text sx (sy + 55) (clip (''STRONG '' @ fst (count_texts r) @ '' / LIKELY '' @ snd (count_texts r))) ink 1,
          draw_text sx (sy + 70)
            (if v_paused v then ''SNIFFING STOPPED'' else if v_demo v then ''SYNTHETIC SIGHTINGS''
             else if v_scanning v then ''LISTENING ONLY'' else ''RADIO PAUSED'') mint 1] @
         draw_if (\<not> tall v)
           (draw_text sx (sy + 102) ''LATEST SCENT'' muted 1 #
            (if v_recent_count v \<noteq> 0
             then with_name (d_category (v_recent v ! 0)) (\<lambda>name. [draw_text sx (sy + 117) name ink 1])
             else [draw_text sx (sy + 117) ''NONE YET'' ink 1]) @
            [draw_text sx (sy + 143) ''TAP LOG FOR EVIDENCE'' muted 1]))"

definition meter :: "int \<Rightarrow> int \<Rightarrow> string \<Rightarrow> u8 \<Rightarrow> u16 \<Rightarrow> drawing list" where
  "meter x y label level full =
     [draw_text x y label muted 1, draw_rect (x + 60) (y - 2) 92 9 panel,
      draw_rect (x + 60) (y - 2) (uint level * 92 div 100) 9 (if level \<le> low_needs then amber else full)]"

definition battery_line :: "readings \<Rightarrow> view \<Rightarrow> string" where
  "battery_line r v =
     (if 0 \<le> re_battery_level r
      then clip (''BAT '' @ number_text (re_battery_level r) @ ''% / '' @ number_text (re_battery_millivolts r) @ '' MV'')
      else if v_paused v then ''RADIOS STOPPED'' else if re_ble_window_open r then ''BLE WINDOW'' else ''WI-FI WINDOW'')"

definition full_status :: "readings \<Rightarrow> view \<Rightarrow> drawing list" where
  "full_status r v =
     (let sx = status_x v; sy = status_y v; p = tall v
      in meter sx (sy + 27) ''FULLNESS'' (view_fullness v) mint @ meter sx (sy + 45) ''MOOD'' (view_mood v) pink @
         [draw_text sx (sy + 72) (clip (fst (count_texts r) @ '' STRONG'')) ink (if p then 1 else 2),
          draw_text (if p then sx + 148 else sx) (sy + (if p then 72 else 94)) (clip (snd (count_texts r) @ '' LIKELY'')) ink
            (if p then 1 else 2)] @
         draw_if p [draw_text sx (sy + 59) (if v_demo v then ''DEMO / COUNTS EXCLUDED'' else ''RECENT SIGNALS / 90S'') muted 1] @
         draw_if (\<not> p)
           [draw_text sx (sy + 122)
              (if v_demo v then ''SYNTHETIC SIGHTINGS'' else if v_paused v then ''SNIFFING STOPPED''
               else if v_scanning v then ''RECENT SIGNALS / 90S'' else ''RADIO PAUSED'') muted 1] @
         draw_if (\<not> p) [draw_text sx (sy + 143) (battery_line r v) mint 1])"

definition home_notices :: "view \<Rightarrow> drawing list" where
  "home_notices v =
     draw_if (v_now v < v_unlock_until v)
       (draw_rect 20 (64 + stage_height v - 23) (stage_width v - 16) 16 panel #
        pick outfit_names (v_unlocked_outfit v)
          (\<lambda>outfit. [draw_text 25 (64 + stage_height v - 19) (clip (''UNLOCKED: '' @ outfit)) amber 1])) @
     (if home_notice v \<noteq> [] then [draw_text 12 (high v - 58) (home_notice v) amber 1]
      else draw_if (v_now v < snoozed_until v)
        [draw_text 12 (high v - 58)
           (clip (''ALERTS SNOOZED / '' @ udec ((snoozed_until v - v_now v + 59999) div 60000) @ '' MIN LEFT'')) amber 1])"

text \<open>The card over the hound: the travel-watch warning, or else the pending alert.\<close>

definition alert_card :: "drawn \<Rightarrow> view \<Rightarrow> drawing list" where
  "alert_card dn v =
     (let warning = view_warning v; d = v_alert_detection v; p = tall v;
          x = (if p then 12 else 302); y = (if p then 302 else 66); w = (if p then 296 else 166); h = (if p then 90 else 158)
      in [draw_box x y w h pink, draw_rect (x + 1) (y + 1) (w - 2) 24 pink,
          draw_text (x + 10) (y + 9) (if warning \<noteq> None then ''POSSIBLE FOLLOWING'' else ''NEW SCENT'') bg 1] @
         with_name (case warning of Some e \<Rightarrow> te_category e | None \<Rightarrow> d_category d)
           (\<lambda>name. [draw_text (x + 10) (y + 34) name ink (if p then 2 else 1)]) @
         draw_text (x + 10) (y + 56)
           (clip (case warning of Some e \<Rightarrow> udec ((te_last e - te_first e) div 60000) @ '' MIN / SAME ID''
              | None \<Rightarrow> badge (d_score d) @ '' / '' @ udec (d_score d))) amber 1 #
         draw_if (warning = None)
           [draw_text (x + 10) (y + 74)
              (if dn_identity dn \<noteq> 0 then ''ID '' @ id_text (dn_identity dn) else ''ID UNAVAILABLE'') mint 1] @
         (if \<not> p
          then [draw_wrap (x + 10) (y + (if warning \<noteq> None then 75 else 88))
                  (if warning \<noteq> None then ''Repeated tag presence. Movement unconfirmed.'' else first_reason d ''Observation received'')
                  23 muted 1 (if warning \<noteq> None then 4 else 3)]
          else draw_if (warning \<noteq> None) [draw_text (x + 10) (y + h - 16) ''PRESENCE CLUE'' mint 1]) @
         [draw_button (l_quiet p) (if warning \<noteq> None then ''REVIEW TAG'' else ''SNOOZE / IGNORE'') True])"

definition draw_home :: "material \<Rightarrow> readings \<Rightarrow> drawn \<Rightarrow> view \<Rightarrow> drawing list" where
  "draw_home m r dn v =
     draw_button (l_home_book (tall v)) ''BOOK'' False #
     draw_if (f_active (v_follow v) \<and> \<not> tall v) [draw_button (l_home_follow (tall v)) ''FOLLOW'' True] @
     draw_button (l_home_watch (tall v)) ''WATCH'' (tw_armed (v_tag_watch v)) #
     draw_stage v @ draw_hound m v @
     draw_text (status_x v) (status_y v) (fst (snd (hound_mood v))) mint 2 #
     (if ap_compact (look v) \<noteq> 0 then compact_status r v else full_status r v) @ home_notices v @
     draw_if (f_active (v_follow v) \<and> tall v) [draw_button (l_home_follow (tall v)) ''FOLLOW'' True] @
     draw_button (l_sniff (tall v)) (if v_paused v then ''START SNIFFING'' else ''STOP SNIFFING'') (v_paused v) #
     draw_if (view_warning v \<noteq> None \<or> v_now v < v_alert_until v) (alert_card dn v)"

section \<open>Travel watch, display and following\<close>

text \<open>The fresh eligible entries with their slots, four on a page.\<close>

definition watch_items :: "view \<Rightarrow> (nat \<times> nat \<times> watch_entry) list" where
  "watch_items v = (let rows = filter (\<lambda>(slot, e). watch_fresh (v_now v) e \<and> view_eligible v e)
       (zip [0..<length (tw_entries (v_tag_watch v))] (tw_entries (v_tag_watch v)))
     in zip [0..<length rows] rows)"

definition watch_pages :: "view \<Rightarrow> nat" where
  "watch_pages v = max 1 ((watch_count v + 3) div 4)"

definition watch_row :: "view \<Rightarrow> nat \<times> nat \<times> watch_entry \<Rightarrow> drawing list" where
  "watch_row v row = (case row of (item, slot, e) \<Rightarrow>
     let r = l_detector (tall v) (item mod 4); x = rc_x r; y = rc_y r; p = tall v;
         seconds = min 600 (unat ((te_last e - te_first e) div 1000))
     in draw_box x y (rc_w r) (rc_h r) (if watch_ready (v_now v) e then amber else grid) #
        with_name (te_category e) (\<lambda>name.
          [draw_text (x + 10) (y + 5) (clip (name @ '' / '' @ two_digits (slot + 1))) ink (if p then 1 else 2)]) @
        [draw_text (x + rc_w r - 30) (y + 5) (if te_acknowledged e then ''ACK'' else udec (te_score e)) mint 1,
         draw_text (x + 10) (y + (if p then 25 else 24))
           (clip (two_digits (seconds div 60) @ '':'' @ two_digits (seconds mod 60) @ ''/10:00 '' @ decimal (min 8 (te_minutes e)) @
              ''/8 MIN  SEEN '' @ udec ((v_now v - te_last e) div 1000) @ ''s'')) muted 1] @
        draw_if p [draw_text (x + 10) (y + 44)
          (if te_acknowledged e then ''ACKNOWLEDGED / QUIET UNTIL A GAP''
           else if watch_ready (v_now v) e then ''QUALIFIED / REVIEW IN CONTROLS'' else ''BUILDING A CONTINUOUS WINDOW'') mint 1])"

definition draw_watch_progress :: "view \<Rightarrow> drawing list" where
  "draw_watch_progress v =
     (let p = tall v; w = v_tag_watch v; page = min (v_watch_page v) (watch_pages v - 1);
          up_to_999 = (\<lambda>n :: u32. decimal (min 999 (unat n)))
      in button_at (wide v - 108) 32 96 25 ''CONTROLS'' #
         concat (map (watch_row v) (filter (\<lambda>(item, _). item div 4 = page) (watch_items v))) @
         draw_if (watch_count v = 0)
           [draw_text 16 90 (if tw_armed w then ''NO TAG TIMER YET'' else ''TRAVEL WATCH IS OFF'') mint 2,
            draw_wrap 16 122 (watch_hint v) (if p then 24 else 36) muted 1 3,
            draw_wrap 16 (if p then 200 else 164)
              ''An ordinary scent alert needs one sighting. Watch needs the same identity for ten minutes.''
              (if p then 24 else 54) muted 1 4] @
         [draw_button (l_confirm p False) ''BACK TO HOUND'' False,
          draw_button (l_confirm p True) (clip (''NEXT / '' @ decimal (page + 1) @ '' OF '' @ decimal (watch_pages v))) False,
          draw_text 16 (high v - 34) (watch_hint v) mint 1,
          draw_text 16 (high v - 20) (clip (''RESETS GAP '' @ up_to_999 (tw_gap_resets w) @ '' / FILTER '' @
            up_to_999 (tw_filter_resets w) @ '' / CLOCK '' @ up_to_999 (tw_clock_skips w))) muted 1])"

definition review_target :: "view \<Rightarrow> watch_entry option" where
  "review_target v = (case watch_find (v_watch_review v) (tw_entries (v_tag_watch v)) of
     Some i \<Rightarrow> let e = tw_entries (v_tag_watch v) ! i in if watch_ready (v_now v) e \<and> view_eligible v e then Some e else None
   | None \<Rightarrow> None)"

definition draw_tag_watch :: "view \<Rightarrow> drawing list" where
  "draw_tag_watch v =
     (let p = tall v; armed = tw_armed (v_tag_watch v)
      in [button_at (wide v - 150) 32 78 25 ''STATUS'',
          draw_text (wide v - 66) 44 (if armed then ''ARMED'' else ''OFF'') (if armed then mint else muted) 1,
          draw_button (l_row p 0) (if armed then ''END TRAVEL WATCH'' else ''START TRAVEL WATCH'') armed,
          draw_button (l_row p 1)
            (if s_reduced_animation (v_settings v) then ''RED WARNING: STEADY / REDUCED''
             else if tw_flash (v_tag_watch v) then ''RED WARNING: SLOW FLASH'' else ''RED WARNING: STEADY'') False] @
         (case review_target v of
            Some e \<Rightarrow> with_name (te_category e) (\<lambda>name. [draw_button (l_row p 2) (clip (''ACK: '' @ name)) True])
          | None \<Rightarrow> [draw_button (l_row p 2) (if view_warning v \<noteq> None then ''REVIEW NEXT WARNING'' else ''NO WARNING TO ACKNOWLEDGE'')
                False]) @
         [draw_button (l_row p 3) (if review_target v \<noteq> None then ''IGNORE THIS TAG'' else ''IGNORE: NO TAG SELECTED'') False,
          draw_button (l_row p 4) ''BACK TO HOUND'' False,
          draw_button (l_more p) (if v_now v < snoozed_until v then ''RESUME ALERTS'' else ''SNOOZE ALERTS: 15 MIN'') False,
          draw_text 16 (high v - 34) ''STATUS SHOWS EACH TAG TIMER AND RESTARTS'' muted 1,
          draw_text 16 (high v - 20)
            (if v_notice v \<noteq> [] then v_notice v else if v_demo v then ''DEMO ONLY / WATCH RESETS ON EXIT''
             else ''START WHEN TRAVELLING / RESETS AT REBOOT'') mint 1])"

definition on_off :: "string \<Rightarrow> bool \<Rightarrow> string" where
  "on_off label b = label @ (if b then '': ON'' else '': OFF'')"

definition draw_display :: "view \<Rightarrow> drawing list" where
  "draw_display v =
     (let p = tall v; inverted = (ap_inverted (look v) \<noteq> 0)
      in [draw_button (l_row p 0) (clip (''BRIGHTNESS: '' @ udec (s_brightness (v_settings v)))) False,
          draw_button (l_row p 1) (on_off ''PANEL INVERSION'' inverted) inverted,
          draw_button (l_row p 2) (if s_reduced_animation (v_settings v) then ''ANIMATION: REDUCED'' else ''ANIMATION: FULL'') False,
          draw_button (l_row p 3) ''COLOR / TOUCH TEST'' False,
          draw_button (l_row p 4) ''SCREEN SAVER / TIMEOUTS'' False,
          draw_button (l_more p) ''BACK TO SETTINGS'' True,
          draw_text 16 (high v - 34) ''INVERSION CHANGES THE PANEL COLOR POLARITY'' muted 1,
          draw_text 16 (high v - 20) (if v_demo v then ''DEMO INVERSION / NOT SAVED'' else ''SAVED AUTOMATICALLY / DEFAULT OFF'')
            mint 1])"

definition timeout_row :: "view \<Rightarrow> nat \<Rightarrow> string \<Rightarrow> u8 \<Rightarrow> drawing" where
  "timeout_row v i label minutes = draw_button (l_row (tall v) i)
     (clip (label @ '': '' @ (if minutes \<noteq> 0 then udec minutes @ '' MIN'' else ''NEVER''))) False"

definition draw_idle_display :: "view \<Rightarrow> drawing list" where
  "draw_idle_display v =
     [timeout_row v 0 ''DIM AFTER'' (ap_dim_minutes (look v)), timeout_row v 1 ''BOUNCE AFTER'' (ap_saver_minutes (look v)),
      timeout_row v 2 ''SCREEN OFF AFTER'' (ap_off_minutes (look v)),
      draw_button (l_row (tall v) 3) ''PREVIEW BOUNCING HOUND'' False, draw_button (l_row (tall v) 4) ''BACK TO DISPLAY'' False,
      draw_button (l_more (tall v)) ''BACK TO HOUND'' True,
      draw_text 16 (high v - 34) ''TRAVEL WATCH ALWAYS BLOCKS SCREEN OFF'' mint 1,
      draw_text 16 (high v - 20) ''IDLE TIME / SCANNING AND LOGGING CONTINUE'' muted 1]"

definition named_row :: "view \<Rightarrow> nat \<Rightarrow> string \<Rightarrow> string list \<Rightarrow> u8 \<Rightarrow> drawing list" where
  "named_row v i label names k = pick names (unat k) (\<lambda>name. [draw_button (l_row (tall v) i) (clip (label @ name)) False])"

definition draw_appearance :: "view \<Rightarrow> drawing list" where
  "draw_appearance v =
     named_row v 0 ''THEME: '' theme_names (ap_theme (look v)) @ named_row v 1 ''SCENE: '' scene_names (ap_scene (look v)) @
     named_row v 2 ''SPEECH: '' speech_names (ap_speech (look v)) @
     [draw_button (l_row (tall v) 3) (if ap_compact (look v) \<noteq> 0 then ''PATROL PANEL: COMPACT'' else ''PATROL PANEL: DETAILED'') False,
      draw_button (l_row (tall v) 4) ''BACK TO SETTINGS'' False, draw_button (l_more (tall v)) ''PREVIEW ON HOUND'' True,
      draw_text 16 (high v - 34) (if v_demo v then ''DEMO APPEARANCE / SESSION ONLY'' else ''LOOK SAVED FOR YOUR NEXT PATROL'')
        muted 1,
      draw_text 16 (high v - 20) ''LESS MOTION: SETTINGS / ANIMATION REDUCED'' muted 1]"

fun signal_text :: "scent_signal \<Rightarrow> string" where
  "signal_text Scent_None = ''NO SCENT SELECTED''"
| "signal_text Paused = ''SNIFFING PAUSED''"
| "signal_text Waiting = ''WAITING FOR SIGNAL''"
| "signal_text Fresh = ''LIVE RECEPTION''"
| "signal_text Stale = ''WAITING FOR REPEAT''"
| "signal_text Lost = ''SIGNAL LOST''"

text \<open>The chart of the last thirty seconds: a dot per sample, joined to the one before unless there is a gap.\<close>

definition chart_height :: "view \<Rightarrow> int" where
  "chart_height v = (if tall v then 72 else 37)"

definition chart_point :: "view \<Rightarrow> sample \<Rightarrow> int \<times> int" where
  "chart_point v a =
     (let gx = 16; gy = (if tall v then 185 else 181); gw = (if tall v then 288 else 292); gh = chart_height v
      in (gx + gw - 3 - int_of ((v_now v - sm_ms a) * word_of_int (gw - 6) div 30000),
          gy + gh - 3 - (max (- 100) (min (- 30) (sm_rssi a)) + 100) * (gh - 6) div 70))"

definition chart_sample :: "view \<Rightarrow> bool \<Rightarrow> nat \<Rightarrow> drawing list" where
  "chart_sample v fresh i =
     (let col = (if fresh then mint else muted); now = v_now v; history = f_history (v_follow v)
      in pick history i (\<lambda>a.
           if now < sm_ms a \<or> 30000 \<le> now - sm_ms a then []
           else let (x, y) = chart_point v a; before = history ! (i - 1)
                in draw_rect x y 2 2 col #
                   draw_if (i \<noteq> 0 \<and> sm_ms a - sm_ms before \<le> 5000 \<and> now - sm_ms before < 30000)
                     (let (qx, qy) = chart_point v before in [draw_line qx qy x y col])))"

definition follow_frame :: "view \<Rightarrow> int" where
  "follow_frame v =
     (let status = view_signal v; fresh = (status = Fresh); rssi = f_rssi (v_follow v);
          frame = (if status = Paused then 17 else if \<not> fresh then 8 else if - 55 \<le> rssi then 22 else if - 75 \<le> rssi then 4 else 8)
      in if s_reduced_animation (v_settings v) then frame else frame + beat v (if fresh then 200 else 700) 3)"

definition follow_reading :: "view \<Rightarrow> bool \<Rightarrow> drawing list" where
  "follow_reading v fresh =
     (let f = v_follow v; now = v_now v; delta = follow_trend now f
      in (if f_received f
          then [draw_text 16 116 (clip ((if fresh then ''RSSI'' else ''LAST'') @ '' '' @ number_text (f_rssi f) @ '' DBM''))
                  (if fresh then ink else muted) 2,
                draw_text 16 139 (clip (''LAST SEEN '' @
                  udec (if f_last_ms f \<le> now then (now - f_last_ms f) div 1000 else 0) @ ''s AGO'')) muted 1]
          else [draw_text 16 121 ''AWAITING A NEW READING'' muted 1]) @
         [draw_text 16 158
            (if \<not> fresh then ''NO FRESH TREND'' else if 4 \<le> delta then ''SIGNAL RISING''
             else if delta \<le> - 4 then ''SIGNAL FALLING'' else ''STEADY / MORE SAMPLES NEEDED'') mint 1])"

definition draw_follow :: "material \<Rightarrow> view \<Rightarrow> drawing list" where
  "draw_follow m v =
     (let f = v_follow v; status = view_signal v; fresh = (status = Fresh); p = tall v;
          dx = (if p then 96 else 330); dy = (if p then 270 else 94)
      in draw_text 16 72 (signal_text status) (if fresh then mint else amber) 2 #
         (if f_active f
          then with_name (f_category f) (\<lambda>name.
                 [draw_text 16 96 (clip (name @ '' / '' @ radio_name (f_radio f) @ (if f_demo f then '' / DEMO'' else []))) muted 1]) @
               follow_reading v fresh @
               draw_box 16 (if p then 185 else 181) (if p then 288 else 292) (chart_height v) grid #
               concat (map (chart_sample v fresh) [0..<f_count f]) @
               draw_dog (mt_sprites m) dx dy (unat (s_character (v_settings v))) (follow_frame v) (unat (co_equipped (collection v))) 2 #
               draw_if (status = Paused) [draw_text (dx + 90) (dy + 12) ''ZZZ'' mint 1] @
               [draw_text 16 (if p then 267 else 224) ''30S HISTORY / -100 TO -30 DBM'' muted 1]
          else [draw_wrap 16 110 ''Open a sighting in the log, then tap Follow Scent.'' (if p then 24 else 36) muted 2 1000]) @
         confirms v ''BACK TO HOUND'' ''STOP FOLLOWING'' False True @
         [draw_text 16 (high v - 38) ''RECEPTION ONLY / NO DIRECTION OR DISTANCE'' amber 1,
          draw_text 16 (high v - 23) ''ADDRESS CHANGES REQUIRE A NEW SELECTION'' muted 1])"

section \<open>The guides and the Scent Book\<close>

definition coverage_guide :: "(string \<times> string \<times> string) list" where
  "coverage_guide = [
    (''WHAT HOUND HEARS'', ''Hound listens for 2.4 GHz Wi-Fi and Bluetooth LE broadcasts.'',
     ''Only recognizable signals count. Scan windows and channel changes can miss devices. '' @
     ''Wi-Fi clues currently use management frames, not connected-device data traffic.''),
    (''WHAT A CLUE MEANS'', ''Names and vendor clues do not prove who owns a device or that it is recording.'',
     ''Repeated sightings do not make a weak clue strong. Travel Watch flags repeated nearby '' @
     ''tags. Without location or motion input, it cannot confirm they followed you.''),
    (''WHAT STAYS UNSEEN'', ''Silent listeners and wired or cellular-only devices may give Hound nothing to hear.'',
     ''This includes silent PAX counters, cellular-only trackers and plate readers, cellular '' @
     ''interception equipment and acoustic-only sensors. A separate supported broadcast may '' @ ''still provide a clue.''),
    (''RADIOS OUT OF REACH'', ''This board cannot hear 5 or 6 GHz Wi-Fi. BLE coverage also has limits.'',
     ''No Classic Bluetooth discovery, extended BLE ads or coded PHY. Optical, IR, radar, '' @
     ''RFID, LoRa and proprietary drone links are outside these detectors, even if their '' @ ''frequencies overlap.''),
    (''QUIET IS NOT ALL CLEAR'', ''No matching signals observed does not mean there are no devices nearby.'',
     ''Hound is not a complete device inventory or a safety guarantee. A sleeping radio, '' @
     ''changed name, unsupported signal or missed packet can leave no matching scent.'')]"

definition scent_guide :: "(string \<times> string) list" where
  "scent_guide = [
    (''Plate-reader ecosystem clues from Wi-Fi names, vendor addresses or Bluetooth accessories.'',
     ''Shared ESP32/Liteon hardware is not proof of a Flock camera. Read the matched rule.''),
    (''Axon ecosystem clues include body-camera names, vendor addresses and field accessories.'',
     ''A vendor or accessory clue does not identify the wearer or show that video is recording.''),
    (''A Meta FD5F Bluetooth service clue, grouped here as a possible smart-glasses scent.'',
     ''Meta radio hardware can include other products. Reception does not prove recording.''),
    (''Bluetooth serial-module names and services sometimes found in card skimmers.'',
     ''These are common hobby and industrial modules too. This is a weak clue, not a skimmer '' @ ''verdict.''),
    (''Bluetooth services in the 3100-3500 family, sometimes associated with Raven equipment.'',
     ''Generic services are weak clues and may not be advertised. This does not establish a '' @ ''sensor.''),
    (''Apple Find My offline-finding advertisements, also used by AirTags and other devices.'',
     ''This category is broader than AirTag. A broadcast does not establish unwanted tracking.''),
    (''Bluetooth service clues associated with Tile finding devices.'',
     ''This does not identify an owner or intent. A changed radio address may look like a new '' @ ''device.''),
    (''Samsung SmartTag-family Bluetooth service clues, including FD5A observations.'',
     ''A matching service is not an authenticated product identity or evidence of unwanted '' @ ''tracking.''),
    (''Google Find Hub and related Bluetooth ecosystem clues.'',
     ''Fast Pair alone is broad and weak. Read which service actually matched before drawing '' @ ''conclusions.''),
    (''Remote ID-shaped broadcasts and supported drone-related radio clues.'',
     ''Broadcast claims are unauthenticated. Locations, when received, are volatile local details.''),
    (''Radio clues associated with automatic license-plate reader systems.'',
     ''Shared network hardware may match too. This cannot establish what a camera is capturing.''),
    (''Wi-Fi vendor-address clues associated with camera manufacturers.'',
     ''Shared chips and IoT products create false positives. A match does not establish recording.''),
    (''Doorbell and camera ecosystem clues associated with Ring.'',
     ''Vendor clues can cover other products. No account, owner or camera feed is accessed.''),
    (''An Apple iBeacon-format Bluetooth advertisement.'',
     ''iBeacon is widely used for benign proximity services. Alerts are off by default.''),
    (''Flipper-associated Bluetooth serial services or company-identifier clues.'',
     ''Names and services can be imitated. Possession of a Flipper does not indicate malicious '' @ ''use.''),
    (''Structured Pwnagotchi-style Wi-Fi advertisements.'',
     ''Advertisements can be spoofed. This does not prove credential collection or an attack.''),
    (''A Pineapple_ Wi-Fi network-name prefix associated with Wi-Fi Pineapple equipment.'',
     ''Names can be changed or copied. A match does not establish an active attack.''),
    (''A burst of Wi-Fi deauthentication management frames within the detector window.'',
     ''Network faults and legitimate disconnects can cause bursts. This is a behavior clue.''),
    (''Repeated same-name Wi-Fi observations with corroborating security differences.'',
     ''Legitimate deployments can differ too. This is a possible lookalike network, not proof.'')]"

definition draw_coverage :: "view \<Rightarrow> drawing list" where
  "draw_coverage v =
     (let page = min (v_coverage_page v) 4; p = tall v
      in (case coverage_guide ! page of (heading, summary, detail) \<Rightarrow>
            [draw_text 16 78 heading mint 2, draw_wrap 16 112 summary (if p then 24 else 37) ink 2 1000,
             draw_wrap 16 (if p then 244 else 186) detail (if p then 48 else 74) muted 1 1000]) @
         confirms v ''BACK TO BOOK'' ''NEXT'' False False @
         [draw_text 16 (high v - 33) (clip (''PAGE '' @ decimal (page + 1) @ '' OF 5 / PASSIVE CLUES'')) amber 1])"

definition book_entry :: "view \<Rightarrow> nat \<Rightarrow> drawing list" where
  "book_entry v i =
     (let index = v_book_page v * 6 + i
      in if category_count \<le> index then []
         else let entry = co_scents (collection v) ! index; r = l_book (tall v) i; seen = (se_observations entry \<noteq> 0)
              in [draw_box (rc_x r) (rc_y r) (rc_w r) (rc_h r) (if seen then mint else grid),
                  draw_food (rc_x r + (rc_w r - 40) div 2) (rc_y r + 5) (listed_categories ! index) 0,
                  draw_text (rc_x r + 7) (rc_y r + 46) (categories ! index) (if seen then ink else muted) 1,
                  draw_text (rc_x r + 7) (rc_y r + 60)
                    (clip (if seen then ''SEEN '' @ udec (se_observations entry) else ''NOT SEEN YET'')) (if seen then mint else muted) 1])"

definition draw_scent_book :: "view \<Rightarrow> drawing list" where
  "draw_scent_book v =
     draw_text (wide v - 88) 46 (clip (decimal (discoveries (collection v)) @ ''/19 FOUND'')) mint 1 #
     concat (map (book_entry v) [0..<6]) @
     confirms v ''BACK'' (clip (''NEXT / '' @ decimal (v_book_page v + 1) @ '' OF 4'')) False False @
     [draw_button (l_book_coverage (tall v)) ''COVERAGE / WHAT HOUND CAN HEAR'' False]"

definition card_guide :: "view \<Rightarrow> nat \<Rightarrow> drawing list" where
  "card_guide v index = (case scent_guide ! index of (about, caution) \<Rightarrow>
     [draw_wrap 16 120 about (if tall v then 46 else 72) ink 1 1000, draw_text 16 171 ''WHAT THIS CANNOT TELL YOU'' amber 1,
      draw_wrap 16 190 caution (if tall v then 46 else 72) muted 1 1000])"

definition card_stats :: "view \<Rightarrow> scent_entry \<Rightarrow> drawing list" where
  "card_stats v entry =
     [draw_text 16 120 (clip (''OBSERVATIONS: '' @ udec (se_observations entry) @ '' / NOT UNIQUE DEVICES'')) ink 1,
      draw_text 16 141 (clip (''LAST: '' @ udec (se_last_score entry) @ '' / BEST: '' @ udec (se_best_score entry) @ '' / '' @
        (if se_observations entry \<noteq> 0 then badge (se_best_score entry) else ''NOT SEEN''))) mint 1,
      draw_text 16 164 (clip (''FIRST: '' @ utc_label (se_first_utc entry) ''TIME NOT SET'')) ink 1,
      draw_text 16 185 (clip (''LAST:  '' @ utc_label (se_last_utc entry) ''TIME NOT SET'')) ink 1,
      draw_text 16 215 (if v_demo v then ''DEMO DISCOVERIES / SESSION ONLY'' else ''TIMES USE MANUAL UTC WHEN AVAILABLE'') muted 1]"

text \<open>The rules named on a page, one line each; \<open>bounded\<close> is whether the loop also stops at the end of the array.\<close>

definition rule_lines :: "detection \<Rightarrow> int \<Rightarrow> int \<Rightarrow> bool \<Rightarrow> drawing list" where
  "rule_lines d y step bounded =
     concat (map (\<lambda>i. pick (d_rules d) i (\<lambda>rule.
         case rule of Some r \<Rightarrow> [draw_text 16 (y + int i * step) (r_id r) muted 1] | None \<Rightarrow> []))
       [0..<(if bounded then min (d_rule_count d) (length (d_rules d)) else d_rule_count d)])"

definition card_evidence :: "view \<Rightarrow> nat \<Rightarrow> drawing list" where
  "card_evidence v index =
     (case find (\<lambda>d. category_index (d_category d) = index \<and> d_demo d = v_demo v) (take (v_recent_count v) (v_recent v)) of
        Some d \<Rightarrow>
          [draw_text 16 120 (clip (badge (d_score d) @ '' / '' @ udec (d_score d) @ '' / '' @ radio_name (d_radio d))) amber 1,
           draw_wrap 16 139 (first_reason d ''No rule detail received.'') (if tall v then 46 else 72) ink 1 1000] @
          rule_lines d 174 13 True
      | None \<Rightarrow>
          [draw_wrap 16 124
             (''No evidence in the recent log for this category. Discovery totals stay '' @
              ''saved; live evidence is held only for recent observations.'') (if tall v then 44 else 68) muted 1 1000])"

definition draw_scent_card :: "view \<Rightarrow> drawing list" where
  "draw_scent_card v =
     (let index = min (v_scent_index v) (category_count - 1); entry = co_scents (collection v) ! index; page = v_scent_page v
      in [draw_food 16 70 (listed_categories ! index) 0, draw_text 70 75 (categories ! index) mint 2,
          draw_text 70 98 (if page = 0 then ''FIELD GUIDE'' else if page = 1 then ''YOUR DISCOVERIES'' else ''LATEST EVIDENCE'') muted 1] @
         (if page = 0 then card_guide v index else if page = 1 then card_stats v entry else card_evidence v index) @
         draw_button (l_confirm (tall v) False) ''BACK TO BOOK'' False #
         pick [''STATS'', ''EVIDENCE'', ''GUIDE''] page (\<lambda>label. [draw_button (l_confirm (tall v) True) label False]))"

definition draw_wardrobe :: "material \<Rightarrow> view \<Rightarrow> drawing list" where
  "draw_wardrobe m v =
     (let k = v_wardrobe_index v; c = collection v; unlocked = ((ucast (co_unlocked c) :: u32) AND push_bit k 1 \<noteq> 0); p = tall v
      in [draw_dog (mt_sprites m) (if p then 96 else 176) 68 (unat (s_character (v_settings v))) (rest_frame v) k 2,
          button_at 12 96 44 50 ''PREV'', button_at (wide v - 56) 96 44 50 ''NEXT''] @
         pick outfit_names k (\<lambda>name. [draw_text (c_div (wide v - int (length name) * 12) 2) 197 name (if unlocked then mint else muted) 2]) @
         pick outfit_goals k (\<lambda>goal.
           [draw_text 16 219 (clip ((if unlocked then ''UNLOCKED'' else goal) @ '' / XP '' @
              udec (if v_demo v then v_preview_xp v else p_xp (v_pet v)) @ '' / SCENTS '' @ decimal (discoveries c)))
              (if unlocked then mint else amber) 1]) @
         draw_if p
           [draw_wrap 24 260 ''Preview any outfit. Earn XP and discover scents to unlock more gear.'' 23 muted 2 1000,
            draw_text 24 351 (if v_demo v then ''DEMO REWARDS ARE SESSION ONLY'' else ''OUTFITS FIT EVERY HOUND'') mint 1] @
         confirms v ''BACK''
           (if \<not> unlocked then ''LOCKED'' else if unat (co_equipped c) = k then ''WEARING'' else ''WEAR'') False unlocked)"

section \<open>Alerts, logs and lists\<close>

text \<open>The short code of the identity on the screen, only an aid for comparing.\<close>

definition identity_line :: "drawn \<Rightarrow> string" where
  "identity_line dn = (if dn_identity dn \<noteq> 0
     then clip (''ID '' @ id_text (dn_identity dn) @ '' / '' @ (if dn_ignored dn then ''IGNORED'' else ''NOT IGNORED''))
     else ''ID UNAVAILABLE'')"

definition draw_alert_actions :: "drawn \<Rightarrow> view \<Rightarrow> drawing list" where
  "draw_alert_actions dn v =
     (let p = tall v; d = v_action_detection v
      in [draw_button (l_row p 0) ''SNOOZE ALL: 5 MIN'' False, draw_button (l_row p 1) ''SNOOZE ALL: 15 MIN'' False,
          draw_button (l_row p 2) ''SNOOZE ALL: 60 MIN'' False] @
         with_name (d_category d) (\<lambda>name.
           [draw_button (l_row p 3) (clip ((if dn_ignored dn then ''ALREADY IGNORED: '' else ''IGNORE THIS '') @ name)) False]) @
         [draw_button (l_row p 4) ''RESUME SNOOZED ALERTS'' False,
          draw_text 16 (high v - 34) (if v_notice v \<noteq> [] then v_notice v else identity_line dn) amber 1,
          draw_button (l_more p) ''BACK TO HOUND'' False,
          draw_text 16 (high v - 21)
            (if d_category d = SAMSUNG_TAG
             then if samsung_identity d then ''IGNORES BROADCAST ID / ID CAN CHANGE'' else ''IGNORES RADIO ID / ID CAN CHANGE''
             else ''IGNORES CURRENT RADIO ID / ID CAN CHANGE'') muted 1])"

definition draw_ignore_backup :: "readings \<Rightarrow> view \<Rightarrow> drawing list" where
  "draw_ignore_backup r v =
     (let p = tall v
      in [draw_button (l_row p 0) (if v_backup_pending v then ''BACKUP REQUEST PENDING'' else ''BACK UP IGNORES NOW'') False,
          draw_text 16 (if p then 148 else 112) (ignore_backup_message v) mint 1,
          draw_text 16 (if p then 169 else 132)
            (if v_demo v then ''DEMO LIST STAYS IN MEMORY''
             else clip (if v_sd_checking v
               then ''CHECKED '' @ udec (re_checked_rows r) @ '' RECORDS / '' @ udec (re_checked_files r) @ '' FILES''
               else udec (re_backup_entries r) @ '' ENTRIES IN LAST SD BACKUP'')) muted 1,
          draw_wrap 16 (if p then 205 else 158)
            (''Ignores stay saved on this Hound without a card. SD keeps a recovery copy and '' @ ''updates when your list changes.'')
            (if p then 44 else 70) ink 1 1000,
          draw_text 16 (high v - 110) (v_notice v) amber 1,
          draw_button (l_more p) ''BACK TO IGNORED SCENTS'' False])"

definition ignored_row :: "view \<Rightarrow> nat \<Rightarrow> nat \<Rightarrow> drawing list" where
  "ignored_row v page i =
     (let slot = ignored_slot (page * 4 + i) v; entries = co_ignored (collection v); used = (slot < length entries);
          r = l_detector (tall v) i; line = (\<lambda>str. draw_text (rc_x r + 8) (rc_y r + 6) (clip str) (if used then ink else muted) 1)
      in draw_box (rc_x r) (rc_y r) (rc_w r) (rc_h r) (if used then mint else grid) #
         (if used then with_name (ig_category (entries ! slot)) (\<lambda>name. [line (name @ '' / ENTRY '' @ two_digits (slot + 1))])
          else [line ''NO MORE IGNORED SCENTS'']) @
         [draw_text (rc_x r + 8) (rc_y r + (if tall v then 34 else 23))
            (if used then ''TAP TO RESTORE THIS SCENT'S ALERTS'' else ''ADD FROM A SCENT'S IGNORE MENU'') muted 1])"

definition draw_ignored :: "view \<Rightarrow> drawing list" where
  "draw_ignored v =
     (let page = min (v_ignored_page v) (ignored_pages v - 1); count = ignored_count (collection v)
      in concat (map (ignored_row v page) [0..<4]) @
         confirms v ''BACK'' (clip (''NEXT / '' @ decimal (page + 1) @ '' OF '' @ decimal (ignored_pages v))) False False @
         [draw_text 16 (high v - 40) (clip (decimal count @ '' / '' @ decimal ignore_capacity @ '' USED'')) ink 1,
          draw_text 16 (high v - 24) (clip (decimal (ignore_capacity - count) @ '' FREE'')) mint 1,
          button_at (wide v - 148) (high v - 42) 136 30 ''SD BACKUP''])"

definition log_row :: "view \<Rightarrow> nat \<Rightarrow> drawing list" where
  "log_row v i =
     (if v_recent_count v \<le> v_log_page v * 4 + i then []
      else pick (v_recent v) (v_log_page v * 4 + i) (\<lambda>d.
        let r = l_log (tall v) i
        in draw_box (rc_x r) (rc_y r) (rc_w r) (rc_h r) grid #
           with_name (d_category d) (\<lambda>name. [draw_text (rc_x r + 10) (rc_y r + 8) name ink 2]) @
           [draw_text (rc_x r + 10) (rc_y r + (if tall v then 36 else 26))
              (clip (badge (d_score d) @ '' '' @ udec (d_score d) @ '' / '' @ radio_name (d_radio d) @
                (if d_demo d then '' / DEMO'' else []))) mint 1]))"

definition page_button :: "view \<Rightarrow> nat \<Rightarrow> string \<Rightarrow> drawing" where
  "page_button v page pages = draw_button (l_more (tall v)) (clip (''NEXT PAGE / '' @ decimal (page + 1) @ '' OF '' @ pages)) False"

definition draw_log :: "view \<Rightarrow> drawing list" where
  "draw_log v =
     draw_if (v_recent_count v = 0)
       [draw_wrap 16 100 ''No matching signals observed. Devices can be missed. See Scent Book / Coverage.''
          (if tall v then 24 else 37) muted 2 1000] @
     concat (map (log_row v) [0..<4]) @ [page_button v (v_log_page v) (decimal (max 1 ((v_recent_count v + 3) div 4)))]"

definition verified :: "material \<Rightarrow> nat \<Rightarrow> bool" where
  "verified m index \<longleftrightarrow> list_ex (\<lambda>r. category_index (r_category r) = index) (mt_rules m)"

definition mask_has :: "u32 \<Rightarrow> nat \<Rightarrow> bool" where
  "mask_has flags index \<longleftrightarrow> flags AND push_bit index 1 \<noteq> 0"

definition detector_row :: "material \<Rightarrow> view \<Rightarrow> nat \<Rightarrow> drawing list" where
  "detector_row m v i =
     (let index = v_detector_page v * 4 + i; r = l_detector (tall v) i
      in if category_count \<le> index then []
         else [draw_box (rc_x r) (rc_y r) (rc_w r) (rc_h r) grid, draw_text (rc_x r + 10) (rc_y r + 5) (categories ! index) ink 2,
               draw_text (rc_x r + 10) (rc_y r + (if tall v then 36 else 26))
                 (if verified m index
                  then if mask_has (s_enabled_categories (v_settings v)) index then ''RULES LOADED / ENABLED'' else ''DISABLED''
                  else ''EXPERIMENTAL / NO LIVE RULE'') (if verified m index then mint else muted) 1])"

definition draw_detectors :: "material \<Rightarrow> view \<Rightarrow> drawing list" where
  "draw_detectors m v = concat (map (detector_row m v) [0..<4]) @ [page_button v (v_detector_page v) ''5'']"

definition alert_row :: "material \<Rightarrow> view \<Rightarrow> nat \<Rightarrow> drawing list" where
  "alert_row m v i =
     (let index = v_alert_page v * 4 + i; r = l_detector (tall v) i; enabled = mask_has (s_alert_categories (v_settings v)) index
      in if category_count \<le> index then []
         else [draw_box (rc_x r) (rc_y r) (rc_w r) (rc_h r) (if enabled then mint else grid),
               draw_text (rc_x r + 10) (rc_y r + 5) (categories ! index) ink 2,
               draw_text (rc_x r + rc_w r - 47) (rc_y r + 5) (if enabled then ''ON'' else ''OFF'') (if enabled then mint else muted) 2,
               draw_text (rc_x r + 10) (rc_y r + (if tall v then 36 else 26))
                 (if verified m index then ''POP-UP + SOUND / LOG KEPT'' else ''DEMO ONLY / NO LIVE RULE'') muted 1])"

definition draw_alerts :: "material \<Rightarrow> view \<Rightarrow> drawing list" where
  "draw_alerts m v = concat (map (alert_row m v) [0..<4]) @ [page_button v (v_alert_page v) ''5'']"

section \<open>Settings and diagnostics\<close>

definition setting_groups :: "string list" where
  "setting_groups = [''HOUND'', ''DISPLAY'', ''ALERTS'', ''DATA'', ''MAINTENANCE'', ''TOOLS'']"

definition setting_labels :: "view \<Rightarrow> string list" where
  "setting_labels v =
     (let s = v_settings v; page = v_settings_page v
      in if page = 0 then [''DOG WARDROBE'', ''ATMOSPHERE'', ''SCENT BOOK'', ''IGNORED SCENTS'',
             if v_now v < snoozed_until v then ''RESUME ALERTS'' else ''SNOOZE ALERTS: 15 MIN'']
         else if page = 1 then [on_off ''ROTATION LOCK'' (s_rotation_locked s),
             if s_portrait s then ''VIEW: PORTRAIT'' else ''VIEW: LANDSCAPE'', ''DISPLAY OPTIONS'',
             if s_reduced_animation s then ''ANIMATION: REDUCED'' else ''ANIMATION: FULL'', ''ALERT TYPES'']
         else if page = 2 then [on_off ''SOUND'' (s_sound s),
             if s_threshold s = 80 then ''ALERTS: HIGH'' else if s_threshold s = 50 then ''ALERTS: MED/HIGH'' else ''ALERTS: ALL'',
             if s_region s = 0 then ''REGION: US'' else ''REGION: EU'', on_off ''LOW FEEDING'' (s_low_feeding s),
             on_off ''IBEACON ALERTS'' (s_ibeacon_alerts s)]
         else if page = 3 then [if s_research s then ''PRIVACY: RESEARCH'' else ''PRIVACY: PRIVATE'', ''EXPORT HISTORY'',
             ''EJECT SD'', ''DEMO MODE'', ''DIAGNOSTICS'']
         else if page = 5 then [''SET UTC TIME'', ''BATTERY SETUP'', ''CLEAR SD LOGS'', ''SELF TEST'', ''EXPORT HISTORY'']
         else [''CALIBRATE TOUCH'', ''RESET PROGRESS'', ''CHANGE HOUND'', ''DISPLAY SETTINGS'', ''BACK TO PATROL''])"

text \<open>A row that shows the state of an export or of ejecting below its title.\<close>

definition status_row :: "rect \<Rightarrow> string \<Rightarrow> string \<Rightarrow> u16 \<Rightarrow> drawing list" where
  "status_row r title message col =
     (let scale = label_scale message (rc_w r)
      in [draw_box (rc_x r) (rc_y r) (rc_w r) (rc_h r) col,
          draw_text (rc_x r + c_div (rc_w r - int (length title) * 6) 2) (rc_y r + 4) title ink 1,
          draw_text (rc_x r + c_div (rc_w r - int (length message) * 6 * scale) 2) (rc_y r + rc_h r - 3 - 7 * scale) message col scale])"

definition setting_row :: "view \<Rightarrow> nat \<Rightarrow> drawing list" where
  "setting_row v i =
     (let r = l_row (tall v) i; page = v_settings_page v; export_row = (page = 3 \<and> i = 1 \<or> page = 5 \<and> i = 4)
      in (if export_row \<and> v_export_status v \<noteq> Export_Idle
          then status_row r ''EXPORT HISTORY'' (export_message 100 v) (if v_export_status v = Export_Complete then mint else amber)
          else if page = 3 \<and> i = 2 \<and> v_eject_status v \<noteq> Eject_Idle
          then status_row r ''EJECT SD'' (eject_message v) (if v_eject_status v = Eject_Safe then mint else amber)
          else [draw_button r (setting_labels v ! i) (page = 1 \<and> i = 0)]) @
         draw_if (page = 1 \<and> i = 1 \<and> s_rotation_locked (v_settings v))
           [draw_text (rc_x r + rc_w r - 52) (rc_y r + c_div (rc_h r - 7) 2) ''LOCKED'' muted 1])"

definition draw_settings :: "view \<Rightarrow> drawing list" where
  "draw_settings v =
     (let page = v_settings_page v
      in draw_if (page = 0) [draw_button (mk_rect (wide v - 170) 32 108 25) ''TAG WATCH'' (tw_armed (v_tag_watch v))] @
         pick setting_groups page (\<lambda>group. [draw_text (wide v - 12 - int (length group) * 6) 44 group mint 1]) @
         concat (map (setting_row v) [0..<5]) @
         pick setting_groups ((page + 1) mod 6) (\<lambda>group.
           [draw_button (l_more (tall v)) (clip (''MORE: '' @ group @ '' / '' @ decimal (page + 1) @ '' OF 6'')) False]))"

definition draw_battery :: "view \<Rightarrow> drawing list" where
  "draw_battery v =
     (let k = v_battery_point v; cal = v_battery_cal v; row = (\<lambda>i str. draw_button (l_row (tall v) i) (clip str) (i = k))
      in row 0 (''CALIBRATION POINT: '' @ decimal (k + 1) @ '' OF 3'') #
         pick (bc_millivolts cal) k (\<lambda>mv. [row 1 (''LESS / '' @ number_text mv @ '' MV / MORE'')]) @
         pick (bc_adc cal) k (\<lambda>adc. [row 2 (''CAPTURE ADC '' @ number_text (v_battery_adc v) @ '' / SAVED '' @ number_text adc)]) @
         [row 3 (''BATTERY MODE: '' @ (if bc_enabled cal then ''ON'' else if valid_battery cal then ''OFF'' else ''NEEDS 3 POINTS'')),
          row 4 ''CLEAR CALIBRATION'', draw_button (l_more (tall v)) ''BACK / MEASURE WITH METER'' False])"

definition diagnostic_counters :: "readings \<Rightarrow> (string \<times> nat) list" where
  "diagnostic_counters r = [(''HEAP 8BIT'', unat (re_heap r)), (''MIN HEAP'', unat (re_min_heap r)), (''WIFI RX'', unat (re_wifi_count r)),
     (''BLE RX'', unat (re_ble_count r)), (''WIFI OK'', unat (re_wifi_accepted r)), (''BLE OK'', unat (re_ble_accepted r)),
     (''WIFI BAD'', unat (re_wifi_malformed r)), (''BLE BAD'', unat (re_ble_malformed r)), (''DROPPED'', unat (re_drops r)),
     (''OVERSIZE'', unat (re_oversize r)), (''QUEUE HIGH'', unat (re_queue_peak r)), (''RADIO ERR'', unat (re_radio_errors r))]"

definition diagnostic_stacks :: "readings \<Rightarrow> view \<Rightarrow> (string \<times> nat) list" where
  "diagnostic_stacks r v = [(''UI STACK'', unat (re_ui_stack r)), (''RADIO STACK'', unat (re_radio_stack r)),
     (''BLE STACK'', unat (re_ble_stack r)), (''SD STACK'', unat (re_storage_stack r)), (''SD WRITES'', unat (re_writes r)),
     (''EXPORTS'', unat (v_export_count v)), (''SD FREE KB'', unat (re_sd_free r) div 1024), (''SD TOTAL KB'', unat (re_sd_total r) div 1024),
     (''BAT ADC'', nat (v_battery_adc v)), (''BAT MV'', nat (re_battery_millivolts r)), (''BAT PERCENT'', nat (re_battery_level r)),
     (''RESET'', unat (re_boot_reason r))]"

definition diagnostic_card :: "material \<Rightarrow> readings \<Rightarrow> view \<Rightarrow> drawing list" where
  "diagnostic_card m r v =
     [draw_text 16 85
        (if v_sd_checking v then clip (''SD CHECK: '' @ udec (re_checked_rows r) @ '' RECORDS / '' @ udec (re_checked_files r) @ '' FILES'')
         else if v_sd_read_only v then ''SD READ ONLY / CHECK CARD'' else if v_sd_error v then ''SD ERROR''
         else if v_sd v then ''SD READY'' else ''SD UNAVAILABLE'') amber 1,
      draw_text 16 112 (if bc_enabled (v_battery_cal v) then ''BATTERY ESTIMATE / CALIBRATED'' else ''BATTERY NOT ENABLED'') mint 1,
      draw_text 16 139 (utc_label (utc_now v) ''TIME: UPTIME ONLY'') ink 1,
      draw_text 16 166 (mt_pack m) muted 1,
      draw_text 16 193 (clip (''LARGEST HEAP BLOCK: '' @ udec (re_largest_heap r) @ '' B'')) muted 1,
      draw_text 16 209 (clip (''NVS SAVES: '' @ udec (re_saves r))) ink 1,
      draw_text 16 225 (clip (''NVS ERRORS: '' @ udec (re_save_errors r))) (if re_save_errors r \<noteq> 0 then amber else ink) 1]"

definition draw_diagnostics :: "material \<Rightarrow> readings \<Rightarrow> view \<Rightarrow> drawing list" where
  "draw_diagnostics m r v =
     (let page = v_diagnostic_page v; p = tall v; counters = (if page \<noteq> 0 then diagnostic_stacks r v else diagnostic_counters r)
      in draw_text (wide v - 80) 42 ''SAVE SD'' mint 1 #
         (if page < 2
          then map (\<lambda>i. draw_text (if p then 16 else 16 + int i div 6 * 234) (if p then 90 + int i * 23 else 82 + int i mod 6 * 24)
                 (clip (fst (counters ! i) @ '': '' @ decimal (snd (counters ! i)))) ink 1) [0..<12]
          else diagnostic_card m r v) @ [page_button v page ''3''])"

section \<open>Details\<close>

fun samsung_text :: "samsung_state \<Rightarrow> string" where
  "samsung_text RecentlySeparated = ''RECENTLY SEPARATED''"
| "samsung_text Offline = ''OFFLINE''"
| "samsung_text LongOffline = ''LONG OFFLINE''"
| "samsung_text Connected = ''OWNER CONNECTED''"
| "samsung_text Unknown = ''UNKNOWN''"
| "samsung_text Unavailable = ''UNAVAILABLE''"

definition find_my_page :: "drawn \<Rightarrow> view \<Rightarrow> drawing list" where
  "find_my_page dn v =
     [draw_text 16 80 ''APPLE FIND MY / CURRENT ID'' mint 1, draw_text 16 108 (identity_line dn) ink 1,
      draw_text 16 132 ''IDENTITY: RADIO ADDRESS AND TYPE'' ink 1,
      draw_wrap 16 156 ''Find My clue: may be an AirTag or another Apple-network device.'' (if tall v then 46 else 72) muted 1 1000,
      draw_text 16 193 ''CHANGED IDS CAN ALERT AGAIN'' amber 1, draw_text 16 211 ''IGNORED SIGNALS STILL COUNT AND LOG'' muted 1]"

definition samsung_page :: "material \<Rightarrow> view \<Rightarrow> detection \<Rightarrow> drawing list" where
  "samsung_page m v d =
     [draw_text 16 80 ''SAMSUNG / ADVERTISED STATE'' mint 1,
      draw_text 16 108 (clip (''REPORTED: '' @ samsung_text (st_state (d_samsung d)))) ink 1,
      draw_text 16 132 (if samsung_identity d then ''IDENTITY: BROADCAST ID'' else ''IDENTITY: RADIO ADDRESS'') ink 1,
      draw_text 16 156 (if samsung_connected d then ''CONNECTED REPORT: ALERTS QUIET'' else ''NO OWNER-CONNECTION SUPPRESSION'') mint 1,
      draw_text 16 180 (if scent_ignored (mt_hmac m) d v then ''CURRENT ID: IGNORED'' else ''CURRENT ID: NOT IGNORED'') ink 1,
      draw_text 16 204 ''ID CAN CHANGE / CLAIM NOT VERIFIED'' amber 1]"

definition place_text :: "material \<Rightarrow> string \<Rightarrow> remote_id \<Rightarrow> string" where
  "place_text m label t = clip (label @ '': '' @ mt_real m 5 (of_int (ri_latitude_e7 t) / 10000000) @ '' / '' @
     mt_real m 5 (of_int (ri_longitude_e7 t) / 10000000))"

definition remote_page :: "material \<Rightarrow> view \<Rightarrow> detection \<Rightarrow> drawing list" where
  "remote_page m v d =
     (let t = v_detail_drone v; has = (\<lambda>k. dt_present t ! k)
      in draw_text 16 80 ''REMOTE ID / LOCAL SNAPSHOT'' mint 1 #
         (if d_category d \<noteq> DRONE \<or> \<not> list_ex (\<lambda>b. b) (dt_present t)
          then [draw_wrap 16 112 ''No fresh Remote ID detail for this sighting.'' (if tall v then 24 else 36) muted 2 1000]
          else [draw_text 16 108 (clip (''BASIC ID: '' @
                  (if has 0 then c_str (sanitize (ri_id (dt_basic t)) (replicate 21 nul)) else ''NOT RECEIVED''))) ink 1,
                draw_text 16 130 (if has 1 \<and> ri_location_valid (dt_location t) then place_text m ''AIRCRAFT'' (dt_location t)
                  else ''AIRCRAFT LOCATION: UNAVAILABLE'') ink 1,
                draw_text 16 152 (if has 1 \<and> ri_altitude_valid (dt_location t)
                  then clip (''ALTITUDE: '' @ mt_real m 1 (of_int (ri_altitude_dm (dt_location t)) / 10) @ '' M'')
                  else ''ALTITUDE: UNAVAILABLE'') ink 1,
                draw_text 16 174 (if has 2 \<and> ri_location_valid (dt_system t) then place_text m ''OPERATOR'' (dt_system t)
                  else ''OPERATOR LOCATION: UNAVAILABLE'') ink 1,
                draw_text 16 210 ''BROADCAST CLAIMS / NOT AUTHENTICATED'' amber 1]))"

definition evidence_page :: "view \<Rightarrow> detection \<Rightarrow> drawing list" where
  "evidence_page v d =
     (let p = tall v
      in with_name (d_category d) (\<lambda>name. [draw_text 16 78 name mint 2]) @
         [draw_text (if p then 16 else 250) (if p then 108 else 78) (badge (d_score d)) amber 2,
          draw_wrap 16 (if p then 140 else 110) (first_reason d ''No rule details'') (if p then 24 else 37) muted (if p then 2 else 1) 1000,
          draw_text 16 (if p then 252 else 154)
            (clip (''RSSI '' @ number_text (d_rssi_min d) @ '' TO '' @ number_text (d_rssi_max d) @ '' DBM / SEEN '' @
              udec (d_seen_count d))) ink 1] @
         rule_lines d (if p then 286 else 175) 14 False @
         [draw_text 16 (if p then 356 else 222)
            (clip (''CHANNEL '' @ udec (d_channel d) @ '' / FIRST '' @ udec (d_first_ms d div 1000) @ ''S / LAST '' @
              udec (d_last_ms d div 1000) @ ''S'')) mint 1])"

definition draw_details :: "material \<Rightarrow> drawn \<Rightarrow> view \<Rightarrow> drawing list" where
  "draw_details m dn v =
     (if \<not> v_detail_valid v \<and> v_recent_count v \<le> v_selected v then []
      else let show_one = (\<lambda>d.
             [button_at (wide v - 108) 32 96 30 (if v_detail_page v \<noteq> 0 then ''EVIDENCE'' else ''MORE''),
              draw_button (mk_rect 12 (high v - 40) (wide v - 24) 32) ''FOLLOW SCENT'' True] @
             (if v_detail_page v \<noteq> 0 \<and> d_category d = AIRTAG then find_my_page dn v
              else if v_detail_page v \<noteq> 0 \<and> d_category d = SAMSUNG_TAG then samsung_page m v d
              else if v_detail_page v \<noteq> 0 then remote_page m v d else evidence_page v d) @
             confirms v ''BACK TO LOG'' ''SNOOZE / IGNORE'' False False)
           in if v_detail_valid v then show_one (v_detail_detection v) else pick (v_recent v) (v_selected v) show_one)"

end
