(* ===== verification/Rendering.thy ===== *)
theory Rendering
  imports Pictures App
begin

text \<open>
  Drawing a frame (\<open>View::render\<close> of \<open>ui.cpp\<close>): the first strip notes which alert is on the screen, and
  every strip draws the picture of the current screen into its span.
\<close>

section \<open>The frame\<close>

definition frame_target :: "view \<Rightarrow> detection option" where
  "frame_target v =
     (if blanked v then None
      else if alert_visible v then Some (v_alert_detection v)
      else if v_screen v = AlertActions then Some (v_action_detection v)
      else if v_screen v = Details \<and> (v_detail_valid v \<or> v_selected v < v_recent_count v)
        then Some (if v_detail_valid v then v_detail_detection v else v_recent v ! v_selected v)
      else None)"

definition drawn_of :: "keyed_digest \<Rightarrow> view \<Rightarrow> drawn" where
  "drawn_of hmac v = (case frame_target v of
     None \<Rightarrow> \<lparr>dn_identity = 0, dn_ignored = False\<rparr>
   | Some d \<Rightarrow> let hash = identity hmac d v; book = (if d_demo d then v_preview_companion v else v_companion v)
       in \<lparr>dn_identity = hash, dn_ignored = is_ignored hash book \<or>
            samsung_identity d \<and> is_ignored (address_hash hmac (v_identity_key v) d) book\<rparr>)"

definition sd_label :: "view \<Rightarrow> string" where
  "sd_label v = (if v_eject_status v = Eject_Safe then ''SD SAFE'' else if v_eject_status v = Ejecting then ''SD WAIT''
     else if v_sd_error v then ''SD ERROR'' else if v_sd_checking v then ''SD CHECK'' else if v_sd v then ''SD OK'' else ''SD OFF'')"

definition status_bar :: "view \<Rightarrow> drawing list" where
  "status_bar v =
     (let warning = (view_warning v \<noteq> None); locked = s_rotation_locked (v_settings v); title = screen_title (v_screen v)
      in [draw_rect 0 0 (wide v) 26 panel,
          draw_text 12 9
            (if warning then if v_demo v then ''DEMO TAG / REVIEW'' else ''TAG ALERT / REVIEW''
             else if v_demo v then ''DEMO / NO SAVES'' else if s_research (v_settings v) then ''RAW LOG'' else ''PRIVATE'')
            (if warning then ink else mint) 1,
          draw_text (wide v - 174) 9 (sd_label v) muted 1,
          draw_text (wide v - 57) 9 (if locked then ''LOCKED'' else ''TURN'') (if locked then muted else pink) 1] @
         (if v_screen v = Home \<and> tall v
          then [draw_text 13 31 ''SURVEILLANCE'' pink 2, draw_text 12 29 ''SURVEILLANCE'' ink 2, draw_text 13 48 ''HOUND'' pink 2,
                draw_text 12 46 ''HOUND'' ink 2]
          else [draw_text 13 42 title pink 2, draw_text 12 40 title ink 2]))"

definition nav_bar :: "view \<Rightarrow> drawing list" where
  "nav_bar v =
     draw_if (s_onboarded (v_settings v) \<and> v_screen v \<in> {Home, Log, Detectors, Settings, Diagnostics, Alerts})
       (concat (map (\<lambda>(i, label, page).
          let x = i * wide v div 4; here = (v_screen v = page)
          in draw_rect x (high v - 44) (wide v div 4 - 2) 44 panel #
             draw_if here [draw_rect x (high v - 44) (wide v div 4 - 2) 2 mint] @
             [draw_text (x + c_div (wide v div 4 - int (length label) * 12) 2) (high v - 28) label (if here then mint else muted) 2])
        [(0, ''HOUND'', Home), (1, ''LOG'', Log), (2, ''SCAN'', Detectors), (3, ''SET'', Settings)]))"

fun screen_picture :: "screen \<Rightarrow> material \<Rightarrow> readings \<Rightarrow> drawn \<Rightarrow> view \<Rightarrow> drawing list" where
  "screen_picture Welcome m r dn v = draw_welcome m v"
| "screen_picture Calibration m r dn v = draw_calibration r v"
| "screen_picture Choose m r dn v = draw_choose m v"
| "screen_picture Name m r dn v = draw_name v"
| "screen_picture Privacy_Choice m r dn v = draw_privacy v"
| "screen_picture Home m r dn v = draw_home m r dn v"
| "screen_picture Log m r dn v = draw_log v"
| "screen_picture Detectors m r dn v = draw_detectors m v"
| "screen_picture Settings m r dn v = draw_settings v"
| "screen_picture Diagnostics m r dn v = draw_diagnostics m r v"
| "screen_picture Details m r dn v = draw_details m dn v"
| "screen_picture ResearchWarning m r dn v = draw_research_warning v"
| "screen_picture ResetWarning m r dn v = draw_reset_warning v"
| "screen_picture Alerts m r dn v = draw_alerts m v"
| "screen_picture Clock m r dn v = draw_clock v"
| "screen_picture Battery m r dn v = draw_battery v"
| "screen_picture ClearWarning m r dn v = draw_clear_warning v"
| "screen_picture SelfTest m r dn v = draw_self_test v"
| "screen_picture ScentBook m r dn v = draw_scent_book v"
| "screen_picture ScentCard m r dn v = draw_scent_card v"
| "screen_picture Wardrobe m r dn v = draw_wardrobe m v"
| "screen_picture AlertActions m r dn v = draw_alert_actions dn v"
| "screen_picture Ignored m r dn v = draw_ignored v"
| "screen_picture Follow m r dn v = draw_follow m v"
| "screen_picture Appearance m r dn v = draw_appearance v"
| "screen_picture Display m r dn v = draw_display v"
| "screen_picture TagWatch m r dn v = draw_tag_watch v"
| "screen_picture WatchProgress m r dn v = draw_watch_progress v"
| "screen_picture IdleDisplay m r dn v = draw_idle_display v"
| "screen_picture IgnoreBackup m r dn v = draw_ignore_backup r v"
| "screen_picture Coverage m r dn v = draw_coverage v"

definition whole_picture :: "material \<Rightarrow> readings \<Rightarrow> drawn \<Rightarrow> view \<Rightarrow> drawing list" where
  "whole_picture m r dn v = status_bar v @ screen_picture (v_screen v) m r dn v @ nav_bar v"

definition saver_picture :: "material \<Rightarrow> view \<Rightarrow> drawing list" where
  "saver_picture m v =
     (let p = saver_position v
      in draw_if (v_display_mode v = Saver)
           [draw_dog (mt_sprites m) (pt_x p) (pt_y p) (unat (s_character (v_settings v)))
              (if s_reduced_animation (v_settings v) then 0 else int_of (v_now v div 250 mod 4)) (unat (co_equipped (collection v))) 2])"

definition draw_strip :: "material \<Rightarrow> readings \<Rightarrow> drawn \<Rightarrow> view \<Rightarrow> int \<Rightarrow> int \<Rightarrow> canvas" where
  "draw_strip m r dn v tile rows =
     (if blanked v then draws (saver_picture m v) (blank_canvas tile (wide v) (high v) rows 0 False 0)
      else draws (whole_picture m r dn v) (blank_canvas tile (wide v) (high v) rows (ap_theme (look v)) (watch_red v) bg))"

definition tile_rows :: "view \<Rightarrow> int" where
  "tile_rows v = (if tall v then 16 else 8)"

text \<open>A call of \<open>render\<close>: what is noted, the view, and the span of the strip.\<close>

definition render :: "material \<Rightarrow> readings \<Rightarrow> int \<Rightarrow> drawn \<times> view \<times> u16 list \<Rightarrow> drawn \<times> view \<times> u16 list" where
  "render m r tile s = (case s of (dn, v, pixels) \<Rightarrow>
     if tile < 0 \<or> high v \<le> tile \<or> int (length pixels) \<noteq> wide v * tile_rows v then (dn, v, pixels)
     else let dn = (if tile = 0 then drawn_of (mt_hmac m) v else dn); v = (if tile = 0 then begin_frame v else v)
          in (dn, v, cn_pixels (draw_strip m r dn v tile (tile_rows v))))"

text \<open>The loop of the main task: every strip is drawn into the same span and sent to the panel.\<close>

definition strip_tiles :: "view \<Rightarrow> int list" where
  "strip_tiles v = map (\<lambda>k. int k * tile_rows v) [0..<nat (high v div tile_rows v)]"

definition present_strip :: "material \<Rightarrow> readings \<Rightarrow> int \<Rightarrow> (drawn \<times> view \<times> u16 list) \<times> u16 list \<Rightarrow> (drawn \<times> view \<times> u16 list) \<times> u16 list" where
  "present_strip m r tile s = (case s of (x, sent) \<Rightarrow> let x = render m r tile x in (x, sent @ snd (snd x)))"

definition present :: "material \<Rightarrow> readings \<Rightarrow> drawn \<times> view \<times> u16 list \<Rightarrow> (drawn \<times> view \<times> u16 list) \<times> u16 list" where
  "present m r s = fold (present_strip m r) (strip_tiles (fst (snd s))) (s, [])"

text \<open>
  The end of a frame of the main task as the hardware sees it: the light, the pixels, the panel's power and
  its backlight, in the order of the calls.
\<close>

datatype panel_call = Light bool bool bool | Backlight nat | Panel_Power bool | Strips "u16 list"

record panel_state =
  ps_brightness :: nat
  ps_on :: bool

definition alert_light :: "view \<Rightarrow> panel_call" where
  "alert_light v =
     (let alert = (v_now v < v_alert_until v \<and> \<not> v_paused v); pulse = (v_now v div 250 mod 2 = 0);
          strong = (80 \<le> d_score (v_alert_detection v))
      in Light (alert \<and> strong \<and> pulse) (alert \<and> \<not> strong \<and> pulse \<or> v_now v < v_meal_until v)
           (\<not> alert \<and> v_scanning v \<and> v_now v div 1000 mod 2 = 0))"

definition show_frame :: "material \<Rightarrow> readings \<Rightarrow> panel_state \<Rightarrow> drawn \<times> view \<times> u16 list \<Rightarrow>
    (drawn \<times> view \<times> u16 list) \<times> panel_state \<times> panel_call list" where
  "show_frame m r ps s = (case s of (dn, v, pixels) \<Rightarrow>
     let light = alert_light v; v = update_display v
     in if v_display_mode v = Display_Off
        then ((dn, v, pixels), \<lparr>ps_brightness = (if ps_on ps then 0 else ps_brightness ps), ps_on = False\<rparr>,
              light # (if ps_on ps then [Backlight 0, Panel_Power False] else []))
        else let (x, sent) = present m r (dn, v, pixels); wanted = display_brightness (fst (snd x))
             in (x, \<lparr>ps_brightness = wanted, ps_on = True\<rparr>,
                 light # Strips sent # (if ps_on ps then [] else [Panel_Power True]) @
                   (if wanted \<noteq> ps_brightness ps then [Backlight wanted] else [])))"

section \<open>Every picture is made of drawing operations\<close>

definition named :: "category \<Rightarrow> bool" where
  "named c \<longleftrightarrow> category_index c < category_count"

definition detection_drawable :: "detection \<Rightarrow> bool" where
  "detection_drawable d \<longleftrightarrow> named (d_category d) \<and> d_rule_count d \<le> length (d_rules d)"

definition look_drawable :: "appearance \<Rightarrow> bool" where
  "look_drawable a \<longleftrightarrow> unat (ap_theme a) < 3 \<and> unat (ap_scene a) < 3 \<and> unat (ap_speech a) < 3"

text \<open>
  What the screens rely on when they index their tables: categories and choices are listed ones, pages exist,
  and the device has run for less than seventeen years (the animation counts quarters of a second in an
  \<open>int\<close>).
\<close>

definition drawable :: "view \<Rightarrow> bool" where
  "drawable v \<longleftrightarrow> unat (v_now v) < 2 ^ 31 * 250 \<and> look_drawable (look v) \<and>
     detection_drawable (v_alert_detection v) \<and> detection_drawable (v_action_detection v) \<and>
     detection_drawable (v_detail_detection v) \<and> list_all detection_drawable (v_recent v) \<and>
     v_recent_count v \<le> length (v_recent v) \<and> list_all (\<lambda>e. named (te_category e)) (tw_entries (v_tag_watch v)) \<and>
     named (f_category (v_follow v)) \<and> f_count (v_follow v) \<le> length (f_history (v_follow v)) \<and>
     list_all (\<lambda>e. named (ig_category e)) (co_ignored (collection v)) \<and>
     v_unlocked_outfit v < 6 \<and> v_wardrobe_index v < 6 \<and> v_scent_page v < 3 \<and> v_settings_page v < 6 \<and>
     v_battery_point v < 3 \<and> length (bc_millivolts (v_battery_cal v)) = 3 \<and> length (bc_adc (v_battery_cal v)) = 3"

named_theorems pictures

lemma table_lengths [simp]:
  "length lawns = 3" "length leaves = 3" "length tips = 3" "length theme_names = 3" "length scene_names = 3"
  "length speech_names = 3" "length outfit_names = 6" "length outfit_goals = 6" "length setting_groups = 6"
  by (simp_all add: lawns_def leaves_def tips_def theme_names_def scene_names_def speech_names_def outfit_names_def
      outfit_goals_def setting_groups_def)

lemma drawable_look: "drawable v \<Longrightarrow> look_drawable (look v)"
  by (simp add: drawable_def)

abbreviation drawn_with :: "material \<Rightarrow> drawing list \<Rightarrow> bool" where
  "drawn_with m \<equiv> list_all (operation (mt_sprites m))"

lemma pick_ops [pictures]: "i < length xs \<Longrightarrow> drawn_with m (f (xs ! i)) \<Longrightarrow> drawn_with m (pick xs i f)"
  by (simp add: pick_def)

lemma with_name_ops [pictures]: "named c \<Longrightarrow> (\<And>name. drawn_with m (f name)) \<Longrightarrow> drawn_with m (with_name c f)"
  by (simp add: with_name_def named_def pick_def categories_def category_count_def)

lemma draw_if_ops [pictures]: "(b \<Longrightarrow> drawn_with m ops) \<Longrightarrow> drawn_with m (draw_if b ops)"
  by (simp add: draw_if_def)

lemma concat_ops [pictures]: "(\<And>x. x \<in> set xs \<Longrightarrow> drawn_with m (f x)) \<Longrightarrow> drawn_with m (concat (map f xs))"
  by (auto simp: list_all_iff)

lemma map_ops [pictures]: "(\<And>x. x \<in> set xs \<Longrightarrow> operation (mt_sprites m) (f x)) \<Longrightarrow> drawn_with m (map f xs)"
  by (auto simp: list_all_iff)

lemma button_at_op [simp]: "operation sheet (button_at x y w h label)"
  by (simp add: button_at_def)

lemma page_button_op [simp]: "operation sheet (page_button v page pages)"
  by (simp add: page_button_def)

lemma timeout_row_op [simp]: "operation sheet (timeout_row v i label minutes)"
  by (simp add: timeout_row_def)

lemma confirms_ops [simp]: "drawn_with m (confirms v left right a b)"
  by (simp add: confirms_def)

lemma c_mod_alt: "0 < n \<Longrightarrow> c_mod a n = sgn a * (\<bar>a\<bar> mod n)"
  by (simp add: c_mod_def c_div_def minus_mult_div_eq_mod [symmetric] sgn_if abs_if)

lemma c_mod_bounds:
  assumes "0 < n"
  shows "- n < c_mod a n" "c_mod a n < n" "0 \<le> a \<Longrightarrow> 0 \<le> c_mod a n"
proof -
  have "0 \<le> \<bar>a\<bar> mod n" "\<bar>a\<bar> mod n < n" using assms by simp_all
  moreover have "c_mod a n = (if 0 < a then \<bar>a\<bar> mod n else if a = 0 then 0 else - (\<bar>a\<bar> mod n))"
    using assms by (simp add: c_mod_alt sgn_if)
  ultimately show "- n < c_mod a n" "c_mod a n < n" "0 \<le> a \<Longrightarrow> 0 \<le> c_mod a n" by (simp_all split: if_splits)
qed

lemma int_of_nonneg:
  fixes x :: u64
  assumes "unat x < 2 ^ 31"
  shows "0 \<le> int_of x"
proof -
  have "uint x < 2 ^ 31" using assms by (metis of_nat_less_iff of_nat_numeral of_nat_power uint_nat)
  then have "uint x div 2 ^ 31 = 0" by simp
  then have "\<not> bit (uint x) 31" by (simp add: bit_iff_odd)
  then show ?thesis by (simp add: int_of_def sint_uint unsigned_ucast_eq bit_simps)
qed

lemma beat_bounds: "0 < n \<Longrightarrow> - n < beat v period n" "0 < n \<Longrightarrow> beat v period n < n"
  by (simp_all add: beat_def c_mod_bounds)

lemma quarter_nonneg:
  assumes "drawable v"
  shows "0 \<le> int_of (v_now v div 250)"
proof -
  have "unat (v_now v) div 250 < 2 ^ 31" using assms by (simp add: drawable_def less_mult_imp_div_less)
  then show ?thesis by (intro int_of_nonneg) (simp add: unat_div)
qed

lemma rest_frame_nonneg: "drawable v \<Longrightarrow> 0 \<le> rest_frame v"
  by (simp add: rest_frame_def quarter_nonneg c_mod_bounds)

lemma snack_frame_nonneg: "0 \<le> sp_frame (snack_pose_of v)"
  by (simp add: snack_pose_of_def Let_def side_eat_def side_walk_def add_nonneg_nonneg pos_imp_zdiv_nonneg_iff)

lemma hound_frame_nonneg:
  assumes "drawable v"
  shows "0 \<le> hound_frame v"
proof -
  have b: "- 3 < beat v p 3" "- 2 < beat v p 2" "- 4 < beat v p 4" for p by (simp_all add: beat_bounds)
  have "0 \<le> beat v 250 4" using quarter_nonneg [OF assms] by (simp add: beat_def c_mod_bounds)
  then have "0 \<le> fst (hound_mood v)"
    unfolding hound_mood_def Let_def
    using b(1) [of 900] b(1) [of 160] b(1) [of 166] b(2) [of 166] b(2) [of 1400] b(2) [of 450] b(3) [of 125] b(1) [of 500] snack_frame_nonneg [of v]
    by (simp split: if_split)
  then show ?thesis by (simp add: hound_frame_def)
qed

lemma follow_frame_nonneg: "0 \<le> follow_frame v"
  using beat_bounds(1) [of 3 v 200] beat_bounds(1) [of 3 v 700] by (simp add: follow_frame_def Let_def)

section \<open>The screens\<close>

lemma short_screens:
  "drawable v \<Longrightarrow> drawn_with m (draw_welcome m v)" "drawn_with m (draw_calibration r v)"
  "drawn_with m (draw_choose m v)" "drawn_with m (draw_name v)" "drawn_with m (draw_privacy v)"
  "drawn_with m (draw_research_warning v)" "drawn_with m (draw_reset_warning v)" "drawn_with m (draw_clear_warning v)"
  "drawn_with m (draw_self_test v)" "drawn_with m (draw_clock v)"
  by (auto simp: draw_welcome_def draw_calibration_def draw_choose_def draw_name_def draw_privacy_def draw_research_warning_def
      draw_reset_warning_def draw_clear_warning_def draw_self_test_def draw_clock_def Let_def rest_frame_nonneg intro!: pictures)

lemma scene_ops:
  assumes "drawable v"
  shows "drawn_with m (scene_grid v)" "drawn_with m (scene_park v)" "drawn_with m (scene_roofs v)"
proof -
  have theme: "unat (ap_theme (look v)) < 3" using assms drawable_look look_drawable_def by blast
  show "drawn_with m (scene_grid v)" "drawn_with m (scene_roofs v)"
    by (auto simp: scene_grid_def scene_roofs_def Let_def intro!: pictures)
  show "drawn_with m (scene_park v)"
    unfolding scene_park_def Let_def
    by (intro pictures) (auto simp: theme park_trees_def park_fence_def park_hoop_def park_toys_def
      Let_def intro!: pictures)
qed

lemma stage_ops: "drawable v \<Longrightarrow> drawn_with m (draw_stage v)"
  by (simp add: draw_stage_def scene_ops)

lemma hound_ops: "drawable v \<Longrightarrow> drawn_with m (draw_hound m v)"
  by (auto simp: draw_hound_def Let_def hound_frame_nonneg intro!: pictures)

lemma recent_drawable: "drawable v \<Longrightarrow> i < v_recent_count v \<Longrightarrow> i < length (v_recent v) \<and> detection_drawable (v_recent v ! i)"
  by (auto simp: drawable_def list_all_length)

lemma status_ops: "drawable v \<Longrightarrow> drawn_with m (compact_status r v)" "drawn_with m (full_status r v)"
  using recent_drawable [of v 0]
  by (auto simp: compact_status_def full_status_def meter_def Let_def detection_drawable_def intro!: pictures)

lemma notice_ops: "drawable v \<Longrightarrow> drawn_with m (home_notices v)"
  by (auto simp: home_notices_def drawable_def intro!: pictures)

lemma warning_named: "drawable v \<Longrightarrow> view_warning v = Some e \<Longrightarrow> named (te_category e)"
  by (auto simp: drawable_def view_warning_def Let_def find_Some_iff list_all_length split: if_splits)

lemma card_ops: "drawable v \<Longrightarrow> drawn_with m (alert_card dn v)"
  using warning_named [of v]
  by (auto simp: alert_card_def Let_def drawable_def detection_drawable_def intro!: pictures split: option.split)

lemma home_ops: "drawable v \<Longrightarrow> drawn_with m (draw_home m r dn v)"
  by (auto simp: draw_home_def stage_ops hound_ops status_ops notice_ops card_ops intro!: pictures)

lemma watch_entries_named: "drawable v \<Longrightarrow> e \<in> set (tw_entries (v_tag_watch v)) \<Longrightarrow> named (te_category e)"
  by (simp add: drawable_def list_all_iff)

lemma watch_items_entries: "(item, slot, e) \<in> set (watch_items v) \<Longrightarrow> e \<in> set (tw_entries (v_tag_watch v))"
  by (auto simp: watch_items_def Let_def dest!: set_zip_rightD)

lemma watch_ops: "drawable v \<Longrightarrow> drawn_with m (draw_watch_progress v)" "drawable v \<Longrightarrow> drawn_with m (draw_tag_watch v)"
proof -
  assume d: "drawable v"
  have "drawn_with m (watch_row v (item, slot, e))" if "(item, slot, e) \<in> set (watch_items v)" for item slot e
    using watch_entries_named [OF d watch_items_entries [OF that]]
    by (auto simp: watch_row_def Let_def intro!: pictures)
  then show "drawn_with m (draw_watch_progress v)"
    by (auto simp: draw_watch_progress_def Let_def intro!: pictures)
  have "named (te_category e)" if "review_target v = Some e" for e
    using that watch_entries_named [OF d]
    by (auto simp: review_target_def Let_def watch_find_def dest: first_index_less split: option.splits if_splits)
  then show "drawn_with m (draw_tag_watch v)"
    by (auto simp: draw_tag_watch_def Let_def intro!: pictures split: option.split)
qed

lemma display_ops:
  "drawn_with m (draw_display v)" "drawn_with m (draw_idle_display v)" "drawable v \<Longrightarrow> drawn_with m (draw_appearance v)"
  by (auto simp: draw_display_def draw_idle_display_def draw_appearance_def named_row_def Let_def
      dest!: drawable_look [unfolded look_drawable_def] intro!: pictures)

lemma chart_ops:
  assumes "drawable v" and "i < f_count (v_follow v)"
  shows "drawn_with m (chart_sample v fresh i)"
proof -
  have "i < length (f_history (v_follow v))" using assms by (simp add: drawable_def)
  then show ?thesis by (auto simp: chart_sample_def Let_def intro!: pictures split: prod.split)
qed

lemma follow_ops: "drawable v \<Longrightarrow> drawn_with m (draw_follow m v)"
  by (auto simp: draw_follow_def follow_reading_def Let_def follow_frame_nonneg chart_ops drawable_def [of v] intro!: pictures)

lemma guide_ops: "drawn_with m (draw_coverage v)" "drawn_with m (draw_scent_book v)"
  by (auto simp: draw_coverage_def draw_scent_book_def book_entry_def Let_def intro!: pictures split: prod.split)

lemma rule_line_ops:
  "drawn_with m (rule_lines d y step True)" "detection_drawable d \<Longrightarrow> drawn_with m (rule_lines d y step False)"
  by (auto simp: rule_lines_def detection_drawable_def intro!: pictures split: option.split)

lemma scent_card_ops: "drawable v \<Longrightarrow> drawn_with m (draw_scent_card v)"
  by (auto simp: draw_scent_card_def card_guide_def card_stats_def card_evidence_def Let_def drawable_def rule_line_ops numeral_3_eq_3
      intro!: pictures split: prod.split option.split)

lemma wardrobe_ops: "drawable v \<Longrightarrow> drawn_with m (draw_wardrobe m v)"
  by (auto simp: draw_wardrobe_def Let_def rest_frame_nonneg drawable_def [of v] intro!: pictures)

lemma alert_action_ops: "drawable v \<Longrightarrow> drawn_with m (draw_alert_actions dn v)"
  by (auto simp: draw_alert_actions_def Let_def drawable_def detection_drawable_def intro!: pictures)

lemma ignored_ops: "drawn_with m (draw_ignore_backup r v)" "drawable v \<Longrightarrow> drawn_with m (draw_ignored v)"
proof -
  show "drawn_with m (draw_ignore_backup r v)" by (simp add: draw_ignore_backup_def Let_def)
  assume "drawable v"
  then have "named (ig_category (co_ignored (collection v) ! k))" if "k < length (co_ignored (collection v))" for k
    using that by (simp add: drawable_def list_all_length)
  then show "drawn_with m (draw_ignored v)"
    by (auto simp: draw_ignored_def ignored_row_def Let_def intro!: pictures)
qed

lemma log_ops: "drawable v \<Longrightarrow> drawn_with m (draw_log v)"
proof -
  assume d: "drawable v"
  have "drawn_with m (log_row v i)" for i
    using recent_drawable [OF d, of "v_log_page v * 4 + i"]
    by (auto simp: log_row_def Let_def detection_drawable_def intro!: pictures)
  then show ?thesis by (auto simp: draw_log_def intro!: pictures)
qed

lemma category_list_ops: "drawn_with m (draw_detectors m v)" "drawn_with m (draw_alerts m v)"
  by (auto simp: draw_detectors_def draw_alerts_def detector_row_def alert_row_def Let_def intro!: pictures)

lemma setting_ops: "drawable v \<Longrightarrow> drawn_with m (draw_settings v)"
  by (auto simp: draw_settings_def setting_row_def status_row_def Let_def drawable_def [of v] intro!: pictures)

lemma battery_ops: "drawable v \<Longrightarrow> drawn_with m (draw_battery v)"
  by (auto simp: draw_battery_def Let_def drawable_def [of v] intro!: pictures)

lemma diagnostic_ops: "drawn_with m (draw_diagnostics m r v)"
  by (auto simp: draw_diagnostics_def diagnostic_card_def Let_def intro!: pictures)

lemma detail_ops: "drawable v \<Longrightarrow> drawn_with m (draw_details m dn v)"
proof -
  assume d: "drawable v"
  have pages: "drawn_with m (evidence_page v e)" if "detection_drawable e" for e
    using that rule_line_ops(2) [OF that]
    by (auto simp: evidence_page_def Let_def detection_drawable_def intro!: pictures)
  have others: "drawn_with m (find_my_page dn v)" "drawn_with m (samsung_page m v e)" "drawn_with m (remote_page m v e)" for e
    by (simp_all add: find_my_page_def samsung_page_def remote_page_def Let_def)
  have detail: "detection_drawable (v_detail_detection v)" using d by (simp add: drawable_def)
  show ?thesis
  proof (cases "v_detail_valid v")
    case True
    then show ?thesis by (simp add: draw_details_def Let_def pages detail others)
  next
    case False
    show ?thesis
    proof (cases "v_selected v < v_recent_count v")
      case True
      with recent_drawable [OF d True] False show ?thesis
        unfolding draw_details_def Let_def by (auto simp: pages others intro!: pictures)
    qed (simp add: draw_details_def False)
  qed
qed

lemma bar_ops: "drawn_with m (status_bar v)" "drawn_with m (nav_bar v)"
  by (auto simp: status_bar_def nav_bar_def Let_def intro!: pictures)

lemma screen_ops: "drawable v \<Longrightarrow> drawn_with m (screen_picture s m r dn v)"
  by (cases s) (simp_all add: short_screens home_ops watch_ops display_ops follow_ops guide_ops scent_card_ops wardrobe_ops
    alert_action_ops ignored_ops log_ops category_list_ops setting_ops battery_ops diagnostic_ops detail_ops)

lemma whole_picture_ops: "drawable v \<Longrightarrow> drawn_with m (whole_picture m r dn v)"
  by (simp add: whole_picture_def bar_ops screen_ops)

lemma saver_picture_ops: "drawn_with m (saver_picture m v)"
proof -
  have "unat (v_now v div 250 mod 4) < 2 ^ 31" by (simp add: unat_mod)
  then have "0 \<le> int_of (v_now v div 250 mod 4)" by (rule int_of_nonneg)
  then show ?thesis by (auto simp: saver_picture_def Let_def intro!: pictures)
qed

section \<open>Whole frames\<close>

lemma tile_rows_pos: "0 < tile_rows v" "0 \<le> wide v" "0 < high v" "high v = int (nat (high v div tile_rows v)) * tile_rows v"
  by (simp_all add: tile_rows_def wide_def high_def tall_def panel_width_def panel_height_def)

lemma strip_of_panel:
  assumes "sprites_ok (mt_sprites m)" "drawable v" "0 \<le> tile" "0 \<le> rows" "tile + rows \<le> high v"
  shows "cn_pixels (draw_strip m r dn v tile rows) =
      take (nat (wide v * rows)) (drop (nat (tile * wide v)) (cn_pixels (draw_strip m r dn v 0 (high v)))) \<and>
    \<not> cn_overrun (draw_strip m r dn v tile rows)"
  using strips_make_the_panel [OF assms(1) saver_picture_ops assms(3,4) tile_rows_pos(2) assms(5)]
    strips_make_the_panel [OF assms(1) whole_picture_ops [OF assms(2)] assms(3,4) tile_rows_pos(2) assms(5)]
  by (simp add: draw_strip_def)

lemma picture_length:
  assumes "sprites_ok sheet" "list_all (operation sheet) ops" "0 \<le> tile" "0 \<le> width" "0 \<le> rows"
  shows "length (cn_pixels (draws ops (blank_canvas tile width height rows theme red col))) = nat (width * rows)"
  using picture_spans [OF assms, of height theme red col] by (auto simp: spans_def in_span_def)

lemma strip_length:
  assumes "sprites_ok (mt_sprites m)" "drawable v" "0 \<le> tile" "0 \<le> rows"
  shows "length (cn_pixels (draw_strip m r dn v tile rows)) = nat (wide v * rows)"
  unfolding draw_strip_def
  using picture_length [OF assms(1) saver_picture_ops assms(3) tile_rows_pos(2) assms(4)]
    picture_length [OF assms(1) whole_picture_ops [OF assms(2)] assms(3) tile_rows_pos(2) assms(4)] by simp

lemma begin_frame_same:
  "tall (begin_frame v) = tall v" "wide (begin_frame v) = wide v" "high (begin_frame v) = high v"
  "tile_rows (begin_frame v) = tile_rows v" "look (begin_frame v) = look v" "collection (begin_frame v) = collection v"
  by (simp_all add: begin_frame_def tall_def wide_def high_def tile_rows_def look_def collection_def Let_def)

lemma begin_frame_drawable: "drawable v \<Longrightarrow> drawable (begin_frame v)"
  unfolding drawable_def [of "begin_frame v"] begin_frame_same
  by (simp add: begin_frame_def Let_def) (simp add: drawable_def)

lemma strips_so_far:
  assumes "sprites_ok (mt_sprites m)" "drawable v" "int (length pixels) = wide v * tile_rows v"
    and "int (Suc k) * tile_rows v \<le> high v"
  shows "\<exists>px. int (length px) = wide v * tile_rows v \<and>
    fold (present_strip m r) (map (\<lambda>k. int k * tile_rows v) [0..<Suc k]) ((dn, v, pixels), []) =
      ((drawn_of (mt_hmac m) v, begin_frame v, px),
       take (nat (wide v * (int (Suc k) * tile_rows v)))
         (cn_pixels (draw_strip m r (drawn_of (mt_hmac m) v) (begin_frame v) 0 (high v))))"
  using assms(4)
proof (induction k)
  define u where "u = begin_frame v"
  define whole where "whole = cn_pixels (draw_strip m r (drawn_of (mt_hmac m) v) u 0 (high v))"
  have same: "wide u = wide v" "high u = high v" "tile_rows u = tile_rows v" "drawable u"
    using begin_frame_same [of v] begin_frame_drawable [OF assms(2)] by (simp_all add: u_def)
  have rows: "0 < tile_rows v" "0 \<le> tile_rows v" "0 \<le> wide v" using tile_rows_pos [of v] by simp_all
  define strip where "strip = (\<lambda>k :: nat. cn_pixels (draw_strip m r (drawn_of (mt_hmac m) v) u (int k * tile_rows v) (tile_rows v)))"
  have length_strip: "length (strip k) = nat (wide v * tile_rows v)" for k
    using strip_length [OF assms(1) same(4), of "int k * tile_rows v" "tile_rows v"] rows by (simp add: strip_def same)
  have strip: "strip k = take (nat (wide v * tile_rows v)) (drop (nat (int k * tile_rows v * wide v)) whole)"
    if "int (Suc k) * tile_rows v \<le> high v" for k
    using strip_of_panel [OF assms(1) same(4), of "int k * tile_rows v" "tile_rows v"] rows that
    by (simp add: strip_def whole_def same algebra_simps)
  have step: "present_strip m r (int k * tile_rows v) ((drawn_of (mt_hmac m) v, u, px), sent) =
      ((drawn_of (mt_hmac m) v, u, strip k), sent @ strip k)"
    if "int (length px) = wide v * tile_rows v" "0 < k" "int (Suc k) * tile_rows v \<le> high v" for k px sent
  proof -
    have pos: "0 < int k * tile_rows v" using that(2) rows(1) by simp
    have "int k * tile_rows v < int (Suc k) * tile_rows v" using rows(1) by (simp add: distrib_right)
    then have "int k * tile_rows v < high v" using that(3) by linarith
    moreover have "k \<noteq> 0" "tile_rows v \<noteq> 0" using that(2) rows(1) by simp_all
    ultimately show ?thesis using pos that(1) by (simp add: present_strip_def render_def Let_def same strip_def)
  qed
  {
    case 0
    have "0 < high v" using tile_rows_pos(3) .
    then have "present_strip m r 0 ((dn, v, pixels), []) = ((drawn_of (mt_hmac m) v, u, strip 0), strip 0)"
      using assms(3) by (simp add: present_strip_def render_def Let_def u_def [symmetric] same strip_def)
    then show ?case using length_strip [of 0] strip [of 0] 0 rows
      by (auto simp: u_def [symmetric] whole_def [symmetric])
  next
    case (Suc k)
    have "int (Suc k) * tile_rows v \<le> high v" using Suc.prems rows(1) by (simp add: algebra_simps)
    then obtain px where px: "int (length px) = wide v * tile_rows v"
        "fold (present_strip m r) (map (\<lambda>k. int k * tile_rows v) [0..<Suc k]) ((dn, v, pixels), []) =
          ((drawn_of (mt_hmac m) v, u, px), take (nat (wide v * (int (Suc k) * tile_rows v))) whole)"
      using Suc.IH unfolding u_def [symmetric] whole_def [symmetric] by blast
    have join: "nat (wide v * (int (Suc (Suc k)) * tile_rows v)) =
        nat (wide v * (int (Suc k) * tile_rows v)) + nat (wide v * tile_rows v)"
      using rows by (simp add: algebra_simps flip: nat_add_distrib)
    have "fold (present_strip m r) (map (\<lambda>k. int k * tile_rows v) [0..<Suc (Suc k)]) ((dn, v, pixels), []) =
        present_strip m r (int (Suc k) * tile_rows v) (fold (present_strip m r) (map (\<lambda>k. int k * tile_rows v) [0..<Suc k]) ((dn, v, pixels), []))"
      by (simp only: upt_Suc_append [of 0 "Suc k"] le0 map_append fold_append o_apply list.map fold.simps id_apply)
    also have "\<dots> = ((drawn_of (mt_hmac m) v, u, strip (Suc k)), take (nat (wide v * (int (Suc k) * tile_rows v))) whole @ strip (Suc k))"
      unfolding px(2) by (rule step [OF px(1) _ Suc.prems]) simp
    also have "take (nat (wide v * (int (Suc k) * tile_rows v))) whole @ strip (Suc k) =
        take (nat (wide v * (int (Suc (Suc k)) * tile_rows v))) whole"
      unfolding join take_add strip [OF Suc.prems] by (simp only: mult.commute mult.assoc)
    finally show ?case using length_strip [of "Suc k"] rows unfolding u_def [symmetric] whole_def [symmetric] by auto
  }
qed

section \<open>The alert on the screen\<close>

text \<open>
  Events that arrive after a frame was drawn: received packets, sightings, and the passing of time.  The alert that the
  last frame showed stays in \<open>v_action_detection\<close> until the next frame or a tap.
\<close>

datatype meanwhile = Heard observation | Sighting detection | Ticks u64

fun passes :: "keyed_digest \<Rightarrow> meanwhile \<Rightarrow> view \<Rightarrow> view" where
  "passes hmac (Heard ob) v = (view_observe ob False v)\<lparr>v_drones := drone_ingest ob (v_drones v)\<rparr>"
| "passes hmac (Sighting d) v = event hmac d v"
| "passes hmac (Ticks t) v = tick_pet (update_display (update_tag_watch (v\<lparr>v_now := t\<rparr>)))"

lemma warning_presented [simp]:
  "view_warning (v\<lparr>v_frame_presented := a, v_home_alert_shown := b\<rparr>) = view_warning v"
  by (simp add: view_warning_def listening_def snoozed_until_def view_eligible_def [abs_def] enabled_def collection_def Let_def)

definition noted :: "view \<Rightarrow> detection \<times> bool \<times> bool" where
  "noted v = (v_action_detection v, v_home_alert_shown v, v_frame_presented v)"

lemma noted_small [simp]:
  "noted (fst (wake_display False v)) = noted v" "noted (fst (wake_display True v)) = noted v" "noted (wake_for_alert v) = noted v"
  "noted (remember d v) = noted v" "noted (meal_event d v) = noted v" "noted (update_display v) = noted v" "noted (tick_pet v) = noted v"
  "noted (on_book b f v) = noted v" "noted (ask r v) = noted v"
  by (simp_all add: noted_def wake_display_def wake_for_alert_def remember_def meal_event_def update_display_def tick_pet_def
      on_book_def ask_def Let_def split: prod.split)

lemma noted_heard [simp]: "noted ((view_observe ob b v)\<lparr>v_drones := c\<rparr>) = noted v"
  by (simp add: noted_def view_observe_def Let_def)

lemma noted_fields [simp]:
  "noted (v\<lparr>v_alert_detection := d, v_alert_until := t\<rparr>) = noted v" "noted (v\<lparr>v_alert_until := t\<rparr>) = noted v"
  "noted (v\<lparr>v_alert_detection := d\<rparr>) = noted v" "noted (v\<lparr>v_now := t\<rparr>) = noted v" "noted (v\<lparr>v_tag_watch := w\<rparr>) = noted v"
  "noted (v\<lparr>v_watch_review := k\<rparr>) = noted v" "noted (v\<lparr>v_tag_watch := w, v_watch_review := k\<rparr>) = noted v"
  "noted (v\<lparr>v_preview_xp := x\<rparr>) = noted v" "noted (v\<lparr>v_unlocked_outfit := n, v_unlock_until := t\<rparr>) = noted v"
  "noted (v\<lparr>v_level_until := t\<rparr>) = noted v" "noted (v\<lparr>v_known_level := n'\<rparr>) = noted v"
  by (simp_all add: noted_def)

lemma noted_update_tag_watch [simp]: "noted (update_tag_watch v) = noted v"
  by (simp add: update_tag_watch_def Let_def split: option.split)

lemma noted_book_event [simp]: "noted (book_event d v) = noted v"
  unfolding book_event_def Let_def by (simp split: prod.split if_split)

lemma noted_watch_event [simp]: "noted (watch_event hmac d v) = noted v"
  by (simp add: watch_event_def Let_def split: option.split)

lemma noted_alert_event [simp]: "noted (alert_event hmac d v) = noted v"
  by (simp add: alert_event_def)

lemma noted_event [simp]: "noted (event hmac d v) = noted v"
  by (simp add: event_def)

lemma noted_passes: "noted (fold (passes hmac) es v) = noted v"
proof (induction es arbitrary: v)
  case (Cons e es)
  then show ?case by (cases e) simp_all
qed simp

lemma quiet_is_apart:
  assumes "has (l_quiet p) (x, y)"
  shows "0 \<le> x" "x < panel_width p" "26 \<le> y" "y < panel_height p" "\<not> has (l_home_watch p) (x, y)" "\<not> has (l_home_book p) (x, y)"
    "\<not> has (mk_rect 20 72 (if p then 280 else 264) 21) (x, y)" "\<not> has (l_sniff p) (x, y)"
  using assms
  by (auto simp: has_def l_quiet_def l_home_watch_def l_home_book_def l_sniff_def mk_rect_def panel_width_def panel_height_def
      split: if_splits)

lemma quiet_tap:
  assumes "v_home_alert_shown w" "v_screen w = Home" "v_display_mode w = Active" "has (l_quiet (tall w)) xy"
  shows "v_screen (tap hmac xy w) = AlertActions \<and> v_action_detection (tap hmac xy w) = v_action_detection w"
proof -
  obtain x y where xy: "xy = (x, y)" by (cases xy)
  define u where "u = fst (wake_display False w)"
  have u: "v_home_alert_shown u" "v_screen u = Home" "v_settings u = v_settings w" "v_action_detection u = v_action_detection w"
      "snd (wake_display False w) = False"
    using assms(1-3) by (simp_all add: u_def wake_display_def Let_def)
  have wake: "wake_display False w = (u, False)" using u(5) unfolding u_def by (metis prod.collapse)
  note apart = quiet_is_apart [OF assms(4) [unfolded xy], unfolded tall_def]
  have "tap_watch hmac (x, y) u = None"
    using apart u(2,3) by (simp add: tap_watch_def Let_def)
  moreover have "tap_home_targets (x, y) u = Some (open_actions (v_action_detection u) u)"
    using apart u(1-3) assms(4) by (simp add: tap_home_targets_def Let_def xy tall_def)
  ultimately have "tap hmac xy w = open_actions (v_action_detection u) u"
    using apart assms(2) wake by (simp add: tap_def Let_def xy)
  then show ?thesis by (simp add: open_actions_def u(4))
qed

section \<open>The panel\<close>

lemma present_whole:
  assumes "sprites_ok (mt_sprites m)" and "drawable v" and "int (length pixels) = wide v * tile_rows v"
  shows "(\<exists>px. present m r (dn, v, pixels) =
      ((drawn_of (mt_hmac m) v, begin_frame v, px),
       cn_pixels (draw_strip m r (drawn_of (mt_hmac m) v) (begin_frame v) 0 (high v)))) \<and>
    (0 \<le> tile \<and> tile + tile_rows v \<le> high v \<longrightarrow>
      \<not> cn_overrun (draw_strip m r (drawn_of (mt_hmac m) v) (begin_frame v) tile (tile_rows v)))"
proof -
  define n where "n = nat (high v div tile_rows v)"
  have n: "0 < n" "int n * tile_rows v = high v" "0 \<le> wide v * high v"
    using tile_rows_pos [of v] by (simp_all add: n_def tile_rows_def high_def tall_def panel_height_def)
  then obtain k where k: "n = Suc k" by (cases n) auto
  have drawable: "drawable (begin_frame v)" using assms(2) by (rule begin_frame_drawable)
  have "length (cn_pixels (draw_strip m r (drawn_of (mt_hmac m) v) (begin_frame v) 0 (high v))) = nat (wide v * high v)"
    using strip_length [OF assms(1) drawable, of 0 "high v"] tile_rows_pos(3) [of v] by (simp add: begin_frame_same)
  then have "take (nat (wide v * (int (Suc k) * tile_rows v))) (cn_pixels (draw_strip m r (drawn_of (mt_hmac m) v) (begin_frame v) 0 (high v))) =
      cn_pixels (draw_strip m r (drawn_of (mt_hmac m) v) (begin_frame v) 0 (high v))"
    using n(2) unfolding k by simp
  then have "\<exists>px. present m r (dn, v, pixels) = ((drawn_of (mt_hmac m) v, begin_frame v, px),
      cn_pixels (draw_strip m r (drawn_of (mt_hmac m) v) (begin_frame v) 0 (high v)))"
    using strips_so_far [OF assms, of k r dn] n(2) unfolding present_def strip_tiles_def fst_conv snd_conv n_def [symmetric] k by auto
  moreover have "\<not> cn_overrun (draw_strip m r (drawn_of (mt_hmac m) v) (begin_frame v) tile (tile_rows v))"
    if "0 \<le> tile" "tile + tile_rows v \<le> high v"
    using strip_of_panel [OF assms(1) drawable that(1)] tile_rows_pos(1) [of v] that(2) by (simp add: begin_frame_same)
  ultimately show ?thesis by blast
qed

lemma update_display_layout [simp]: "wide (update_display v) = wide v" "tile_rows (update_display v) = tile_rows v"
  by (simp_all add: wide_def tile_rows_def tall_def update_display_def wake_display_def Let_def)

text \<open>
  The hardware's end of a frame is the main task's: it leaves the same view, sends the whole picture before it
  switches the panel on, and a panel that is switched off is dark.
\<close>

lemma show_frame_view:
  assumes "sprites_ok (mt_sprites m)" "drawable (update_display v)" "int (length pixels) = wide v * tile_rows v"
    and "show_frame m r ps (dn, v, pixels) = ((dn', v', pixels'), ps', calls)"
  shows "v' = show_view v" "ps_on ps' \<longleftrightarrow> v_display_mode (update_display v) \<noteq> Display_Off"
    "Panel_Power False \<in> set calls \<Longrightarrow> ps_brightness ps' = 0"
    "ps_on ps' \<Longrightarrow> \<exists>rest. calls = alert_light v # Strips (cn_pixels (draw_strip m r (drawn_of (mt_hmac m) (update_display v))
       (begin_frame (update_display v)) 0 (high (update_display v)))) # rest"
proof -
  obtain px where "present m r (dn, update_display v, pixels) = ((drawn_of (mt_hmac m) (update_display v), begin_frame (update_display v), px),
      cn_pixels (draw_strip m r (drawn_of (mt_hmac m) (update_display v)) (begin_frame (update_display v)) 0 (high (update_display v))))"
    using present_whole [OF assms(1,2), of pixels r dn 0] assms(3) by auto
  then show "v' = show_view v" "ps_on ps' \<longleftrightarrow> v_display_mode (update_display v) \<noteq> Display_Off"
    "Panel_Power False \<in> set calls \<Longrightarrow> ps_brightness ps' = 0"
    "ps_on ps' \<Longrightarrow> \<exists>rest. calls = alert_light v # Strips (cn_pixels (draw_strip m r (drawn_of (mt_hmac m) (update_display v))
       (begin_frame (update_display v)) 0 (high (update_display v)))) # rest"
    using assms(4) by (auto simp: show_frame_def show_view_def Let_def alert_light_def split: if_splits)
qed

section \<open>A concrete frame\<close>

definition readings0 :: readings where
  "readings0 = \<lparr>re_ble_window_open = False, re_wifi_accepted = 0, re_ble_accepted = 0, re_wifi_malformed = 0,
     re_ble_malformed = 0, re_radio_stack = 0, re_storage_stack = 0, re_ble_stack = 0, re_oversize = 0, re_radio_errors = 0,
     re_sd_free = 0, re_sd_total = 0, re_battery_millivolts = - 1, re_battery_level = - 1, re_heap = 0, re_min_heap = 0,
     re_largest_heap = 0, re_wifi_count = 0, re_ble_count = 0, re_drops = 0, re_queue_peak = 0, re_writes = 0,
     re_boot_reason = 0, re_ui_stack = 0, re_calibration_step = 0, re_counts = [0, 0, 0], re_saves = 0, re_save_errors = 0,
     re_backup_entries = 0, re_checked_rows = 0, re_checked_files = 0\<rparr>"

definition example_material :: material where
  "example_material = \<lparr>mt_hmac = (\<lambda>_ _. None), mt_sprites = example_sprites, mt_rules = [], mt_pack = ''1'',
     mt_real = (\<lambda>_ _. ''0.0'')\<rparr>"

definition example_alert :: view where
  "example_alert = view0\<lparr>v_screen := Home, v_alert_until := 5000, v_alert_detection := detection0\<lparr>d_category := RAVEN\<rparr>\<rparr>"

lemma view0_drawable: "drawable view0"
  by (simp add: drawable_def view0_def look_def look_drawable_def appearance0_def detection_drawable_def named_def detection0_def
      category_count_def tag_watch0_def watch_entry0_def follow0_def collection_def companion0_def ignored_scent0_def
      battery_calibration0_def list_all_iff)

section \<open>Properties\<close>

text \<open>
  Property C38.  A frame, drawn strip by strip into one small buffer and sent to the panel, is the picture of
  the current screen: the pixels sent are exactly those of the picture drawn at once on a whole panel, for
  every screen and state whose indices are in their ranges; the alert noted by the first strip is the one
  all strips show, and no strip writes outside the buffer or reads outside a table.
\<close>

theorem frame_is_the_whole_picture:
  assumes "sprites_ok (mt_sprites m)" and "drawable v" and "int (length pixels) = wide v * tile_rows v"
  shows "(\<exists>px. present m r (dn, v, pixels) =
      ((drawn_of (mt_hmac m) v, begin_frame v, px),
       cn_pixels (draw_strip m r (drawn_of (mt_hmac m) v) (begin_frame v) 0 (high v)))) \<and>
    (0 \<le> tile \<and> tile + tile_rows v \<le> high v \<longrightarrow>
      \<not> cn_overrun (draw_strip m r (drawn_of (mt_hmac m) v) (begin_frame v) tile (tile_rows v)))"
  by (rule present_whole [OF assms])

lemma frame_is_the_whole_picture_witness:
  "\<exists>px. present example_material readings0 (drawn_of (\<lambda>_ _. None) view0, view0, replicate 3840 0) =
     ((drawn_of (\<lambda>_ _. None) view0, begin_frame view0, px),
      cn_pixels (draw_strip example_material readings0 (drawn_of (\<lambda>_ _. None) view0) (begin_frame view0) 0 320))"
proof -
  have "sprites_ok (mt_sprites example_material)" by (simp add: example_material_def example_sprites_ok)
  moreover have "int (length (replicate 3840 (0 :: u16))) = wide view0 * tile_rows view0" "high view0 = 320"
    by (simp_all add: wide_def tile_rows_def tall_def high_def panel_width_def panel_height_def view0_def settings0_def)
  ultimately show ?thesis
    using frame_is_the_whole_picture [of example_material view0 "replicate 3840 0" readings0 "drawn_of (\<lambda>_ _. None) view0" 0] view0_drawable
    by (simp add: example_material_def)
qed

text \<open>
  Property C39.  The alert that is acted on is the alert that is seen: after a frame that showed the card of
  an alert, whatever is received and sighted and however much time passes before the owner taps its button, the page
  that opens is about the detection on the card, whose identity the card displayed.
\<close>

theorem alert_seen_is_alert_acted_on:
  assumes "v_home_alert_shown (begin_frame v)" and "w = fold (passes hmac) es (begin_frame v)"
    and "v_screen w = Home" "v_display_mode w = Active" and "has (l_quiet (tall w)) xy"
  shows "frame_target v = Some (v_alert_detection v) \<and> dn_identity (drawn_of hmac v) = identity hmac (v_alert_detection v) v \<and>
    v_screen (tap hmac xy w) = AlertActions \<and> v_action_detection (tap hmac xy w) = v_alert_detection v"
proof -
  have seen: "\<not> blanked v" "alert_visible v" and acted: "v_action_detection (begin_frame v) = v_alert_detection v"
    using assms(1) by (auto simp: begin_frame_def Let_def blanked_def alert_visible_def split: if_splits)
  have kept: "v_action_detection w = v_alert_detection v" "v_home_alert_shown w"
    using noted_passes [of hmac es "begin_frame v"] assms(1,2) acted by (simp_all add: noted_def)
  have "frame_target v = Some (v_alert_detection v)" using seen by (simp add: frame_target_def)
  then show ?thesis using quiet_tap [OF kept(2) assms(3-5), of hmac] kept(1) by (simp add: drawn_of_def Let_def)
qed

lemma example_seen:
  "v_home_alert_shown (begin_frame example_alert)"
  "v_screen (fold (passes (\<lambda>_ _. None)) [Ticks 1000] (begin_frame example_alert)) = Home"
  "v_display_mode (fold (passes (\<lambda>_ _. None)) [Ticks 1000] (begin_frame example_alert)) = Active"
  "has (l_quiet (tall (fold (passes (\<lambda>_ _. None)) [Ticks 1000] (begin_frame example_alert)))) (400, 200)"
  by code_simp+

lemma alert_seen_is_alert_acted_on_witness:
  "d_category (v_action_detection (tap (\<lambda>_ _. None) (400, 200)
     (fold (passes (\<lambda>_ _. None)) [Ticks 1000] (begin_frame example_alert)))) = RAVEN"
  using alert_seen_is_alert_acted_on [OF example_seen(1) refl example_seen(2-4)] by (simp add: example_alert_def)

end
